(* ===== verification/Prelude.thy ===== *)
theory Prelude
  imports Main "HOL-Library.Word"
begin

text \<open>
  Shared vocabulary of the development: machine integers and byte strings, the result type
  of operations that can run into undefined behaviour, bounds-checked access to byte
  vectors, the little-endian layout of 32-bit fields, and decimal printing.
  The sources are modelled for the Win32 build (\<open>std::min(uint32_t, size_t)\<close> in
  Common/Packet.h only type-checks there), so \<open>size_t\<close> and \<open>SOCKET\<close> are 32 bits wide.
\<close>

unbundle bit_operations_syntax

type_synonym u8 = "8 word"
type_synonym u16 = "16 word"
type_synonym u32 = "32 word"
type_synonym bytes = "8 word list"

named_theorems frame_simps \<open>fields an operation leaves alone\<close>
named_theorems run_simps \<open>evaluation of operations that may be undefined\<close>

section \<open>Results of operations that may be undefined\<close>

text \<open>
  \<open>Done x\<close> is normal completion. \<open>Fault f\<close> is a point where the C++ program has
  undefined behaviour or is terminated; \<open>f\<close> says why. \<open>Out_Of_Fuel\<close> is a loop that was
  not finished within the number of iterations given to the model.
\<close>

datatype fault =
    Out_Of_Bounds        \<comment> \<open>access outside a byte vector\<close>
  | Null_View            \<comment> \<open>\<open>std::string_view\<close> built from a null pointer\<close>
  | Bad_Format           \<comment> \<open>\<open>printf\<close> directive and argument do not match\<close>
  | Terminate            \<comment> \<open>\<open>std::terminate\<close>, e.g. assignment to a joinable thread\<close>
  | Exception string     \<comment> \<open>an exception nobody catches\<close>
  | Relock               \<comment> \<open>\<open>lock()\<close> on a \<open>std::mutex\<close> that is already held\<close>

datatype 'a run = Done 'a | Fault fault | Out_Of_Fuel

fun run_bind :: "'a run \<Rightarrow> ('a \<Rightarrow> 'b run) \<Rightarrow> 'b run" where
  "run_bind (Done x) f = f x"
| "run_bind (Fault e) f = Fault e"
| "run_bind Out_Of_Fuel f = Out_Of_Fuel"

lemma run_bind_assoc: "run_bind (run_bind m f) g = run_bind m (\<lambda>x. run_bind (f x) g)"
  by (cases m) auto

lemma run_bind_Done_iff: "run_bind m f = Done y \<longleftrightarrow> (\<exists>x. m = Done x \<and> f x = Done y)"
  by (cases m) auto

lemma run_bind_Done_right [simp]: "run_bind m Done = m"
  by (cases m) auto

lemma run_bind_cong [fundef_cong]:
  "m = m' \<Longrightarrow> (\<And>x. m' = Done x \<Longrightarrow> f x = f' x) \<Longrightarrow> run_bind m f = run_bind m' f'"
  by (cases m') auto

section \<open>Byte vectors with checked access\<close>

definition read_bytes :: "bytes \<Rightarrow> nat \<Rightarrow> nat \<Rightarrow> bytes run" where
  "read_bytes bs off n =
     (if off + n \<le> length bs then Done (take n (drop off bs)) else Fault Out_Of_Bounds)"

definition write_bytes :: "bytes \<Rightarrow> nat \<Rightarrow> bytes \<Rightarrow> bytes run" where
  "write_bytes bs off xs =
     (if off + length xs \<le> length bs
      then Done (take off bs @ xs @ drop (off + length xs) bs) else Fault Out_Of_Bounds)"

lemma read_bytes_length: "read_bytes bs off n = Done xs \<Longrightarrow> length xs = n"
  by (auto simp: read_bytes_def split: if_splits)

lemma write_bytes_length: "write_bytes bs off xs = Done bs' \<Longrightarrow> length bs' = length bs"
  by (auto simp: write_bytes_def split: if_splits)

lemma read_write_same:
  "write_bytes bs off xs = Done bs' \<Longrightarrow> read_bytes bs' off (length xs) = Done xs"
  by (auto simp: read_bytes_def write_bytes_def split: if_splits)

lemma read_write_other:
  assumes w: "write_bytes bs off xs = Done bs'"
    and apart: "a + n \<le> off \<or> off + length xs \<le> a"
  shows "read_bytes bs' a n = read_bytes bs a n"
proof -
  from w have fits: "off + length xs \<le> length bs"
    and bs': "bs' = take off bs @ xs @ drop (off + length xs) bs"
    by (auto simp: write_bytes_def split: if_splits)
  have len: "length bs' = length bs"
    using w by (rule write_bytes_length)
  have "take n (drop a bs') = take n (drop a bs)" if "a + n \<le> length bs"
  proof (rule nth_equalityI)
    show "length (take n (drop a bs')) = length (take n (drop a bs))"
      by (simp add: len)
  next
    fix i assume "i < length (take n (drop a bs'))"
    then have i: "i < n" "a + i < length bs" using that by (simp_all add: len)
    show "take n (drop a bs') ! i = take n (drop a bs) ! i"
      using apart i fits that by (auto simp: bs' nth_append)
  qed
  then show ?thesis
    by (simp add: read_bytes_def len)
qed

section \<open>Little-endian 32-bit fields\<close>

definition le32 :: "u32 \<Rightarrow> bytes" where
  "le32 w = [ucast w, ucast (drop_bit 8 w), ucast (drop_bit 16 w), ucast (drop_bit 24 w)]"

fun un_le32 :: "bytes \<Rightarrow> u32" where
  "un_le32 [a, b, c, d] =
     ucast a OR push_bit 8 (ucast b) OR push_bit 16 (ucast c) OR push_bit 24 (ucast d)"
| "un_le32 _ = 0"

lemma length_le32 [simp]: "length (le32 w) = 4"
  by (simp add: le32_def)

lemma un_le32_le32 [simp]: "un_le32 (le32 w) = w"
proof (rule bit_word_eqI)
  fix n assume "n < LENGTH(32)"
  then consider "n < 8" | "8 \<le> n" "n < 16" | "16 \<le> n" "n < 24" | "24 \<le> n" "n < 32"
    by fastforce
  then show "bit (un_le32 (le32 w)) n = bit w n"
    by cases (auto simp: le32_def bit_simps dest: bit_imp_le_length)
qed

definition read32 :: "bytes \<Rightarrow> nat \<Rightarrow> u32 run" where
  "read32 bs off = run_bind (read_bytes bs off 4) (\<lambda>xs. Done (un_le32 xs))"

definition write32 :: "bytes \<Rightarrow> nat \<Rightarrow> u32 \<Rightarrow> bytes run" where
  "write32 bs off w = write_bytes bs off (le32 w)"

section \<open>Decimal printing\<close>

fun show_nat :: "nat \<Rightarrow> string" where
  "show_nat n = (if n < 10 then [char_of (48 + n)] else show_nat (n div 10) @ [char_of (48 + n mod 10)])"

declare show_nat.simps [simp del]

definition show_int :: "int \<Rightarrow> string" where
  "show_int i = (if i < 0 then CHR ''-'' # show_nat (nat (- i)) else show_nat (nat i))"

lemma show_nat_nonempty [simp]: "show_nat n \<noteq> []"
  by (subst show_nat.simps) simp

text \<open>Text and bytes: \<open>char\<close> is a byte in the sources.\<close>

definition byte_of_char :: "char \<Rightarrow> u8" where
  "byte_of_char c = of_char c"

definition char_of_byte :: "u8 \<Rightarrow> char" where
  "char_of_byte b = char_of (unat b)"

definition to_bytes :: "string \<Rightarrow> bytes" where
  "to_bytes s = map byte_of_char s"

definition to_text :: "bytes \<Rightarrow> string" where
  "to_text bs = map char_of_byte bs"

lemma length_to_bytes [simp]: "length (to_bytes s) = length s"
  by (simp add: to_bytes_def)

lemma length_to_text [simp]: "length (to_text bs) = length bs"
  by (simp add: to_text_def)

end
