(* ===== verification/ErrorCodes.thy ===== *)
theory ErrorCodes
  imports Prelude
begin

text \<open>
  Common/Error.h and Common/Constraints.h: the error enumerations with their numeric
  codes, the three tests on a code (\<open>SUCCESS\<close>, \<open>WARNING\<close>, \<open>_ERROR\<close>) and the
  size constants. \<open>ce_code\<close> and \<open>se_code\<close> give the integer a C++ enumerator has;
  the tests are applied to those integers, as the macros are.
\<close>

datatype ERROR_TYPE = OK | WARNING | SOFT_ERROR | CRITICAL_ERROR

datatype ClientError =
    CW_HANDLE_IN_PACKET_EMPTY
  | CW_NEED_ACK
  | CW_TIMEOUT | CW_SET_TIMEOUT | CW_SHUTDOWN | CW_CLOSE_SOCKET
  | CW_MSG_SIZE
  | CE_OK
  | CE_INIT_WINSOCK
  | CE_CREATE_SOCKET | CE_CONNECT
  | CE_AUTH_SEND
  | CE_AUTH_RECV | CE_AUTH_RECV_EMPTY | CE_AUTH_RECV_SIZE | CE_AUTH_RECV_GOTERR
  | CE_SERVER_ACK_SIZE
  | CE_ACKING_PACKET_NOT_FOUND
  | CE_HANDLE_OUT_SEND
  | CE_SEND
  | CE_RECV | CE_RECV_SIZE
  | CE_CONN_CLOSED
  | CE_UNKNOWN_PROTOCOL | CE_UNKNOWN_DATATYPE
  | CE_UNKNOWN

fun ce_code :: "ClientError \<Rightarrow> int" where
  "ce_code CW_HANDLE_IN_PACKET_EMPTY = -7"
| "ce_code CW_NEED_ACK = -6"
| "ce_code CW_TIMEOUT = -5"
| "ce_code CW_SET_TIMEOUT = -4"
| "ce_code CW_SHUTDOWN = -3"
| "ce_code CW_CLOSE_SOCKET = -2"
| "ce_code CW_MSG_SIZE = -1"
| "ce_code CE_OK = 0"
| "ce_code CE_INIT_WINSOCK = 1"
| "ce_code CE_CREATE_SOCKET = 2"
| "ce_code CE_CONNECT = 3"
| "ce_code CE_AUTH_SEND = 4"
| "ce_code CE_AUTH_RECV = 5"
| "ce_code CE_AUTH_RECV_EMPTY = 6"
| "ce_code CE_AUTH_RECV_SIZE = 7"
| "ce_code CE_AUTH_RECV_GOTERR = 8"
| "ce_code CE_SERVER_ACK_SIZE = 9"
| "ce_code CE_ACKING_PACKET_NOT_FOUND = 10"
| "ce_code CE_HANDLE_OUT_SEND = 11"
| "ce_code CE_SEND = 12"
| "ce_code CE_RECV = 13"
| "ce_code CE_RECV_SIZE = 14"
| "ce_code CE_CONN_CLOSED = 15"
| "ce_code CE_UNKNOWN_PROTOCOL = 16"
| "ce_code CE_UNKNOWN_DATATYPE = 17"
| "ce_code CE_UNKNOWN = 18"

datatype ServerError =
    SW_ALREADY_STARTED
  | SE_OK
  | SE_START_SERVER
  | SE_INIT_WINSOCK
  | SE_CREATE_SOCKET
  | SE_UNKNOWN

fun se_code :: "ServerError \<Rightarrow> int" where
  "se_code SW_ALREADY_STARTED = -1"
| "se_code SE_OK = 0"
| "se_code SE_START_SERVER = 1"
| "se_code SE_INIT_WINSOCK = 2"
| "se_code SE_CREATE_SOCKET = 3"
| "se_code SE_UNKNOWN = 4"

text \<open>The macros of Error.h, on the integer value.\<close>

definition is_success :: "int \<Rightarrow> bool" where "is_success err \<longleftrightarrow> err = 0"
definition is_warning :: "int \<Rightarrow> bool" where "is_warning err \<longleftrightarrow> err < 0"
definition is_error :: "int \<Rightarrow> bool" where "is_error err \<longleftrightarrow> 0 < err"

abbreviation ce_success :: "ClientError \<Rightarrow> bool" where "ce_success e \<equiv> is_success (ce_code e)"
abbreviation ce_warning :: "ClientError \<Rightarrow> bool" where "ce_warning e \<equiv> is_warning (ce_code e)"
abbreviation ce_error :: "ClientError \<Rightarrow> bool" where "ce_error e \<equiv> is_error (ce_code e)"

lemmas code_tests = is_success_def is_warning_def is_error_def

lemma ce_code_inj: "ce_code a = ce_code b \<Longrightarrow> a = b"
  by (cases a; cases b) simp_all

lemma se_code_inj: "se_code a = se_code b \<Longrightarrow> a = b"
  by (cases a; cases b) simp_all

lemma ce_success_iff [simp]: "ce_success e \<longleftrightarrow> e = CE_OK"
  by (cases e) (simp_all add: code_tests)

lemma ce_code_bounds: "-7 \<le> ce_code e \<and> ce_code e \<le> 18"
  by (cases e) simp_all

section \<open>Constraints.h\<close>

definition CLIENT_VER :: u32 where "CLIENT_VER = 1"
definition LOGIN_BITCNT :: u8 where "LOGIN_BITCNT = 5"
definition PWD_BITCNT :: u8 where "PWD_BITCNT = 5"
definition TOKEN_BITCNT :: u8 where "TOKEN_BITCNT = 5"
definition LOGIN_MAX_SIZE :: u8 where "LOGIN_MAX_SIZE = push_bit (unat LOGIN_BITCNT) 1"
definition PWD_MAX_SIZE :: u8 where "PWD_MAX_SIZE = push_bit (unat PWD_BITCNT) 1"
definition TOKEN_MAX_SIZE :: u8 where "TOKEN_MAX_SIZE = push_bit (unat TOKEN_BITCNT) 1"
definition NET_BUFFER_SIZE :: nat where "NET_BUFFER_SIZE = 8192"
definition TIMEOUT :: u32 where "TIMEOUT = 3"

end
