(* ===== verification/Console.thy ===== *)
theory Console
  imports ErrorCodes
begin

text \<open>
  Common/Log.h and Common/Log.cpp. The console is the sequence of things written to it:
  thread descriptions, colour changes, text and line ends. Each logger function holds
  \<open>msg_mutex\<close> for its whole body, so the events of one call are contiguous and a call is
  one update of the state. \<open>vprintf_s\<close> is modelled for the directives the sources use.

  The record \<open>host\<close> holds what the whole process shares: the operating system's state
  \<open>os_world\<close> (any type), the console, the thread descriptions, the counter of
  \<open>PacketFactory\<close>, standard input, and whether the build defines \<open>_DEBUG\<close>.
\<close>

datatype ConsoleColor =
    CC_Success | CC_Info | CC_Danger | CC_Warning | CC_Default
  | CC_SuccessHL | CC_InfoHL | CC_DangerHL | CC_WarningHL | CC_DefaultHL

definition FOREGROUND_BLUE :: u16 where "FOREGROUND_BLUE = 1"
definition FOREGROUND_GREEN :: u16 where "FOREGROUND_GREEN = 2"
definition FOREGROUND_RED :: u16 where "FOREGROUND_RED = 4"
definition FOREGROUND_INTENSITY :: u16 where "FOREGROUND_INTENSITY = 8"

lemmas foreground_defs = FOREGROUND_BLUE_def FOREGROUND_GREEN_def FOREGROUND_RED_def
  FOREGROUND_INTENSITY_def

fun color_code :: "ConsoleColor \<Rightarrow> u16" where
  "color_code CC_Success = FOREGROUND_GREEN"
| "color_code CC_Info = FOREGROUND_GREEN OR FOREGROUND_BLUE"
| "color_code CC_Danger = FOREGROUND_RED"
| "color_code CC_Warning = FOREGROUND_RED OR FOREGROUND_GREEN"
| "color_code CC_Default = FOREGROUND_RED OR FOREGROUND_GREEN OR FOREGROUND_BLUE"
| "color_code CC_SuccessHL = FOREGROUND_INTENSITY OR (FOREGROUND_GREEN)"
| "color_code CC_InfoHL = FOREGROUND_INTENSITY OR (FOREGROUND_GREEN OR FOREGROUND_BLUE)"
| "color_code CC_DangerHL = FOREGROUND_INTENSITY OR (FOREGROUND_RED)"
| "color_code CC_WarningHL = FOREGROUND_INTENSITY OR (FOREGROUND_RED OR FOREGROUND_GREEN)"
| "color_code CC_DefaultHL = FOREGROUND_INTENSITY OR (FOREGROUND_RED OR FOREGROUND_GREEN OR FOREGROUND_BLUE)"

datatype con_event = Con_Desc string | Con_Color u16 | Con_Text string | Con_Endl

record 'w host =
  os_world :: 'w
  con_out :: "con_event list"
  con_desc :: "nat \<Rightarrow> string"      \<comment> \<open>description of each thread\<close>
  cur_thread :: nat                \<comment> \<open>the thread that executes\<close>
  bad_format :: bool               \<comment> \<open>some \<open>printf\<close> call was undefined\<close>
  next_packet_id :: u32            \<comment> \<open>static counter in \<open>PacketFactory::getID\<close>\<close>
  std_in :: string                 \<comment> \<open>what is left of \<open>std::cin\<close>\<close>
  debug_build :: bool              \<comment> \<open>\<open>_DEBUG\<close>\<close>

section \<open>Formatted output\<close>

datatype farg = FInt int | FStr string

fun vprintf :: "string \<Rightarrow> farg list \<Rightarrow> string option" where
  "vprintf [] args = Some []"
| "vprintf (c # cs) args =
     (if c \<noteq> CHR ''%'' then map_option ((#) c) (vprintf cs args)
      else (case cs of
        [] \<Rightarrow> None
      | d # ds \<Rightarrow>
          if d = CHR ''d'' \<or> d = CHR ''u'' then
            (case args of FInt i # as \<Rightarrow> map_option ((@) (show_int i)) (vprintf ds as) | _ \<Rightarrow> None)
          else if d = CHR ''s'' then
            (case args of FStr t # as \<Rightarrow> map_option ((@) t) (vprintf ds as) | _ \<Rightarrow> None)
          else if d = CHR ''.'' then
            (case ds of
              e # f # es \<Rightarrow>
                if e = CHR ''*'' \<and> f = CHR ''s'' then
                  (case args of FInt n # FStr t # as \<Rightarrow>
                     map_option ((@) (take (nat n) t)) (vprintf es as) | _ \<Rightarrow> None)
                else None
            | _ \<Rightarrow> None)
          else None))"

section \<open>The logger\<close>

definition emit :: "con_event list \<Rightarrow> ('w, 'z) host_scheme \<Rightarrow> ('w, 'z) host_scheme" where
  "emit es s = s\<lparr>con_out := con_out s @ es\<rparr>"

definition flag_format :: "('w, 'z) host_scheme \<Rightarrow> ('w, 'z) host_scheme" where
  "flag_format s = s\<lparr>bad_format := True\<rparr>"

text \<open>\<open>wprintf(L"%-22s", desc)\<close>: left-justified in 22 columns.\<close>

definition pad22 :: "string \<Rightarrow> string" where
  "pad22 d = d @ replicate (22 - length d) (CHR '' '')"

definition getThreadDesc :: "('w, 'z) host_scheme \<Rightarrow> string" where
  "getThreadDesc s = con_desc s (cur_thread s)"

definition printThreadDesc :: "('w, 'z) host_scheme \<Rightarrow> con_event list" where
  "printThreadDesc s = [Con_Desc (pad22 (getThreadDesc s))]"

definition setConsoleColor :: "ConsoleColor \<Rightarrow> con_event list" where
  "setConsoleColor c = [Con_Color (color_code c)]"

definition raw_nonl :: "string \<Rightarrow> ('w, 'z) host_scheme \<Rightarrow> ('w, 'z) host_scheme" where
  "raw_nonl str s = emit (printThreadDesc s @ [Con_Text str]) s"

definition raw_colored ::
  "ConsoleColor \<Rightarrow> string \<Rightarrow> ('w, 'z) host_scheme \<Rightarrow> ('w, 'z) host_scheme" where
  "raw_colored color str s =
     emit (printThreadDesc s @ setConsoleColor color @ [Con_Text str, Con_Endl]
           @ setConsoleColor CC_Default) s"

definition raw :: "string \<Rightarrow> ('w, 'z) host_scheme \<Rightarrow> ('w, 'z) host_scheme" where
  "raw str s = emit (printThreadDesc s @ [Con_Text str, Con_Endl]) s"

definition nonl :: "string \<Rightarrow> farg list \<Rightarrow> ('w, 'z) host_scheme \<Rightarrow> ('w, 'z) host_scheme" where
  "nonl fmt args s =
     (case vprintf fmt args of
        None \<Rightarrow> flag_format (emit (printThreadDesc s) s)
      | Some t \<Rightarrow> emit (printThreadDesc s @ [Con_Text t]) s)"

definition colored ::
  "ConsoleColor \<Rightarrow> string \<Rightarrow> farg list \<Rightarrow> ('w, 'z) host_scheme \<Rightarrow> ('w, 'z) host_scheme" where
  "colored color fmt args s =
     (case vprintf fmt args of
        None \<Rightarrow> flag_format (emit (printThreadDesc s @ setConsoleColor color) s)
      | Some t \<Rightarrow> emit (printThreadDesc s @ setConsoleColor color @ [Con_Text t]
                       @ setConsoleColor CC_Default @ [Con_Endl]) s)"

definition log_line :: "string \<Rightarrow> farg list \<Rightarrow> ('w, 'z) host_scheme \<Rightarrow> ('w, 'z) host_scheme" where
  "log_line fmt args s =
     (case vprintf fmt args of
        None \<Rightarrow> flag_format (emit (printThreadDesc s) s)
      | Some t \<Rightarrow> emit (printThreadDesc s @ [Con_Text t, Con_Endl]) s)"

text \<open>\<open>__get_filename\<close>: what follows the last backslash, or the whole path.\<close>

definition get_filename :: "string \<Rightarrow> string" where
  "get_filename path = rev (takeWhile (\<lambda>c. c \<noteq> CHR 0x5C) (rev path))"

text \<open>
  Thread descriptions. \<open>setThreadDescID\<close> is the overload with a format: \<open>wsprintfW\<close>
  into the reserved buffer of 32 wide characters of a string of size 0.
\<close>

definition setThreadDesc :: "string \<Rightarrow> ('w, 'z) host_scheme \<Rightarrow> ('w, 'z) host_scheme" where
  "setThreadDesc d s = s\<lparr>con_desc := (con_desc s)(cur_thread s := d)\<rparr>"

definition setThreadDescID :: "string \<Rightarrow> u16 \<Rightarrow> ('w, 'z) host_scheme \<Rightarrow> ('w, 'z) host_scheme" where
  "setThreadDescID fmt ID s =
     (case vprintf fmt [FInt (uint ID)] of
        None \<Rightarrow> flag_format s
      | Some t \<Rightarrow> s\<lparr>con_desc := (con_desc s)(cur_thread s := t)\<rparr>)"

section \<open>What the logger guarantees\<close>

lemma get_filename_no_backslash: "CHR 0x5C \<notin> set (get_filename path)"
  by (auto simp: get_filename_def dest: set_takeWhileD)

lemma get_filename_suffix:
  "\<exists>dir. path = dir @ get_filename path \<and> (dir = [] \<or> last dir = CHR 0x5C)"
proof -
  let ?P = "\<lambda>c. c \<noteq> CHR 0x5C"
  let ?dir = "rev (dropWhile ?P (rev path))"
  have "path = ?dir @ get_filename path"
    unfolding get_filename_def by (metis rev_append rev_rev_ident takeWhile_dropWhile_id)
  moreover have "last ?dir = CHR 0x5C" if "?dir \<noteq> []"
    using that hd_dropWhile [of ?P "rev path"] by (simp add: last_rev)
  ultimately show ?thesis by blast
qed

text \<open>The colour the console is left in: that of the last colour change, if any.\<close>

fun console_color :: "u16 \<Rightarrow> con_event list \<Rightarrow> u16" where
  "console_color c [] = c"
| "console_color c (Con_Color d # es) = console_color d es"
| "console_color c (Con_Desc _ # es) = console_color c es"
| "console_color c (Con_Text _ # es) = console_color c es"
| "console_color c (Con_Endl # es) = console_color c es"

lemma console_color_append [simp]:
  "console_color c (es @ fs) = console_color (console_color c es) fs"
  by (induction c es rule: console_color.induct) simp_all

text \<open>Every logger call, spelled out as an update of the two console fields.\<close>

lemma raw_nonl_upd: "raw_nonl str s = s\<lparr>con_out := con_out s @ printThreadDesc s @ [Con_Text str]\<rparr>"
  by (simp add: raw_nonl_def emit_def)

lemma raw_upd: "raw str s = s\<lparr>con_out := con_out s @ printThreadDesc s @ [Con_Text str, Con_Endl]\<rparr>"
  by (simp add: raw_def emit_def)

lemma raw_colored_upd:
  "raw_colored c str s = s\<lparr>con_out := con_out s @ printThreadDesc s @ setConsoleColor c
     @ [Con_Text str, Con_Endl] @ setConsoleColor CC_Default\<rparr>"
  by (simp add: raw_colored_def emit_def)

lemma colored_upd:
  "colored c fmt args s = s\<lparr>con_out := con_out s @ printThreadDesc s @ setConsoleColor c @
     (case vprintf fmt args of None \<Rightarrow> [] | Some t \<Rightarrow>
        [Con_Text t] @ setConsoleColor CC_Default @ [Con_Endl]),
     bad_format := bad_format s \<or> vprintf fmt args = None\<rparr>"
  by (simp add: colored_def emit_def flag_format_def split: option.split)

lemmas log_upds = raw_nonl_upd raw_upd raw_colored_upd colored_upd

lemma host_log_frame [frame_simps]:
  "os_world (raw str s) = os_world s"
  "os_world (raw_colored c str s) = os_world s"
  "os_world (colored c fmt args s) = os_world s"
  "next_packet_id (raw str s) = next_packet_id s"
  "next_packet_id (raw_colored c str s) = next_packet_id s"
  "next_packet_id (colored c fmt args s) = next_packet_id s"
  "std_in (raw str s) = std_in s"
  "std_in (raw_colored c str s) = std_in s"
  "std_in (colored c fmt args s) = std_in s"
  "debug_build (raw str s) = debug_build s"
  "debug_build (raw_colored c str s) = debug_build s"
  "debug_build (colored c fmt args s) = debug_build s"
  by (simp_all add: log_upds)

end
