(* ===== verification/Winsock.thy ===== *)
theory Winsock
  imports Console
begin

text \<open>
  The boundary to the operating system. WinSock is not part of the repository, so its
  functions are the fields of a record \<open>'w winsock\<close> that the model's definitions take as an
  argument: each maps the system's state \<open>'w\<close> to its result and the next state. Nothing is
  assumed of them; a theorem that needs documented behaviour of WinSock states it as a
  hypothesis. The constants are those of the Windows headers.
  The theory also has \<open>__wsa_print_err\<close> of Common/Log.cpp and the use of \<open>std::cin\<close>.
\<close>

type_synonym SOCKET = u32
type_synonym port = u16

definition INVALID_SOCKET :: SOCKET where "INVALID_SOCKET = -1"
definition SOCKET_ERROR :: int where "SOCKET_ERROR = -1"
definition NO_ERROR :: int where "NO_ERROR = 0"

definition IPPROTO_TCP :: int where "IPPROTO_TCP = 6"
definition IPPROTO_UDP :: int where "IPPROTO_UDP = 17"
definition SOCK_STREAM :: int where "SOCK_STREAM = 1"
definition SOCK_DGRAM :: int where "SOCK_DGRAM = 2"
definition AF_INET :: int where "AF_INET = 2"
definition SO_SNDTIMEO :: int where "SO_SNDTIMEO = 4101"
definition SO_RCVTIMEO :: int where "SO_RCVTIMEO = 4102"
definition SD_RECEIVE :: int where "SD_RECEIVE = 0"
definition SD_SEND :: int where "SD_SEND = 1"
definition SD_BOTH :: int where "SD_BOTH = 2"
definition SOMAXCONN :: int where "SOMAXCONN = 2147483647"

definition WSAEMSGSIZE :: int where "WSAEMSGSIZE = 10040"
definition WSAECONNABORTED :: int where "WSAECONNABORTED = 10053"
definition WSAECONNRESET :: int where "WSAECONNRESET = 10054"
definition WSAETIMEDOUT :: int where "WSAETIMEDOUT = 10060"

lemmas wsa_codes = WSAEMSGSIZE_def WSAECONNABORTED_def WSAECONNRESET_def WSAETIMEDOUT_def
lemmas proto_codes = IPPROTO_TCP_def IPPROTO_UDP_def

text \<open>
  \<open>ws_recv s len\<close> gives the return value and the bytes stored at the start of the buffer;
  \<open>ws_inet_pton\<close> gives the address it stores, \<open>None\<close> when it stores nothing;
  \<open>ws_accept\<close> gives the socket, the peer's address and its port in host order.
\<close>

record 'w winsock =
  ws_startup :: "'w \<Rightarrow> int \<times> 'w"
  ws_cleanup :: "'w \<Rightarrow> 'w"
  ws_last_error :: "'w \<Rightarrow> int"
  ws_message :: "int \<Rightarrow> string"
  ws_socket :: "int \<Rightarrow> int \<Rightarrow> int \<Rightarrow> 'w \<Rightarrow> SOCKET \<times> 'w"
  ws_setsockopt :: "SOCKET \<Rightarrow> int \<Rightarrow> u32 \<Rightarrow> 'w \<Rightarrow> int \<times> 'w"
  ws_connect :: "SOCKET \<Rightarrow> u32 \<Rightarrow> port \<Rightarrow> 'w \<Rightarrow> int \<times> 'w"
  ws_shutdown :: "SOCKET \<Rightarrow> int \<Rightarrow> 'w \<Rightarrow> int \<times> 'w"
  ws_closesocket :: "SOCKET \<Rightarrow> 'w \<Rightarrow> int \<times> 'w"
  ws_send :: "SOCKET \<Rightarrow> bytes \<Rightarrow> 'w \<Rightarrow> int \<times> 'w"
  ws_recv :: "SOCKET \<Rightarrow> nat \<Rightarrow> 'w \<Rightarrow> int \<times> bytes \<times> 'w"
  ws_bind :: "SOCKET \<Rightarrow> u32 \<Rightarrow> port \<Rightarrow> 'w \<Rightarrow> int \<times> 'w"
  ws_listen :: "SOCKET \<Rightarrow> int \<Rightarrow> 'w \<Rightarrow> int \<times> 'w"
  ws_select :: "int \<Rightarrow> SOCKET \<Rightarrow> u32 \<Rightarrow> 'w \<Rightarrow> int \<times> 'w"
  ws_accept :: "SOCKET \<Rightarrow> 'w \<Rightarrow> SOCKET \<times> u32 \<times> port \<times> 'w"
  ws_sleep :: "nat \<Rightarrow> 'w \<Rightarrow> 'w"
  ws_inet_pton :: "string \<Rightarrow> u32 option"
  ws_inet_ntop :: "u32 \<Rightarrow> string"
  ws_hostname :: "u32 \<Rightarrow> 'w \<Rightarrow> string"

text \<open>
  \<open>recv\<close> as documented: what it reports as received has been stored and fits the buffer.
\<close>

definition recv_fills :: "'w winsock \<Rightarrow> bool" where
  "recv_fills os \<longleftrightarrow> (\<forall>s n w r bs w'. ws_recv os s n w = (r, bs, w') \<and> 0 < r \<longrightarrow>
     int (length bs) = r \<and> length bs \<le> n)"

text \<open>\<open>send\<close> and \<open>recv\<close> as documented: a call on an invalid handle fails.\<close>

definition send_needs_socket :: "'w winsock \<Rightarrow> bool" where
  "send_needs_socket os \<longleftrightarrow> (\<forall>bs w. fst (ws_send os INVALID_SOCKET bs w) = SOCKET_ERROR)"

text \<open>
  \<open>wsa_print_err()\<close>: the message of the last error on stderr's console, in the colour
  for danger, without the thread description of the other loggers.
\<close>

definition wsa_print_err ::
  "'w winsock \<Rightarrow> string \<Rightarrow> nat \<Rightarrow> ('w, 'z) host_scheme \<Rightarrow> ('w, 'z) host_scheme" where
  "wsa_print_err os fname lno s =
     (let err = ws_last_error os (os_world s) in
      case vprintf (''%s:%d - WSA Error %d:'' @ [CHR 0x0A] @ ''%s'')
             [FStr (get_filename fname), FInt (int lno), FInt err, FStr (ws_message os err)] of
        None \<Rightarrow> flag_format (emit (setConsoleColor CC_DangerHL) s)
      | Some t \<Rightarrow> emit (setConsoleColor CC_DangerHL @ [Con_Text t]
                       @ setConsoleColor CC_Default) s)"

lemma wsa_print_err_form:
  "\<exists>es. wsa_print_err os fname lno s = s\<lparr>con_out := es\<rparr>"
  by (simp add: wsa_print_err_def emit_def Let_def) blast

lemma wsa_print_err_upd:
  "wsa_print_err os fname lno s = s\<lparr>con_out := con_out (wsa_print_err os fname lno s)\<rparr>"
  using wsa_print_err_form [of os fname lno s] by auto

lemma host_wsa_frame [frame_simps]:
  "os_world (wsa_print_err os fname lno s) = os_world s"
  "next_packet_id (wsa_print_err os fname lno s) = next_packet_id s"
  "std_in (wsa_print_err os fname lno s) = std_in s"
  "debug_build (wsa_print_err os fname lno s) = debug_build s"
  "bad_format (wsa_print_err os fname lno s) = bad_format s"
  by (subst wsa_print_err_upd, simp)+

section \<open>Standard input\<close>

text \<open>
  \<open>std::cin >> std::string\<close> skips white space and reads up to the next white space;
  \<open>ignore()\<close> drops one character; \<open>getline\<close> reads up to a line end, which it drops.
  At the end of the input each leaves the input as it is and reads nothing.
\<close>

definition is_space :: "char \<Rightarrow> bool" where
  "is_space c \<longleftrightarrow> c \<in> {CHR '' '', CHR 0x09, CHR 0x0A, CHR 0x0B, CHR 0x0C, CHR 0x0D}"

definition cin_word :: "('w, 'z) host_scheme \<Rightarrow> string \<times> ('w, 'z) host_scheme" where
  "cin_word s = (let i = dropWhile is_space (std_in s) in
     (takeWhile (\<lambda>c. \<not> is_space c) i, s\<lparr>std_in := dropWhile (\<lambda>c. \<not> is_space c) i\<rparr>))"

definition cin_ignore :: "('w, 'z) host_scheme \<Rightarrow> ('w, 'z) host_scheme" where
  "cin_ignore s = s\<lparr>std_in := drop 1 (std_in s)\<rparr>"

definition cin_getline :: "('w, 'z) host_scheme \<Rightarrow> string \<times> ('w, 'z) host_scheme" where
  "cin_getline s = (let i = std_in s in
     (takeWhile (\<lambda>c. c \<noteq> CHR 0x0A) i,
      s\<lparr>std_in := drop 1 (dropWhile (\<lambda>c. c \<noteq> CHR 0x0A) i)\<rparr>))"

text \<open>\<open>std::cin >> uint8_t\<close> reads one character that is not white space.\<close>

definition cin_char :: "('w, 'z) host_scheme \<Rightarrow> char option \<times> ('w, 'z) host_scheme" where
  "cin_char s = (case dropWhile is_space (std_in s) of
       [] \<Rightarrow> (None, s\<lparr>std_in := []\<rparr>)
     | c # cs \<Rightarrow> (Some c, s\<lparr>std_in := cs\<rparr>))"

text \<open>
  One system call: apply a function of the record to \<open>os_world\<close> and keep the new state.
\<close>

definition syscall :: "('w \<Rightarrow> 'r \<times> 'w) \<Rightarrow> ('w, 'z) host_scheme \<Rightarrow> 'r \<times> ('w, 'z) host_scheme" where
  "syscall f s = (case f (os_world s) of (r, w) \<Rightarrow> (r, s\<lparr>os_world := w\<rparr>))"

lemma syscall_fst: "fst (syscall f s) = fst (f (os_world s))"
  and syscall_snd: "snd (syscall f s) = s\<lparr>os_world := snd (f (os_world s))\<rparr>"
  by (simp_all add: syscall_def split: prod.split)

lemmas syscall_simps [simp] = syscall_fst syscall_snd

section \<open>A small concrete system\<close>

text \<open>
  One instance of the record, for evaluating the model on concrete inputs: every call succeeds
  on a valid handle, sent data is collected, and \<open>recv\<close> plays a script (a result, the bytes it
  stores and the error code left behind); an exhausted script means the peer closed.
\<close>

record sample_world =
  sw_script :: "(int \<times> bytes \<times> int) list"
  sw_sent :: "bytes list"
  sw_error :: int

definition sample_os :: "sample_world winsock" where
  "sample_os = \<lparr>ws_startup = (\<lambda>w. (0, w)), ws_cleanup = (\<lambda>w. w), ws_last_error = sw_error,
     ws_message = (\<lambda>_. ''error''), ws_socket = (\<lambda>_ _ _ w. (5, w)),
     ws_setsockopt = (\<lambda>_ _ _ w. (0, w)), ws_connect = (\<lambda>_ _ _ w. (0, w)),
     ws_shutdown = (\<lambda>_ _ w. (0, w)), ws_closesocket = (\<lambda>_ w. (0, w)),
     ws_send = (\<lambda>h bs w. if h = INVALID_SOCKET then (SOCKET_ERROR, w)
                        else (int (length bs), w\<lparr>sw_sent := sw_sent w @ [bs]\<rparr>)),
     ws_recv = (\<lambda>h n w. case sw_script w of [] \<Rightarrow> (0, [], w)
                      | (r, bs, e) # rest \<Rightarrow>
                          (r, bs, w\<lparr>sw_script := rest, sw_error := e\<rparr>)),
     ws_bind = (\<lambda>_ _ _ w. (0, w)), ws_listen = (\<lambda>_ _ w. (0, w)),
     ws_select = (\<lambda>_ _ _ w. (1, w)), ws_accept = (\<lambda>_ w. (6, 0, 0, w)),
     ws_sleep = (\<lambda>_ w. w), ws_inet_pton = (\<lambda>_. None), ws_inet_ntop = (\<lambda>_. ''127.0.0.1''),
     ws_hostname = (\<lambda>_ _. ''localhost'')\<rparr>"

lemma sample_os_simps [simp]:
  "ws_startup sample_os w = (0, w)"
  "ws_last_error sample_os = sw_error"
  "ws_message sample_os ec = ''error''"
  "ws_socket sample_os a b c w = (5, w)"
  "ws_setsockopt sample_os h opt v w = (0, w)"
  "ws_connect sample_os h ad p w = (0, w)"
  "ws_shutdown sample_os h hw w = (0, w)"
  "ws_closesocket sample_os h w = (0, w)"
  "ws_send sample_os h bs w = (if h = INVALID_SOCKET then (SOCKET_ERROR, w)
     else (int (length bs), w\<lparr>sw_sent := sw_sent w @ [bs]\<rparr>))"
  "ws_recv sample_os h n w = (case sw_script w of [] \<Rightarrow> (0, [], w)
     | (r, bs, e) # rest \<Rightarrow> (r, bs, w\<lparr>sw_script := rest, sw_error := e\<rparr>))"
  "ws_bind sample_os h ad p w = (0, w)"
  "ws_listen sample_os h bl w = (0, w)"
  "ws_select sample_os nf h t w = (1, w)"
  "ws_accept sample_os h w = (6, 0, 0, w)"
  "ws_sleep sample_os ms w = w"
  "ws_inet_pton sample_os s = None"
  by (simp_all add: sample_os_def)

definition sample_world :: "(int \<times> bytes \<times> int) list \<Rightarrow> sample_world" where
  "sample_world script = \<lparr>sw_script = script, sw_sent = [], sw_error = 0\<rparr>"

definition sample_host :: "sample_world host" where
  "sample_host = \<lparr>os_world = sample_world [], con_out = [], con_desc = (\<lambda>_. []), cur_thread = 0,
     bad_format = False, next_packet_id = 0, std_in = [], debug_build = False\<rparr>"

end
