(* ===== verification/Packets.thy ===== *)
theory Packets
  imports Winsock
begin

text \<open>
  Common/Packet.h and Common/Packet.cpp. A packet is a byte vector that starts with the two
  packed headers, \<open>PacketHeader\<close> (fullsize at 0, ID at 4, needACK at 8) and \<open>DataHeader\<close>
  (type at 9, data size at 13), followed by the data at 17. The pointers \<open>header\<close> and
  \<open>data_header\<close> point into the vector, so the accessors read it at these offsets, and a
  vector that is too short makes them undefined. \<open>data_offset\<close> is the cursor that
  \<open>readData\<close> and \<open>writeData\<close> advance.
\<close>

datatype DataType = DT_EMPTY | DT_ACK | DT_AUTH_CLIENT | DT_AUTH_SERVER | DT_MSG | DT_UNKNOWN

fun dt_code :: "DataType \<Rightarrow> u32" where
  "dt_code DT_EMPTY = 0"
| "dt_code DT_ACK = 1"
| "dt_code DT_AUTH_CLIENT = 2"
| "dt_code DT_AUTH_SERVER = 3"
| "dt_code DT_MSG = 4"
| "dt_code DT_UNKNOWN = 5"

lemma dt_code_inj: "dt_code a = dt_code b \<Longrightarrow> a = b"
  by (cases a; cases b) simp_all

definition sizeof_PacketHeader :: nat where "sizeof_PacketHeader = 9"
definition sizeof_DataHeader :: nat where "sizeof_DataHeader = 8"

abbreviation data_start :: nat where
  "data_start \<equiv> sizeof_PacketHeader + sizeof_DataHeader"

lemmas header_sizes [simp] = sizeof_PacketHeader_def sizeof_DataHeader_def

record packet =
  pk_data :: bytes
  data_offset :: u32

section \<open>Accessors\<close>

definition getID :: "packet \<Rightarrow> u32 run" where
  "getID p = read32 (pk_data p) 4"

definition isNeedACK :: "packet \<Rightarrow> bool run" where
  "isNeedACK p = run_bind (read_bytes (pk_data p) 8 1) (\<lambda>b. Done (b \<noteq> [0]))"

definition getDataType :: "packet \<Rightarrow> u32 run" where
  "getDataType p = read32 (pk_data p) sizeof_PacketHeader"

definition getDataSize :: "packet \<Rightarrow> u32 run" where
  "getDataSize p = read32 (pk_data p) (sizeof_PacketHeader + 4)"

text \<open>\<open>n\<close> bytes at \<open>getData()\<close>, as the users of that pointer read them.\<close>

definition getData :: "packet \<Rightarrow> nat \<Rightarrow> bytes run" where
  "getData p n = read_bytes (pk_data p) data_start n"

definition availableSize :: "packet \<Rightarrow> u32 \<Rightarrow> u32 run" where
  "availableSize p sz = run_bind (getDataSize p) (\<lambda>ds.
     if data_offset p \<ge> ds then Done 0
     else let available = min (ds - data_offset p) sz in Done sz)"

definition readData :: "packet \<Rightarrow> u32 \<Rightarrow> (bytes \<times> packet) run" where
  "readData p sz = run_bind (availableSize p sz) (\<lambda>sz.
     if sz = 0 then Fault Null_View
     else run_bind (read_bytes (pk_data p) (data_start + unat (data_offset p)) (unat sz)) (\<lambda>data.
       Done (data, p\<lparr>data_offset := data_offset p + sz\<rparr>)))"

definition writeData :: "packet \<Rightarrow> bytes \<Rightarrow> packet run" where
  "writeData p data = run_bind (availableSize p (of_nat (length data))) (\<lambda>sz.
     if sz = 0 then Done p
     else run_bind (write_bytes (pk_data p) (data_start + unat (data_offset p))
                      (take (unat sz) data)) (\<lambda>bs.
       Done (p\<lparr>pk_data := bs, data_offset := data_offset p + sz\<rparr>)))"

definition send_packet :: "'w winsock \<Rightarrow> SOCKET \<Rightarrow> packet \<Rightarrow> 'w \<Rightarrow> int \<times> 'w" where
  "send_packet os sock p w = ws_send os sock (pk_data p) w"

section \<open>Constructors\<close>

definition newPacket :: "u32 \<Rightarrow> DataType \<Rightarrow> bool \<Rightarrow> u32 \<Rightarrow> bytes option \<Rightarrow> packet run" where
  "newPacket ID type needACK data_size data =
     (let fullsize = of_nat sizeof_PacketHeader + of_nat sizeof_DataHeader + data_size;
          v = replicate (unat fullsize) 0
      in run_bind (write32 v 0 fullsize) (\<lambda>v.
         run_bind (write32 v 4 ID) (\<lambda>v.
         run_bind (write_bytes v 8 [if needACK then 1 else 0]) (\<lambda>v.
         run_bind (write32 v (sizeof_PacketHeader + 4) data_size) (\<lambda>v.
         run_bind (write32 v sizeof_PacketHeader (dt_code type)) (\<lambda>v.
           let p = \<lparr>pk_data = v, data_offset = 0\<rparr> in
           case data of None \<Rightarrow> Done p
           | Some d \<Rightarrow> run_bind (read_bytes d 0 (unat data_size)) (writeData p)))))))"

definition parsePacket :: "bytes \<Rightarrow> packet" where
  "parsePacket data = \<lparr>pk_data = data, data_offset = 0\<rparr>"

section \<open>The factory\<close>

definition factory_getID :: "('w, 'z) host_scheme \<Rightarrow> u32 \<times> ('w, 'z) host_scheme" where
  "factory_getID s = (next_packet_id s, s\<lparr>next_packet_id := next_packet_id s + 1\<rparr>)"

definition create ::
  "DataType \<Rightarrow> bytes \<Rightarrow> u32 \<Rightarrow> bool \<Rightarrow> ('w, 'z) host_scheme \<Rightarrow> (packet \<times> ('w, 'z) host_scheme) run" where
  "create type data sz needACK s =
     (let (ID, s) = factory_getID s in
      run_bind (newPacket ID type needACK sz (Some data)) (\<lambda>p. Done (p, s)))"

definition create_raw :: "bytes \<Rightarrow> nat \<Rightarrow> packet run" where
  "create_raw data sz = run_bind (read_bytes data 0 sz) (\<lambda>v. Done (parsePacket v))"

definition create_from_struct ::
  "DataType \<Rightarrow> bytes \<Rightarrow> bool \<Rightarrow> ('w, 'z) host_scheme \<Rightarrow> (packet \<times> ('w, 'z) host_scheme) run" where
  "create_from_struct type struct needACK s =
     create type struct (of_nat (length struct)) needACK s"

section \<open>Packed structures of the protocol\<close>

text \<open>
  The bit fields are five bits wide and each \<open>uint8_t\<close> starts its own byte (that is what the
  size assertions of the header say); the unused bits are written as zero here.
\<close>

record ClientAuthHeader =
  ca_loginSize :: u8
  ca_passSize :: u8

definition ClientAuthHeader_bytes :: "ClientAuthHeader \<Rightarrow> bytes" where
  "ClientAuthHeader_bytes h = [take_bit 5 (ca_loginSize h), take_bit 5 (ca_passSize h)]"

fun ClientAuthHeader_of :: "bytes \<Rightarrow> ClientAuthHeader" where
  "ClientAuthHeader_of [a, b] = \<lparr>ca_loginSize = take_bit 5 a, ca_passSize = take_bit 5 b\<rparr>"
| "ClientAuthHeader_of _ = \<lparr>ca_loginSize = 0, ca_passSize = 0\<rparr>"

record ServerAuthHeader =
  sa_errorCode :: u32
  sa_tokenSize :: u8

definition ServerAuthHeader_bytes :: "ServerAuthHeader \<Rightarrow> bytes" where
  "ServerAuthHeader_bytes h = le32 (sa_errorCode h) @ [take_bit 5 (sa_tokenSize h)]"

definition ServerAuthHeader_of :: "bytes \<Rightarrow> ServerAuthHeader" where
  "ServerAuthHeader_of bs = \<lparr>sa_errorCode = un_le32 (take 4 bs), sa_tokenSize = take_bit 5 (bs ! 4)\<rparr>"

record ClientACK =
  ck_errorCode :: u32
  ck_tokenSize :: u8
  ck_acknowledgedID :: u32

definition ClientACK_bytes :: "ClientACK \<Rightarrow> bytes" where
  "ClientACK_bytes a =
     le32 (ck_errorCode a) @ [take_bit 5 (ck_tokenSize a)] @ le32 (ck_acknowledgedID a)"

definition ClientACK_of :: "bytes \<Rightarrow> ClientACK" where
  "ClientACK_of bs = \<lparr>ck_errorCode = un_le32 (take 4 bs), ck_tokenSize = take_bit 5 (bs ! 4),
     ck_acknowledgedID = un_le32 (take 4 (drop 5 bs))\<rparr>"

record ServerACK =
  sk_errorCode :: u32
  sk_acknowledgedID :: u32

definition ServerACK_bytes :: "ServerACK \<Rightarrow> bytes" where
  "ServerACK_bytes a = le32 (sk_errorCode a) @ le32 (sk_acknowledgedID a)"

definition ServerACK_of :: "bytes \<Rightarrow> ServerACK" where
  "ServerACK_of bs = \<lparr>sk_errorCode = un_le32 (take 4 bs),
     sk_acknowledgedID = un_le32 (take 4 (drop 4 bs))\<rparr>"

section \<open>Printing a packet\<close>

definition nl :: string where "nl = [CHR 0x0A]"

definition show_bool :: "bool \<Rightarrow> bool \<Rightarrow> string" where
  "show_bool boolalpha b = (if boolalpha then if b then ''true'' else ''false''
                            else if b then ''1'' else ''0'')"

definition print_packet :: "bool \<Rightarrow> packet \<Rightarrow> string run" where
  "print_packet boolalpha p =
     run_bind (getID p) (\<lambda>i.
     run_bind (getDataType p) (\<lambda>t.
     run_bind (isNeedACK p) (\<lambda>a.
     run_bind (getDataSize p) (\<lambda>n.
     run_bind (getData p (unat n)) (\<lambda>d.
       Done (''{'' @ nl
         @ ''  ID       : '' @ show_nat (unat i) @ nl
         @ ''  type     : '' @ show_int (sint t) @ nl
         @ ''  needACK  : '' @ show_bool boolalpha a @ nl
         @ ''  full size: '' @ show_nat (length (pk_data p)) @ nl
         @ ''  data size: '' @ show_nat (unat n) @ nl
         @ ''  data     : '' @ [CHR 0x22] @ to_text d @ [CHR 0x22] @ nl
         @ ''}'' @ nl))))))"

section \<open>What construction produces\<close>

definition header_bytes :: "u32 \<Rightarrow> DataType \<Rightarrow> bool \<Rightarrow> u32 \<Rightarrow> bytes" where
  "header_bytes ID type needACK n =
     le32 (17 + n) @ le32 ID @ [if needACK then 1 else 0] @ le32 (dt_code type) @ le32 n"

lemma length_header_bytes [simp]: "length (header_bytes i t a n) = 17"
  by (simp add: header_bytes_def)

lemma read32_at: "length xs = k \<Longrightarrow> read32 (xs @ le32 w @ ys) k = Done w"
  by (simp add: read32_def read_bytes_def)

lemma write_bytes_at:
  "length xs = k \<Longrightarrow> length ys = length zs \<Longrightarrow> write_bytes (xs @ ys @ rest) k zs = Done (xs @ zs @ rest)"
  by (simp add: write_bytes_def)

lemma read_bytes_at: "length xs = k \<Longrightarrow> length ys = n \<Longrightarrow> read_bytes (xs @ ys @ rest) k n = Done ys"
  by (simp add: read_bytes_def)

text \<open>A vector that starts with the headers, whatever the data and the cursor.\<close>

lemma header_reads:
  assumes "pk_data p = header_bytes i t a n @ d"
  shows getID_header: "getID p = Done i"
    and isNeedACK_header: "isNeedACK p = Done a"
    and getDataType_header: "getDataType p = Done (dt_code t)"
    and getDataSize_header: "getDataSize p = Done n"
proof -
  show "getID p = Done i"
    using read32_at [of "le32 (17 + n)" 4 i] assms by (simp add: getID_def header_bytes_def)
  show "isNeedACK p = Done a"
    using assms by (simp add: isNeedACK_def read_bytes_def header_bytes_def le32_def)
  show "getDataType p = Done (dt_code t)"
    using read32_at [of "le32 (17 + n) @ le32 i @ [if a then 1 else 0]" 9 "dt_code t"] assms
    by (simp add: getDataType_def header_bytes_def)
  show "getDataSize p = Done n"
    using read32_at [of "le32 (17 + n) @ le32 i @ [if a then 1 else 0] @ le32 (dt_code t)" 13 n] assms
    by (simp add: getDataSize_def header_bytes_def)
qed

lemma getData_header:
  "pk_data p = header_bytes i t a n @ d @ rest \<Longrightarrow> length d = k \<Longrightarrow> getData p k = Done d"
  by (simp add: getData_def read_bytes_def)

lemma unat_fullsize: "unat n + 17 < 2 ^ 32 \<Longrightarrow> unat (17 + n :: u32) = 17 + unat n"
  using unat_add_lem [of 17 n] by simp

lemma write_headers:
  "run_bind (write32 (replicate 17 0 @ rest) 0 (17 + n)) (\<lambda>v. run_bind (write32 v 4 ID) (\<lambda>v.
     run_bind (write_bytes v 8 [b]) (\<lambda>v.
     run_bind (write32 v 13 n) (\<lambda>v. run_bind (write32 v 9 t) f)))) =
     f (le32 (17 + n) @ le32 ID @ [b] @ le32 t @ le32 n @ rest)"
proof -
  let ?z = "[0, 0, 0, 0] :: bytes"
  let ?h = "le32 (17 + n) @ le32 ID @ [b]"
  have zeros: "replicate 17 0 @ rest = ?z @ ?z @ [0] @ ?z @ ?z @ rest"
    by (simp add: numeral_eq_Suc)
  have w1: "write32 (replicate 17 0 @ rest) 0 (17 + n) = Done (le32 (17 + n) @ ?z @ [0] @ ?z @ ?z @ rest)"
    unfolding zeros write32_def using write_bytes_at [of "[]" 0 ?z "le32 (17 + n)"] by simp
  have w2: "write32 (le32 (17 + n) @ ?z @ [0] @ ?z @ ?z @ rest) 4 ID =
      Done (le32 (17 + n) @ le32 ID @ [0] @ ?z @ ?z @ rest)"
    unfolding write32_def by (rule write_bytes_at) simp_all
  have w3: "write_bytes (le32 (17 + n) @ le32 ID @ [0] @ ?z @ ?z @ rest) 8 [b] =
      Done (?h @ ?z @ ?z @ rest)"
    using write_bytes_at [of "le32 (17 + n) @ le32 ID" 8 "[0]" "[b]" "?z @ ?z @ rest"] by simp
  have w4: "write32 (?h @ ?z @ ?z @ rest) 13 n = Done (?h @ ?z @ le32 n @ rest)"
    using write_bytes_at [of "?h @ ?z" 13 ?z "le32 n" rest] by (simp add: write32_def)
  have w5: "write32 (?h @ ?z @ le32 n @ rest) 9 t = Done (?h @ le32 t @ le32 n @ rest)"
    using write_bytes_at [of ?h 9 ?z "le32 t" "le32 n @ rest"] by (simp add: write32_def)
  show ?thesis
    by (simp only: w1 w2 w3 [unfolded append_assoc] w4 [unfolded append_assoc]
      w5 [unfolded append_assoc] run_bind.simps append_assoc)
qed

lemma newPacket_headers:
  assumes "unat n + 17 < 2 ^ 32"
  shows "newPacket ID t a n d =
    (let p = \<lparr>pk_data = header_bytes ID t a n @ replicate (unat n) 0, data_offset = 0\<rparr> in
     case d of None \<Rightarrow> Done p | Some d \<Rightarrow> run_bind (read_bytes d 0 (unat n)) (writeData p))"
proof -
  have v: "replicate (unat (17 + n)) 0 = replicate 17 (0 :: u8) @ replicate (unat n) 0"
    using unat_fullsize [OF assms] by (simp only: replicate_add)
  show ?thesis
    unfolding newPacket_def Let_def header_bytes_def
    by (simp add: v write_headers [of "replicate (unat n) 0" n ID "if a then 1 else 0" "dt_code t", simplified]
             split: option.split)
qed

text \<open>
  \<open>wf_packet p ds\<close>: the vector is as long as its data size field says. That is what the
  first constructor builds.
\<close>

definition wf_packet :: "packet \<Rightarrow> u32 \<Rightarrow> bool" where
  "wf_packet p ds \<longleftrightarrow> getDataSize p = Done ds \<and> length (pk_data p) = 17 + unat ds"

lemma wf_packetI: "pk_data p = header_bytes i t a n @ d \<Longrightarrow> length d = unat n \<Longrightarrow> wf_packet p n"
  by (auto simp: wf_packet_def intro: header_reads)

lemma availableSize_eq:
  "getDataSize p = Done ds \<Longrightarrow> availableSize p n = Done (if ds \<le> data_offset p then 0 else n)"
  by (simp add: availableSize_def)

lemma unat_of_length: "length xs < 2 ^ 32 \<Longrightarrow> unat (of_nat (length xs) :: u32) = length xs"
  by (simp add: unat_of_nat take_bit_nat_eq_self)

lemma writeData_dropped: "getDataSize p = Done ds \<Longrightarrow> ds \<le> data_offset p \<Longrightarrow> writeData p xs = Done p"
  by (simp add: writeData_def availableSize_eq)

lemma writeData_inside:
  assumes p: "pk_data p = header_bytes i t a n @ ys @ zs @ rest"
    and off: "unat (data_offset p) = length ys" "data_offset p < n"
    and xs: "length xs = length zs" "length xs < 2 ^ 32"
  shows "writeData p xs = Done (p\<lparr>pk_data := header_bytes i t a n @ ys @ xs @ rest,
    data_offset := data_offset p + of_nat (length xs)\<rparr>)"
proof -
  have sz: "getDataSize p = Done n" using p by (rule header_reads)
  show ?thesis
  proof (cases "xs = []")
    case True
    with xs p off show ?thesis
      by (simp add: writeData_def availableSize_eq [OF sz])
  next
    case False
    with xs(2) have "(of_nat (length xs) :: u32) \<noteq> 0"
      using unat_of_length [OF xs(2)] by (metis length_0_conv unat_0)
    with off xs show ?thesis
      using write_bytes_at [of "header_bytes i t a n @ ys" "17 + length ys" zs xs rest]
      by (simp add: writeData_def availableSize_eq [OF sz] p unat_of_length)
  qed
qed

lemma newPacket_data:
  assumes "length d = unat n" "unat n + 17 < 2 ^ 32"
  shows "newPacket ID t a n (Some d) = Done \<lparr>pk_data = header_bytes ID t a n @ d, data_offset = n\<rparr>"
proof (cases "n = 0")
  case True
  have "getDataSize \<lparr>pk_data = header_bytes ID t a 0, data_offset = 0\<rparr> = Done 0"
    by (rule getDataSize_header [where d = "[]"]) simp
  with True assms show ?thesis
    by (simp add: newPacket_headers read_bytes_def writeData_dropped)
next
  case False
  let ?p = "\<lparr>pk_data = header_bytes ID t a n @ replicate (unat n) 0, data_offset = 0\<rparr>"
  have "writeData ?p d = Done (?p\<lparr>pk_data := header_bytes ID t a n @ [] @ d @ [],
      data_offset := data_offset ?p + of_nat (length d)\<rparr>)"
    by (rule writeData_inside [where zs = "replicate (unat n) 0"])
      (use assms False in \<open>simp_all add: word_gt_0\<close>)
  with assms show ?thesis
    by (simp add: newPacket_headers read_bytes_def)
qed

section \<open>Properties of packets\<close>

text \<open>
  C10: A packet built by the constructor, sent as its byte vector and parsed by the receiving
  constructor, has the ID, type, acknowledgement flag, size and data it was built from, and the
  vector is exactly 17 bytes longer than the data. Precondition: the total size fits 32 bits.
\<close>

theorem packet_roundtrip:
  assumes "length d = unat n" and "unat n + 17 < 2 ^ 32"
  shows "\<exists>p. newPacket ID t a n (Some d) = Done p \<and> length (pk_data p) = 17 + unat n \<and>
    (let q = parsePacket (pk_data p) in
       getID q = Done ID \<and> isNeedACK q = Done a \<and> getDataType q = Done (dt_code t) \<and>
       getDataSize q = Done n \<and> getData q (unat n) = Done d)"
proof -
  let ?q = "parsePacket (header_bytes ID t a n @ d)"
  have q: "pk_data ?q = header_bytes ID t a n @ d" by (simp add: parsePacket_def)
  then have "getData ?q (unat n) = Done d"
    using assms(1) by (intro getData_header [where rest = "[]"]) simp_all
  with header_reads [OF q] show ?thesis
    using assms by (simp add: newPacket_data)
qed

lemma packet_roundtrip_witness:
  "\<exists>p. newPacket 7 DT_MSG True 2 (Some [104, 105]) = Done p \<and> length (pk_data p) = 19 \<and>
    getData (parsePacket (pk_data p)) 2 = Done [104, 105]"
  using packet_roundtrip [of "[104, 105]" 2 7 DT_MSG True] by (auto simp: Let_def)

text \<open>
  \<open>writeData\<close> on a well-formed packet, every case: when the cursor is at or past the data
  size the data is silently dropped; when it fits it replaces the bytes at the cursor and the
  cursor advances; and because \<open>availableSize\<close> returns the requested size and not the
  available one, data that does not fit is written past the end of the vector.
\<close>

theorem writeData_cases:
  assumes "pk_data p = header_bytes i t a n @ d" and "length d = unat n" and "length xs < 2 ^ 32"
  shows "writeData p xs =
    (if n \<le> data_offset p then Done p
     else if unat (data_offset p) + length xs \<le> unat n then
       Done (p\<lparr>pk_data := header_bytes i t a n @ take (unat (data_offset p)) d @ xs
                 @ drop (unat (data_offset p) + length xs) d,
               data_offset := data_offset p + of_nat (length xs)\<rparr>)
     else Fault Out_Of_Bounds)"
proof -
  let ?o = "unat (data_offset p)"
  have sz: "getDataSize p = Done n" using assms(1) by (rule header_reads)
  show ?thesis
  proof (cases "n \<le> data_offset p \<or> unat n < ?o + length xs")
    case True
    moreover have "writeData p xs = Fault Out_Of_Bounds"
      if "\<not> n \<le> data_offset p" "unat n < ?o + length xs"
    proof -
      have "xs \<noteq> []" using that by (auto simp: word_le_nat_alt)
      then have "(of_nat (length xs) :: u32) \<noteq> 0"
        using unat_of_length [OF assms(3)] by (metis length_0_conv unat_0)
      with that assms show ?thesis
        by (simp add: writeData_def availableSize_eq [OF sz] unat_of_length write_bytes_def)
    qed
    ultimately show ?thesis by (auto simp: writeData_dropped [OF sz])
  next
    case False
    have d: "d = take ?o d @ take (length xs) (drop ?o d) @ drop (?o + length xs) d"
      by (simp add: add.commute flip: drop_drop)
    have "writeData p xs = Done (p\<lparr>pk_data := header_bytes i t a n @ take ?o d @ xs
        @ drop (?o + length xs) d, data_offset := data_offset p + of_nat (length xs)\<rparr>)"
    proof (rule writeData_inside)
      show "pk_data p = header_bytes i t a n @ take ?o d @ take (length xs) (drop ?o d)
          @ drop (?o + length xs) d"
        unfolding d [symmetric] by (fact assms(1))
    qed (use False assms in \<open>auto simp: word_le_nat_alt word_less_nat_alt\<close>)
    with False show ?thesis by simp
  qed
qed

lemma writeData_cases_witness:
  "writeData \<lparr>pk_data = header_bytes 1 DT_MSG False 2 @ [0, 0], data_offset = 0\<rparr> [1, 2, 3] = Fault Out_Of_Bounds"
  using writeData_cases [of "\<lparr>pk_data = header_bytes 1 DT_MSG False 2 @ [0, 0], data_offset = 0\<rparr>"
      1 DT_MSG False 2 "[0, 0]" "[1, 2, 3]"] by simp

text \<open>
  \<open>readData\<close> on a well-formed packet, every case: asking for nothing, or with the cursor at
  the end, builds a view from a null pointer; a request that fits returns the bytes at the cursor
  and advances it; a longer one reads outside the packet instead of being shortened.
\<close>

theorem readData_cases:
  assumes "pk_data p = header_bytes i t a n @ d" and "length d = unat n"
  shows "readData p k =
    (if k = 0 \<or> n \<le> data_offset p then Fault Null_View
     else if unat (data_offset p) + unat k \<le> unat n then
       Done (take (unat k) (drop (unat (data_offset p)) d), p\<lparr>data_offset := data_offset p + k\<rparr>)
     else Fault Out_Of_Bounds)"
proof -
  have sz: "getDataSize p = Done n" using assms(1) by (rule header_reads)
  show ?thesis
    using assms by (simp add: readData_def availableSize_eq [OF sz] read_bytes_def)
qed

lemma readData_cases_witness:
  "readData \<lparr>pk_data = header_bytes 1 DT_MSG False 2 @ [8, 9], data_offset = 1\<rparr> 2 = Fault Out_Of_Bounds"
  using readData_cases [of "\<lparr>pk_data = header_bytes 1 DT_MSG False 2 @ [8, 9], data_offset = 1\<rparr>"
      1 DT_MSG False 2 "[8, 9]" 2] by (simp add: word_le_nat_alt)

section \<open>Counters that hand out IDs\<close>

text \<open>
  \<open>PacketFactory\<close> and \<open>ConnectedClientFactory\<close> both number their objects with a static
  \<open>std::atomic_uint\<close>. The interface: a state holds a counter, and drawing returns it and
  advances it by one.
\<close>

fun draw_ids :: "('s \<Rightarrow> u32 \<times> 's) \<Rightarrow> nat \<Rightarrow> 's \<Rightarrow> u32 list" where
  "draw_ids nxt 0 s = []"
| "draw_ids nxt (Suc n) s = fst (nxt s) # draw_ids nxt n (snd (nxt s))"

locale id_source =
  fixes nxt :: "'s \<Rightarrow> u32 \<times> 's"
    and ctr :: "'s \<Rightarrow> u32"
  assumes next_id: "fst (nxt s) = ctr s"
    and next_ctr: "ctr (snd (nxt s)) = ctr s + 1"
begin

lemma draw_ids_eq: "draw_ids nxt n s = map (\<lambda>i. ctr s + of_nat i) [0..<n]"
proof (induction n arbitrary: s)
  case (Suc n)
  have "map (\<lambda>i. ctr s + of_nat i) [0..<Suc n] = ctr s # map (\<lambda>i. ctr s + 1 + of_nat i) [0..<n]"
    by (simp add: map_upt_Suc add.assoc del: upt_Suc)
  with Suc show ?case by (simp add: next_id next_ctr)
qed simp

lemma draw_ids_distinct:
  assumes "n \<le> 2 ^ 32"
  shows "distinct (draw_ids nxt n s)"
proof -
  have "i = j" if "i < n" "j < n" "(of_nat i :: u32) = of_nat j" for i j
    using that assms by (simp add: word_of_nat_eq_iff take_bit_nat_eq_self)
  then show ?thesis
    by (auto simp: draw_ids_eq distinct_map inj_on_def)
qed

end

interpretation packet_ids: id_source factory_getID next_packet_id
  by unfold_locales (simp_all add: factory_getID_def)

text \<open>
  The packets of one process get different IDs as long as no more than 2^32 of them are
  created; the counter then wraps.
\<close>

theorem packet_ids_distinct:
  assumes "n \<le> 2 ^ 32"
  shows "distinct (draw_ids factory_getID n s)"
  using assms by (rule packet_ids.draw_ids_distinct)

lemma packet_ids_distinct_witness:
  "distinct (draw_ids factory_getID 3 sample_host)"
  by (rule packet_ids_distinct) simp

section \<open>Structures as packet data\<close>

text \<open>
  The contract of a packed structure: its object representation has a fixed width, and reading
  it back gives the value up to what the bit fields cut off.
\<close>

locale packed_struct =
  fixes enc :: "'a \<Rightarrow> bytes"
    and dec :: "bytes \<Rightarrow> 'a"
    and width :: nat
    and cut :: "'a \<Rightarrow> 'a"
  assumes length_enc: "length (enc x) = width"
    and dec_enc: "dec (enc x) = cut x"
    and width_small: "width + 17 < 2 ^ 32"
begin

lemma struct_packet:
  "create_from_struct t (enc x) a s = Done (\<lparr>pk_data = header_bytes (next_packet_id s) t a (of_nat width) @ enc x,
     data_offset = of_nat width\<rparr>, s\<lparr>next_packet_id := next_packet_id s + 1\<rparr>)"
proof -
  have "unat (of_nat width :: u32) = width"
    using unat_of_length [of "enc x"] length_enc [of x] width_small by simp
  then show ?thesis
    using width_small
    by (simp add: create_from_struct_def create_def factory_getID_def length_enc newPacket_data)
qed

text \<open>
  The constructor's own write leaves the cursor at the end, so nothing can be appended to a
  structure: a later \<open>writeData\<close> is dropped.
\<close>

lemma struct_closed:
  assumes "create_from_struct t (enc x) a s = Done (p, s')"
  shows "writeData p xs = Done p"
proof -
  from assms have p: "p = \<lparr>pk_data = header_bytes (next_packet_id s) t a (of_nat width) @ enc x,
      data_offset = of_nat width\<rparr>" by (simp add: struct_packet)
  then have "getDataSize p = Done (of_nat width)" by (auto intro: header_reads)
  then show ?thesis by (rule writeData_dropped) (simp add: p)
qed

lemma struct_received:
  assumes "create_from_struct t (enc x) a s = Done (p, s')"
  shows "run_bind (getData (parsePacket (pk_data p)) width) (\<lambda>v. Done (dec v)) = Done (cut x)"
proof -
  have "getData (parsePacket (pk_data p)) width = Done (enc x)"
    using assms length_enc [of x]
    by (intro getData_header [where rest = "[]"]) (auto simp: struct_packet parsePacket_def)
  then show ?thesis by (simp add: dec_enc)
qed

end

interpretation client_auth: packed_struct ClientAuthHeader_bytes ClientAuthHeader_of 2
    "\<lambda>h. \<lparr>ca_loginSize = take_bit 5 (ca_loginSize h), ca_passSize = take_bit 5 (ca_passSize h)\<rparr>"
  by unfold_locales (simp_all add: ClientAuthHeader_bytes_def)

interpretation server_auth: packed_struct ServerAuthHeader_bytes ServerAuthHeader_of 5
    "\<lambda>h. h\<lparr>sa_tokenSize := take_bit 5 (sa_tokenSize h)\<rparr>"
  by unfold_locales (simp_all add: ServerAuthHeader_bytes_def ServerAuthHeader_of_def nth_append)

interpretation client_ack: packed_struct ClientACK_bytes ClientACK_of 9
    "\<lambda>h. h\<lparr>ck_tokenSize := take_bit 5 (ck_tokenSize h)\<rparr>"
  by unfold_locales (simp_all add: ClientACK_bytes_def ClientACK_of_def nth_append)

interpretation server_ack: packed_struct ServerACK_bytes ServerACK_of 8 "\<lambda>h. h"
  by unfold_locales (simp_all add: ServerACK_bytes_def ServerACK_of_def)

end
