(* ===== verification/Sockets.thy ===== *)
theory Sockets
  imports Packets
begin

text \<open>
  Common/Socket.h and Common/Socket.cpp: the RAII wrapper of a WinSock handle. \<open>sock_status\<close> is
  the count of open streams, which \<open>Client::isRunning\<close> compares with 2. Every operation takes
  the socket and the host state and returns both; \<open>setTimeout\<close> and \<open>connect\<close> do not change
  the socket object.
\<close>

record sock =
  sock_handle :: SOCKET
  sock_status :: u8

definition Socket :: sock where
  "Socket = \<lparr>sock_handle = INVALID_SOCKET, sock_status = 0\<rparr>"

definition sock_setTimeout ::
  "'w winsock \<Rightarrow> u32 \<Rightarrow> int \<Rightarrow> sock \<Rightarrow> ('w, 'z) host_scheme \<Rightarrow> ClientError \<times> ('w, 'z) host_scheme" where
  "sock_setTimeout os timeout option k s =
     (if sock_handle k = INVALID_SOCKET then (CE_UNKNOWN, s)
      else let value = timeout * 1000;
               (err, s) = syscall (ws_setsockopt os (sock_handle k) option value) s in
        if err = SOCKET_ERROR then (CW_SET_TIMEOUT, s) else (CE_OK, s))"

definition sock_init ::
  "'w winsock \<Rightarrow> int \<Rightarrow> sock \<Rightarrow> ('w, 'z) host_scheme \<Rightarrow> ClientError \<times> sock \<times> ('w, 'z) host_scheme" where
  "sock_init os protocol k s =
     (case (if protocol = IPPROTO_TCP then Some SOCK_STREAM
            else if protocol = IPPROTO_UDP then Some SOCK_DGRAM else None) of
        None \<Rightarrow> (CE_UNKNOWN_PROTOCOL, k, s)
      | Some sock_type \<Rightarrow>
          let (h, s) = syscall (ws_socket os AF_INET sock_type protocol) s;
              k = k\<lparr>sock_handle := h\<rparr> in
          if h = INVALID_SOCKET then (CE_CREATE_SOCKET, k, s)
          else (CE_OK, k\<lparr>sock_status := 2\<rparr>, s))"

text \<open>\<open>serverAddr\<close> is zero-initialised, so an address that does not parse is 0.0.0.0.\<close>

definition sock_connect ::
  "'w winsock \<Rightarrow> string \<Rightarrow> port \<Rightarrow> sock \<Rightarrow> ('w, 'z) host_scheme \<Rightarrow> ClientError \<times> ('w, 'z) host_scheme" where
  "sock_connect os ip_str port k s =
     (if sock_handle k = INVALID_SOCKET then (CE_UNKNOWN, s)
      else let addr = (case ws_inet_pton os ip_str of None \<Rightarrow> 0 | Some a \<Rightarrow> a);
               (err, s) = syscall (ws_connect os (sock_handle k) addr port) s in
        if err = SOCKET_ERROR then
          if ws_last_error os (os_world s) = WSAETIMEDOUT then (CW_TIMEOUT, s) else (CE_CONNECT, s)
        else (CE_OK, s))"

definition sock_shutdown ::
  "'w winsock \<Rightarrow> int \<Rightarrow> sock \<Rightarrow> ('w, 'z) host_scheme \<Rightarrow> ClientError \<times> sock \<times> ('w, 'z) host_scheme" where
  "sock_shutdown os how k s =
     (if sock_handle k = INVALID_SOCKET then (CE_OK, k, s)
      else let (err, s) = syscall (ws_shutdown os (sock_handle k) how) s in
        if err = SOCKET_ERROR then (CW_SHUTDOWN, k, s)
        else (CE_OK, if sock_status k \<noteq> 0 then k\<lparr>sock_status := sock_status k - 1\<rparr> else k, s))"

definition sock_close ::
  "'w winsock \<Rightarrow> sock \<Rightarrow> ('w, 'z) host_scheme \<Rightarrow> ClientError \<times> sock \<times> ('w, 'z) host_scheme" where
  "sock_close os k s =
     (if sock_handle k = INVALID_SOCKET then (CE_OK, k, s)
      else let (err, s) = syscall (ws_closesocket os (sock_handle k)) s in
        if err = SOCKET_ERROR then (CW_CLOSE_SOCKET, k, s)
        else (CE_OK, k\<lparr>sock_handle := INVALID_SOCKET\<rparr>, s))"

text \<open>The destructor: shut down both directions, then close; the results are ignored.\<close>

definition sock_destroy ::
  "'w winsock \<Rightarrow> sock \<Rightarrow> ('w, 'z) host_scheme \<Rightarrow> sock \<times> ('w, 'z) host_scheme" where
  "sock_destroy os k s =
     (let (_, k, s) = sock_shutdown os SD_BOTH k s; (_, k, s) = sock_close os k s in (k, s))"

lemmas sock_defs = sock_setTimeout_def sock_init_def sock_connect_def sock_shutdown_def
  sock_close_def sock_destroy_def

section \<open>What an operation changes of the host\<close>

text \<open>A socket operation touches \<open>os_world\<close> only.\<close>

lemma sock_setTimeout_world:
  "snd (sock_setTimeout os v opt k s) = s\<lparr>os_world := os_world (snd (sock_setTimeout os v opt k s))\<rparr>"
  by (simp add: sock_setTimeout_def Let_def split_beta)

lemma sock_connect_world:
  "snd (sock_connect os ip p k s) = s\<lparr>os_world := os_world (snd (sock_connect os ip p k s))\<rparr>"
  by (simp add: sock_connect_def Let_def split_beta)

lemma sock_init_world:
  "snd (snd (sock_init os pr k s)) = s\<lparr>os_world := os_world (snd (snd (sock_init os pr k s)))\<rparr>"
  by (simp add: sock_init_def Let_def split_beta split: option.split)

lemma sock_shutdown_world:
  "snd (snd (sock_shutdown os how k s)) = s\<lparr>os_world := os_world (snd (snd (sock_shutdown os how k s)))\<rparr>"
  by (simp add: sock_shutdown_def Let_def split_beta)

lemma sock_close_world:
  "snd (snd (sock_close os k s)) = s\<lparr>os_world := os_world (snd (snd (sock_close os k s)))\<rparr>"
  by (simp add: sock_close_def Let_def split_beta)

lemmas sock_world = sock_setTimeout_world sock_connect_world sock_init_world
  sock_shutdown_world sock_close_world

section \<open>The life of a socket object\<close>

datatype sock_op =
    Op_init int | Op_setTimeout u32 int | Op_connect string port | Op_shutdown int | Op_close

fun sock_step :: "'w winsock \<Rightarrow> sock_op \<Rightarrow> sock \<times> 'w host \<Rightarrow> sock \<times> 'w host" where
  "sock_step os (Op_init pr) (k, s) = snd (sock_init os pr k s)"
| "sock_step os (Op_setTimeout v opt) (k, s) = (k, snd (sock_setTimeout os v opt k s))"
| "sock_step os (Op_connect ip p) (k, s) = (k, snd (sock_connect os ip p k s))"
| "sock_step os (Op_shutdown how) (k, s) = snd (sock_shutdown os how k s)"
| "sock_step os Op_close (k, s) = snd (sock_close os k s)"

definition sock_run :: "'w winsock \<Rightarrow> sock_op list \<Rightarrow> 'w host \<Rightarrow> sock \<times> 'w host" where
  "sock_run os ops s = fold (sock_step os) ops (Socket, s)"

text \<open>
  The invariant: at most two streams are counted, and a socket that was never opened
  successfully counts none.
\<close>

definition sock_inv :: "sock \<Rightarrow> bool" where
  "sock_inv k \<longleftrightarrow> sock_status k \<le> 2"

lemma word8_dec_le_2: "x \<le> 2 \<Longrightarrow> x \<noteq> 0 \<Longrightarrow> x - 1 \<le> (2 :: u8)"
  by (simp add: word_le_nat_alt unat_minus_one)

lemma sock_step_inv: "sock_inv (fst ks) \<Longrightarrow> sock_inv (fst (sock_step os op ks))"
  by (cases op; cases ks)
     (auto simp: sock_inv_def sock_defs Let_def split_beta word8_dec_le_2 split: option.split)

lemma fold_sock_inv: "sock_inv (fst ks) \<Longrightarrow> sock_inv (fst (fold (sock_step os) ops ks))"
  by (induction ops arbitrary: ks) (simp_all add: sock_step_inv)

text \<open>
  Whatever sequence of operations is applied to a socket object, in any order and with any
  results of the system, its stream count never exceeds 2 (and never wraps below 0).
\<close>

theorem sock_status_bounded:
  "sock_status (fst (sock_run os ops s)) \<le> 2"
  using fold_sock_inv [of "(Socket, s)" os ops]
  by (simp add: sock_run_def sock_inv_def Socket_def)

text \<open>
  On a closed or never opened handle no operation but \<open>init\<close> reaches the system: the
  system's state and the socket stay as they are, and the results are the ones of the guards.
\<close>

theorem closed_socket_is_inert:
  assumes "sock_handle k = INVALID_SOCKET"
  shows "sock_setTimeout os v opt k s = (CE_UNKNOWN, s) \<and>
    sock_connect os ip p k s = (CE_UNKNOWN, s) \<and>
    sock_shutdown os how k s = (CE_OK, k, s) \<and> sock_close os k s = (CE_OK, k, s) \<and>
    sock_destroy os k s = (k, s)"
  using assms by (simp add: sock_defs)

lemma closed_socket_is_inert_witness:
  "sock_connect sample_os ''127.0.0.1'' 27010 Socket sample_host = (CE_UNKNOWN, sample_host)"
  by (rule closed_socket_is_inert [THEN conjunct2, THEN conjunct1]) (simp add: Socket_def)

end
