(* ===== verification/ClientTypes.thy ===== *)
theory ClientTypes
  imports Sockets
begin

text \<open>
  Client/Client.h: the state of the client singleton, as an extension of the host record, its
  getters and \<open>setState\<close>. The two \<open>std::thread\<close> members are represented by whether they are
  joinable. \<open>mainPackets\<close> is the \<open>std::queue\<close> with its front at the head of the list.
\<close>

datatype ClientState =
    InitWinSock | SetOpts | CreateAuthSocket | Auth | CreateDataSocket
  | Send | Receive | Shutdown | CloseSocket

record 'w client = "'w host" +
  receivedPackets :: "packet list"
  sendedPackets :: "packet list"
  mainPackets :: "packet list"
  syncPackets :: "packet list"
  cl_receiver :: bool
  cl_sender :: bool
  cl_state :: ClientState
  cl_ID :: u16
  cl_IP :: string
  cl_token :: bytes
  cl_authPort :: port
  cl_dataPort :: port
  cl_started :: bool
  authSocket :: sock
  dataSocket :: sock

definition isRunning :: "'w client \<Rightarrow> bool" where
  "isRunning s \<longleftrightarrow> cl_started s \<and> sock_status (authSocket s) = 2 \<and> sock_status (dataSocket s) = 2"

text \<open>\<open>sendPacket\<close> pushes at the back of the queue.\<close>

definition cl_sendPacket :: "packet \<Rightarrow> 'w client \<Rightarrow> 'w client" where
  "cl_sendPacket p s = s\<lparr>mainPackets := mainPackets s @ [p]\<rparr>"

fun state_desc :: "ClientState \<Rightarrow> string" where
  "state_desc InitWinSock = ''InitWinSock''"
| "state_desc SetOpts = ''SetOpts''"
| "state_desc CreateAuthSocket = ''CreateAuthSocket''"
| "state_desc Auth = ''Auth''"
| "state_desc CreateDataSocket = ''CreateDataSocket''"
| "state_desc Send = ''Send''"
| "state_desc Receive = ''Receive''"
| "state_desc Shutdown = ''Shutdown''"
| "state_desc CloseSocket = ''CloseSocket''"

definition setState :: "ClientState \<Rightarrow> 'w client \<Rightarrow> 'w client" where
  "setState st s =
     (let s = (if debug_build s
               then colored CC_Info ''State changed to: %s'' [FStr (state_desc st)] s else s)
      in s\<lparr>cl_state := st\<rparr>)"

text \<open>Which of the two sockets a \<open>Socket&\<close> parameter refers to.\<close>

datatype which_socket = The_Auth | The_Data

fun get_sock :: "which_socket \<Rightarrow> 'w client \<Rightarrow> sock" where
  "get_sock The_Auth s = authSocket s"
| "get_sock The_Data s = dataSocket s"

fun put_sock :: "which_socket \<Rightarrow> sock \<Rightarrow> 'w client \<Rightarrow> 'w client" where
  "put_sock The_Auth k s = s\<lparr>authSocket := k\<rparr>"
| "put_sock The_Data k s = s\<lparr>dataSocket := k\<rparr>"

section \<open>Frames\<close>

text \<open>
  \<open>same_client s t\<close>: the states agree on everything but the console, the system's state
  and \<open>cl_state\<close>, which is written and never read.
\<close>

definition same_client :: "'w client \<Rightarrow> 'w client \<Rightarrow> bool" where
  "same_client s t \<longleftrightarrow> t = s\<lparr>os_world := os_world t, con_out := con_out t, con_desc := con_desc t,
     bad_format := bad_format t, cl_state := cl_state t\<rparr>"

lemma same_client_refl [simp]: "same_client s s"
  by (simp add: same_client_def)

lemma same_clientD:
  assumes "same_client s t"
  shows "next_packet_id t = next_packet_id s" "std_in t = std_in s" "debug_build t = debug_build s"
    "receivedPackets t = receivedPackets s" "sendedPackets t = sendedPackets s"
    "mainPackets t = mainPackets s" "syncPackets t = syncPackets s" "cl_receiver t = cl_receiver s"
    "cl_sender t = cl_sender s" "cl_ID t = cl_ID s" "cl_IP t = cl_IP s" "cl_token t = cl_token s"
    "cl_authPort t = cl_authPort s" "cl_dataPort t = cl_dataPort s" "cl_started t = cl_started s"
    "authSocket t = authSocket s" "dataSocket t = dataSocket s" "cur_thread t = cur_thread s"
  by (subst assms [unfolded same_client_def], simp)+

lemma same_client_isRunning: "same_client s t \<Longrightarrow> isRunning t = isRunning s"
  by (simp add: isRunning_def same_clientD)

lemma same_clientI:
  assumes "next_packet_id t = next_packet_id s" "std_in t = std_in s" "debug_build t = debug_build s"
    "cur_thread t = cur_thread s" "receivedPackets t = receivedPackets s"
    "sendedPackets t = sendedPackets s" "mainPackets t = mainPackets s"
    "syncPackets t = syncPackets s" "cl_receiver t = cl_receiver s" "cl_sender t = cl_sender s"
    "cl_ID t = cl_ID s" "cl_IP t = cl_IP s" "cl_token t = cl_token s"
    "cl_authPort t = cl_authPort s" "cl_dataPort t = cl_dataPort s" "cl_started t = cl_started s"
    "authSocket t = authSocket s" "dataSocket t = dataSocket s"
  shows "same_client s t"
  using assms by (simp add: same_client_def)

lemma same_client_trans [trans]: "same_client s t \<Longrightarrow> same_client t u \<Longrightarrow> same_client s u"
  by (rule same_clientI) (simp_all add: same_clientD)

lemma same_client_log [simp]:
  "same_client s (raw str s)"
  "same_client s (raw_colored c str s)"
  "same_client s (colored c fmt args s)"
  "same_client s (setState st s)"
  "same_client s (s\<lparr>os_world := w\<rparr>)"
  "same_client s (setThreadDesc d s)"
  by (simp_all add: same_client_def log_upds setState_def setThreadDesc_def)

lemma same_client_wsa [simp]: "same_client s (wsa_print_err os f l s)"
  by (subst wsa_print_err_upd) (simp add: same_client_def)

lemma same_client_sock [simp]:
  "same_client s (snd (sock_setTimeout os v opt k s))"
  "same_client s (snd (sock_connect os ip p k s))"
  "same_client s (snd (snd (sock_init os pr k s)))"
  "same_client s (snd (snd (sock_shutdown os how k s)))"
  "same_client s (snd (snd (sock_close os k s)))"
  by (subst sock_world, simp)+

lemmas client_frame [frame_simps] =
  same_clientD [OF same_client_sock(1)] same_clientD [OF same_client_sock(2)]
  same_clientD [OF same_client_sock(3)] same_clientD [OF same_client_sock(4)]
  same_clientD [OF same_client_sock(5)]
  same_clientD [OF same_client_log(1)] same_clientD [OF same_client_log(2)]
  same_clientD [OF same_client_log(3)] same_clientD [OF same_client_log(4)]
  same_clientD [OF same_client_log(6)] same_clientD [OF same_client_wsa]

lemma cl_token_world [frame_simps]: "isRunning (s\<lparr>os_world := w\<rparr>) = isRunning s"
  by (simp add: isRunning_def)

end
