(* ===== verification/ClientHandler.thy ===== *)
theory ClientHandler
  imports ClientTypes
begin

text \<open>
  Client/Handler.cpp: dispatch on the type of a received packet, the handling of
  acknowledgements from the server, and the acknowledgement the client sends back. \<open>Handler\<close>
  works on the client singleton, so its functions take and return the client state.
\<close>

text \<open>\<open>std::find_if\<close> over \<open>syncPackets\<close>: the index of the first packet with the ID.\<close>

fun find_acked :: "u32 \<Rightarrow> packet list \<Rightarrow> nat option run" where
  "find_acked ackedID [] = Done None"
| "find_acked ackedID (q # qs) = run_bind (getID q) (\<lambda>i.
     if i = ackedID then Done (Some 0)
     else run_bind (find_acked ackedID qs) (\<lambda>r. Done (map_option Suc r)))"

definition erase_at :: "nat \<Rightarrow> 'a list \<Rightarrow> 'a list" where
  "erase_at i xs = take i xs @ drop (Suc i) xs"

definition handle_ack :: "packet \<Rightarrow> 'w client \<Rightarrow> (ClientError \<times> 'w client) run" where
  "handle_ack p s = run_bind (getDataType p) (\<lambda>t.
     if t \<noteq> dt_code DT_ACK then Done (CE_UNKNOWN, s)
     else run_bind (getDataSize p) (\<lambda>n.
       if unat n < 8 then Done (CE_SERVER_ACK_SIZE, s)
       else run_bind (getData p 8) (\<lambda>v.
         let ackedID = sk_acknowledgedID (ServerACK_of v) in
         run_bind (find_acked ackedID (syncPackets s)) (\<lambda>r.
           case r of
             None \<Rightarrow> Done (CE_ACKING_PACKET_NOT_FOUND, s)
           | Some i \<Rightarrow> Done (CE_OK, s\<lparr>syncPackets := erase_at i (syncPackets s)\<rparr>)))))"

definition handle_packet :: "packet \<Rightarrow> 'w client \<Rightarrow> (ClientError \<times> 'w client) run" where
  "handle_packet p s = run_bind (getDataType p) (\<lambda>t.
     run_bind
       (if t = dt_code DT_ACK then handle_ack p s
        else if t = dt_code DT_MSG \<or> t = dt_code DT_AUTH_SERVER then
          run_bind (getDataSize p) (\<lambda>n. run_bind (getData p (unat n)) (\<lambda>d.
            Done (CE_OK, raw_colored CC_InfoHL (to_text d) s)))
        else if t = dt_code DT_EMPTY then Done (CE_OK, s)
        else Done (CE_UNKNOWN_DATATYPE, s))
       (\<lambda>(err, s). run_bind (isNeedACK p) (\<lambda>need.
          if need then
            let token = cl_token s in
            run_bind (getID p) (\<lambda>pid.
              let ack = \<lparr>ck_errorCode = of_int (ce_code err),
                         ck_tokenSize = of_nat (length token), ck_acknowledgedID = pid\<rparr> in
              run_bind (create_from_struct DT_ACK (ClientACK_bytes ack) False s) (\<lambda>(ack_packet, s).
                run_bind (writeData ack_packet token) (\<lambda>ack_packet.
                  Done (err, cl_sendPacket ack_packet s))))
          else Done (err, s))))"

section \<open>Acknowledgements\<close>

lemma find_acked_notin:
  "\<forall>q\<in>set qs. \<exists>i. getID q = Done i \<and> i \<noteq> a \<Longrightarrow> find_acked a qs = Done None"
  by (induction qs) auto

lemma find_acked_first:
  "\<forall>q\<in>set xs. \<exists>i. getID q = Done i \<and> i \<noteq> a \<Longrightarrow> getID q = Done a \<Longrightarrow>
     find_acked a (xs @ q # ys) = Done (Some (length xs))"
  by (induction xs) auto

lemma erase_at_append [simp]: "erase_at (length xs) (xs @ q # ys) = xs @ ys"
  by (simp add: erase_at_def)

lemma handle_ack_eq:
  assumes "pk_data p = header_bytes i DT_ACK a n @ ServerACK_bytes k @ rest" and "8 \<le> unat n"
  shows "handle_ack p s = run_bind (find_acked (sk_acknowledgedID k) (syncPackets s)) (\<lambda>r.
    case r of None \<Rightarrow> Done (CE_ACKING_PACKET_NOT_FOUND, s)
    | Some i \<Rightarrow> Done (CE_OK, s\<lparr>syncPackets := erase_at i (syncPackets s)\<rparr>))"
proof -
  have "getData p 8 = Done (ServerACK_bytes k)"
    using assms(1) server_ack.length_enc by (intro getData_header [where rest = rest]) simp_all
  with assms(2) header_reads(3,4) [OF assms(1)] show ?thesis
    by (simp add: handle_ack_def server_ack.dec_enc)
qed

text \<open>
  A well-formed acknowledgement removes exactly the first unconfirmed packet with the
  acknowledged ID, keeps the order of the others and answers CE_OK; if no unconfirmed packet has
  that ID nothing changes and the answer is CE_ACKING_PACKET_NOT_FOUND.
\<close>

theorem handle_ack_removes_first:
  assumes "pk_data p = header_bytes i DT_ACK a n @ ServerACK_bytes k @ rest" and "8 \<le> unat n"
    and "\<forall>q\<in>set (syncPackets s). \<exists>j. getID q = Done j"
  shows "(\<exists>xs q ys. syncPackets s = xs @ q # ys \<and> getID q = Done (sk_acknowledgedID k) \<and>
        (\<forall>x\<in>set xs. getID x \<noteq> Done (sk_acknowledgedID k)) \<and>
        handle_ack p s = Done (CE_OK, s\<lparr>syncPackets := xs @ ys\<rparr>)) \<or>
     ((\<forall>q\<in>set (syncPackets s). getID q \<noteq> Done (sk_acknowledgedID k)) \<and>
        handle_ack p s = Done (CE_ACKING_PACKET_NOT_FOUND, s))"
proof (cases "\<exists>q\<in>set (syncPackets s). getID q = Done (sk_acknowledgedID k)")
  case True
  then obtain xs q ys where split: "syncPackets s = xs @ q # ys"
      and q: "getID q = Done (sk_acknowledgedID k)"
      and xs: "\<forall>x\<in>set xs. getID x \<noteq> Done (sk_acknowledgedID k)"
    using split_list_first_prop [of "syncPackets s" "\<lambda>q. getID q = Done (sk_acknowledgedID k)"] by blast
  have "\<forall>x\<in>set xs. \<exists>j. getID x = Done j \<and> j \<noteq> sk_acknowledgedID k"
    using xs assms(3) split by fastforce
  then have "find_acked (sk_acknowledgedID k) (syncPackets s) = Done (Some (length xs))"
    unfolding split using q by (rule find_acked_first)
  then have "handle_ack p s = Done (CE_OK, s\<lparr>syncPackets := xs @ ys\<rparr>)"
    using assms(1,2) by (simp add: handle_ack_eq split)
  with split q xs show ?thesis by blast
next
  case False
  with assms(3) have "\<forall>q\<in>set (syncPackets s). \<exists>j. getID q = Done j \<and> j \<noteq> sk_acknowledgedID k"
    by fastforce
  with False assms(1,2) show ?thesis
    by (simp add: handle_ack_eq find_acked_notin)
qed

definition sample_client :: "(int \<times> bytes \<times> int) list \<Rightarrow> sample_world client" where
  "sample_client script = \<lparr>os_world = sample_world script, con_out = [], con_desc = (\<lambda>_. []),
     cur_thread = 0, bad_format = False, next_packet_id = 0, std_in = [], debug_build = False,
     receivedPackets = [], sendedPackets = [], mainPackets = [], syncPackets = [],
     cl_receiver = False, cl_sender = False, cl_state = InitWinSock, cl_ID = 0, cl_IP = [],
     cl_token = [], cl_authPort = 0, cl_dataPort = 0, cl_started = False,
     authSocket = Socket, dataSocket = Socket\<rparr>"

text \<open>A packet with the given header and data, cursor at the start.\<close>

definition sample_packet :: "u32 \<Rightarrow> DataType \<Rightarrow> bool \<Rightarrow> bytes \<Rightarrow> packet" where
  "sample_packet i t a d = \<lparr>pk_data = header_bytes i t a (of_nat (length d)) @ d, data_offset = 0\<rparr>"

lemma pk_data_sample [simp]:
  "pk_data (sample_packet i t a d) = header_bytes i t a (of_nat (length d)) @ d"
  by (simp add: sample_packet_def)

lemma sample_client_simps [simp]:
  "next_packet_id (sample_client r) = 0" "os_world (sample_client r) = sample_world r"
  "mainPackets (sample_client r) = []" "syncPackets (sample_client r) = []"
  "sendedPackets (sample_client r) = []" "receivedPackets (sample_client r) = []"
  "authSocket (sample_client r) = Socket" "dataSocket (sample_client r) = Socket"
  "debug_build (sample_client r) = False" "cl_token (sample_client r) = []"
  "cl_started (sample_client r) = False" "cl_receiver (sample_client r) = False"
  "cl_sender (sample_client r) = False" "std_in (sample_client r) = []"
  by (simp_all add: sample_client_def)

lemma getID_sample [simp]: "getID (sample_packet i t a d) = Done i"
  by (rule getID_header) simp

lemma handle_ack_removes_first_witness:
  "\<exists>xs q ys. [sample_packet 3 DT_MSG True [], sample_packet 4 DT_MSG True []] = xs @ q # ys \<and>
     getID q = Done 4 \<and> (\<forall>x\<in>set xs. getID x \<noteq> Done 4) \<and>
     handle_ack (sample_packet 9 DT_ACK False (ServerACK_bytes \<lparr>sk_errorCode = 0, sk_acknowledgedID = 4\<rparr>))
       (sample_client [] \<lparr>syncPackets := [sample_packet 3 DT_MSG True [], sample_packet 4 DT_MSG True []]\<rparr>) =
     Done (CE_OK, sample_client [] \<lparr>syncPackets := xs @ ys\<rparr>)"
  using handle_ack_removes_first
    [where p = "sample_packet 9 DT_ACK False (ServerACK_bytes \<lparr>sk_errorCode = 0, sk_acknowledgedID = 4\<rparr>)"
       and s = "sample_client [] \<lparr>syncPackets := [sample_packet 3 DT_MSG True [], sample_packet 4 DT_MSG True []]\<rparr>"
       and i = 9 and a = False and n = 8 and k = "\<lparr>sk_errorCode = 0, sk_acknowledgedID = 4\<rparr>" and rest = "[]"]
  by (simp add: server_ack.length_enc)

section \<open>Replies\<close>

text \<open>The packet that the client sends to confirm packet \<open>pid\<close>.\<close>

definition ack_reply :: "'w client \<Rightarrow> ClientError \<Rightarrow> u32 \<Rightarrow> packet" where
  "ack_reply s err pid = \<lparr>pk_data = header_bytes (next_packet_id s) DT_ACK False 9 @
     ClientACK_bytes \<lparr>ck_errorCode = of_int (ce_code err), ck_tokenSize = of_nat (length (cl_token s)),
       ck_acknowledgedID = pid\<rparr>, data_offset = 9\<rparr>"

text \<open>
  A received message is confirmed exactly when its acknowledgement flag is set. The reply is
  one packet with 9 bytes of data, carrying the error code 0, the message's ID and the token's
  size (modulo 32); the token, written to the packet after the structure, is not in it.
\<close>

theorem handle_packet_message:
  assumes "pk_data p = header_bytes i DT_MSG a n @ d" and "length d = unat n"
  shows "handle_packet p s =
    (let t = raw_colored CC_InfoHL (to_text d) s in
     Done (CE_OK, if a then t\<lparr>next_packet_id := next_packet_id s + 1,
                              mainPackets := mainPackets s @ [ack_reply s CE_OK i]\<rparr>
                  else t))"
proof -
  note h = header_reads [OF assms(1)]
  have d: "getData p (unat n) = Done d"
    using assms by (intro getData_header [where rest = "[]"]) simp_all
  let ?k = "\<lparr>ck_errorCode = 0, ck_tokenSize = of_nat (length (cl_token s)), ck_acknowledgedID = i\<rparr>"
  let ?t = "raw_colored CC_InfoHL (to_text d) s"
  have c: "create_from_struct DT_ACK (ClientACK_bytes ?k) False ?t =
      Done (ack_reply s CE_OK i, ?t\<lparr>next_packet_id := next_packet_id s + 1\<rparr>)"
    by (simp add: client_ack.struct_packet ack_reply_def frame_simps)
  have "cl_token ?t = cl_token s" by (simp add: log_upds)
  with c client_ack.struct_closed [OF c] show ?thesis
    by (simp add: handle_packet_def h d Let_def cl_sendPacket_def log_upds)
qed

lemma handle_packet_message_witness:
  "handle_packet (sample_packet 5 DT_MSG True [72]) (sample_client []) =
    Done (CE_OK, (raw_colored CC_InfoHL (to_text [72]) (sample_client []))
      \<lparr>next_packet_id := 1, mainPackets := [ack_reply (sample_client []) CE_OK 5]\<rparr>)"
  using handle_packet_message [of "sample_packet 5 DT_MSG True [72]" 5 True 1 "[72]" "sample_client []"]
  by simp

end
