(* ===== verification/ClientCore.thy ===== *)
theory ClientCore
  imports ClientHandler
begin

text \<open>
  Client/Client.cpp: sending and receiving, authorisation, start-up and shut-down, and the loops
  of the two worker threads. A loop whose end depends on the peer or on another thread takes a
  number of iterations \<open>fuel\<close>; running out of it is \<open>Out_Of_Fuel\<close>. The parameter \<open>os\<close> is
  WinSock. Line numbers in \<open>wsa_print_err\<close> are those the macro expands to.
\<close>

section \<open>Sending\<close>

definition sendData :: "'w winsock \<Rightarrow> packet \<Rightarrow> 'w client \<Rightarrow> ClientError \<times> 'w client" where
  "sendData os p s =
     (let s = setState Send s;
          (r, s) = syscall (send_packet os (sock_handle (dataSocket s)) p) s in
      if r = SOCKET_ERROR then (CE_SEND, wsa_print_err os ''Client.cpp'' 375 s)
      else (CE_OK, s\<lparr>sendedPackets := sendedPackets s @ [p]\<rparr>))"

definition handlePacketOut ::
  "'w winsock \<Rightarrow> packet \<Rightarrow> 'w client \<Rightarrow> (ClientError \<times> 'w client) run" where
  "handlePacketOut os p s =
     (let (err, s) = sendData os p s in
      if ce_error err then Done (CE_HANDLE_OUT_SEND, s)
      else run_bind (isNeedACK p) (\<lambda>need.
        if need then Done (CW_NEED_ACK, s) else Done (CE_OK, s)))"

section \<open>Receiving\<close>

text \<open>What one iteration of the loop of \<open>receiveData\<close> does next.\<close>

datatype recv_next = Recv_Return ClientError "packet option" | Recv_Break packet | Recv_Continue

definition receive_body ::
  "'w winsock \<Rightarrow> bool \<Rightarrow> 'w client \<Rightarrow> (recv_next \<times> 'w client) run" where
  "receive_body os closeAfterTimeout s =
     (let (respSize, respBuff, w) =
            ws_recv os (sock_handle (dataSocket s)) NET_BUFFER_SIZE (os_world s);
          s = s\<lparr>os_world := w\<rparr> in
      if respSize > 0 then
        run_bind (create_raw respBuff (nat respSize)) (\<lambda>dest.
          let s = s\<lparr>receivedPackets := receivedPackets s @ [dest]\<rparr> in
          run_bind (getDataSize dest) (\<lambda>n.
            if n \<noteq> of_int respSize then Done (Recv_Return CE_RECV_SIZE (Some dest), s)
            else Done (Recv_Break dest, s)))
      else if respSize = 0 then
        Done (Recv_Return CE_CONN_CLOSED None, raw_colored CC_InfoHL ''Connection closed'' s)
      else let err = ws_last_error os (os_world s) in
        if err = WSAETIMEDOUT then
          (if closeAfterTimeout then Done (Recv_Return CW_TIMEOUT None, s) else Done (Recv_Continue, s))
        else if err = WSAEMSGSIZE then
          Done (Recv_Return CW_MSG_SIZE None, raw_colored CC_WarningHL
            ''The size of received packet is larger than the buffer size!'' s)
        else if err = WSAECONNRESET \<or> err = WSAECONNABORTED then
          Done (Recv_Return CE_CONN_CLOSED None, raw_colored CC_InfoHL ''Connection closed'' s)
        else Done (Recv_Return CE_RECV None, wsa_print_err os ''Client.cpp'' 361 s))"

fun receive_loop ::
  "'w winsock \<Rightarrow> bool \<Rightarrow> nat \<Rightarrow> 'w client \<Rightarrow> (ClientError \<times> packet option \<times> 'w client) run" where
  "receive_loop os c 0 s = Out_Of_Fuel"
| "receive_loop os c (Suc fuel) s =
     (if \<not> isRunning s then Done (CE_OK, None, s)
      else run_bind (receive_body os c s) (\<lambda>(r, s). case r of
          Recv_Return e dest \<Rightarrow> Done (e, dest, s)
        | Recv_Break dest \<Rightarrow> Done (CE_OK, Some dest, s)
        | Recv_Continue \<Rightarrow> receive_loop os c fuel s))"

definition receiveData ::
  "'w winsock \<Rightarrow> nat \<Rightarrow> bool \<Rightarrow> 'w client \<Rightarrow> (ClientError \<times> packet option \<times> 'w client) run" where
  "receiveData os fuel closeAfterTimeout s =
     receive_loop os closeAfterTimeout fuel (setState Receive s)"

definition handlePacketIn ::
  "'w winsock \<Rightarrow> nat \<Rightarrow> bool \<Rightarrow> 'w client \<Rightarrow> (ClientError \<times> 'w client) run" where
  "handlePacketIn os fuel closeAfterTimeout s =
     run_bind (receiveData os fuel closeAfterTimeout s) (\<lambda>(err, dest, s).
       if ce_error err then Done (err, s)
       else case dest of
         None \<Rightarrow> Done (CW_HANDLE_IN_PACKET_EMPTY, s)
       | Some p \<Rightarrow> handle_packet p s)"

section \<open>Connecting and authorising\<close>

definition initSocket ::
  "'w winsock \<Rightarrow> which_socket \<Rightarrow> int \<Rightarrow> 'w client \<Rightarrow> ClientError \<times> 'w client" where
  "initSocket os wh protocol s =
     (let (err, k, s) = sock_init os protocol (get_sock wh s) s;
          s = put_sock wh k s;
          s = (if \<not> ce_success err then wsa_print_err os ''Client.cpp'' 106 s else s) in
      if ce_error err then (err, s)
      else if protocol = IPPROTO_TCP then
        let s = setState SetOpts s;
            (err, s) = sock_setTimeout os TIMEOUT SO_SNDTIMEO (get_sock wh s) s in
        if ce_error err then (err, s)
        else let s = (if ce_warning err then colored CC_WarningHL ''Cannot to set send timeout'' [] s else s);
                 (err, s) = sock_setTimeout os TIMEOUT SO_RCVTIMEO (get_sock wh s) s in
          if ce_error err then (err, s)
          else let s = (if ce_warning err then colored CC_WarningHL ''Cannot to set receive timeout'' [] s else s)
            in (CE_OK, s)
      else (CE_OK, s))"

definition connect2server ::
  "'w winsock \<Rightarrow> which_socket \<Rightarrow> port \<Rightarrow> 'w client \<Rightarrow> ClientError \<times> 'w client" where
  "connect2server os wh port s =
     (let (err, s) = sock_connect os (cl_IP s) port (get_sock wh s) s in
      if ce_error err then (err, wsa_print_err os ''Client.cpp'' 134 s)
      else if ce_warning err then
        if err = CW_TIMEOUT
        then (err, raw_colored CC_WarningHL ''Unable to connect to the server: timeout'' s)
        else (err, colored CC_WarningHL ''Unable to connect to the server: warning code %d'' [FInt (ce_code err)] s)
      else (err, s))"

text \<open>
  The last part of \<open>authorize\<close>, on a packet that was received. \<open>readData\<close> moves the cursor of
  the packet that \<open>receivedPackets\<close> also points to, so its last element is replaced.
\<close>

definition authorize_reply :: "packet \<Rightarrow> 'w client \<Rightarrow> (ClientError \<times> 'w client) run" where
  "authorize_reply serverAuth s =
     run_bind (getDataSize serverAuth) (\<lambda>n.
       if unat n < 5 then Done (CE_AUTH_RECV_SIZE, s)
       else run_bind (getData serverAuth 5) (\<lambda>v.
         let h = ServerAuthHeader_of v; code = sint (sa_errorCode h) in
         if is_error code then
           Done (CE_AUTH_RECV_GOTERR, colored CC_DangerHL ''Auth error: server returned %d'' [FInt code] s)
         else let s = (if is_warning code then colored CC_WarningHL ''Auth warning %d'' [FInt code] s else s) in
           run_bind (readData serverAuth (ucast (sa_tokenSize h))) (\<lambda>(tok, serverAuth).
             let s = s\<lparr>receivedPackets := butlast (receivedPackets s) @ [serverAuth], cl_token := tok\<rparr> in
             Done (CE_OK, colored CC_SuccessHL ''Client authorized successfully! Client token: %.*s''
               [FInt (int (length tok)), FStr (to_text tok)] s))))"

definition authorize ::
  "'w winsock \<Rightarrow> nat \<Rightarrow> bytes \<Rightarrow> bytes \<Rightarrow> 'w client \<Rightarrow> (ClientError \<times> 'w client) run" where
  "authorize os fuel login pass s =
     (let s = setState Auth s;
          clientAuthHeader = \<lparr>ca_loginSize = of_nat (length login), ca_passSize = of_nat (length pass)\<rparr> in
      run_bind (create_from_struct DT_AUTH_CLIENT (ClientAuthHeader_bytes clientAuthHeader) True s)
        (\<lambda>(clientAuth, s).
      run_bind (writeData clientAuth login) (\<lambda>clientAuth.
      run_bind (writeData clientAuth pass) (\<lambda>clientAuth.
        let (err, s) = sendData os clientAuth s in
        if ce_code err \<noteq> 0 then Done (CE_AUTH_SEND, s)
        else run_bind (receiveData os fuel False s) (\<lambda>(err, serverAuth, s).
          if ce_error err then Done (CE_AUTH_RECV, s)
          else case serverAuth of
            None \<Rightarrow> Done (CE_AUTH_RECV_EMPTY, s)
          | Some p \<Rightarrow> authorize_reply p s)))))"

text \<open>Assigning to a \<open>std::thread\<close> that is still joinable terminates the program.\<close>

definition createThreads :: "'w client \<Rightarrow> 'w client run" where
  "createThreads s =
     (if cl_receiver s then Fault Terminate
      else let s = s\<lparr>cl_receiver := True\<rparr> in
      if cl_sender s then Fault Terminate else Done (s\<lparr>cl_sender := True\<rparr>))"

definition client_init ::
  "'w winsock \<Rightarrow> nat \<Rightarrow> bytes \<Rightarrow> bytes \<Rightarrow> string \<Rightarrow> port \<Rightarrow> port \<Rightarrow> 'w client \<Rightarrow>
   (ClientError \<times> 'w client) run" where
  "client_init os fuel login pass IP authPort dataPort s =
     (let s = s\<lparr>cl_authPort := authPort, cl_dataPort := dataPort, cl_ID := 0, cl_IP := IP,
                cl_started := False\<rparr>;
          s = setState InitWinSock s;
          (init_winsock, s) = syscall (ws_startup os) s in
      if init_winsock \<noteq> NO_ERROR then
        Done (CE_INIT_WINSOCK, wsa_print_err os ''Client.cpp'' 23 s)
      else
        let s = setState CreateAuthSocket s;
            (err, s) = initSocket os The_Auth IPPROTO_TCP s in
        if ce_error err then Done (err, s)
        else let (err, s) = connect2server os The_Auth authPort s in
          if \<not> ce_success err then Done (err, s)
          else let s = s\<lparr>cl_started := True\<rparr>;
                   s = colored CC_SuccessHL ''The client is authorizing on the %d port''
                         [FInt (uint authPort)] s in
            run_bind (authorize os fuel login pass s) (\<lambda>(err, s).
              if ce_error err then Done (err, s)
              else let s = setState CreateDataSocket s;
                       (err, s) = initSocket os The_Data IPPROTO_TCP s in
                if ce_error err then Done (err, s)
                else run_bind (createThreads s) (\<lambda>s. Done (CE_OK, s))))"

section \<open>Shutting down\<close>

text \<open>
  \<open>disconnect\<close> waits for the two threads. What they do until they end is the parameter
  \<open>join_receiver\<close> and \<open>join_sender\<close>: the effect on the state of the rest of the run of each
  thread.
\<close>

definition client_disconnect ::
  "'w winsock \<Rightarrow> ('w client \<Rightarrow> 'w client) \<Rightarrow> ('w client \<Rightarrow> 'w client) \<Rightarrow> 'w client \<Rightarrow> 'w client" where
  "client_disconnect os join_receiver join_sender s =
     (if \<not> cl_started s then s
      else
        let s = s\<lparr>cl_started := False\<rparr>;
            s = (if cl_receiver s then (join_receiver s)\<lparr>cl_receiver := False\<rparr> else s);
            s = (if cl_sender s then (join_sender s)\<lparr>cl_sender := False\<rparr> else s);
            s = setState CloseSocket s;
            (_, k, s) = sock_close os (dataSocket s) s;
            s = s\<lparr>dataSocket := k\<rparr>;
            (_, k, s) = sock_close os (authSocket s) s;
            s = s\<lparr>authSocket := k\<rparr>;
            s = s\<lparr>receivedPackets := [], sendedPackets := [], syncPackets := []\<rparr>;
            s = s\<lparr>mainPackets := []\<rparr>;
            s = s\<lparr>os_world := ws_cleanup os (os_world s)\<rparr>
        in raw_colored CC_InfoHL ''The client was stopped'' s)"

definition client_printCommandsList :: "'w client \<Rightarrow> 'w client" where
  "client_printCommandsList s =
     raw_colored CC_Danger (''  '' @ [CHR 0x22] @ ''close'' @ [CHR 0x22] @ ''    => Close the client'')
     (raw_colored CC_Info (''  '' @ [CHR 0x22] @ ''commands'' @ [CHR 0x22] @ '' => Print all available commands'')
     (raw_colored CC_Info (''  '' @ [CHR 0x22] @ ''send'' @ [CHR 0x22] @ ''     => Send the packet to server'')
     (raw_colored CC_InfoHL ''You can use these commands to manage the client:'' s)))"

section \<open>The receiver thread\<close>

fun receiver_loop ::
  "'w winsock \<Rightarrow> nat \<Rightarrow> ClientError \<Rightarrow> 'w client \<Rightarrow> (ClientError \<times> 'w client) run" where
  "receiver_loop os 0 err s = Out_Of_Fuel"
| "receiver_loop os (Suc fuel) err s =
     (if \<not> isRunning s then Done (err, s)
      else run_bind (handlePacketIn os fuel False s) (\<lambda>(err, s).
        if ce_error err then Done (err, s) else receiver_loop os fuel err s))"

definition receiverThread :: "'w winsock \<Rightarrow> nat \<Rightarrow> 'w client \<Rightarrow> 'w client run" where
  "receiverThread os fuel s =
     (let s = setThreadDesc ''[Receiver]'' s in
      run_bind (receiver_loop os fuel CE_OK s) (\<lambda>(err, s).
        let s = (if \<not> ce_error err then wsa_print_err os ''Client.cpp'' 247 s else s);
            s = setState Shutdown s;
            (err, k, s) = sock_shutdown os SD_RECEIVE (dataSocket s) s;
            s = s\<lparr>dataSocket := k\<rparr>;
            s = (if \<not> ce_success err then wsa_print_err os ''Client.cpp'' 254 s else s) in
        Done (colored CC_InfoHL ''Receiver thread closed'' [] s)))"

section \<open>The sender thread\<close>

lemma sendData_frame:
  "mainPackets (snd (sendData os p s)) = mainPackets s"
  "syncPackets (snd (sendData os p s)) = syncPackets s"
  using same_clientD [OF same_client_log(4), of Send s]
  by (simp_all add: sendData_def Let_def split_beta same_clientD [OF same_client_wsa])

lemma handlePacketOut_frame:
  assumes "handlePacketOut os p s = Done (err, t)"
  shows "mainPackets t = mainPackets s" "syncPackets t = syncPackets s"
  using assms sendData_frame [of os p s]
  by (auto simp: handlePacketOut_def split_beta run_bind_Done_iff split: if_splits)

text \<open>The first inner loop: the packet at the back is sent, the one at the front is removed.\<close>

function drain_main :: "'w winsock \<Rightarrow> 'w client \<Rightarrow> 'w client run" where
  "drain_main os s =
     (if mainPackets s = [] then Done s
      else let p = last (mainPackets s) in
        run_bind (handlePacketOut os p s) (\<lambda>(err, s).
          let s = (if \<not> ce_success err then s\<lparr>syncPackets := syncPackets s @ [p]\<rparr> else s) in
          drain_main os (s\<lparr>mainPackets := tl (mainPackets s)\<rparr>)))"
  by pat_completeness auto
termination
  by (relation "measure (\<lambda>(os, s). length (mainPackets s))")
     (auto dest: handlePacketOut_frame)

declare drain_main.simps [simp del]

text \<open>The second inner loop, over the unconfirmed packets; the iterator is the index \<open>i\<close>.\<close>

function sync_pass :: "'w winsock \<Rightarrow> nat \<Rightarrow> 'w client \<Rightarrow> 'w client run" where
  "sync_pass os i s =
     (if i < length (syncPackets s) then
        run_bind (handlePacketOut os (syncPackets s ! i) s) (\<lambda>(err, s).
          if \<not> ce_success err then sync_pass os (Suc i) s
          else sync_pass os i (s\<lparr>syncPackets := erase_at i (syncPackets s)\<rparr>))
      else Done s)"
  by pat_completeness auto
termination
  by (relation "measure (\<lambda>(os, i, s). length (syncPackets s) - i)")
     (auto dest!: handlePacketOut_frame(2) simp: erase_at_def)

declare sync_pass.simps [simp del]

definition sender_iteration :: "'w winsock \<Rightarrow> 'w client \<Rightarrow> 'w client run" where
  "sender_iteration os s =
     run_bind (drain_main os s) (\<lambda>s. run_bind (sync_pass os 0 s) (\<lambda>s.
       Done (s\<lparr>os_world := ws_sleep os 100 (os_world s)\<rparr>)))"

fun sender_loop :: "'w winsock \<Rightarrow> nat \<Rightarrow> 'w client \<Rightarrow> 'w client run" where
  "sender_loop os 0 s = Out_Of_Fuel"
| "sender_loop os (Suc fuel) s =
     (if \<not> isRunning s then Done s
      else run_bind (sender_iteration os s) (sender_loop os fuel))"

definition senderThread :: "'w winsock \<Rightarrow> nat \<Rightarrow> 'w client \<Rightarrow> 'w client run" where
  "senderThread os fuel s =
     (let s = setThreadDesc ''[Sender]'' s in
      run_bind (sender_loop os fuel s) (\<lambda>s.
        let s = setState Shutdown s;
            (err, k, s) = sock_shutdown os SD_SEND (dataSocket s) s;
            s = s\<lparr>dataSocket := k\<rparr>;
            s = (if \<not> ce_success err then wsa_print_err os ''Client.cpp'' 298 s else s) in
        Done (colored CC_InfoHL ''Sender thread closed'' [] s)))"

end
