(* ===== verification/ClientProps.thy ===== *)
theory ClientProps
  imports ClientCore
begin

text \<open>
  What Client.cpp does: frames of its operations, the outcome of authorisation and start-up,
  of receiving a packet, and of one pass of the sender over its queues.
\<close>

section \<open>Frames of the operations\<close>

lemmas same_client_wsa_trans = same_client_trans [OF _ same_client_wsa]

lemma same_client_if: "same_client s t \<Longrightarrow> same_client s u \<Longrightarrow> same_client s (if b then t else u)"
  by simp

lemma initSocket_frame:
  assumes "initSocket os wh pr s = (e, r)"
  shows "same_client (put_sock wh (get_sock wh r) s) r"
proof -
  obtain e0 k t where i: "sock_init os pr (get_sock wh s) s = (e0, k, t)"
    by (metis prod_cases3)
  have st: "same_client s t"
    using same_client_sock(3) [of s os pr "get_sock wh s"] i by simp
  define u where "u = put_sock wh k t"
  have su: "same_client (put_sock wh k s) u"
    unfolding u_def by (cases wh) (auto intro!: same_clientI simp: same_clientD [OF st])
  define v where "v = setState SetOpts (if \<not> ce_success e0 then wsa_print_err os ''Client.cpp'' 106 u else u)"
  have uv0: "same_client u (if \<not> ce_success e0 then wsa_print_err os ''Client.cpp'' 106 u else u)"
    by simp
  then have uv: "same_client u v"
    unfolding v_def by (rule same_client_trans) simp
  obtain e1 t1 where j: "sock_setTimeout os TIMEOUT SO_SNDTIMEO (get_sock wh v) v = (e1, t1)"
    by (metis prod.exhaust)
  have u1: "same_client u t1"
    using uv same_client_sock(1) [of v os TIMEOUT SO_SNDTIMEO "get_sock wh v"] j
    by (auto intro: same_client_trans)
  define x where "x = (if ce_warning e1 then colored CC_WarningHL ''Cannot to set send timeout'' [] t1 else t1)"
  have ux: "same_client u x"
    unfolding x_def using u1 by (auto intro: same_client_trans [OF _ same_client_log(3)])
  obtain e2 t2 where l: "sock_setTimeout os TIMEOUT SO_RCVTIMEO (get_sock wh x) x = (e2, t2)"
    by (metis prod.exhaust)
  have u2: "same_client u t2"
    using ux same_client_sock(1) [of x os TIMEOUT SO_RCVTIMEO "get_sock wh x"] l
    by (auto intro: same_client_trans)
  have u3: "same_client u (if ce_warning e2 then colored CC_WarningHL ''Cannot to set receive timeout'' [] t2 else t2)"
    using u2 by (auto intro: same_client_trans [OF _ same_client_log(3)])
  have "same_client u r"
    using assms uv0 u1 u2 u3
    unfolding initSocket_def i Let_def prod.case u_def [symmetric] v_def [symmetric] j x_def [symmetric] l
    by (auto split: if_splits)
  moreover from this have "get_sock wh r = k"
    unfolding u_def by (cases wh) (simp_all add: same_clientD)
  ultimately show ?thesis
    using su by (auto intro: same_client_trans)
qed

lemma connect2server_frame:
  assumes "connect2server os wh p s = (e, r)"
  shows "same_client s r"
proof -
  obtain e0 t where i: "sock_connect os (cl_IP s) p (get_sock wh s) s = (e0, t)"
    by (metis prod.exhaust)
  have "same_client s t"
    using same_client_sock(2) [of s os "cl_IP s" p "get_sock wh s"] i by simp
  then show ?thesis
    using assms unfolding connect2server_def i Let_def prod.case
    by (auto split: if_splits intro: same_client_trans [OF _ same_client_log(2)]
        same_client_trans [OF _ same_client_log(3)] same_client_wsa_trans)
qed

lemma sendData_cases:
  obtains (failed) t where "sendData os p s = (CE_SEND, t)" "same_client s t"
  | (sent) t where "sendData os p s = (CE_OK, t\<lparr>sendedPackets := sendedPackets s @ [p]\<rparr>)" "same_client s t"
proof -
  obtain r t where i: "syscall (send_packet os (sock_handle (dataSocket (setState Send s))) p) (setState Send s) = (r, t)"
    by (metis prod.exhaust)
  have st: "same_client s t"
    using i same_client_trans [OF same_client_log(4) same_client_log(5)]
    by (auto simp: syscall_def split: prod.splits)
  show thesis
  proof (cases "r = SOCKET_ERROR")
    case True
    then have "sendData os p s = (CE_SEND, wsa_print_err os ''Client.cpp'' 375 t)"
      by (simp add: sendData_def i)
    then show thesis using same_client_wsa_trans [OF st] by (rule failed)
  next
    case False
    then have "sendData os p s = (CE_OK, t\<lparr>sendedPackets := sendedPackets s @ [p]\<rparr>)"
      using same_clientD(5) [OF st] by (simp add: sendData_def i)
    then show thesis using st by (rule sent)
  qed
qed

section \<open>Authorisation\<close>

lemma receiveData_not_running:
  "\<not> isRunning s \<Longrightarrow> receiveData os (Suc n) c s = Done (CE_OK, None, setState Receive s)"
  by (simp add: receiveData_def isRunning_def frame_simps)

text \<open>The authorisation packet: the structure is all it carries.\<close>

definition auth_packet :: "'w client \<Rightarrow> bytes \<Rightarrow> bytes \<Rightarrow> packet" where
  "auth_packet s login pass = \<lparr>pk_data = header_bytes (next_packet_id s) DT_AUTH_CLIENT True 2 @
     [take_bit 5 (of_nat (length login)), take_bit 5 (of_nat (length pass))], data_offset = 2\<rparr>"

lemma auth_struct:
  assumes "h = \<lparr>ca_loginSize = of_nat (length login), ca_passSize = of_nat (length pass)\<rparr>"
  shows "create_from_struct DT_AUTH_CLIENT (ClientAuthHeader_bytes h) True (setState Auth s) =
    Done (auth_packet s login pass, (setState Auth s)\<lparr>next_packet_id := next_packet_id s + 1\<rparr>)"
  unfolding client_auth.struct_packet
  by (simp add: assms auth_packet_def ClientAuthHeader_bytes_def frame_simps)

lemma authorize_unfold:
  "authorize os fuel login pass s =
    (let (err, s) = sendData os (auth_packet s login pass)
                      ((setState Auth s)\<lparr>next_packet_id := next_packet_id s + 1\<rparr>) in
     if ce_code err \<noteq> 0 then Done (CE_AUTH_SEND, s)
     else run_bind (receiveData os fuel False s) (\<lambda>(err, serverAuth, s).
          if ce_error err then Done (CE_AUTH_RECV, s)
          else case serverAuth of
            None \<Rightarrow> Done (CE_AUTH_RECV_EMPTY, s)
          | Some p \<Rightarrow> authorize_reply p s))"
  by (simp add: authorize_def Let_def auth_struct [OF refl] client_auth.struct_closed [OF auth_struct [OF refl]])

lemma take_bit_5_length:
  "m mod 32 = n mod 32 \<Longrightarrow> take_bit 5 (of_nat m :: u8) = take_bit 5 (of_nat n)"
proof -
  assume mn: "m mod 32 = n mod 32"
  have *: "unat (take_bit 5 (of_nat k :: u8)) = k mod 32" for k
    by (simp only: unsigned_take_bit_eq unat_of_nat) (simp add: take_bit_eq_mod mod_mod_cancel)
  from mn show ?thesis by (intro word_unat_eq_iff [THEN iffD2]) (simp only: *)
qed

text \<open>
  Authorisation does not transmit the credentials: with any two logins and passwords whose
  lengths agree modulo 32 it does the same, sends the same bytes and gives the same result.
  (What is written after the size structure is dropped by \<open>availableSize\<close>.)
\<close>

theorem authorize_ignores_credentials:
  assumes "length login mod 32 = length login' mod 32" and "length pass mod 32 = length pass' mod 32"
  shows "authorize os fuel login pass s = authorize os fuel login' pass' s"
proof -
  have "auth_packet s login pass = auth_packet s login' pass'"
    by (simp add: auth_packet_def take_bit_5_length [OF assms(1)] take_bit_5_length [OF assms(2)])
  then show ?thesis by (simp add: authorize_unfold)
qed

lemma authorize_ignores_credentials_witness:
  "authorize sample_os 1 (to_bytes ''alice'') (to_bytes ''secret'') (sample_client []) =
   authorize sample_os 1 (to_bytes ''mallo'') (to_bytes ''guess!'') (sample_client [])"
  by (rule authorize_ignores_credentials) simp_all

lemma isRunning_data: "sock_status (dataSocket s) \<noteq> 2 \<Longrightarrow> \<not> isRunning s"
  by (simp add: isRunning_def)

lemma authorize_fails:
  assumes "sock_status (dataSocket s) \<noteq> 2" and "0 < fuel"
  shows "\<exists>e t. authorize os fuel login pass s = Done (e, t) \<and> e \<in> {CE_AUTH_SEND, CE_AUTH_RECV_EMPTY} \<and>
    dataSocket t = dataSocket s \<and> cl_receiver t = cl_receiver s \<and> cl_sender t = cl_sender s"
proof -
  let ?s = "(setState Auth s)\<lparr>next_packet_id := next_packet_id s + 1\<rparr>"
  obtain n where n: "fuel = Suc n" using assms(2) by (cases fuel) auto
  show ?thesis
  proof (cases rule: sendData_cases [of os "auth_packet s login pass" ?s])
    case (failed t)
    then show ?thesis
      using same_clientD [OF failed(2)] by (simp add: authorize_unfold frame_simps)
  next
    case (sent t)
    let ?t = "t\<lparr>sendedPackets := sendedPackets ?s @ [auth_packet s login pass]\<rparr>"
    have "\<not> isRunning ?t"
      using assms(1) by (intro isRunning_data) (simp add: same_clientD [OF sent(2)] frame_simps)
    then have "receiveData os fuel False ?t = Done (CE_OK, None, setState Receive ?t)"
      unfolding n by (rule receiveData_not_running)
    with sent show ?thesis
      using same_clientD [OF sent(2)]
      by (simp add: authorize_unfold frame_simps code_tests)
  qed
qed

section \<open>Start-up\<close>

lemma client_init_fails:
  assumes "sock_status (dataSocket s) \<noteq> 2" and "0 < fuel"
  shows "\<exists>e t. client_init os fuel login pass IP ap dp s = Done (e, t) \<and> e \<noteq> CE_OK \<and>
    dataSocket t = dataSocket s \<and> cl_receiver t = cl_receiver s \<and> cl_sender t = cl_sender s"
proof -
  define s1 where "s1 = setState InitWinSock (s\<lparr>cl_authPort := ap, cl_dataPort := dp, cl_ID := 0,
    cl_IP := IP, cl_started := False\<rparr>)"
  obtain r w where r: "ws_startup os (os_world s1) = (r, w)" by (metis prod.exhaust)
  define s2 where "s2 = setState CreateAuthSocket (s1\<lparr>os_world := w\<rparr>)"
  obtain e3 s3 where i: "initSocket os The_Auth IPPROTO_TCP s2 = (e3, s3)" by (metis prod.exhaust)
  obtain e4 s4 where c: "connect2server os The_Auth ap s3 = (e4, s4)" by (metis prod.exhaust)
  define s5 where "s5 = colored CC_SuccessHL ''The client is authorizing on the %d port''
    [FInt (uint ap)] (s4\<lparr>cl_started := True\<rparr>)"
  have f1: "dataSocket s1 = dataSocket s" "cl_receiver s1 = cl_receiver s" "cl_sender s1 = cl_sender s"
    by (simp_all add: s1_def frame_simps)
  have f2: "dataSocket s2 = dataSocket s" "cl_receiver s2 = cl_receiver s" "cl_sender s2 = cl_sender s"
    by (simp_all add: s2_def frame_simps f1)
  have f3: "dataSocket s3 = dataSocket s" "cl_receiver s3 = cl_receiver s" "cl_sender s3 = cl_sender s"
    using same_clientD(8,9,17) [OF initSocket_frame [OF i]] f2 by simp_all
  have f4: "dataSocket s4 = dataSocket s" "cl_receiver s4 = cl_receiver s" "cl_sender s4 = cl_sender s"
    using same_clientD(8,9,17) [OF connect2server_frame [OF c]] f3 by simp_all
  have f5: "dataSocket s5 = dataSocket s" "cl_receiver s5 = cl_receiver s" "cl_sender s5 = cl_sender s"
    by (simp_all add: s5_def frame_simps f4)
  from authorize_fails [of s5 fuel os login pass] assms f5 obtain e t
    where a: "authorize os fuel login pass s5 = Done (e, t)" "e \<in> {CE_AUTH_SEND, CE_AUTH_RECV_EMPTY}"
      "dataSocket t = dataSocket s" "cl_receiver t = cl_receiver s" "cl_sender t = cl_sender s" by auto
  have "client_init os fuel login pass IP ap dp s =
    (if r \<noteq> NO_ERROR then Done (CE_INIT_WINSOCK, wsa_print_err os ''Client.cpp'' 23 (s1\<lparr>os_world := w\<rparr>))
     else if ce_error e3 then Done (e3, s3) else if \<not> ce_success e4 then Done (e4, s4) else Done (e, t))"
  proof -
    have "\<not> ce_success e" "ce_error e" using a(2) by (auto simp: code_tests)
    then show ?thesis
      unfolding client_init_def Let_def s1_def [symmetric] syscall_def r prod.case
        s2_def [symmetric] i c s5_def [symmetric] a(1) run_bind.simps by simp
  qed
  then show ?thesis
    using a(2-5) by (auto simp: frame_simps f1 f3 f4 code_tests)
qed

text \<open>
  C1: A client whose data socket has not been initialised cannot be started: whatever the
  system answers, \<open>init\<close> returns an error or a warning and starts no thread. (The reply to the
  authorisation is awaited under \<open>isRunning()\<close>, which needs the data socket that \<open>init\<close> opens
  only afterwards.)
\<close>

theorem client_init_never_succeeds:
  assumes "sock_status (dataSocket s) \<noteq> 2" and "0 < fuel"
  shows "\<exists>e t. client_init os fuel login pass IP ap dp s = Done (e, t) \<and> e \<noteq> CE_OK \<and>
    dataSocket t = dataSocket s \<and> cl_receiver t = cl_receiver s \<and> cl_sender t = cl_sender s"
  by (rule client_init_fails [OF assms])

lemma client_init_never_succeeds_witness:
  "\<exists>e t. client_init sample_os 1 [97] [98] ''127.0.0.1'' 27010 27011 (sample_client []) = Done (e, t) \<and>
    e \<noteq> CE_OK \<and> dataSocket t = Socket \<and> \<not> cl_receiver t \<and> \<not> cl_sender t"
  using client_init_never_succeeds [of "sample_client []" 1 sample_os "[97]" "[98]"]
  by (simp add: Socket_def)

section \<open>Receiving\<close>

lemma create_raw_all [simp]: "create_raw bs (length bs) = Done (parsePacket bs)"
  by (simp add: create_raw_def read_bytes_def)

lemma pk_data_parse [simp]: "pk_data (parsePacket bs) = bs"
  by (simp add: parsePacket_def)

lemma receiveData_wellformed_rejected:
  assumes "isRunning s"
    and "ws_recv os (sock_handle (dataSocket s)) NET_BUFFER_SIZE (os_world s) =
      (int (length bs), bs, w)"
    and "bs = header_bytes i t a n @ d" and "length d = unat n" and "17 + unat n \<le> NET_BUFFER_SIZE"
  shows "receiveData os (Suc fuel) c s = Done (CE_RECV_SIZE, Some (parsePacket bs),
    (setState Receive s)\<lparr>os_world := w, receivedPackets := receivedPackets s @ [parsePacket bs]\<rparr>)"
proof -
  have run: "isRunning (setState Receive s)"
    using assms(1) by (simp add: isRunning_def frame_simps)
  have world: "os_world (setState Receive s) = os_world s"
    by (simp add: setState_def Let_def frame_simps)
  have size: "getDataSize (parsePacket bs) = Done n"
    by (rule getDataSize_header) (simp add: assms(3))
  have len: "length bs = 17 + unat n"
    using assms(3,4) by simp
  have "(17 :: u32) \<noteq> 0" by simp
  then have "of_int (int (length bs)) \<noteq> n"
    unfolding len by simp
  moreover have "bs \<noteq> []" using len by auto
  ultimately have "receive_body os c (setState Receive s) = Done (Recv_Return CE_RECV_SIZE (Some (parsePacket bs)),
      (setState Receive s)\<lparr>os_world := w, receivedPackets := receivedPackets s @ [parsePacket bs]\<rparr>)"
    using assms(2) size by (simp add: receive_body_def frame_simps world Let_def)
  with run show ?thesis by (simp add: receiveData_def)
qed


text \<open>A client in the state the worker threads run in.\<close>

definition running_client :: "(int \<times> bytes \<times> int) list \<Rightarrow> sample_world client" where
  "running_client script = sample_client script \<lparr>cl_started := True, cl_receiver := True, cl_sender := True,
     authSocket := \<lparr>sock_handle = 5, sock_status = 2\<rparr>, dataSocket := \<lparr>sock_handle = 5, sock_status = 2\<rparr>\<rparr>"

lemma isRunning_running [simp]: "isRunning (running_client script)"
  by (simp add: running_client_def isRunning_def)


text \<open>What one call of \<open>receiveData\<close> does to the client, for every behaviour of the system.\<close>

definition recv_effect ::
  "bool \<Rightarrow> 'w client \<Rightarrow> ClientError \<Rightarrow> packet option \<Rightarrow> 'w client \<Rightarrow> bool" where
  "recv_effect c s e p t \<longleftrightarrow>
     same_client (s\<lparr>receivedPackets := receivedPackets s @ (case p of None \<Rightarrow> [] | Some q \<Rightarrow> [q])\<rparr>) t \<and>
     (case p of
        None \<Rightarrow> e \<in> {CE_CONN_CLOSED, CW_MSG_SIZE, CE_RECV} \<or> (e = CW_TIMEOUT \<and> c) \<or> (e = CE_OK \<and> \<not> isRunning s)
      | Some q \<Rightarrow> isRunning s \<and> (e = CE_RECV_SIZE \<or>
          e = CE_OK \<and> getDataSize q = Done (of_nat (length (pk_data q)))))"

lemma create_raw_length: "create_raw bs n = Done q \<Longrightarrow> length (pk_data q) = n"
  by (auto simp: create_raw_def run_bind_Done_iff dest: read_bytes_length)

lemma receive_body_effect:
  assumes "receive_body os c s = Done (r, t)" and "isRunning s"
  shows "case r of Recv_Return e p \<Rightarrow> recv_effect c s e p t
    | Recv_Break q \<Rightarrow> recv_effect c s CE_OK (Some q) t | Recv_Continue \<Rightarrow> same_client s t \<and> isRunning t"
proof -
  obtain n bs w where n: "ws_recv os (sock_handle (dataSocket s)) NET_BUFFER_SIZE (os_world s) = (n, bs, w)"
    by (metis prod_cases3)
  let ?s = "s\<lparr>os_world := w\<rparr>"
  have sw: "same_client s ?s" by simp
  note intros = same_client_trans [OF sw same_client_log(2)] same_client_trans [OF sw same_client_wsa]
  show ?thesis
  proof (cases "0 < n")
    case True
    then obtain q k where q: "create_raw bs (nat n) = Done q" "getDataSize q = Done k"
        and rt: "(r, t) = (if k \<noteq> of_int n then (Recv_Return CE_RECV_SIZE (Some q), ?s\<lparr>receivedPackets := receivedPackets s @ [q]\<rparr>)
                  else (Recv_Break q, ?s\<lparr>receivedPackets := receivedPackets s @ [q]\<rparr>))"
      using assms(1) by (auto simp: receive_body_def n run_bind_Done_iff Let_def split: if_splits)
    have "same_client (s\<lparr>receivedPackets := receivedPackets s @ [q]\<rparr>) (?s\<lparr>receivedPackets := receivedPackets s @ [q]\<rparr>)"
      by (simp add: same_client_def)
    then show ?thesis
      using rt q(2) create_raw_length [OF q(1)] True assms(2)
      by (auto simp: recv_effect_def split: if_splits)
  next
    case False
    then show ?thesis
      using assms intros sw
      by (auto simp: receive_body_def n recv_effect_def isRunning_def Let_def split: if_splits)
  qed
qed

lemma receive_loop_effect:
  "receive_loop os c fuel s = Done (e, p, t) \<Longrightarrow> recv_effect c s e p t"
proof (induction fuel arbitrary: s)
  case (Suc fuel)
  show ?case
  proof (cases "isRunning s")
    case False
    with Suc.prems show ?thesis by (auto simp: recv_effect_def)
  next
    case True
    with Suc.prems obtain r u where b: "receive_body os c s = Done (r, u)"
        and n: "(case r of Recv_Return e dest \<Rightarrow> Done (e, dest, u) | Recv_Break dest \<Rightarrow> Done (CE_OK, Some dest, u)
          | Recv_Continue \<Rightarrow> receive_loop os c fuel u) = Done (e, p, t)"
      by (auto simp: run_bind_Done_iff)
    note eff = receive_body_effect [OF b True]
    show ?thesis
    proof (cases r)
      case Recv_Continue
      with eff have su: "same_client s u" and "isRunning u" by auto
      moreover from n Recv_Continue have "recv_effect c u e p t" by (auto intro: Suc.IH)
      moreover have sx: "same_client (s\<lparr>receivedPackets := receivedPackets s @ x\<rparr>) (u\<lparr>receivedPackets := receivedPackets u @ x\<rparr>)" for x
        by (rule same_clientI) (simp_all add: same_clientD [OF su])
      ultimately show ?thesis
        using True same_client_trans [OF su] same_client_trans [OF sx]
        by (cases p) (auto simp: recv_effect_def)
    qed (use eff n in auto)
  qed
qed simp

text \<open>
  Whatever the system does, a call of \<open>receiveData\<close> that returns has appended to
  \<open>receivedPackets\<close> exactly the packet it delivers, if any, and changed nothing else of the
  client; a time-out is reported only when asked for; CE_OK comes with a packet, unless the client
  was not running, and such a packet's size field equals the length of the whole message.
\<close>

theorem receiveData_effect:
  assumes "receiveData os fuel c s = Done (e, p, t)"
  shows "recv_effect c s e p t"
proof -
  have ss: "same_client s (setState Receive s)" by simp
  have "recv_effect c (setState Receive s) e p t"
    using assms unfolding receiveData_def by (rule receive_loop_effect)
  moreover have sx: "same_client (s\<lparr>receivedPackets := receivedPackets s @ x\<rparr>)
      ((setState Receive s)\<lparr>receivedPackets := receivedPackets (setState Receive s) @ x\<rparr>)" for x
    by (rule same_clientI) (simp_all add: frame_simps)
  moreover have "isRunning (setState Receive s) = isRunning s"
    using ss by (rule same_client_isRunning)
  ultimately show ?thesis
    using same_client_trans [OF ss] same_client_trans [OF sx]
    by (cases p) (auto simp: recv_effect_def)
qed

lemma receiveData_effect_witness:
  "recv_effect True (running_client [(-1, [], 10060)]) CW_TIMEOUT None
     ((setState Receive (running_client [(-1, [], 10060)]))\<lparr>os_world := (sample_world [])\<lparr>sw_error := 10060\<rparr>\<rparr>)"
  by (rule receiveData_effect [where os = sample_os and fuel = 1])
     (simp add: receiveData_def running_client_def isRunning_def receive_body_def sample_os_def sample_world_def
        setState_def WSAETIMEDOUT_def Let_def)

end
