(* ===== verification/ClientWorkers.thy ===== *)
theory ClientWorkers
  imports ClientProps
begin

text \<open>
  The two worker threads of the client and its shut-down: what one pass of the sender does with
  the queues, when the receiver ends, and what \<open>disconnect\<close> leaves behind.
\<close>

section \<open>The sender\<close>

text \<open>\<open>sends_ok os s p\<close>: the system accepts the packet on the data socket, in any state.\<close>

definition sends_ok :: "'w winsock \<Rightarrow> 'w client \<Rightarrow> packet \<Rightarrow> bool" where
  "sends_ok os s p \<longleftrightarrow> (\<forall>w. fst (ws_send os (sock_handle (dataSocket s)) (pk_data p) w) \<noteq> SOCKET_ERROR)"

lemma sendData_sent:
  assumes "sends_ok os s p"
  shows "\<exists>t. sendData os p s = (CE_OK, t\<lparr>sendedPackets := sendedPackets s @ [p]\<rparr>) \<and> same_client s t"
proof (cases rule: sendData_cases [of os p s])
  case (failed t)
  have "fst (sendData os p s) = CE_OK"
    using assms by (simp add: sendData_def Let_def split_beta send_packet_def sends_ok_def frame_simps)
  with failed show ?thesis by simp
qed blast

lemma handlePacketOut_sent:
  assumes "sends_ok os s p" and "isNeedACK p = Done a"
  shows "\<exists>t. handlePacketOut os p s = Done (if a then CW_NEED_ACK else CE_OK, t\<lparr>sendedPackets := sendedPackets s @ [p]\<rparr>) \<and>
    same_client s t"
  using sendData_sent [OF assms(1)] assms(2) by (auto simp: handlePacketOut_def code_tests)

text \<open>
  C8: The sender sends the wrong packets. When the main queue holds \<open>ps @ [p]\<close>, one run of the
  first loop sends the last packet once for every element of the queue and none of the others,
  which are removed unsent. (The loop takes \<open>back()\<close> and then calls \<open>pop()\<close>, which removes the
  front.) Only a queue of one packet is sent as intended.
\<close>

theorem drain_main_sends_last:
  assumes "mainPackets s = ps @ [p]" and "isNeedACK p = Done a" and "sends_ok os s p"
  shows "\<exists>t. drain_main os s = Done t \<and> mainPackets t = [] \<and>
    sendedPackets t = sendedPackets s @ replicate (Suc (length ps)) p \<and>
    syncPackets t = syncPackets s @ (if a then replicate (Suc (length ps)) p else [])"
  using assms
proof (induction ps arbitrary: s)
  case Nil
  from handlePacketOut_sent [OF Nil(3,2)] obtain t where t:
    "handlePacketOut os p s = Done (if a then CW_NEED_ACK else CE_OK, t\<lparr>sendedPackets := sendedPackets s @ [p]\<rparr>)"
    "same_client s t" by blast
  from Nil t same_clientD [OF t(2)] show ?case
    by (subst drain_main.simps) (simp add: drain_main.simps Let_def)
next
  case (Cons q ps)
  from handlePacketOut_sent [OF Cons.prems(3,2)] obtain t where t:
    "handlePacketOut os p s = Done (if a then CW_NEED_ACK else CE_OK, t\<lparr>sendedPackets := sendedPackets s @ [p]\<rparr>)"
    "same_client s t" by blast
  let ?v = "t\<lparr>sendedPackets := sendedPackets s @ [p]\<rparr>"
  let ?u = "(if a then ?v\<lparr>syncPackets := syncPackets s @ [p]\<rparr> else ?v)\<lparr>mainPackets := ps @ [p]\<rparr>"
  have "drain_main os s = drain_main os ?u"
    using Cons.prems(1) t(1) same_clientD [OF t(2)]
    by (subst drain_main.simps) (cases a, simp_all add: Let_def)
  moreover have "sends_ok os ?u p"
    using Cons.prems(3) by (simp add: sends_ok_def same_clientD [OF t(2)])
  ultimately show ?case
    using Cons.IH [of ?u] Cons.prems(2)
    by (auto simp: replicate_append_same [symmetric] same_clientD(7) [OF t(2)])
qed

lemma sends_ok_sample: "sock_handle (dataSocket s) \<noteq> INVALID_SOCKET \<Longrightarrow> sends_ok sample_os s p"
  by (simp add: sends_ok_def sample_os_def SOCKET_ERROR_def)

lemma isNeedACK_sample [simp]: "isNeedACK (sample_packet i t a d) = Done a"
  by (rule isNeedACK_header) simp

lemma running_client_simps [simp]:
  "dataSocket (running_client r) = \<lparr>sock_handle = 5, sock_status = 2\<rparr>"
  "mainPackets (running_client r) = []" "sendedPackets (running_client r) = []"
  "syncPackets (running_client r) = []" "receivedPackets (running_client r) = []" "os_world (running_client r) = sample_world r"
  by (simp_all add: running_client_def)

lemma drain_main_sends_last_witness:
  "\<exists>t. drain_main sample_os (running_client [] \<lparr>mainPackets := [sample_packet 0 DT_MSG False [65],
       sample_packet 1 DT_MSG False [66]]\<rparr>) = Done t \<and> mainPackets t = [] \<and>
     sendedPackets t = [sample_packet 1 DT_MSG False [66], sample_packet 1 DT_MSG False [66]] \<and> syncPackets t = []"
  using drain_main_sends_last [where ps = "[sample_packet 0 DT_MSG False [65]]" and p = "sample_packet 1 DT_MSG False [66]"
      and s = "running_client [] \<lparr>mainPackets := [sample_packet 0 DT_MSG False [65], sample_packet 1 DT_MSG False [66]]\<rparr>"
      and a = False and os = sample_os]
  by (simp add: sends_ok_sample INVALID_SOCKET_def)

lemma erase_at_middle: "length xs = i \<Longrightarrow> erase_at i (xs @ q # ys) = xs @ ys"
  by auto

lemma sync_pass_from:
  assumes "syncPackets s = kept @ todo" and "\<forall>q\<in>set todo. sends_ok os s q \<and> (\<exists>a. isNeedACK q = Done a)"
  shows "\<exists>t. sync_pass os (length kept) s = Done t \<and> mainPackets t = mainPackets s \<and>
    sendedPackets t = sendedPackets s @ todo \<and>
    syncPackets t = kept @ filter (\<lambda>q. isNeedACK q = Done True) todo"
  using assms
proof (induction todo arbitrary: kept s)
  case Nil
  then show ?case by (simp add: sync_pass.simps)
next
  case (Cons q todo)
  then obtain a where a: "sends_ok os s q" "isNeedACK q = Done a" by auto
  from handlePacketOut_sent [OF this] obtain t where t:
    "handlePacketOut os q s = Done (if a then CW_NEED_ACK else CE_OK, t\<lparr>sendedPackets := sendedPackets s @ [q]\<rparr>)"
    "same_client s t" by blast
  note fr = same_clientD [OF t(2)]
  let ?t = "t\<lparr>sendedPackets := sendedPackets s @ [q]\<rparr>"
  show ?case
  proof (cases a)
    case True
    have step: "sync_pass os (length kept) s = sync_pass os (length (kept @ [q])) ?t"
      using Cons.prems(1) t(1) True by (subst sync_pass.simps) simp
    have "\<forall>x\<in>set todo. sends_ok os ?t x \<and> (\<exists>a. isNeedACK x = Done a)"
      using Cons.prems(2) by (simp add: sends_ok_def fr)
    with Cons.IH [of ?t "kept @ [q]"] Cons.prems(1) show ?thesis
      unfolding step by (auto simp: fr a(2) True)
  next
    case False
    let ?u = "?t\<lparr>syncPackets := kept @ todo\<rparr>"
    have step: "sync_pass os (length kept) s = sync_pass os (length kept) ?u"
      using Cons.prems(1) t(1) False fr(7) by (subst sync_pass.simps) (simp add: erase_at_middle)
    have "\<forall>x\<in>set todo. sends_ok os ?u x \<and> (\<exists>a. isNeedACK x = Done a)"
      using Cons.prems(2) by (simp add: sends_ok_def fr)
    with Cons.IH [of ?u kept] show ?thesis
      unfolding step by (auto simp: fr a(2) False)
  qed
qed

text \<open>
  One pass over the unconfirmed packets, when the system accepts them: each is sent exactly
  once and in order, and exactly those that ask for an acknowledgement stay in the queue, in
  order; they are sent again in every pass until the acknowledgement arrives.
\<close>

theorem sync_pass_resends:
  assumes "\<forall>q\<in>set (syncPackets s). sends_ok os s q \<and> (\<exists>a. isNeedACK q = Done a)"
  shows "\<exists>t. sync_pass os 0 s = Done t \<and> mainPackets t = mainPackets s \<and>
    sendedPackets t = sendedPackets s @ syncPackets s \<and>
    syncPackets t = filter (\<lambda>q. isNeedACK q = Done True) (syncPackets s)"
  using sync_pass_from [of s "[]" "syncPackets s" os] assms by simp

lemma sync_pass_resends_witness:
  "\<exists>t. sync_pass sample_os 0 (running_client [] \<lparr>syncPackets := [sample_packet 0 DT_MSG True [65],
       sample_packet 1 DT_MSG False [66]]\<rparr>) = Done t \<and> mainPackets t = [] \<and>
     sendedPackets t = [sample_packet 0 DT_MSG True [65], sample_packet 1 DT_MSG False [66]] \<and>
     syncPackets t = [sample_packet 0 DT_MSG True [65]]"
  using sync_pass_resends [where os = sample_os and s = "running_client [] \<lparr>syncPackets :=
      [sample_packet 0 DT_MSG True [65], sample_packet 1 DT_MSG False [66]]\<rparr>"]
  by (auto simp: sends_ok_sample INVALID_SOCKET_def)

section \<open>The receiver\<close>

text \<open>
  The first well-formed packet from the server ends the receiver thread: it leaves its loop
  with CE_RECV_SIZE, shuts the data socket down for reading, and the client is then no longer
  running, so the sender stops as well.
\<close>

theorem receiver_stops_on_wellformed:
  assumes "isRunning s"
    and "ws_recv os (sock_handle (dataSocket s)) NET_BUFFER_SIZE (os_world s) =
      (int (length bs), bs, w)"
    and "bs = header_bytes i t a n @ d" and "length d = unat n" and "17 + unat n \<le> NET_BUFFER_SIZE"
    and "sock_handle (dataSocket s) \<noteq> INVALID_SOCKET"
    and "\<forall>w. fst (ws_shutdown os (sock_handle (dataSocket s)) SD_RECEIVE w) \<noteq> SOCKET_ERROR"
  shows "\<exists>u. receiverThread os (Suc (Suc fuel)) s = Done u \<and> \<not> isRunning u \<and>
    receivedPackets u = receivedPackets s @ [parsePacket bs]"
proof -
  let ?s = "setThreadDesc ''[Receiver]'' s"
  let ?r = "(setState Receive ?s)\<lparr>os_world := w, receivedPackets := receivedPackets s @ [parsePacket bs]\<rparr>"
  have run: "isRunning ?s"
    using assms(1) by (simp add: isRunning_def frame_simps)
  have "receiveData os (Suc fuel) False ?s = Done (CE_RECV_SIZE, Some (parsePacket bs), ?r)"
    using receiveData_wellformed_rejected [OF run, of os bs w i t a n d fuel False] assms(2-5)
    by (simp add: setThreadDesc_def)
  then have loop: "receiver_loop os (Suc (Suc fuel)) CE_OK ?s = Done (CE_RECV_SIZE, ?r)"
    using run by (simp add: handlePacketIn_def code_tests)
  let ?v = "setState Shutdown ?r"
  have v: "dataSocket ?v = dataSocket s" by (simp add: frame_simps)
  have st: "sock_status (dataSocket s) = 2"
    using assms(1) by (simp add: isRunning_def)
  obtain y where "sock_shutdown os SD_RECEIVE (dataSocket s) ?v =
      (CE_OK, (dataSocket s)\<lparr>sock_status := 1\<rparr>, ?v\<lparr>os_world := y\<rparr>)"
    using assms(6,7) st by (simp add: sock_shutdown_def syscall_def split_beta)
  then have "receiverThread os (Suc (Suc fuel)) s =
      Done (colored CC_InfoHL ''Receiver thread closed'' [] (?v\<lparr>os_world := y, dataSocket := (dataSocket s)\<lparr>sock_status := 1\<rparr>\<rparr>))"
    unfolding receiverThread_def Let_def loop run_bind.simps prod.case
    by (simp add: code_tests v)
  then show ?thesis by (simp add: isRunning_def frame_simps)
qed

lemma receiver_stops_on_wellformed_witness:
  "\<exists>u. receiverThread sample_os (Suc (Suc 0)) (running_client [(18, header_bytes 1 DT_MSG False 1 @ [72], 0)]) = Done u \<and>
     \<not> isRunning u \<and> receivedPackets u = [parsePacket (header_bytes 1 DT_MSG False 1 @ [72])]"
  using receiver_stops_on_wellformed
    [of "running_client [(18, header_bytes 1 DT_MSG False 1 @ [72], 0)]" sample_os
        "header_bytes 1 DT_MSG False 1 @ [72]" "sample_world []" 1 DT_MSG False 1 "[72]" 0]
  by (simp add: sample_world_def NET_BUFFER_SIZE_def INVALID_SOCKET_def SOCKET_ERROR_def)

section \<open>Disconnecting\<close>

text \<open>
  After \<open>disconnect\<close> of a started client every queue is empty, neither thread is joinable and
  the client is stopped, whatever the threads did before they ended, as long as they do not set
  \<open>started\<close>; and a second \<open>disconnect\<close> does nothing.
\<close>

theorem disconnect_clears:
  assumes "cl_started s"
    and "\<forall>s. cl_started (jr s) = cl_started s" and "\<forall>s. cl_started (js s) = cl_started s"
    and "\<forall>s. cl_receiver (js s) = cl_receiver s" and "\<forall>s. cl_sender (jr s) = cl_sender s"
    and "t = client_disconnect os jr js s"
  shows "\<not> cl_started t \<and> \<not> isRunning t \<and> \<not> cl_receiver t \<and> \<not> cl_sender t \<and> receivedPackets t = [] \<and>
    sendedPackets t = [] \<and> mainPackets t = [] \<and> syncPackets t = [] \<and>
    client_disconnect os jr js t = t"
proof -
  define s1 where "s1 = s\<lparr>cl_started := False\<rparr>"
  define s2 where "s2 = (if cl_receiver s1 then (jr s1)\<lparr>cl_receiver := False\<rparr> else s1)"
  define s3 where "s3 = (if cl_sender s2 then (js s2)\<lparr>cl_sender := False\<rparr> else s2)"
  have s3: "\<not> cl_started s3" "\<not> cl_receiver s3" "\<not> cl_sender s3"
    using assms(2-5) by (auto simp: s1_def s2_def s3_def)
  have t: "\<not> cl_started t" "\<not> cl_receiver t" "\<not> cl_sender t" "receivedPackets t = []"
     "sendedPackets t = []" "mainPackets t = []" "syncPackets t = []"
    unfolding assms(6) client_disconnect_def Let_def s1_def [symmetric] s2_def [symmetric] s3_def [symmetric]
    using assms(1) s3 by (simp_all add: split_beta frame_simps)
  moreover have "client_disconnect os jr js t = t"
    using t(1) by (simp add: client_disconnect_def)
  ultimately show ?thesis by (simp add: isRunning_def)
qed

lemma disconnect_clears_witness:
  "\<not> isRunning (client_disconnect sample_os id id (running_client []))"
  using disconnect_clears [of "running_client []" id id _ sample_os]
  by (simp add: running_client_def)

end
