(* ===== verification/ClientMain.thy ===== *)
theory ClientMain
  imports ClientWorkers
begin

text \<open>
  Client/main.cpp: the login dialogue, the reconnection loop and the command loop. \<open>env\<close> is what
  the worker threads do to the client between two iterations of the command loop, \<open>jr\<close> and
  \<open>js\<close> what they do while \<open>disconnect\<close> waits for them. \<open>fuel\<close> bounds every loop.
\<close>

definition AUTH_PORT :: port where "AUTH_PORT = 27010"
definition DATA_PORT :: port where "DATA_PORT = 27011"
definition SERVER_IP :: string where "SERVER_IP = ''192.168.0.12''"
definition UINT8_MAX :: nat where "UINT8_MAX = 255"

fun login_loop :: "nat \<Rightarrow> 'w client \<Rightarrow> (string \<times> string \<times> 'w client) run" where
  "login_loop 0 s = Out_Of_Fuel"
| "login_loop (Suc fuel) s =
     (let s = raw ''Please type the login: '' s;
          (login, s) = cin_word s;
          s = cin_ignore s in
      if length login \<ge> UINT8_MAX then
        login_loop fuel (raw_colored CC_WarningHL ''Too long login. Please retry'' s)
      else let s = raw ''Please type the password: '' s;
               (pass, s) = cin_word s;
               s = cin_ignore s in
        if length pass \<ge> UINT8_MAX then
          login_loop fuel (raw_colored CC_WarningHL ''Too long password. Please retry'' s)
        else Done (login, pass, s))"

text \<open>The loop over typed commands; \<open>True\<close> when the user closed the client.\<close>

fun command_loop ::
  "'w winsock \<Rightarrow> ('w client \<Rightarrow> 'w client) \<Rightarrow> ('w client \<Rightarrow> 'w client) \<Rightarrow> ('w client \<Rightarrow> 'w client) \<Rightarrow>
   nat \<Rightarrow> 'w client \<Rightarrow> (bool \<times> 'w client) run" where
  "command_loop os env jr js 0 s = Out_Of_Fuel"
| "command_loop os env jr js (Suc fuel) s =
     (let s = env s in
      if \<not> isRunning s then Done (False, s)
      else let (cmd, s) = cin_word s;
               s = cin_ignore s in
        if cmd = ''send'' then
          let s = raw_colored CC_Info ''Please type the data you want to send'' s;
              (cmd, s) = cin_getline s in
          run_bind (create DT_MSG (to_bytes cmd) (of_nat (length cmd)) False s) (\<lambda>(p, s).
            command_loop os env jr js fuel (cl_sendPacket p s))
        else if cmd = ''commands'' then
          command_loop os env jr js fuel (client_printCommandsList s)
        else if cmd = ''close'' then Done (True, client_disconnect os jr js s)
        else command_loop os env jr js fuel s)"

fun connect_loop ::
  "'w winsock \<Rightarrow> ('w client \<Rightarrow> 'w client) \<Rightarrow> ('w client \<Rightarrow> 'w client) \<Rightarrow> ('w client \<Rightarrow> 'w client) \<Rightarrow>
   nat \<Rightarrow> bytes \<Rightarrow> bytes \<Rightarrow> u8 \<Rightarrow> 'w client \<Rightarrow> (bool \<times> u8 \<times> 'w client) run" where
  "connect_loop os env jr js 0 login pass ctr s = Out_Of_Fuel"
| "connect_loop os env jr js (Suc fuel) login pass ctr s =
     (if \<not> ctr \<le> 5 then Done (False, ctr, s)
      else let s = colored CC_InfoHL ''%d connect to the server...'' [FInt (uint ctr)] s in
        run_bind (client_init os fuel login pass SERVER_IP AUTH_PORT DATA_PORT s) (\<lambda>(err, s).
          if ce_code err \<noteq> 0 then connect_loop os env jr js fuel login pass (ctr + 1) s
          else run_bind (command_loop os env jr js fuel (client_printCommandsList s)) (\<lambda>(closed, s).
            if closed then Done (True, ctr, s)
            else if \<not> isRunning s then
              connect_loop os env jr js fuel login pass (ctr + 1) (client_disconnect os jr js s)
            else connect_loop os env jr js fuel login pass ctr s)))"

definition client_start ::
  "'w winsock \<Rightarrow> ('w client \<Rightarrow> 'w client) \<Rightarrow> ('w client \<Rightarrow> 'w client) \<Rightarrow> ('w client \<Rightarrow> 'w client) \<Rightarrow>
   nat \<Rightarrow> 'w client \<Rightarrow> (ClientError \<times> 'w client) run" where
  "client_start os env jr js fuel s =
     run_bind (login_loop fuel s) (\<lambda>(login, pass, s).
     run_bind (connect_loop os env jr js fuel (to_bytes login) (to_bytes pass) 1 s) (\<lambda>(closed, ctr, s).
       if closed then Done (CE_OK, s)
       else let s = (if ctr > 5 then raw_colored CC_DangerHL
                       ''Too many connection attempts. Contact the developers'' s else s)
         in Done (CE_OK, s)))"

definition client_main ::
  "'w winsock \<Rightarrow> ('w client \<Rightarrow> 'w client) \<Rightarrow> ('w client \<Rightarrow> 'w client) \<Rightarrow> ('w client \<Rightarrow> 'w client) \<Rightarrow>
   nat \<Rightarrow> 'w client \<Rightarrow> (int \<times> 'w client) run" where
  "client_main os env jr js fuel s =
     run_bind (client_start os env jr js fuel (setThreadDesc ''[main]'' s)) (\<lambda>(err, s).
       let s = (if ce_error err then colored CC_DangerHL ''Client creating failed - error: %d''
                  [FInt (ce_code err)] s else s);
           s = raw_colored CC_InfoHL ''Press any button to end execution of client'' s;
           (_, s) = cin_word s
       in Done (0, s))"

section \<open>The login dialogue\<close>

lemma login_loop_result:
  "login_loop fuel s = Done (l, p, t) \<Longrightarrow> length l < 255 \<and> length p < 255 \<and> dataSocket t = dataSocket s \<and>
     cl_receiver t = cl_receiver s \<and> cl_sender t = cl_sender s"
proof (induction fuel arbitrary: s)
  case (Suc fuel)
  then show ?case
    by (fastforce simp: Let_def cin_word_def cin_ignore_def UINT8_MAX_def frame_simps
        split: if_splits prod.splits)
qed simp

text \<open>
  A login that the dialogue accepts is shorter than 255 characters, so the cast to
  \<open>uint8_t\<close> keeps its length; but the five-bit field of the authorisation packet announces the true
  length only for logins below 32 characters (and never LOGIN_MAX_SIZE itself).
\<close>

theorem login_size_field:
  assumes "login_loop fuel s = Done (login, pass, t)"
  shows "unat (of_nat (length login) :: u8) = length login \<and>
    (unat (ca_loginSize (ClientAuthHeader_of (ClientAuthHeader_bytes
        \<lparr>ca_loginSize = of_nat (length login), ca_passSize = of_nat (length pass)\<rparr>))) = length login
      \<longleftrightarrow> length login < unat LOGIN_MAX_SIZE)"
proof -
  have len: "length login < 256"
    using login_loop_result [OF assms] by simp
  then have "unat (of_nat (length login) :: u8) = length login"
    by (simp add: unat_of_nat take_bit_nat_eq_self)
  moreover have "unat (take_bit 5 (of_nat (length login) :: u8)) = length login mod 32"
    using len by (simp only: unsigned_take_bit_eq unat_of_nat) (simp add: take_bit_eq_mod mod_mod_cancel)
  moreover have "unat LOGIN_MAX_SIZE = 32"
    by (simp add: LOGIN_MAX_SIZE_def LOGIN_BITCNT_def push_bit_eq_mult)
  moreover have "length login mod 32 = length login \<longleftrightarrow> length login < 32"
    by (metis mod_less mod_less_divisor zero_less_numeral)
  ultimately show ?thesis
    by (simp add: ClientAuthHeader_bytes_def)
qed

lemma login_size_field_witness:
  "unat (of_nat (length ''bob'') :: u8) = length ''bob'' \<and>
   (unat (ca_loginSize (ClientAuthHeader_of (ClientAuthHeader_bytes
      \<lparr>ca_loginSize = of_nat (length ''bob''), ca_passSize = of_nat (length ''pw'')\<rparr>))) = length ''bob'' \<longleftrightarrow> length ''bob'' < unat LOGIN_MAX_SIZE)"
proof -
  have "\<exists>t. login_loop 1 (sample_client [] \<lparr>std_in := ''bob pw ''\<rparr>) = Done (''bob'', ''pw'', t)"
    by (simp add: cin_word_def cin_ignore_def is_space_def UINT8_MAX_def frame_simps Let_def)
  then obtain t where "login_loop 1 (sample_client [] \<lparr>std_in := ''bob pw ''\<rparr>) = Done (''bob'', ''pw'', t)" ..
  from login_size_field [OF this] show ?thesis .
qed

section \<open>Reconnection\<close>

lemma connect_loop_gives_up:
  assumes "sock_status (dataSocket s) \<noteq> 2" "\<not> cl_receiver s" "\<not> cl_sender s"
    and "k \<le> 5" and "ctr = of_nat (6 - k)" and "Suc k < fuel"
  shows "\<exists>t. connect_loop os env jr js fuel login pass ctr s = Done (False, 6, t) \<and>
    dataSocket t = dataSocket s \<and> \<not> cl_receiver t \<and> \<not> cl_sender t"
  using assms
proof (induction k arbitrary: s ctr fuel)
  case 0
  then obtain f where "fuel = Suc f" by (cases fuel) auto
  with 0 show ?case by (simp add: word_le_nat_alt)
next
  case (Suc k)
  then obtain f where f: "fuel = Suc f" "Suc k < f" by (cases fuel) auto
  let ?s = "colored CC_InfoHL ''%d connect to the server...'' [FInt (uint ctr)] s"
  have "sock_status (dataSocket ?s) \<noteq> 2" using Suc.prems(1) by (simp add: frame_simps)
  from client_init_fails [OF this, of f os login pass SERVER_IP AUTH_PORT DATA_PORT] f(2)
  obtain e t where i: "client_init os f login pass SERVER_IP AUTH_PORT DATA_PORT ?s = Done (e, t)"
      "e \<noteq> CE_OK" "dataSocket t = dataSocket s" "cl_receiver t = cl_receiver s" "cl_sender t = cl_sender s"
    by (auto simp: frame_simps)
  have "ce_code e \<noteq> 0" using i(2) ce_code_inj [of e CE_OK] by auto
  moreover have "ctr \<le> 5"
  proof -
    have "unat ctr = 6 - Suc k"
      using Suc.prems(5) by (simp add: unat_of_nat take_bit_nat_eq_self)
    then show ?thesis by (simp add: word_le_nat_alt)
  qed
  ultimately have step: "connect_loop os env jr js fuel login pass ctr s =
      connect_loop os env jr js f login pass (ctr + 1) t"
    using i(1) f(1) by simp
  have "ctr + 1 = of_nat (6 - k)"
    using Suc.prems(4,5) by (simp add: of_nat_diff)
  with Suc.IH [of t "ctr + 1" f] Suc.prems(1-4) i f(2) show ?case
    unfolding step by auto
qed



end
