(* ===== verification/ConnTypes.thy ===== *)
theory ConnTypes
  imports ClientMain
begin

text \<open>
  Server/ConnectedClient.h: the state the server keeps for one connected client, its getters and
  setters and \<open>setState\<close>. A \<open>ConnectedClient\<close> shares the process with the server, so its
  operations take the record \<open>conn\<close> and the host state and return both. The two
  \<open>std::thread\<close> members are represented by whether they are joinable. The member
  \<open>clientDesc\<close> is never written (the constructor's parameter hides it) and never read, so it is left out.
\<close>

datatype ConnState =
    FirstHandshake | SecondHandshake | HelloSending | HelloReceiving
  | Conn_Send | Conn_Receive | Conn_Shutdown | Conn_CloseSocket

record conn =
  cc_receivedPackets :: "packet list"
  cc_sendedPackets :: "packet list"
  cc_mainPackets :: "packet list"
  cc_syncPackets :: "packet list"
  readSocket :: SOCKET
  writeSocket :: SOCKET
  cc_receiver :: bool
  cc_sender :: bool
  cc_started :: bool
  cc_disconnected :: bool
  cc_ID :: u16
  cc_IP :: u32
  readPort :: int
  writePort :: int
  cc_login :: string
  cc_loginHash :: u32
  cc_state :: ConnState
  cc_IP_str :: string
  cc_host :: string

definition cc_isRunning :: "conn \<Rightarrow> bool" where
  "cc_isRunning c \<longleftrightarrow> cc_started c \<and> readSocket c \<noteq> INVALID_SOCKET \<and> writeSocket c \<noteq> INVALID_SOCKET"

definition isDisconnected :: "conn \<Rightarrow> bool" where
  "isDisconnected c \<longleftrightarrow> cc_disconnected c"

definition getPort :: "bool \<Rightarrow> conn \<Rightarrow> int" where
  "getPort isReadPort c = (if isReadPort then readPort c else writePort c)"

definition getSocket :: "bool \<Rightarrow> conn \<Rightarrow> SOCKET" where
  "getSocket isReadSocket c = (if isReadSocket then readSocket c else writeSocket c)"

definition setPort :: "bool \<Rightarrow> int \<Rightarrow> conn \<Rightarrow> conn" where
  "setPort isReadPort p c = (if isReadPort then c\<lparr>readPort := p\<rparr> else c\<lparr>writePort := p\<rparr>)"

definition setSocket :: "bool \<Rightarrow> SOCKET \<Rightarrow> conn \<Rightarrow> conn" where
  "setSocket isReadSocket k c = (if isReadSocket then c\<lparr>readSocket := k\<rparr> else c\<lparr>writeSocket := k\<rparr>)"

text \<open>\<open>sendPacket\<close> ignores a null pointer.\<close>

definition cc_sendPacket :: "packet option \<Rightarrow> conn \<Rightarrow> conn" where
  "cc_sendPacket p c = (case p of None \<Rightarrow> c | Some p \<Rightarrow> c\<lparr>cc_mainPackets := cc_mainPackets c @ [p]\<rparr>)"

definition resetSocketsAndPorts :: "conn \<Rightarrow> conn" where
  "resetSocketsAndPorts c =
     c\<lparr>readSocket := INVALID_SOCKET, writeSocket := INVALID_SOCKET, readPort := -1, writePort := -1\<rparr>"

fun cc_state_desc :: "ConnState \<Rightarrow> string" where
  "cc_state_desc FirstHandshake = ''FirstHandshake''"
| "cc_state_desc SecondHandshake = ''SecondHandshake''"
| "cc_state_desc HelloSending = ''HelloSending''"
| "cc_state_desc HelloReceiving = ''HelloReceiving''"
| "cc_state_desc Conn_Send = ''Send''"
| "cc_state_desc Conn_Receive = ''Receive''"
| "cc_state_desc Conn_Shutdown = ''Shutdown''"
| "cc_state_desc Conn_CloseSocket = ''CloseSocket''"

definition cc_setState ::
  "ConnState \<Rightarrow> conn \<Rightarrow> ('w, 'z) host_scheme \<Rightarrow> conn \<times> ('w, 'z) host_scheme" where
  "cc_setState st c s =
     (c\<lparr>cc_state := st\<rparr>,
      if debug_build s then colored CC_Info ''State changed to: %s'' [FStr (cc_state_desc st)] s else s)"

section \<open>Frames\<close>

text \<open>
  \<open>same_host s t\<close>: the hosts agree on everything but the console and the system's state.
  \<open>same_conn c d\<close>: the clients agree on everything but \<open>state\<close>, which is never read.
\<close>

definition same_host :: "('w, 'z) host_scheme \<Rightarrow> ('w, 'z) host_scheme \<Rightarrow> bool" where
  "same_host s t \<longleftrightarrow> t = s\<lparr>os_world := os_world t, con_out := con_out t, con_desc := con_desc t,
     bad_format := bad_format t\<rparr>"

lemma same_host_refl [simp]: "same_host s s"
  by (simp add: same_host_def)

lemma same_hostD:
  assumes "same_host s t"
  shows "next_packet_id t = next_packet_id s" "std_in t = std_in s" "debug_build t = debug_build s"
    "cur_thread t = cur_thread s" "host.more t = host.more s"
  by (subst assms [unfolded same_host_def], simp)+

lemma same_hostI:
  assumes "next_packet_id t = next_packet_id s" "std_in t = std_in s" "debug_build t = debug_build s"
    "cur_thread t = cur_thread s" "host.more t = host.more s"
  shows "same_host s t"
  using assms by (simp add: same_host_def)

lemma same_host_trans [trans]: "same_host s t \<Longrightarrow> same_host t u \<Longrightarrow> same_host s u"
  by (rule same_hostI) (simp_all add: same_hostD)

lemma same_host_log [simp]:
  "same_host s (raw str s)"
  "same_host s (raw_colored col str s)"
  "same_host s (colored col fmt args s)"
  "same_host s (wsa_print_err os fn l s)"
  "same_host s (setThreadDesc d s)"
  "same_host s (setThreadDescID d i s)"
  "same_host s (s\<lparr>os_world := w\<rparr>)"
  "same_host s (snd (cc_setState st c s))"
  "same_host s (snd (syscall call s))"
proof -
  show "same_host s (wsa_print_err os fn l s)"
    by (subst wsa_print_err_upd) (simp add: same_host_def)
qed (simp_all add: same_host_def log_upds setThreadDesc_def setThreadDescID_def flag_format_def
      cc_setState_def split: option.split)

lemmas same_host_trans_log =
  same_host_trans [OF _ same_host_log(1)] same_host_trans [OF _ same_host_log(2)]
  same_host_trans [OF _ same_host_log(3)] same_host_trans [OF _ same_host_log(4)]
  same_host_trans [OF _ same_host_log(5)] same_host_trans [OF _ same_host_log(6)]
  same_host_trans [OF _ same_host_log(7)] same_host_trans [OF _ same_host_log(8)]
  same_host_trans [OF _ same_host_log(9)]

definition same_conn :: "conn \<Rightarrow> conn \<Rightarrow> bool" where
  "same_conn c d \<longleftrightarrow> d = c\<lparr>cc_state := cc_state d\<rparr>"

lemma same_conn_refl [simp]: "same_conn c c"
  by (simp add: same_conn_def)

lemma same_connD:
  assumes "same_conn c d"
  shows "cc_receivedPackets d = cc_receivedPackets c" "cc_sendedPackets d = cc_sendedPackets c"
    "cc_mainPackets d = cc_mainPackets c" "cc_syncPackets d = cc_syncPackets c"
    "readSocket d = readSocket c" "writeSocket d = writeSocket c"
    "cc_receiver d = cc_receiver c" "cc_sender d = cc_sender c"
    "cc_started d = cc_started c" "cc_disconnected d = cc_disconnected c" "cc_ID d = cc_ID c"
    "cc_isRunning d = cc_isRunning c"
  by (subst assms [unfolded same_conn_def], simp add: cc_isRunning_def)+

lemma same_conn_setState [simp]: "same_conn c (c\<lparr>cc_state := st\<rparr>)"
  by (simp add: same_conn_def)

lemma same_conn_trans [trans]: "same_conn c d \<Longrightarrow> same_conn d e \<Longrightarrow> same_conn c e"
  unfolding same_conn_def by (metis conn.surjective conn.update_convs(17))

lemma cc_isRunning_simps [simp]:
  "cc_isRunning (c\<lparr>cc_state := st\<rparr>) = cc_isRunning c"
  "cc_isRunning (c\<lparr>cc_receivedPackets := ps\<rparr>) = cc_isRunning c"
  "cc_isRunning (c\<lparr>cc_sendedPackets := ps\<rparr>) = cc_isRunning c"
  "cc_isRunning (c\<lparr>cc_mainPackets := ps\<rparr>) = cc_isRunning c"
  "cc_isRunning (c\<lparr>cc_syncPackets := ps\<rparr>) = cc_isRunning c"
  by (simp_all add: cc_isRunning_def)

end
