(* ===== verification/ConnClient.thy ===== *)
theory ConnClient
  imports ConnTypes
begin

text \<open>
  Server/ConnectedClient.cpp and the factory of Server/ConnectedClient.h: creation, sending and
  receiving, the two worker threads, disconnection and printing. The error codes are the plain
  integers of the source. \<open>Packet::send\<close> takes a \<open>Socket&\<close> and is given a \<open>SOCKET\<close> in
  \<open>sendData\<close>; it is modelled on the raw handle, which is what that call means.
\<close>

section \<open>Creation\<close>

text \<open>\<open>loginHash\<close> and \<open>state\<close> are not initialised: \<open>junk\<close> and \<open>st\<close> are what they hold.\<close>

definition cc_new ::
  "'w winsock \<Rightarrow> u32 \<Rightarrow> ConnState \<Rightarrow> u16 \<Rightarrow> u32 \<Rightarrow> ('w, 'z) host_scheme \<Rightarrow> conn \<times> ('w, 'z) host_scheme" where
  "cc_new os junk st ID addr s =
     (let c = \<lparr>cc_receivedPackets = [], cc_sendedPackets = [], cc_mainPackets = [], cc_syncPackets = [],
          readSocket = INVALID_SOCKET, writeSocket = INVALID_SOCKET, cc_receiver = False, cc_sender = False,
          cc_started = False, cc_disconnected = True, cc_ID = ID, cc_IP = addr, readPort = -1, writePort = -1,
          cc_login = [], cc_loginHash = junk, cc_state = st,
          cc_IP_str = ws_inet_ntop os addr, cc_host = ws_hostname os addr (os_world s)\<rparr>
      in (c, colored CC_InfoHL ''Client %d (IP: %s, host: %s) connected!''
               [FInt (uint ID), FStr (cc_IP_str c), FStr (cc_host c)] s))"

text \<open>Assigning to a \<open>std::thread\<close> that is still joinable terminates the program.\<close>

definition cc_createThreads :: "conn \<Rightarrow> conn run" where
  "cc_createThreads c =
     (let c = c\<lparr>cc_started := True, cc_disconnected := False\<rparr> in
      if cc_receiver c then Fault Terminate
      else let c = c\<lparr>cc_receiver := True\<rparr> in
        if cc_sender c then Fault Terminate else Done (c\<lparr>cc_sender := True\<rparr>))"

section \<open>Disconnection\<close>

text \<open>
  \<open>jr\<close> and \<open>js\<close>: the effect of the rest of the run of the receiver and the sender thread while
  \<open>disconnect\<close> waits for it.
\<close>

definition cc_disconnect ::
  "(conn \<times> ('w, 'z) host_scheme \<Rightarrow> conn \<times> ('w, 'z) host_scheme) \<Rightarrow>
   (conn \<times> ('w, 'z) host_scheme \<Rightarrow> conn \<times> ('w, 'z) host_scheme) \<Rightarrow>
   conn \<Rightarrow> ('w, 'z) host_scheme \<Rightarrow> bool \<times> conn \<times> ('w, 'z) host_scheme" where
  "cc_disconnect jr js c s =
     (if \<not> cc_started c \<or> cc_disconnected c then (False, c, s)
      else
        let c = c\<lparr>cc_started := False\<rparr>;
            (c, s) = (if cc_receiver c then (let (c, s) = jr (c, s) in (c\<lparr>cc_receiver := False\<rparr>, s)) else (c, s));
            (c, s) = (if cc_sender c then (let (c, s) = js (c, s) in (c\<lparr>cc_sender := False\<rparr>, s)) else (c, s));
            c = c\<lparr>cc_receivedPackets := [], cc_sendedPackets := [], cc_syncPackets := []\<rparr>;
            c = c\<lparr>cc_mainPackets := []\<rparr>;
            s = colored CC_InfoHL ''Connected client %d was stopped'' [FInt (uint (cc_ID c))] s
        in (True, c\<lparr>cc_disconnected := True\<rparr>, s))"

text \<open>The destructor; destroying a joinable \<open>std::thread\<close> terminates the program.\<close>

definition cc_destroy ::
  "(conn \<times> ('w, 'z) host_scheme \<Rightarrow> conn \<times> ('w, 'z) host_scheme) \<Rightarrow>
   (conn \<times> ('w, 'z) host_scheme \<Rightarrow> conn \<times> ('w, 'z) host_scheme) \<Rightarrow>
   conn \<Rightarrow> ('w, 'z) host_scheme \<Rightarrow> ('w, 'z) host_scheme run" where
  "cc_destroy jr js c s =
     (let (_, c, s) = cc_disconnect jr js c s in
      if cc_receiver c \<or> cc_sender c then Fault Terminate else Done s)"

section \<open>Packet handlers\<close>

definition log_packet ::
  "packet \<Rightarrow> conn \<Rightarrow> ('w, 'z) host_scheme \<Rightarrow> (int \<times> conn \<times> ('w, 'z) host_scheme) run" where
  "log_packet p c s = run_bind (getDataSize p) (\<lambda>n. run_bind (getData p (unat n)) (\<lambda>d.
     Done (0, c, raw_colored CC_InfoHL (to_text d) s)))"

definition ack_handler ::
  "packet \<Rightarrow> conn \<Rightarrow> ('w, 'z) host_scheme \<Rightarrow> (int \<times> conn \<times> ('w, 'z) host_scheme) run" where
  "ack_handler p c s = log_packet p c s"

definition any_packet_handler ::
  "packet \<Rightarrow> conn \<Rightarrow> ('w, 'z) host_scheme \<Rightarrow> (int \<times> conn \<times> ('w, 'z) host_scheme) run" where
  "any_packet_handler p c s = log_packet p c s"

section \<open>Receiving and sending\<close>

datatype cc_next = CC_Return int | CC_Break packet | CC_Continue

definition cc_receive_body ::
  "'w winsock \<Rightarrow> bool \<Rightarrow> conn \<Rightarrow> ('w, 'z) host_scheme \<Rightarrow> (cc_next \<times> conn \<times> ('w, 'z) host_scheme) run" where
  "cc_receive_body os closeAfterTimeout c s =
     (let (respSize, respBuff, w) = ws_recv os (readSocket c) NET_BUFFER_SIZE (os_world s);
          s = s\<lparr>os_world := w\<rparr> in
      if respSize > 0 then
        run_bind (create_raw respBuff (nat respSize)) (\<lambda>dest.
          Done (CC_Break dest, c\<lparr>cc_receivedPackets := cc_receivedPackets c @ [dest]\<rparr>, s))
      else if respSize = 0 then Done (CC_Return 1, c, raw_colored CC_InfoHL ''Connection closed'' s)
      else let err = ws_last_error os (os_world s) in
        if err = WSAETIMEDOUT then
          (if closeAfterTimeout then Done (CC_Return (-1), c, s) else Done (CC_Continue, c, s))
        else if err = WSAEMSGSIZE then
          Done (CC_Return (-2), c, raw_colored CC_WarningHL
            ''The size of received packet is larger than the buffer size!'' s)
        else if err = WSAECONNRESET \<or> err = WSAECONNABORTED then
          Done (CC_Return 2, c, raw_colored CC_InfoHL ''Connection closed'' s)
        else Done (CC_Return 3, c, wsa_print_err os ''ConnectedClient.cpp'' 323 s))"

fun cc_receive_loop ::
  "'w winsock \<Rightarrow> bool \<Rightarrow> nat \<Rightarrow> conn \<Rightarrow> ('w, 'z) host_scheme \<Rightarrow>
   (int \<times> packet option \<times> conn \<times> ('w, 'z) host_scheme) run" where
  "cc_receive_loop os close 0 c s = Out_Of_Fuel"
| "cc_receive_loop os close (Suc fuel) c s =
     (if \<not> cc_isRunning c then Done (0, None, c, s)
      else run_bind (cc_receive_body os close c s) (\<lambda>(r, c, s). case r of
          CC_Return e \<Rightarrow> Done (e, None, c, s)
        | CC_Break dest \<Rightarrow> Done (0, Some dest, c, s)
        | CC_Continue \<Rightarrow> cc_receive_loop os close fuel c s))"

definition cc_receiveData ::
  "'w winsock \<Rightarrow> nat \<Rightarrow> bool \<Rightarrow> conn \<Rightarrow> ('w, 'z) host_scheme \<Rightarrow>
   (int \<times> packet option \<times> conn \<times> ('w, 'z) host_scheme) run" where
  "cc_receiveData os fuel close c s =
     (let (c, s) = cc_setState Conn_Receive c s in cc_receive_loop os close fuel c s)"

definition cc_sendData ::
  "'w winsock \<Rightarrow> packet \<Rightarrow> conn \<Rightarrow> ('w, 'z) host_scheme \<Rightarrow> int \<times> conn \<times> ('w, 'z) host_scheme" where
  "cc_sendData os p c s =
     (let (c, s) = cc_setState Conn_Send c s;
          (r, s) = syscall (send_packet os (writeSocket c) p) s in
      if r = SOCKET_ERROR then (1, c, wsa_print_err os ''ConnectedClient.cpp'' 338 s)
      else (0, c\<lparr>cc_sendedPackets := cc_sendedPackets c @ [p]\<rparr>, s))"

definition cc_handlePacketIn ::
  "'w winsock \<Rightarrow> nat \<Rightarrow> (packet \<Rightarrow> conn \<Rightarrow> ('w, 'z) host_scheme \<Rightarrow> (int \<times> conn \<times> ('w, 'z) host_scheme) run) \<Rightarrow>
   bool \<Rightarrow> conn \<Rightarrow> ('w, 'z) host_scheme \<Rightarrow> (int \<times> conn \<times> ('w, 'z) host_scheme) run" where
  "cc_handlePacketIn os fuel handler close c s =
     run_bind (cc_receiveData os fuel close c s) (\<lambda>(err, packet, c, s).
       if is_error err then Done (err, c, s)
       else case packet of None \<Rightarrow> Done (-1, c, s) | Some p \<Rightarrow> handler p c s)"

definition cc_handlePacketOut ::
  "'w winsock \<Rightarrow> nat \<Rightarrow> packet \<Rightarrow> conn \<Rightarrow> ('w, 'z) host_scheme \<Rightarrow>
   (int \<times> conn \<times> ('w, 'z) host_scheme) run" where
  "cc_handlePacketOut os fuel p c s =
     (let (err, c, s) = cc_sendData os p c s in
      if err \<noteq> 0 then Done (1, c, s)
      else run_bind (isNeedACK p) (\<lambda>need.
        if need then
          run_bind (cc_handlePacketIn os fuel ack_handler True c s) (\<lambda>(err, c, s).
            if err \<noteq> 0 then Done (2, c, s) else Done (0, c, s))
        else Done (0, c, s)))"

end
