(* ===== verification/ConnThreads.thy ===== *)
theory ConnThreads
  imports ConnClient
begin

text \<open>
  Server/ConnectedClient.cpp: the effect of receiving, the loops of the receiver and sender thread of
  a connected client, and printing. The sender's loops have the same shape as the client's.
\<close>

section \<open>The effect of receiving\<close>

definition cc_recv_effect ::
  "bool \<Rightarrow> conn \<Rightarrow> ('w, 'z) host_scheme \<Rightarrow> int \<Rightarrow> packet option \<Rightarrow> conn \<Rightarrow> ('w, 'z) host_scheme \<Rightarrow> bool" where
  "cc_recv_effect close c s e p d t \<longleftrightarrow> same_host s t \<and>
     same_conn (c\<lparr>cc_receivedPackets := cc_receivedPackets c @ (case p of None \<Rightarrow> [] | Some q \<Rightarrow> [q])\<rparr>) d \<and>
     (case p of
        None \<Rightarrow> e \<in> {1, 2, 3, -2} \<or> (e = -1 \<and> close) \<or> (e = 0 \<and> \<not> cc_isRunning c)
      | Some q \<Rightarrow> e = 0 \<and> cc_isRunning c)"

lemma cc_receive_body_effect:
  assumes "cc_receive_body os close c s = Done (r, d, t)" and "cc_isRunning c"
  shows "case r of CC_Return e \<Rightarrow> cc_recv_effect close c s e None d t
    | CC_Break q \<Rightarrow> cc_recv_effect close c s 0 (Some q) d t
    | CC_Continue \<Rightarrow> d = c \<and> same_host s t"
proof -
  obtain n bs w where n: "ws_recv os (readSocket c) NET_BUFFER_SIZE (os_world s) = (n, bs, w)"
    by (metis prod_cases3)
  have sw: "same_host s (s\<lparr>os_world := w\<rparr>)" by simp
  note intros = same_host_trans_log [OF sw]
  show ?thesis
    using assms intros sw
    by (auto simp: cc_receive_body_def n cc_recv_effect_def Let_def run_bind_Done_iff split: if_splits)
qed

lemma cc_receive_loop_effect:
  "cc_receive_loop os close fuel c s = Done (e, p, d, t) \<Longrightarrow> cc_recv_effect close c s e p d t"
proof (induction fuel arbitrary: s)
  case (Suc fuel)
  show ?case
  proof (cases "cc_isRunning c")
    case False
    with Suc.prems show ?thesis by (auto simp: cc_recv_effect_def)
  next
    case True
    with Suc.prems obtain r d' u where b: "cc_receive_body os close c s = Done (r, d', u)"
        and n: "(case r of CC_Return e \<Rightarrow> Done (e, None, d', u) | CC_Break dest \<Rightarrow> Done (0, Some dest, d', u)
          | CC_Continue \<Rightarrow> cc_receive_loop os close fuel d' u) = Done (e, p, d, t)"
      by (auto simp: run_bind_Done_iff)
    note eff = cc_receive_body_effect [OF b True]
    show ?thesis
    proof (cases r)
      case CC_Continue
      with eff n Suc.IH [of u] show ?thesis
        by (auto simp: cc_recv_effect_def intro: same_host_trans)
    qed (use eff n in auto)
  qed
qed simp

lemma cc_receiveData_effect:
  assumes "cc_receiveData os fuel close c s = Done (e, p, d, t)"
  shows "cc_recv_effect close c s e p d t"
proof -
  obtain c' s' where st: "cc_setState Conn_Receive c s = (c', s')" by (metis prod.exhaust)
  then have c': "c' = c\<lparr>cc_state := Conn_Receive\<rparr>" and s': "same_host s s'"
    using same_host_log(8) [of s Conn_Receive c] by (auto simp: cc_setState_def)
  have eff: "cc_recv_effect close c' s' e p d t"
    using assms by (intro cc_receive_loop_effect) (simp add: cc_receiveData_def st)
  have "same_host s t"
    using eff s' same_host_trans by (auto simp: cc_recv_effect_def)
  moreover have "same_conn (c\<lparr>cc_receivedPackets := x\<rparr>) (c'\<lparr>cc_receivedPackets := x\<rparr>)" for x
    by (simp add: c' same_conn_def)
  then have "same_conn (c\<lparr>cc_receivedPackets := cc_receivedPackets c @ (case p of None \<Rightarrow> [] | Some q \<Rightarrow> [q])\<rparr>) d"
    by (rule same_conn_trans) (use eff in \<open>simp add: cc_recv_effect_def c'\<close>)
  moreover have run: "cc_isRunning c' = cc_isRunning c" by (simp add: c')
  have "case p of None \<Rightarrow> e \<in> {1, 2, 3, -2} \<or> (e = -1 \<and> close) \<or> (e = 0 \<and> \<not> cc_isRunning c)
      | Some q \<Rightarrow> e = 0 \<and> cc_isRunning c"
    using eff unfolding cc_recv_effect_def run by blast
  ultimately show ?thesis
    unfolding cc_recv_effect_def by blast
qed

text \<open>What no operation of the worker threads' loops changes.\<close>

definition conn_frame :: "conn \<Rightarrow> conn \<Rightarrow> bool" where
  "conn_frame c d \<longleftrightarrow> cc_mainPackets d = cc_mainPackets c \<and> cc_syncPackets d = cc_syncPackets c \<and>
     readSocket d = readSocket c \<and> writeSocket d = writeSocket c \<and> cc_receiver d = cc_receiver c \<and>
     cc_sender d = cc_sender c \<and> cc_started d = cc_started c \<and> cc_disconnected d = cc_disconnected c \<and>
     cc_ID d = cc_ID c"

lemma log_packet_frame: "log_packet p c s = Done (e, d, t) \<Longrightarrow> e = 0 \<and> d = c \<and> same_host s t"
  by (auto simp: log_packet_def run_bind_Done_iff)

lemma cc_handlePacketIn_frame:
  assumes "cc_handlePacketIn os fuel log_packet close c s = Done (e, d, t)"
  shows "conn_frame c d \<and> same_host s t"
proof -
  from assms obtain e' p d' u where r: "cc_receiveData os fuel close c s = Done (e', p, d', u)"
    by (auto simp: cc_handlePacketIn_def run_bind_Done_iff)
  from cc_receiveData_effect [OF r] have "conn_frame c d' \<and> same_host s u"
    by (auto simp: cc_recv_effect_def conn_frame_def same_connD)
  moreover have "d = d' \<and> same_host u t"
    using assms r by (auto simp: cc_handlePacketIn_def split: if_splits option.splits dest: log_packet_frame)
  ultimately show ?thesis by (auto intro: same_host_trans)
qed

lemma ack_handler_log [simp]: "ack_handler = log_packet"
  and any_packet_handler_log [simp]: "any_packet_handler = log_packet"
  by (simp_all add: fun_eq_iff ack_handler_def any_packet_handler_def)

lemma cc_sendData_frame:
  "conn_frame c (fst (snd (cc_sendData os p c s))) \<and> same_host s (snd (snd (cc_sendData os p c s)))"
proof -
  obtain d u where d: "cc_setState Conn_Send c s = (d, u)" by (metis prod.exhaust)
  obtain r t where c: "syscall (send_packet os (writeSocket d) p) u = (r, t)" by (metis prod.exhaust)
  have "same_host s t"
    using same_host_trans [OF same_host_log(8) same_host_log(9)] c d by (metis snd_conv)
  moreover have "conn_frame c d" using d by (auto simp: cc_setState_def conn_frame_def)
  moreover have "same_host s (wsa_print_err os ''ConnectedClient.cpp'' 338 t)"
    using \<open>same_host s t\<close> by (rule same_host_trans) simp
  moreover have "conn_frame c (d\<lparr>cc_sendedPackets := x\<rparr>)" for x
    using \<open>conn_frame c d\<close> by (simp add: conn_frame_def)
  ultimately show ?thesis
    unfolding cc_sendData_def d Let_def prod.case c by simp
qed

lemma cc_handlePacketOut_frame:
  assumes "cc_handlePacketOut os fuel p c s = Done (e, d, t)"
  shows "conn_frame c d \<and> same_host s t"
proof -
  obtain e' d' u where s: "cc_sendData os p c s = (e', d', u)" by (metis prod_cases3)
  with cc_sendData_frame [of c os p s] have f: "conn_frame c d'" "same_host s u" by simp_all
  have "d = d' \<and> t = u \<or> (\<exists>x. cc_handlePacketIn os fuel log_packet True d' u = Done (x, d, t))"
    using assms by (auto simp: cc_handlePacketOut_def s run_bind_Done_iff split: if_splits)
  with f cc_handlePacketIn_frame show ?thesis
    by (fastforce simp: conn_frame_def intro: same_host_trans)
qed

section \<open>The receiver thread\<close>

fun cc_receiver_loop ::
  "'w winsock \<Rightarrow> nat \<Rightarrow> conn \<Rightarrow> ('w, 'z) host_scheme \<Rightarrow> (conn \<times> ('w, 'z) host_scheme) run" where
  "cc_receiver_loop os 0 c s = Out_Of_Fuel"
| "cc_receiver_loop os (Suc fuel) c s =
     (if \<not> cc_isRunning c then Done (c, s)
      else run_bind (cc_handlePacketIn os fuel any_packet_handler False c s) (\<lambda>(err, c, s).
        if err \<noteq> 0 \<and> is_error err then Done (c, s) else cc_receiver_loop os fuel c s))"

text \<open>The end of both threads: shut the socket down, close it and forget it.\<close>

definition cc_close_end ::
  "'w winsock \<Rightarrow> nat \<Rightarrow> SOCKET \<Rightarrow> ('w, 'z) host_scheme \<Rightarrow> ('w, 'z) host_scheme" where
  "cc_close_end os line k s =
     (if k \<noteq> INVALID_SOCKET then
        let (r, s) = syscall (ws_closesocket os k) s in
        if r = SOCKET_ERROR then wsa_print_err os ''ConnectedClient.cpp'' line s else s
      else s)"

definition cc_shutdown_end ::
  "'w winsock \<Rightarrow> nat \<Rightarrow> SOCKET \<Rightarrow> ('w, 'z) host_scheme \<Rightarrow> ('w, 'z) host_scheme" where
  "cc_shutdown_end os line k s =
     (if k \<noteq> INVALID_SOCKET then
        let (r, s) = syscall (ws_shutdown os k SD_BOTH) s in
        if r = SOCKET_ERROR then wsa_print_err os ''ConnectedClient.cpp'' line s else s
      else s)"

definition cc_receiverThread ::
  "'w winsock \<Rightarrow> nat \<Rightarrow> conn \<Rightarrow> ('w, 'z) host_scheme \<Rightarrow> (conn \<times> ('w, 'z) host_scheme) run" where
  "cc_receiverThread os fuel c s =
     (let s = setThreadDescID ''[Client %d][Receiver]'' (cc_ID c) s in
      run_bind (cc_receiver_loop os fuel c s) (\<lambda>(c, s).
        let (c, s) = cc_setState Conn_Shutdown c s;
            s = cc_shutdown_end os 206 (readSocket c) s;
            (c, s) = cc_setState Conn_CloseSocket c s;
            s = cc_close_end os 213 (readSocket c) s;
            c = c\<lparr>readSocket := INVALID_SOCKET\<rparr> in
        Done (c, colored CC_InfoHL ''Receiver thread closed'' [] s)))"

section \<open>The sender thread\<close>

function cc_drain_main ::
  "'w winsock \<Rightarrow> nat \<Rightarrow> conn \<Rightarrow> ('w, 'z) host_scheme \<Rightarrow> (conn \<times> ('w, 'z) host_scheme) run" where
  "cc_drain_main os fuel c s =
     (if cc_mainPackets c = [] then Done (c, s)
      else let p = last (cc_mainPackets c) in
        run_bind (cc_handlePacketOut os fuel p c s) (\<lambda>(err, c, s).
          run_bind
            (if err \<noteq> 0 then run_bind (getID p) (\<lambda>i. Done (c\<lparr>cc_syncPackets := cc_syncPackets c @ [p]\<rparr>,
               colored CC_Warning ''Packet %d not confirmed, adding to sync queue'' [FInt (uint i)] s))
             else Done (c, s))
            (\<lambda>(c, s). cc_drain_main os fuel (c\<lparr>cc_mainPackets := tl (cc_mainPackets c)\<rparr>) s)))"
  by pat_completeness auto
termination
  by (relation "measure (\<lambda>(os, fuel, c, s). length (cc_mainPackets c))")
     (auto dest!: cc_handlePacketOut_frame simp: conn_frame_def run_bind_Done_iff split: if_splits)

declare cc_drain_main.simps [simp del]

function cc_sync_pass ::
  "'w winsock \<Rightarrow> nat \<Rightarrow> nat \<Rightarrow> conn \<Rightarrow> ('w, 'z) host_scheme \<Rightarrow> (conn \<times> ('w, 'z) host_scheme) run" where
  "cc_sync_pass os fuel i c s =
     (if i < length (cc_syncPackets c) then
        let p = cc_syncPackets c ! i in
        run_bind (cc_handlePacketOut os fuel p c s) (\<lambda>(err, c, s).
          if err \<noteq> 0 then run_bind (getID p) (\<lambda>n.
            cc_sync_pass os fuel (Suc i) c (colored CC_Warning ''Sync packet %d not confirmed'' [FInt (uint n)] s))
          else cc_sync_pass os fuel i (c\<lparr>cc_syncPackets := erase_at i (cc_syncPackets c)\<rparr>) s)
      else Done (c, s))"
  by pat_completeness auto
termination
  by (relation "measure (\<lambda>(os, fuel, i, c, s). length (cc_syncPackets c) - i)")
     (auto dest!: cc_handlePacketOut_frame simp: conn_frame_def erase_at_def)

declare cc_sync_pass.simps [simp del]

fun cc_sender_loop ::
  "'w winsock \<Rightarrow> nat \<Rightarrow> conn \<Rightarrow> ('w, 'z) host_scheme \<Rightarrow> (conn \<times> ('w, 'z) host_scheme) run" where
  "cc_sender_loop os 0 c s = Out_Of_Fuel"
| "cc_sender_loop os (Suc fuel) c s =
     (if \<not> cc_isRunning c then Done (c, s)
      else run_bind (cc_drain_main os fuel c s) (\<lambda>(c, s).
        run_bind (cc_sync_pass os fuel 0 c s) (\<lambda>(c, s).
          cc_sender_loop os fuel c (s\<lparr>os_world := ws_sleep os 100 (os_world s)\<rparr>))))"

definition cc_senderThread ::
  "'w winsock \<Rightarrow> nat \<Rightarrow> conn \<Rightarrow> ('w, 'z) host_scheme \<Rightarrow> (conn \<times> ('w, 'z) host_scheme) run" where
  "cc_senderThread os fuel c s =
     (let s = setThreadDescID ''[Client %d][Sender]'' (cc_ID c) s in
      run_bind (cc_sender_loop os fuel c s) (\<lambda>(c, s).
        let (c, s) = cc_setState Conn_Shutdown c s;
            s = cc_shutdown_end os 258 (writeSocket c) s;
            (c, s) = cc_setState Conn_CloseSocket c s;
            s = cc_close_end os 265 (writeSocket c) s;
            c = c\<lparr>writeSocket := INVALID_SOCKET\<rparr> in
        Done (c, colored CC_InfoHL ''Sender thread closed'' [] s)))"

section \<open>Printing\<close>

definition printInfo :: "bool \<Rightarrow> conn \<Rightarrow> ('w, 'z) host_scheme \<Rightarrow> ('w, 'z) host_scheme" where
  "printInfo ext c s =
     (let s = colored CC_InfoHL ''Client %d {'' [FInt (uint (cc_ID c))] s;
          status = (if cc_isRunning c then ''connected'' else ''disconnected'');
          s = colored CC_InfoHL ''  status: %s'' [FStr status] s;
          s = colored CC_InfoHL ''  login : %.*s'' [FInt (int (length (cc_login c))), FStr (cc_login c)] s;
          s = colored CC_InfoHL ''  IP    : %s'' [FStr (cc_IP_str c)] s;
          s = colored CC_InfoHL ''  host  : %s'' [FStr (cc_host c)] s;
          s = (if ext then
                 let s = colored CC_InfoHL ''  received:      %d'' [FInt (int (length (cc_receivedPackets c)))] s;
                     s = colored CC_InfoHL ''  sended:        %d'' [FInt (int (length (cc_sendedPackets c)))] s;
                     s = colored CC_InfoHL ''  in main queue: %d'' [FInt (int (length (cc_mainPackets c)))] s
                 in colored CC_InfoHL ''  in sync queue: %d'' [FInt (int (length (cc_syncPackets c)))] s
               else s)
      in raw_colored CC_InfoHL ''}'' s)"

fun print_packets :: "bool \<Rightarrow> packet list \<Rightarrow> string run" where
  "print_packets b [] = Done []"
| "print_packets b (p # ps) = run_bind (print_packet b p) (\<lambda>x. run_bind (print_packets b ps) (\<lambda>y. Done (x @ y)))"

definition print_group :: "bool \<Rightarrow> string \<Rightarrow> packet list \<Rightarrow> string run" where
  "print_group b title ps = (if ps = [] then Done []
     else run_bind (print_packets b ps) (\<lambda>t. Done (title @ nl @ t @ ''  }'' @ nl)))"

definition print_conn :: "bool \<Rightarrow> conn \<Rightarrow> string run" where
  "print_conn b c =
     run_bind (print_group b ''  received packets: {'' (cc_receivedPackets c)) (\<lambda>r.
     run_bind (print_group b ''  sended packets  : {'' (cc_sendedPackets c)) (\<lambda>s.
     run_bind (print_group b ''  main packets    : {'' (cc_mainPackets c)) (\<lambda>m.
     run_bind (print_group b ''  sync packets    : {'' (cc_syncPackets c)) (\<lambda>y.
       Done (''IP: '' @ [CHR 0x22] @ cc_IP_str c @ [CHR 0x22] @ '' => {'' @ nl
         @ ''  ID                    : '' @ show_nat (unat (cc_ID c)) @ nl
         @ ''  login                 : '' @ cc_login c @ nl
         @ ''  running               : '' @ show_bool b (cc_isRunning c) @ nl
         @ ''  received packets count: '' @ show_nat (length (cc_receivedPackets c)) @ nl
         @ ''  sended packets count  : '' @ show_nat (length (cc_sendedPackets c)) @ nl
         @ ''  main packets count    : '' @ show_nat (length (cc_mainPackets c)) @ nl
         @ ''  sync packets count    : '' @ show_nat (length (cc_syncPackets c)) @ nl
         @ nl @ r @ s @ m @ y @ ''}'' @ nl)))))"

text \<open>\<open>saveData\<close> appends to \<open>all_server_data.txt\<close>, whose contents are the parameter.\<close>

definition saveData :: "conn \<Rightarrow> string \<Rightarrow> string run" where
  "saveData c fil = run_bind (print_conn True c) (\<lambda>t. Done (fil @ t))"

end
