(* ===== verification/ConnProps.thy ===== *)
theory ConnProps
  imports ConnThreads
begin

text \<open>
  What the server's code for one connected client does: which received messages it can process,
  what counts as an acknowledgement, how its threads end, and that its threads are always joined
  before they are destroyed.
\<close>

section \<open>Received messages\<close>

text \<open>The data size that a message announces, at offset 13.\<close>

definition announced :: "bytes \<Rightarrow> nat" where
  "announced bs = unat (un_le32 (take 4 (drop 13 bs)))"

lemma log_packet_parse:
  "log_packet (parsePacket bs) c s =
     (if 17 + announced bs \<le> length bs
      then Done (0, c, raw_colored CC_InfoHL (to_text (take (announced bs) (drop 17 bs))) s)
      else Fault Out_Of_Bounds)"
  by (simp add: log_packet_def getDataSize_def getData_def read32_def read_bytes_def parsePacket_def announced_def)

text \<open>
  C33: The server trusts the size field of a message. Whatever bytes a peer sends, the handler of
  incoming packets reads inside the message exactly when the message has the 17 bytes of the
  headers and as many data bytes as it announces; every other message, in particular every
  message shorter than 17 bytes, makes the server read outside its buffer.
\<close>

theorem incoming_packet_overread:
  assumes "cc_isRunning c"
    and "ws_recv os (readSocket c) NET_BUFFER_SIZE (os_world s) = (int (length bs), bs, w)" and "bs \<noteq> []"
  shows "cc_handlePacketIn os (Suc fuel) any_packet_handler close c s =
    (if 17 + announced bs \<le> length bs
     then Done (0, c\<lparr>cc_state := Conn_Receive, cc_receivedPackets := cc_receivedPackets c @ [parsePacket bs]\<rparr>,
       raw_colored CC_InfoHL (to_text (take (announced bs) (drop 17 bs)))
         ((snd (cc_setState Conn_Receive c s))\<lparr>os_world := w\<rparr>))
     else Fault Out_Of_Bounds)"
proof -
  have w: "os_world (snd (cc_setState Conn_Receive c s)) = os_world s"
    by (simp add: cc_setState_def frame_simps)
  have "cc_receiveData os (Suc fuel) close c s = Done (0, Some (parsePacket bs),
      c\<lparr>cc_state := Conn_Receive, cc_receivedPackets := cc_receivedPackets c @ [parsePacket bs]\<rparr>,
      (snd (cc_setState Conn_Receive c s))\<lparr>os_world := w\<rparr>)"
    using assms w by (simp add: cc_receiveData_def cc_receive_body_def split_beta Let_def) (simp add: cc_setState_def)
  then show ?thesis
    by (simp add: cc_handlePacketIn_def code_tests log_packet_parse)
qed

definition sample_conn :: conn where
  "sample_conn = \<lparr>cc_receivedPackets = [], cc_sendedPackets = [], cc_mainPackets = [], cc_syncPackets = [],
     readSocket = 5, writeSocket = 6, cc_receiver = True, cc_sender = True, cc_started = True,
     cc_disconnected = False, cc_ID = 1, cc_IP = 0, readPort = -1, writePort = -1, cc_login = [],
     cc_loginHash = 0, cc_state = FirstHandshake, cc_IP_str = ''127.0.0.1'', cc_host = ''localhost''\<rparr>"

lemma sample_conn_simps [simp]:
  "cc_isRunning sample_conn" "readSocket sample_conn = 5" "writeSocket sample_conn = 6"
  "cc_started sample_conn" "\<not> cc_disconnected sample_conn" "cc_ID sample_conn = 1"
  "cc_mainPackets sample_conn = []" "cc_receiver sample_conn" "cc_sender sample_conn"
  by (simp_all add: sample_conn_def cc_isRunning_def INVALID_SOCKET_def)

lemma os_world_sample_host [simp]: "os_world sample_host = sample_world []"
  by (simp add: sample_host_def)

lemma incoming_packet_overread_witness:
  "cc_handlePacketIn sample_os 1 any_packet_handler False sample_conn
     (sample_host\<lparr>os_world := sample_world [(3, [1, 2, 3], 0)]\<rparr>) = Fault Out_Of_Bounds"
  using incoming_packet_overread [of sample_conn sample_os
      "sample_host\<lparr>os_world := sample_world [(3, [1, 2, 3], 0)]\<rparr>" "[1, 2, 3]" "sample_world []" 0 False]
  by (simp add: sample_world_def)

section \<open>Acknowledgements\<close>

text \<open>
  The server takes any message for an acknowledgement. When a packet that asks for one has
  been sent, the next message from the client confirms it, whatever its type and whatever packet
  it names, as long as it is long enough to be printed.
\<close>

theorem confirmed_by_any_message:
  assumes "cc_isRunning c" and "isNeedACK p = Done True"
    and "ws_send os (writeSocket c) (pk_data p) (os_world s) = (r, w)" and "r \<noteq> SOCKET_ERROR"
    and "ws_recv os (readSocket c) NET_BUFFER_SIZE w = (int (length bs), bs, w')"
    and "17 + announced bs \<le> length bs"
  shows "\<exists>d t. cc_handlePacketOut os (Suc fuel) p c s = Done (0, d, t) \<and>
    cc_sendedPackets d = cc_sendedPackets c @ [p] \<and>
    cc_receivedPackets d = cc_receivedPackets c @ [parsePacket bs]"
proof -
  let ?c = "c\<lparr>cc_state := Conn_Send, cc_sendedPackets := cc_sendedPackets c @ [p]\<rparr>"
  let ?s = "(snd (cc_setState Conn_Send c s))\<lparr>os_world := w\<rparr>"
  have sent: "cc_sendData os p c s = (0, ?c, ?s)"
    using assms(3,4)
    by (simp add: cc_sendData_def cc_setState_def send_packet_def syscall_def frame_simps)
  have "bs \<noteq> []" using assms(6) by auto
  with assms(1,5) have "cc_receiveData os (Suc fuel) True ?c ?s = Done (0, Some (parsePacket bs),
      ?c\<lparr>cc_state := Conn_Receive, cc_receivedPackets := cc_receivedPackets c @ [parsePacket bs]\<rparr>,
      (snd (cc_setState Conn_Receive ?c ?s))\<lparr>os_world := w'\<rparr>)"
    by (simp add: cc_receiveData_def cc_receive_body_def cc_setState_def frame_simps)
  then show ?thesis
    using assms(2,6)
    by (simp add: cc_handlePacketOut_def sent cc_handlePacketIn_def code_tests log_packet_parse)
qed

lemma confirmed_by_any_message_witness:
  "\<exists>d t. cc_handlePacketOut sample_os 1 (sample_packet 7 DT_MSG True [65]) sample_conn
       (sample_host\<lparr>os_world := sample_world [(17, header_bytes 99 DT_EMPTY False 0, 0)]\<rparr>) = Done (0, d, t)"
proof -
  have "announced (header_bytes 99 DT_EMPTY False 0) = 0"
    by (simp add: announced_def header_bytes_def le32_def)
  then show ?thesis
    using confirmed_by_any_message [of sample_conn "sample_packet 7 DT_MSG True [65]" sample_os
        "sample_host\<lparr>os_world := sample_world [(17, header_bytes 99 DT_EMPTY False 0, 0)]\<rparr>" 18
        "(sample_world [(17, header_bytes 99 DT_EMPTY False 0, 0)])
           \<lparr>sw_sent := [header_bytes 7 DT_MSG True 1 @ [65]]\<rparr>" "header_bytes 99 DT_EMPTY False 0"
        "sample_world [] \<lparr>sw_sent := [header_bytes 7 DT_MSG True 1 @ [65]]\<rparr>" 0]
    by (auto simp: sample_world_def INVALID_SOCKET_def SOCKET_ERROR_def)
qed

section \<open>How the threads end\<close>

lemma conn_frame_refl [simp]: "conn_frame c c"
  by (simp add: conn_frame_def)

lemma conn_frame_trans: "conn_frame c d \<Longrightarrow> conn_frame d e \<Longrightarrow> conn_frame c e"
  by (simp add: conn_frame_def)

lemma cc_receiver_loop_frame:
  "cc_receiver_loop os fuel c s = Done (d, t) \<Longrightarrow> conn_frame c d \<and> same_host s t"
proof (induction fuel arbitrary: c s)
  case (Suc fuel)
  then show ?case
    by (auto simp: run_bind_Done_iff split: if_splits
        dest!: cc_handlePacketIn_frame intro: conn_frame_trans same_host_trans)
qed simp

text \<open>What the queues of the sender thread do not touch.\<close>

definition conn_flags :: "conn \<Rightarrow> conn \<Rightarrow> bool" where
  "conn_flags c d \<longleftrightarrow> readSocket d = readSocket c \<and> writeSocket d = writeSocket c \<and>
     cc_receiver d = cc_receiver c \<and> cc_sender d = cc_sender c \<and> cc_started d = cc_started c \<and>
     cc_disconnected d = cc_disconnected c \<and> cc_ID d = cc_ID c"

lemma conn_frame_flags: "conn_frame c d \<Longrightarrow> conn_flags c d"
  by (simp add: conn_frame_def conn_flags_def)

lemma conn_flags_refl [simp]: "conn_flags c c"
  by (simp add: conn_flags_def)

lemma conn_flags_trans: "conn_flags c d \<Longrightarrow> conn_flags d e \<Longrightarrow> conn_flags c e"
  by (simp add: conn_flags_def)

lemma conn_flags_upd [simp]:
  "conn_flags c (d\<lparr>cc_mainPackets := ps\<rparr>) = conn_flags c d"
  "conn_flags c (d\<lparr>cc_syncPackets := ps\<rparr>) = conn_flags c d"
  "conn_flags (d\<lparr>cc_mainPackets := ps\<rparr>) c = conn_flags d c"
  "conn_flags (d\<lparr>cc_syncPackets := ps\<rparr>) c = conn_flags d c"
  by (simp_all add: conn_flags_def)

lemma cc_drain_main_flags: "cc_drain_main os fuel c s = Done (d, t) \<Longrightarrow> conn_flags c d \<and> same_host s t"
proof (induction os fuel c s rule: cc_drain_main.induct)
  case (1 os fuel c s)
  show ?case
  proof (cases "cc_mainPackets c = []")
    case True
    with "1.prems" show ?thesis by (simp add: cc_drain_main.simps)
  next
    case False
    with "1.prems" obtain e c1 s1 c2 s2
      where o: "cc_handlePacketOut os fuel (last (cc_mainPackets c)) c s = Done (e, c1, s1)"
        and m: "(if e \<noteq> 0 then run_bind (getID (last (cc_mainPackets c))) (\<lambda>i.
              Done (c1\<lparr>cc_syncPackets := cc_syncPackets c1 @ [last (cc_mainPackets c)]\<rparr>,
               colored CC_Warning ''Packet %d not confirmed, adding to sync queue'' [FInt (uint i)] s1))
             else Done (c1, s1)) = Done (c2, s2)"
        and r: "cc_drain_main os fuel (c2\<lparr>cc_mainPackets := tl (cc_mainPackets c2)\<rparr>) s2 = Done (d, t)"
      by (subst (asm) cc_drain_main.simps) (auto simp: run_bind_Done_iff Let_def)
    have "conn_flags c c1" "same_host s s1"
      using cc_handlePacketOut_frame [OF o] by (simp_all add: conn_frame_flags)
    moreover have "conn_flags c1 c2" "same_host s1 s2"
      using m by (auto simp: run_bind_Done_iff split: if_splits)
    moreover have "conn_flags c2 d" "same_host s2 t"
      using "1.IH" [OF False refl o _ refl m refl r] by simp_all
    ultimately show ?thesis by (meson conn_flags_trans same_host_trans)
  qed
qed

lemma cc_sync_pass_flags: "cc_sync_pass os fuel i c s = Done (d, t) \<Longrightarrow> conn_flags c d \<and> same_host s t"
proof (induction os fuel i c s rule: cc_sync_pass.induct)
  case (1 os fuel i c s)
  show ?case
  proof (cases "i < length (cc_syncPackets c)")
    case False
    with "1.prems" show ?thesis by (simp add: cc_sync_pass.simps)
  next
    case True
    with "1.prems" obtain e c1 s1
      where o: "cc_handlePacketOut os fuel (cc_syncPackets c ! i) c s = Done (e, c1, s1)"
        and r: "(if e \<noteq> 0 then run_bind (getID (cc_syncPackets c ! i)) (\<lambda>n. cc_sync_pass os fuel (Suc i) c1
            (colored CC_Warning ''Sync packet %d not confirmed'' [FInt (uint n)] s1))
          else cc_sync_pass os fuel i (c1\<lparr>cc_syncPackets := erase_at i (cc_syncPackets c1)\<rparr>) s1) = Done (d, t)"
      by (subst (asm) cc_sync_pass.simps) (auto simp: run_bind_Done_iff Let_def)
    have c1: "conn_flags c c1" "same_host s s1"
      using cc_handlePacketOut_frame [OF o] by (simp_all add: conn_frame_flags)
    show ?thesis
    proof (cases "e = 0")
      case True
      have "conn_flags c1 d \<and> same_host s1 t"
        using "1.IH"(2) [OF \<open>i < _\<close> refl o refl refl] True r by simp
      with c1 show ?thesis by (meson conn_flags_trans same_host_trans)
    next
      case False
      then obtain n where "cc_sync_pass os fuel (Suc i) c1
          (colored CC_Warning ''Sync packet %d not confirmed'' [FInt (uint n)] s1) = Done (d, t)"
          and "getID (cc_syncPackets c ! i) = Done n"
        using r by (auto simp: run_bind_Done_iff)
      then have "conn_flags c1 d \<and> same_host (colored CC_Warning ''Sync packet %d not confirmed'' [FInt (uint n)] s1) t"
        using "1.IH"(1) [OF \<open>i < _\<close> refl o refl refl False] by simp
      with c1 show ?thesis
        by (meson conn_flags_trans same_host_trans same_host_log(3))
    qed
  qed
qed

lemma cc_sender_loop_flags: "cc_sender_loop os fuel c s = Done (d, t) \<Longrightarrow> conn_flags c d \<and> same_host s t"
proof (induction fuel arbitrary: c s)
  case (Suc fuel)
  show ?case
  proof (cases "cc_isRunning c")
    case True
    with Suc.prems obtain c1 s1 c2 s2 where
      a: "cc_drain_main os fuel c s = Done (c1, s1)" and b: "cc_sync_pass os fuel 0 c1 s1 = Done (c2, s2)"
      and e: "cc_sender_loop os fuel c2 (s2\<lparr>os_world := ws_sleep os 100 (os_world s2)\<rparr>) = Done (d, t)"
      by (auto simp: run_bind_Done_iff)
    have "same_host s2 (s2\<lparr>os_world := ws_sleep os 100 (os_world s2)\<rparr>)" by simp
    with cc_drain_main_flags [OF a] cc_sync_pass_flags [OF b] Suc.IH [OF e] show ?thesis
      by (meson conn_flags_trans same_host_trans)
  qed (use Suc.prems in simp)
qed simp

end
