(* ===== verification/ConnLife.thy ===== *)
theory ConnLife
  imports ConnProps
begin

text \<open>
  The life of a connected client on the server: the threads that \<open>disconnect\<close> joins, what is left
  afterwards, and the invariant that a thread is joinable only while the client is started, under
  every interleaving of the operations of its three threads.
\<close>

section \<open>Joining the threads\<close>

lemma end_same_host [simp]:
  "same_host s (cc_shutdown_end os l k s)" "same_host s (cc_close_end os l k s)"
  by (auto simp: cc_shutdown_end_def cc_close_end_def split_beta Let_def
      intro: same_host_trans [OF same_host_log(7) same_host_log(4)])

text \<open>Everything but the sockets.\<close>

definition conn_core :: "conn \<Rightarrow> conn \<Rightarrow> bool" where
  "conn_core c d \<longleftrightarrow> cc_receiver d = cc_receiver c \<and> cc_sender d = cc_sender c \<and>
     cc_started d = cc_started c \<and> cc_disconnected d = cc_disconnected c \<and> cc_ID d = cc_ID c"

lemma conn_core_refl [simp]: "conn_core c c"
  by (simp add: conn_core_def)

lemma conn_flags_core: "conn_flags c d \<Longrightarrow> conn_core c d"
  by (simp add: conn_flags_def conn_core_def)

lemma cc_receiverThread_end:
  assumes "cc_receiverThread os fuel c s = Done (d, t)"
  shows "conn_core c d" "readSocket d = INVALID_SOCKET" "writeSocket d = writeSocket c"
proof -
  from assms obtain c1 s1 where l: "cc_receiver_loop os fuel c (setThreadDescID ''[Client %d][Receiver]'' (cc_ID c) s) = Done (c1, s1)"
      and d: "d = c1\<lparr>cc_state := Conn_CloseSocket, readSocket := INVALID_SOCKET\<rparr>"
    by (auto simp: cc_receiverThread_def run_bind_Done_iff cc_setState_def Let_def)
  from cc_receiver_loop_frame [OF l] d show "conn_core c d" "readSocket d = INVALID_SOCKET"
      "writeSocket d = writeSocket c"
    by (simp_all add: conn_frame_def conn_core_def)
qed

lemma cc_senderThread_end:
  assumes "cc_senderThread os fuel c s = Done (d, t)"
  shows "conn_core c d" "writeSocket d = INVALID_SOCKET" "readSocket d = readSocket c"
proof -
  from assms obtain c1 s1 where l: "cc_sender_loop os fuel c (setThreadDescID ''[Client %d][Sender]'' (cc_ID c) s) = Done (c1, s1)"
      and d: "d = c1\<lparr>cc_state := Conn_CloseSocket, writeSocket := INVALID_SOCKET\<rparr>"
    by (auto simp: cc_senderThread_def run_bind_Done_iff cc_setState_def Let_def)
  from cc_sender_loop_flags [OF l] d show "conn_core c d" "writeSocket d = INVALID_SOCKET"
      "readSocket d = readSocket c"
    by (simp_all add: conn_flags_def conn_core_def)
qed

text \<open>
  \<open>join()\<close> on a thread that is at the head of its loop: the rest of its run. \<open>disconnect\<close> has
  cleared \<open>started\<close> before, so one iteration of fuel is enough for it.
\<close>

definition join_receiver ::
  "'w winsock \<Rightarrow> nat \<Rightarrow> conn \<times> ('w, 'z) host_scheme \<Rightarrow> conn \<times> ('w, 'z) host_scheme" where
  "join_receiver os fuel cs = (case cc_receiverThread os fuel (fst cs) (snd cs) of Done r \<Rightarrow> r | _ \<Rightarrow> cs)"

definition join_sender ::
  "'w winsock \<Rightarrow> nat \<Rightarrow> conn \<times> ('w, 'z) host_scheme \<Rightarrow> conn \<times> ('w, 'z) host_scheme" where
  "join_sender os fuel cs = (case cc_senderThread os fuel (fst cs) (snd cs) of Done r \<Rightarrow> r | _ \<Rightarrow> cs)"

text \<open>What \<open>disconnect\<close> relies on: the threads it waits for leave the life-cycle fields alone.\<close>

locale conn_threads =
  fixes jr js :: "conn \<times> ('w, 'z) host_scheme \<Rightarrow> conn \<times> ('w, 'z) host_scheme"
  assumes jr_core: "conn_core (fst cs) (fst (jr cs))"
    and js_core: "conn_core (fst cs) (fst (js cs))"
begin

lemma disconnect_started:
  assumes "cc_started c" "\<not> cc_disconnected c" and "cc_disconnect jr js c s = (b, d, t)"
  shows "b \<and> \<not> cc_started d \<and> cc_disconnected d \<and> \<not> cc_receiver d \<and> \<not> cc_sender d \<and> cc_ID d = cc_ID c \<and>
    cc_receivedPackets d = [] \<and> cc_sendedPackets d = [] \<and> cc_mainPackets d = [] \<and> cc_syncPackets d = []"
proof -
  define c1 where "c1 = c\<lparr>cc_started := False\<rparr>"
  obtain c2 s2 where c2: "(if cc_receiver c1 then (let (c, s) = jr (c1, s) in (c\<lparr>cc_receiver := False\<rparr>, s)) else (c1, s)) = (c2, s2)"
    by (metis prod.exhaust)
  obtain c3 s3 where c3: "(if cc_sender c2 then (let (c, s) = js (c2, s2) in (c\<lparr>cc_sender := False\<rparr>, s)) else (c2, s2)) = (c3, s3)"
    by (metis prod.exhaust)
  have 2: "\<not> cc_started c2" "\<not> cc_receiver c2" "cc_ID c2 = cc_ID c"
    using c2 jr_core [of "(c1, s)"] by (auto simp: c1_def conn_core_def split_beta Let_def split: if_splits)
  have 3: "\<not> cc_started c3" "\<not> cc_receiver c3" "\<not> cc_sender c3" "cc_ID c3 = cc_ID c"
    using c3 2 js_core [of "(c2, s2)"] by (auto simp: conn_core_def split_beta Let_def split: if_splits)
  have "cc_disconnect jr js c s = (True, c3\<lparr>cc_receivedPackets := [], cc_sendedPackets := [], cc_syncPackets := [],
      cc_mainPackets := [], cc_disconnected := True\<rparr>,
      colored CC_InfoHL ''Connected client %d was stopped'' [FInt (uint (cc_ID c3))] s3)"
    using assms(1,2) unfolding cc_disconnect_def c1_def [symmetric] Let_def c2 [unfolded Let_def] prod.case c3 [unfolded Let_def]
    by simp
  with assms(3) 3 show ?thesis by auto
qed

lemma disconnect_again:
  assumes "cc_disconnect jr js c s = (b, d, t)"
  shows "cc_disconnect jr js d u = (False, d, u)"
proof (cases "cc_started c \<and> \<not> cc_disconnected c")
  case True
  with disconnect_started assms have "\<not> cc_started d" by blast
  then show ?thesis by (simp add: cc_disconnect_def)
next
  case False
  with assms show ?thesis by (auto simp: cc_disconnect_def)
qed

end

lemma join_core: "conn_core (fst cs) (fst (join_receiver os fuel cs))" "conn_core (fst cs) (fst (join_sender os fuel cs))"
  by (auto simp: join_receiver_def join_sender_def dest: cc_receiverThread_end(1) cc_senderThread_end(1)
      split: run.split)

interpretation worker: conn_threads "join_receiver os fuel" "join_sender os fuel" for os fuel
  by unfold_locales (rule join_core)+

text \<open>
  Disconnecting a started client joins both threads, which close both sockets on their way
  out; it empties the four queues and leaves the client stopped and disconnected. A second call
  does nothing and returns false. One iteration of fuel is enough for the threads to end.
\<close>

theorem conn_disconnect_closes:
  assumes "cc_started c" "\<not> cc_disconnected c" "cc_receiver c" "cc_sender c"
    and "cc_disconnect (join_receiver os (Suc fuel)) (join_sender os (Suc fuel)) c s = (b, d, t)"
  shows "b \<and> readSocket d = INVALID_SOCKET \<and> writeSocket d = INVALID_SOCKET \<and> \<not> cc_isRunning d \<and>
    \<not> cc_started d \<and> cc_disconnected d \<and> \<not> cc_receiver d \<and> \<not> cc_sender d \<and>
    cc_receivedPackets d = [] \<and> cc_sendedPackets d = [] \<and> cc_mainPackets d = [] \<and> cc_syncPackets d = [] \<and>
    cc_disconnect (join_receiver os (Suc fuel)) (join_sender os (Suc fuel)) d t = (False, d, t)"
proof -
  note dis = worker.disconnect_started [OF assms(1,2,5)]
  obtain c1 s1 where r: "cc_receiverThread os (Suc fuel) (c\<lparr>cc_started := False\<rparr>) s = Done (c1, s1)"
    by (auto simp: cc_receiverThread_def cc_isRunning_def split_beta Let_def)
  have c1: "\<not> cc_started c1" "cc_sender c1" "readSocket c1 = INVALID_SOCKET"
    using cc_receiverThread_end [OF r] assms(4) by (simp_all add: conn_core_def)
  obtain c2 s2 where q: "cc_senderThread os (Suc fuel) (c1\<lparr>cc_receiver := False\<rparr>) s1 = Done (c2, s2)"
    using c1(1) by (auto simp: cc_senderThread_def cc_isRunning_def split_beta Let_def)
  have c2: "writeSocket c2 = INVALID_SOCKET" "readSocket c2 = INVALID_SOCKET"
    using cc_senderThread_end [OF q] c1(3) by simp_all
  have "readSocket d = INVALID_SOCKET \<and> writeSocket d = INVALID_SOCKET"
    using assms c1(2) c2 by (auto simp: cc_disconnect_def join_receiver_def r join_sender_def q Let_def)
  with dis worker.disconnect_again [OF assms(5)] show ?thesis
    by (simp add: cc_isRunning_def)
qed

lemma conn_disconnect_closes_witness:
  "\<exists>d t. cc_disconnect (join_receiver sample_os (Suc 0)) (join_sender sample_os (Suc 0)) sample_conn sample_host = (True, d, t) \<and>
    readSocket d = INVALID_SOCKET \<and> writeSocket d = INVALID_SOCKET"
proof -
  obtain b d t where e: "cc_disconnect (join_receiver sample_os (Suc 0)) (join_sender sample_os (Suc 0)) sample_conn sample_host = (b, d, t)"
    by (metis prod_cases3)
  from conn_disconnect_closes [OF _ _ _ _ e] e show ?thesis by simp
qed

section \<open>The life of a client object\<close>

text \<open>
  One step of any of the three threads that use a client: the server's (creation of the threads,
  disconnection, setters, queueing a packet) or a worker's (one packet in or out, its end).
\<close>

inductive conn_step ::
  "'w winsock \<Rightarrow> nat \<Rightarrow> conn \<times> ('w, 'z) host_scheme \<Rightarrow> conn \<times> ('w, 'z) host_scheme \<Rightarrow> bool"
  for os :: "'w winsock" and fuel :: nat where
  create_step: "cc_createThreads c = Done d \<Longrightarrow> conn_step os fuel (c, s) (d, s)"
| disconnect_step: "cc_disconnect (join_receiver os fuel) (join_sender os fuel) c s = (b, d, t) \<Longrightarrow> conn_step os fuel (c, s) (d, t)"
| reset_step: "conn_step os fuel (c, s) (resetSocketsAndPorts c, s)"
| port_step: "conn_step os fuel (c, s) (setPort rd p c, s)"
| socket_step: "conn_step os fuel (c, s) (setSocket rd k c, s)"
| queue_step: "conn_step os fuel (c, s) (cc_sendPacket p c, s)"
| in_step: "cc_handlePacketIn os fuel any_packet_handler close c s = Done (e, d, t) \<Longrightarrow> conn_step os fuel (c, s) (d, t)"
| out_step: "cc_handlePacketOut os fuel p c s = Done (e, d, t) \<Longrightarrow> conn_step os fuel (c, s) (d, t)"
| receiver_step: "cc_receiverThread os fuel c s = Done (d, t) \<Longrightarrow> conn_step os fuel (c, s) (d, t)"
| sender_step: "cc_senderThread os fuel c s = Done (d, t) \<Longrightarrow> conn_step os fuel (c, s) (d, t)"

definition conn_inv :: "conn \<Rightarrow> bool" where
  "conn_inv c \<longleftrightarrow> (cc_receiver c \<or> cc_sender c \<longrightarrow> cc_started c \<and> \<not> cc_disconnected c)"

lemma conn_core_inv: "conn_core c d \<Longrightarrow> conn_inv c \<Longrightarrow> conn_inv d"
  by (simp add: conn_core_def conn_inv_def)

lemma disconnect_inv:
  assumes "cc_disconnect (join_receiver os fuel) (join_sender os fuel) c s = (b, d, t)" and "conn_inv c"
  shows "conn_inv d \<and> \<not> cc_receiver d \<and> \<not> cc_sender d"
proof (cases "cc_started c \<and> \<not> cc_disconnected c")
  case True
  then show ?thesis
    using worker.disconnect_started [OF _ _ assms(1)] by (simp add: conn_inv_def)
next
  case False
  with assms show ?thesis by (auto simp: cc_disconnect_def conn_inv_def)
qed

lemma conn_step_inv: "conn_step os fuel cs dt \<Longrightarrow> conn_inv (fst cs) \<Longrightarrow> conn_inv (fst dt)"
proof (induction rule: conn_step.induct)
  case (create_step c d s)
  then show ?case by (auto simp: cc_createThreads_def conn_inv_def Let_def split: if_splits)
next
  case (disconnect_step c s b d t)
  then show ?case by (simp add: disconnect_inv)
next
  case (in_step close c s e d t)
  then show ?case
    by (auto intro: conn_core_inv conn_flags_core conn_frame_flags dest!: cc_handlePacketIn_frame)
next
  case (out_step p c s e d t)
  then show ?case
    by (auto intro: conn_core_inv conn_flags_core conn_frame_flags dest!: cc_handlePacketOut_frame)
next
  case (receiver_step c s d t)
  then show ?case by (auto intro: conn_core_inv dest: cc_receiverThread_end(1))
next
  case (sender_step c s d t)
  then show ?case by (auto intro: conn_core_inv dest: cc_senderThread_end(1))
qed (auto simp: conn_inv_def resetSocketsAndPorts_def setPort_def setSocket_def cc_sendPacket_def split: option.split)

lemma conn_steps_inv: "(conn_step os fuel)\<^sup>*\<^sup>* cs dt \<Longrightarrow> conn_inv (fst cs) \<Longrightarrow> conn_inv (fst dt)"
  by (induction rule: rtranclp_induct) (auto dest: conn_step_inv)

lemma conn_inv_destroy:
  "conn_inv c \<Longrightarrow> \<exists>u. cc_destroy (join_receiver os fuel) (join_sender os fuel) c s = Done u"
  by (auto simp: cc_destroy_def split: prod.split dest: disconnect_inv)

text \<open>
  C2: Destroying a connected client never terminates the program. From the constructor on, after
  any interleaving of the steps of the threads that use the client, the destructor finds both
  threads joined, because a thread is joinable only while the client is started and not
  disconnected.
\<close>

theorem conn_destroy_safe:
  assumes "(conn_step os fuel)\<^sup>*\<^sup>* (cc_new os junk st ID addr s) (c, t)"
  shows "\<exists>u. cc_destroy (join_receiver os fuel) (join_sender os fuel) c t = Done u"
proof -
  have "conn_inv (fst (cc_new os junk st ID addr s))"
    by (simp add: cc_new_def conn_inv_def)
  with assms have "conn_inv c" by (auto dest: conn_steps_inv)
  then show ?thesis by (rule conn_inv_destroy)
qed

lemma conn_destroy_safe_witness:
  "\<exists>c (t :: sample_world host) u. cc_createThreads (fst (cc_new sample_os 0 FirstHandshake 1 0 sample_host)) = Done c \<and>
     cc_destroy (join_receiver sample_os 1) (join_sender sample_os 1) c t = Done u"
proof -
  obtain n t where n: "cc_new sample_os 0 FirstHandshake 1 0 sample_host = (n, t)" by (metis prod.exhaust)
  then have "\<exists>c. cc_createThreads n = Done c" by (auto simp: cc_new_def cc_createThreads_def)
  then obtain c where c: "cc_createThreads n = Done c" ..
  from c have "(conn_step sample_os 1)\<^sup>*\<^sup>* (n, t) (c, t)" by (intro r_into_rtranclp create_step)
  from conn_destroy_safe [OF this [folded n]] c n show ?thesis by auto
qed

end
