(* ===== verification/ServerTypes.thy ===== *)
theory ServerTypes
  imports ConnLife
begin

text \<open>
  Server/Server.h and Server/Cleaner.h: the state of the two singletons of the server program, as
  one extension of the host record. The client pool, a \<open>std::map\<close> from 16-bit IDs, is the list of
  its entries in ascending order of the keys; a pointer to a client of the pool is its key.
  \<open>clients_mutex\<close> is whether the mutex is held. Both singletons are static objects, so members
  without an initialiser start as zero.
\<close>

definition MAX_CLIENT_COUNT :: nat where "MAX_CLIENT_COUNT = 10"

datatype ServerState =
    Srv_InitWinSock | Srv_CreateAuthSocket | Srv_Bind | Srv_SetOpts | Srv_Listen
  | Srv_Waiting | Srv_Connect | Srv_CloseSockets

datatype CleanerMode = OnlyDisconnect | AgressiveMode

type_synonym pool = "(u16 \<times> conn) list"

record 'w server = "'w host" +
  clientPool :: pool
  clients_mutex :: bool
  firstHandshakesHandler :: bool
  secondHandshakesHandler :: bool
  sv_started :: bool
  sv_state :: ServerState
  sv_authPort :: port
  sv_authSocket :: SOCKET
  next_client_id :: u32
  data_file :: string
  cl_clean_started :: bool
  cl_clean_mode :: CleanerMode
  cl_clean_thread :: bool

definition sv_isRunning :: "'w server \<Rightarrow> bool" where
  "sv_isRunning s \<longleftrightarrow> sv_started s"

text \<open>
  What surrounds the server's own code: WinSock, \<open>std::hash\<close>, the values of two variables that are
  read uninitialised when a conversion fails, and the effect of the other threads: of a client's
  worker threads and of the server's own three threads while they are joined, of a thread that is
  scheduled at its creation, and of all of them between two steps of a loop.
\<close>

record 'w around =
  ar_os :: "'w winsock"
  ar_hash :: "string \<Rightarrow> u32"
  ar_junk_ip :: u32
  ar_junk_cmd :: u8
  ar_receiver :: "conn \<times> 'w server \<Rightarrow> conn \<times> 'w server"
  ar_sender :: "conn \<times> 'w server \<Rightarrow> conn \<times> 'w server"
  ar_first :: "'w server \<Rightarrow> 'w server"
  ar_second :: "'w server \<Rightarrow> 'w server"
  ar_cleaner :: "'w server \<Rightarrow> 'w server"
  ar_spawn :: "'w server \<Rightarrow> 'w server"
  ar_env :: "'w server \<Rightarrow> 'w server"

fun sv_state_desc :: "ServerState \<Rightarrow> string" where
  "sv_state_desc Srv_InitWinSock = ''InitWinSock''"
| "sv_state_desc Srv_CreateAuthSocket = ''CreateAuthSocket''"
| "sv_state_desc Srv_Bind = ''Bind''"
| "sv_state_desc Srv_SetOpts = ''SetOpts''"
| "sv_state_desc Srv_Listen = ''Listen''"
| "sv_state_desc Srv_Waiting = ''Waiting''"
| "sv_state_desc Srv_Connect = ''Connect''"
| "sv_state_desc Srv_CloseSockets = ''CloseSockets''"

definition sv_setState :: "ServerState \<Rightarrow> 'w server \<Rightarrow> 'w server" where
  "sv_setState st s =
     (let s = (if debug_build s
               then colored CC_Info ''State changed to: %s'' [FStr (sv_state_desc st)] s else s)
      in s\<lparr>sv_state := st\<rparr>)"

section \<open>The pool\<close>

text \<open>The pool is in order, and no key occurs twice.\<close>

definition pool_wf :: "pool \<Rightarrow> bool" where
  "pool_wf ps \<longleftrightarrow> sorted_wrt (<) (map fst ps)"

text \<open>Every client is stored under its own ID.\<close>

definition pool_keyed :: "pool \<Rightarrow> bool" where
  "pool_keyed ps \<longleftrightarrow> (\<forall>(k, c)\<in>set ps. cc_ID c = k)"

definition update_client :: "u16 \<Rightarrow> (conn \<Rightarrow> conn) \<Rightarrow> pool \<Rightarrow> pool" where
  "update_client k f ps = map (\<lambda>(j, c). (j, if j = k then f c else c)) ps"

lemma map_fst_update [simp]: "map fst (update_client k f ps) = map fst ps"
  by (simp add: update_client_def split_beta comp_def)

lemma pool_wf_map: "map fst ps = map fst qs \<Longrightarrow> pool_wf ps = pool_wf qs"
  by (simp add: pool_wf_def)

lemma pool_wf_distinct: "pool_wf ps \<Longrightarrow> distinct (map fst ps)"
  by (auto simp: pool_wf_def strict_sorted_iff)

section \<open>The mutex\<close>

definition lock_clients :: "'w server \<Rightarrow> 'w server run" where
  "lock_clients s = (if clients_mutex s then Fault Relock else Done (s\<lparr>clients_mutex := True\<rparr>))"

definition unlock_clients :: "'w server \<Rightarrow> 'w server" where
  "unlock_clients s = s\<lparr>clients_mutex := False\<rparr>"

section \<open>Creation of clients\<close>

definition factory_client_getID :: "'w server \<Rightarrow> u32 \<times> 'w server" where
  "factory_client_getID s = (next_client_id s, s\<lparr>next_client_id := next_client_id s + 1\<rparr>)"

definition factory_client_create ::
  "'w winsock \<Rightarrow> u32 \<Rightarrow> ConnState \<Rightarrow> u32 \<Rightarrow> 'w server \<Rightarrow> conn \<times> 'w server" where
  "factory_client_create os junk st addr s =
     (let (ID, s) = factory_client_getID s in cc_new os junk st (ucast ID) addr s)"

interpretation client_ids: id_source factory_client_getID next_client_id
  by unfold_locales (simp_all add: factory_client_getID_def)

text \<open>The 16-bit IDs of the clients that \<open>n\<close> draws from the counter give.\<close>

definition client_ids_of :: "nat \<Rightarrow> 'w server \<Rightarrow> u16 list" where
  "client_ids_of n s = map ucast (draw_ids factory_client_getID n s)"

lemma mod_cut: "((x :: int) mod 4294967296 + y) mod 65536 = (x + y) mod 65536"
proof -
  have "x mod 4294967296 mod 65536 = x mod 65536" by (simp add: mod_mod_cancel)
  then show ?thesis by (metis mod_add_left_eq)
qed

lemma ucast_add_of_nat: "(ucast (x + of_nat i :: u32) :: u16) = ucast x + of_nat i"
  by (transfer fixing: i) (simp add: take_bit_eq_mod mod_simps mod_mod_cancel mod_cut)

text \<open>
  Clients get different IDs up to 65536 of them, and not beyond: the 32-bit counter is cut to
  16 bits, so the client created 65536 later has the same ID.
\<close>

theorem client_ids_wrap:
  "(n \<le> 2 ^ 16 \<longrightarrow> distinct (client_ids_of n s)) \<and>
   (\<forall>i. i + 2 ^ 16 < n \<longrightarrow> client_ids_of n s ! (i + 2 ^ 16) = client_ids_of n s ! i)"
proof -
  have id: "client_ids_of n s ! i = ucast (next_client_id s) + of_nat i" if "i < n" for i
    using that by (simp add: client_ids_of_def client_ids.draw_ids_eq ucast_add_of_nat)
  have len: "length (client_ids_of n s) = n"
    by (simp add: client_ids_of_def client_ids.draw_ids_eq)
  have "i = j" if "i < n" "j < n" "n \<le> 2 ^ 16" "(of_nat i :: u16) = of_nat j" for i j
    using that by (simp add: word_of_nat_eq_iff take_bit_nat_eq_self)
  then have "n \<le> 2 ^ 16 \<longrightarrow> distinct (client_ids_of n s)"
    by (auto simp: distinct_conv_nth len id)
  moreover have "(of_nat (i + 2 ^ 16) :: u16) = of_nat i" for i
    by (simp add: word_of_nat_eq_iff)
  ultimately show ?thesis by (simp add: id)
qed

lemma client_ids_wrap_witness:
  "\<forall>s :: unit server. client_ids_of (2 ^ 16 + 1) s ! (0 + 2 ^ 16) = client_ids_of (2 ^ 16 + 1) s ! 0"
proof
  fix s :: "unit server"
  have "0 + 2 ^ 16 < (2 ^ 16 + 1 :: nat)" by simp
  with client_ids_wrap [of "2 ^ 16 + 1" s]
  show "client_ids_of (2 ^ 16 + 1) s ! (0 + 2 ^ 16) = client_ids_of (2 ^ 16 + 1) s ! 0" by blast
qed

end
