(* ===== verification/ServerCore.thy ===== *)
theory ServerCore
  imports ServerTypes
begin

text \<open>
  Server/Server.cpp: traversal of the client pool and the look-ups, the operator's commands that
  use them, start-up and shut-down, and the thread that accepts connections.
\<close>

section \<open>Traversal\<close>

type_synonym 'w handler = "conn \<Rightarrow> 'w server \<Rightarrow> (int \<times> conn \<times> 'w server) run"

text \<open>
  The loop of \<open>processClientsByPair\<close>: the value of \<open>err\<close> and \<open>processed\<close> at its end, and the entries
  with the changes that the handler made to the clients.
\<close>

fun process_loop ::
  "bool \<Rightarrow> 'w handler option \<Rightarrow> pool \<Rightarrow> u32 \<Rightarrow> 'w server \<Rightarrow> (int \<times> u32 \<times> pool \<times> 'w server) run" where
  "process_loop onlyActive handler [] processed s = Done (0, processed, [], s)"
| "process_loop onlyActive handler ((k, c) # ps) processed s =
     (if onlyActive \<and> \<not> cc_isRunning c then
        run_bind (process_loop onlyActive handler ps processed s) (\<lambda>(err, n, qs, s).
          Done (err, n, (k, c) # qs, s))
      else run_bind (case handler of None \<Rightarrow> Done (0, c, s) | Some h \<Rightarrow> h c s) (\<lambda>(err, c, s).
        if err \<noteq> 0 then Done (err, processed, (k, c) # ps, s)
        else run_bind (process_loop onlyActive handler ps (processed + 1) s) (\<lambda>(err, n, qs, s).
          Done (err, n, (k, c) # qs, s))))"

definition processClientsByPair ::
  "bool \<Rightarrow> 'w handler option \<Rightarrow> 'w server \<Rightarrow> (u32 \<times> 'w server) run" where
  "processClientsByPair onlyActive handler s =
     run_bind (lock_clients s) (\<lambda>s.
     run_bind (process_loop onlyActive handler (clientPool s) 0 s) (\<lambda>(err, processed, ps, s).
       let s = unlock_clients (s\<lparr>clientPool := ps\<rparr>) in
       Done (if err \<noteq> 0 then 0 else processed, s)))"

definition getActiveClientsCount :: "'w server \<Rightarrow> (u32 \<times> 'w server) run" where
  "getActiveClientsCount s = processClientsByPair True None s"

section \<open>Look-up\<close>

fun find_loop :: "bool \<Rightarrow> (conn \<Rightarrow> bool) \<Rightarrow> pool \<Rightarrow> u16 option" where
  "find_loop onlyActive h [] = None"
| "find_loop onlyActive h ((k, c) # ps) =
     (if onlyActive \<and> \<not> cc_isRunning c then find_loop onlyActive h ps
      else if h c then Some k else find_loop onlyActive h ps)"

definition findClient ::
  "bool \<Rightarrow> bool \<Rightarrow> (conn \<Rightarrow> bool) \<Rightarrow> 'w server \<Rightarrow> (u16 option \<times> 'w server) run" where
  "findClient lockMutex onlyActive h s =
     run_bind (if lockMutex then lock_clients s else Done s) (\<lambda>s.
       let result = find_loop onlyActive h (clientPool s) in
       Done (result, if lockMutex then unlock_clients s else s))"

definition by_ID :: "u32 \<Rightarrow> conn \<Rightarrow> bool" where
  "by_ID ID c \<longleftrightarrow> ucast (cc_ID c) = ID"

definition getClientByID :: "bool \<Rightarrow> bool \<Rightarrow> u32 \<Rightarrow> 'w server \<Rightarrow> (u16 option \<times> 'w server) run" where
  "getClientByID lockMutex onlyActive ID s = findClient lockMutex onlyActive (by_ID ID) s"

definition by_IP :: "u32 \<Rightarrow> int \<Rightarrow> bool \<Rightarrow> conn \<Rightarrow> bool" where
  "by_IP IP port isReadPort c \<longleftrightarrow>
     (if cc_IP c = IP then
        if port = -1 then True
        else let client_port = getPort isReadPort c in client_port \<noteq> -1 \<and> client_port = port
      else False)"

definition getClientByIP ::
  "bool \<Rightarrow> bool \<Rightarrow> u32 \<Rightarrow> int \<Rightarrow> bool \<Rightarrow> 'w server \<Rightarrow> (u16 option \<times> 'w server) run" where
  "getClientByIP lockMutex onlyActive IP port isReadPort s =
     findClient lockMutex onlyActive (by_IP IP port isReadPort) s"

text \<open>\<open>clientID\<close> is an \<open>int16_t\<close>; the comparison with the unsigned ID is one of \<open>int\<close>s.\<close>

definition by_login :: "u32 \<Rightarrow> 16 word \<Rightarrow> conn \<Rightarrow> bool" where
  "by_login loginHash clientID c \<longleftrightarrow>
     (if cc_loginHash c = loginHash then
        if sint clientID \<noteq> -1 \<and> uint (cc_ID c) = sint clientID then False else True
      else False)"

definition getClientByLogin ::
  "bool \<Rightarrow> bool \<Rightarrow> u32 \<Rightarrow> 16 word \<Rightarrow> 'w server \<Rightarrow> (u16 option \<times> 'w server) run" where
  "getClientByLogin lockMutex onlyActive loginHash clientID s =
     findClient lockMutex onlyActive (by_login loginHash clientID) s"

section \<open>The operator's commands\<close>

definition quoted :: "string \<Rightarrow> string" where
  "quoted t = [CHR 0x22] @ t @ [CHR 0x22]"

definition sv_printCommandsList :: "'w server \<Rightarrow> 'w server" where
  "sv_printCommandsList s =
     (let s = raw_colored CC_InfoHL ''Commands for managing the server:'' s;
          s = raw_colored CC_Info (''  '' @ quoted ''list'' @ ''          => Print list of all active clients'') s;
          s = raw_colored CC_Info (''  '' @ quoted ''list_detailed'' @ '' => Print list of all active clients with extra info'') s;
          s = raw_colored CC_Info (''  '' @ quoted ''send'' @ ''          => Send the packet to client'') s;
          s = raw_colored CC_Info (''  '' @ quoted ''send_all'' @ ''      => Send the packet to all clients'') s;
          s = raw_colored CC_Info (''  '' @ quoted ''save'' @ ''          => Save all data into the file'') s;
          s = raw_colored CC_Info (''  '' @ quoted ''clean'' @ ''         => Clean all inactive users'') s;
          s = raw_colored CC_Info (''  '' @ quoted ''commands'' @ ''      => Print all available commands'') s
      in raw_colored CC_Danger (''  '' @ quoted ''close'' @ ''         => Close the server'') s)"

definition printClientsList :: "bool \<Rightarrow> 'w server \<Rightarrow> 'w server run" where
  "printClientsList ext s =
     run_bind (processClientsByPair False (Some (\<lambda>c s. Done (0, c, printInfo ext c s))) s) (\<lambda>(_, s). Done s)"

text \<open>\<open>std::stoi\<close>: leading white space, a sign, and as many digits as there are.\<close>

definition is_digit :: "char \<Rightarrow> bool" where
  "is_digit c \<longleftrightarrow> c \<in> set ''0123456789''"

definition digits_value :: "string \<Rightarrow> int" where
  "digits_value ds = foldl (\<lambda>v d. 10 * v + (int (of_char d) - 48)) 0 ds"

definition stoi :: "string \<Rightarrow> string + int" where
  "stoi str =
     (let t = dropWhile is_space str;
          neg = (case t of c # _ \<Rightarrow> c = CHR ''-'' | [] \<Rightarrow> False);
          t = (case t of c # cs \<Rightarrow> if c = CHR ''-'' \<or> c = CHR ''+'' then cs else t | [] \<Rightarrow> []);
          ds = takeWhile is_digit t;
          v = (if neg then - digits_value ds else digits_value ds) in
      if ds = [] then Inl ''invalid_argument''
      else if v < - (2 ^ 31) \<or> 2 ^ 31 \<le> v then Inl ''out_of_range'' else Inr v)"

text \<open>The text typed by the operator, as a client ID, else an IP address, else a login.\<close>

definition send_lookup :: "'w around \<Rightarrow> string \<Rightarrow> 'w server \<Rightarrow> (u16 option \<times> 'w server) run" where
  "send_lookup a cmd s =
     (case stoi cmd of
        Inl e \<Rightarrow> Fault (Exception e)
      | Inr i \<Rightarrow>
          run_bind (getClientByID False True (of_int i) s) (\<lambda>(client, s).
            if client \<noteq> None then Done (client, s)
            else let IP = (case ws_inet_pton (ar_os a) cmd of Some ip \<Rightarrow> ip | None \<Rightarrow> ar_junk_ip a) in
              run_bind (getClientByIP False True IP (-1) False s) (\<lambda>(client, s).
                if client \<noteq> None then Done (client, s)
                else getClientByLogin False True (ar_hash a cmd) (-1) s)))"

definition ask_packet :: "'w server \<Rightarrow> (packet \<times> 'w server) run" where
  "ask_packet s =
     (let s = raw_colored CC_Info ''Please type the data you want to send'' s;
          (cmd, s) = cin_getline s in
      create DT_MSG (to_bytes cmd) (of_nat (length cmd)) False s)"

text \<open>When no client is found the function returns with the mutex locked, as the source does.\<close>

definition sv_send :: "'w around \<Rightarrow> u16 option \<Rightarrow> packet option \<Rightarrow> 'w server \<Rightarrow> 'w server run" where
  "sv_send a client packet s =
     run_bind (lock_clients s) (\<lambda>s.
     run_bind
       (case client of
          Some k \<Rightarrow> Done (Some k, s)
        | None \<Rightarrow> (let s = raw_colored CC_Info ''Please type the client ID/IP/login'' s;
                      (cmd, s) = cin_getline s in send_lookup a cmd s))
       (\<lambda>(client, s). case client of
          None \<Rightarrow> Done (raw_colored CC_WarningHL ''Client not found!'' s)
        | Some k \<Rightarrow>
            run_bind (case packet of Some p \<Rightarrow> Done (p, s) | None \<Rightarrow> ask_packet s) (\<lambda>(p, s).
              let s = s\<lparr>clientPool := update_client k (cc_sendPacket (Some p)) (clientPool s)\<rparr>;
                  s = unlock_clients s in
              Done (raw_colored CC_SuccessHL ''Data was successfully sended!'' s))))"

definition sv_sendAll :: "packet option \<Rightarrow> 'w server \<Rightarrow> 'w server run" where
  "sv_sendAll packet s =
     run_bind (case packet of Some p \<Rightarrow> Done (p, s) | None \<Rightarrow> ask_packet s) (\<lambda>(p, s).
     run_bind (processClientsByPair True (Some (\<lambda>c s. Done (0, cc_sendPacket (Some p) c, s))) s) (\<lambda>(count, s).
       Done (colored CC_SuccessHL ''Data was successfully sended to %u clients'' [FInt (uint count)] s)))"

definition sv_save :: "'w server \<Rightarrow> 'w server run" where
  "sv_save s =
     run_bind (processClientsByPair False (Some (\<lambda>c s.
         run_bind (saveData c (data_file s)) (\<lambda>f. Done (0, c, s\<lparr>data_file := f\<rparr>)))) s) (\<lambda>(_, s).
       Done (colored CC_SuccessHL ''Data was successfully saved!'' [] s))"

section \<open>Sockets\<close>

text \<open>\<open>SO_SNDTIMEO\<close> and \<open>SO_RCVTIMEO\<close> are set to \<open>TIMEOUT * 1000\<close> milliseconds.\<close>

definition sv_initSocket :: "'w winsock \<Rightarrow> port \<Rightarrow> 'w server \<Rightarrow> SOCKET \<times> 'w server" where
  "sv_initSocket os port s =
     (let (result, s) = syscall (ws_socket os AF_INET SOCK_STREAM IPPROTO_TCP) s in
      if result = INVALID_SOCKET then (INVALID_SOCKET, wsa_print_err os ''Server.cpp'' 301 s)
      else let s = sv_setState Srv_Bind s;
               (err, s) = syscall (ws_bind os result 0 port) s in
        if err = SOCKET_ERROR then (INVALID_SOCKET, wsa_print_err os ''Server.cpp'' 316 s)
        else let s = sv_setState Srv_SetOpts s;
                 value = TIMEOUT * 1000;
                 (err, s) = syscall (ws_setsockopt os result SO_SNDTIMEO value) s in
          if err = SOCKET_ERROR then (INVALID_SOCKET, wsa_print_err os ''Server.cpp'' 329 s)
          else let (err, s) = syscall (ws_setsockopt os result SO_RCVTIMEO value) s in
            if err = SOCKET_ERROR then (INVALID_SOCKET, wsa_print_err os ''Server.cpp'' 336 s)
            else let s = sv_setState Srv_Listen s;
                     (err, s) = syscall (ws_listen os result SOMAXCONN) s in
              if err = SOCKET_ERROR then (INVALID_SOCKET, wsa_print_err os ''Server.cpp'' 345 s)
              else (result, s))"

definition sv_initSockets :: "'w winsock \<Rightarrow> 'w server \<Rightarrow> ServerError \<times> 'w server" where
  "sv_initSockets os s =
     (let s = sv_setState Srv_CreateAuthSocket s;
          (k, s) = sv_initSocket os (sv_authPort s) s;
          s = s\<lparr>sv_authSocket := k\<rparr> in
      if k = INVALID_SOCKET then (SE_CREATE_SOCKET, wsa_print_err os ''Server.cpp'' 360 s)
      else let s = colored CC_SuccessHL ''The server can authorize clients on the port %d''
                     [FInt (uint (sv_authPort s))] s
        in (SE_OK, s\<lparr>sv_started := True\<rparr>))"

definition startServer :: "'w winsock \<Rightarrow> port \<Rightarrow> 'w server \<Rightarrow> (ServerError \<times> 'w server) run" where
  "startServer os authPort s =
     (if sv_started s then Done (SW_ALREADY_STARTED, s)
      else let s = s\<lparr>sv_authSocket := INVALID_SOCKET, sv_authPort := authPort, sv_started := False\<rparr>;
               s = sv_setState Srv_InitWinSock s;
               (init_winsock, s) = syscall (ws_startup os) s in
        if init_winsock \<noteq> NO_ERROR then
          Done (SE_INIT_WINSOCK, wsa_print_err os ''Server.cpp'' 26 s)
        else let (err, s) = sv_initSockets os s in
          if se_code err \<noteq> 0 then Done (err, s)
          else let s = raw_colored CC_SuccessHL ''The server is running'' s;
                   s = s\<lparr>sv_started := True\<rparr> in
            if firstHandshakesHandler s then Fault Terminate
            else let s = s\<lparr>firstHandshakesHandler := True\<rparr> in
              if secondHandshakesHandler s then Fault Terminate
              else Done (SE_OK, s\<lparr>secondHandshakesHandler := True\<rparr>))"

end
