(* ===== verification/ServerCleaner.thy ===== *)
theory ServerCleaner
  imports ServerCore
begin

text \<open>
  Server/Cleaner.cpp: the thread that disconnects inactive clients and its commands; and, because
  it stops the cleaner, \<open>Server::closeServer\<close>. The clients' and the cleaner's threads act through
  the record \<open>around\<close>.
\<close>

definition cln_printCommandsList :: "'w server \<Rightarrow> 'w server" where
  "cln_printCommandsList s =
     (let s = raw_colored CC_InfoHL ''Commands for managing the cleaner:'' s in
      if \<not> cl_clean_started s then
        raw_colored CC_Info (''  '' @ quoted ''enable_cleaner'' @ ''      => Enable inactive clients cleaner'') s
      else
        let s = raw_colored CC_Info (''  '' @ quoted ''get_cleaner_mode'' @ ''    => Print cleaner mode'') s;
            s = raw_colored CC_Info (''  '' @ quoted ''change_cleaner_mode'' @ '' => Change cleaner mode'') s
        in raw_colored CC_Warning (''  '' @ quoted ''disable_cleaner'' @ ''     => Disable inactive clients cleaner'') s)"

fun mode_code :: "CleanerMode \<Rightarrow> int" where
  "mode_code OnlyDisconnect = 0"
| "mode_code AgressiveMode = 1"

text \<open>\<open>modeDesc\<close> is computed and then not used: the enumerator itself is passed for \<open>%s\<close>.\<close>

definition cln_printMode :: "'w server \<Rightarrow> 'w server" where
  "cln_printMode s =
     (let modeDesc = (case cl_clean_mode s of OnlyDisconnect \<Rightarrow> ''Only disconnect'' | AgressiveMode \<Rightarrow> ''Agressive mode'')
      in colored CC_InfoHL ''Cleaner mode: %s'' [FInt (mode_code (cl_clean_mode s))] s)"

definition cln_changeMode :: "'w around \<Rightarrow> 'w server \<Rightarrow> 'w server" where
  "cln_changeMode a s =
     (let s = raw_colored CC_InfoHL ''Type the desired mode:'' s;
          s = colored CC_Info ''  %d - Only disconnect'' [FInt (mode_code OnlyDisconnect)] s;
          s = colored CC_Info ''  %d - Agressive mode'' [FInt (mode_code AgressiveMode)] s;
          (c, s) = cin_char s;
          cmd = (case c of Some c \<Rightarrow> byte_of_char c | None \<Rightarrow> ar_junk_cmd a) in
      if cmd = of_int (mode_code OnlyDisconnect) \<or> cmd = of_int (mode_code AgressiveMode) then
        raw_colored CC_SuccessHL ''Cleaner mode changed successfully!''
          (s\<lparr>cl_clean_mode := (if cmd = 0 then OnlyDisconnect else AgressiveMode)\<rparr>)
      else raw_colored CC_WarningHL ''Invalid mode was typed'' s)"

section \<open>Cleaning\<close>

text \<open>The loop over the pool: how many were cleaned, and the entries that remain.\<close>

fun clean_loop :: "'w around \<Rightarrow> pool \<Rightarrow> u32 \<Rightarrow> 'w server \<Rightarrow> (u32 \<times> pool \<times> 'w server) run" where
  "clean_loop a [] cleaned s = Done (cleaned, [], s)"
| "clean_loop a ((k, c) # ps) cleaned s =
     (if \<not> cc_isRunning c \<and> \<not> isDisconnected c then
        let (b, c, s) = cc_disconnect (ar_receiver a) (ar_sender a) c s in
        if b \<and> cl_clean_mode s = AgressiveMode then
          run_bind (cc_destroy (ar_receiver a) (ar_sender a) c s) (\<lambda>s. clean_loop a ps (cleaned + 1) s)
        else run_bind (clean_loop a ps (if b then cleaned + 1 else cleaned) s) (\<lambda>(n, qs, s).
          Done (n, (k, c) # qs, s))
      else run_bind (clean_loop a ps cleaned s) (\<lambda>(n, qs, s). Done (n, (k, c) # qs, s)))"

definition cleanInactiveClients :: "'w around \<Rightarrow> bool \<Rightarrow> 'w server \<Rightarrow> 'w server run" where
  "cleanInactiveClients a ext s =
     run_bind (lock_clients s) (\<lambda>s.
     run_bind (clean_loop a (clientPool s) 0 s) (\<lambda>(cleaned, ps, s).
       let s = unlock_clients (s\<lparr>clientPool := ps\<rparr>) in
       if cleaned \<noteq> 0 then
         let verb = (if cl_clean_mode s = AgressiveMode then ''Cleaned'' else ''Disconnected'') in
         Done (colored CC_InfoHL ''%s %d inactive clients'' [FStr verb, FInt (uint cleaned)] s)
       else if ext then Done (raw_colored CC_InfoHL ''All clients are active'' s)
       else Done s))"

text \<open>The cleaner thread; \<open>ar_env\<close> is what the other threads do while it sleeps.\<close>

fun cleaner_loop :: "'w around \<Rightarrow> nat \<Rightarrow> 'w server \<Rightarrow> 'w server run" where
  "cleaner_loop a 0 s = Out_Of_Fuel"
| "cleaner_loop a (Suc fuel) s =
     (if \<not> (sv_isRunning s \<and> cl_clean_started s) then Done s
      else run_bind (cleanInactiveClients a False s) (\<lambda>s.
        cleaner_loop a fuel (ar_env a (s\<lparr>os_world := ws_sleep (ar_os a) 5000 (os_world s)\<rparr>))))"

definition inactiveClientsCleaner :: "'w around \<Rightarrow> nat \<Rightarrow> 'w server \<Rightarrow> 'w server run" where
  "inactiveClientsCleaner a fuel s = cleaner_loop a fuel (setThreadDesc ''[Server][Cleaner]'' s)"

section \<open>Switching it on and off\<close>

text \<open>
  The thread is created before \<open>started\<close> is set; \<open>ar_spawn\<close> is what it does in between, if it is
  scheduled at once.
\<close>

definition startCleaner :: "'w around \<Rightarrow> 'w server \<Rightarrow> 'w server run" where
  "startCleaner a s =
     (if cl_clean_started s then Done s
      else let s = s\<lparr>cl_clean_mode := OnlyDisconnect\<rparr> in
        if cl_clean_thread s then Fault Terminate
        else let s = ar_spawn a (s\<lparr>cl_clean_thread := True\<rparr>);
                 s = s\<lparr>cl_clean_started := True, cl_clean_mode := OnlyDisconnect\<rparr>;
                 s = raw_colored CC_SuccessHL ''Cleaner enabled!'' s;
                 s = cln_printMode s
          in Done (cln_printCommandsList s))"

definition closeCleaner :: "'w around \<Rightarrow> 'w server \<Rightarrow> 'w server" where
  "closeCleaner a s =
     (if \<not> cl_clean_started s then s
      else let s = s\<lparr>cl_clean_started := False\<rparr>;
               s = (if cl_clean_thread s then (ar_cleaner a s)\<lparr>cl_clean_thread := False\<rparr> else s);
               s = raw_colored CC_SuccessHL ''Cleaner disabled!'' s
        in cln_printCommandsList s)"

section \<open>Closing the server\<close>

text \<open>\<open>clear()\<close> destroys the clients one after the other.\<close>

fun clear_pool :: "'w around \<Rightarrow> pool \<Rightarrow> 'w server \<Rightarrow> 'w server run" where
  "clear_pool a [] s = Done s"
| "clear_pool a ((k, c) # ps) s =
     run_bind (cc_destroy (ar_receiver a) (ar_sender a) c s) (\<lambda>s. clear_pool a ps s)"

definition closeServer :: "'w around \<Rightarrow> 'w server \<Rightarrow> 'w server run" where
  "closeServer a s =
     (if \<not> sv_started s then Done s
      else
        let s = s\<lparr>sv_started := False\<rparr>;
            s = (if firstHandshakesHandler s then (ar_first a s)\<lparr>firstHandshakesHandler := False\<rparr> else s);
            s = (if secondHandshakesHandler s then (ar_second a s)\<lparr>secondHandshakesHandler := False\<rparr> else s);
            s = closeCleaner a s in
        run_bind (lock_clients s) (\<lambda>s.
        run_bind (clear_pool a (clientPool s) s) (\<lambda>s.
          let s = unlock_clients (s\<lparr>clientPool := []\<rparr>);
              s = sv_setState Srv_CloseSockets s;
              s = (if sv_authSocket s \<noteq> INVALID_SOCKET then
                     let (err, s) = syscall (ws_closesocket (ar_os a) (sv_authSocket s)) s in
                     if err = SOCKET_ERROR then wsa_print_err (ar_os a) ''Server.cpp'' 71 s else s
                   else s);
              s = s\<lparr>sv_authSocket := INVALID_SOCKET\<rparr>;
              s = s\<lparr>os_world := ws_cleanup (ar_os a) (os_world s)\<rparr>
          in Done (raw_colored CC_InfoHL ''The server was stopped'' s))))"

section \<open>Accepting connections\<close>

text \<open>
  The inner loop of \<open>processIncomeConnection\<close>: the last result of \<open>select\<close>. \<open>ar_env\<close> stands for
  the other threads before each test of \<open>isRunning()\<close>.
\<close>

fun select_loop :: "'w around \<Rightarrow> nat \<Rightarrow> int \<Rightarrow> 'w server \<Rightarrow> (int \<times> 'w server) run" where
  "select_loop a 0 select_res s = Out_Of_Fuel"
| "select_loop a (Suc fuel) select_res s =
     (let s = ar_env a s in
      if \<not> sv_isRunning s then Done (select_res, s)
      else let (select_res, s) = syscall (ws_select (ar_os a) (select_res + 1) (sv_authSocket s) TIMEOUT) s in
        if select_res \<noteq> 0 then Done (select_res, s)
        else select_loop a fuel select_res (s\<lparr>os_world := ws_sleep (ar_os a) 1000 (os_world s)\<rparr>))"

text \<open>An accepted socket is not stored: the code that would create a client is a comment.\<close>

definition accept_client :: "'w around \<Rightarrow> 'w server \<Rightarrow> 'w server run" where
  "accept_client a s =
     (let s = sv_setState Srv_Connect s;
          (clientSocket, addr, port, w) = ws_accept (ar_os a) (sv_authSocket s) (os_world s);
          s = s\<lparr>os_world := w\<rparr> in
      if clientSocket = INVALID_SOCKET then Done (wsa_print_err (ar_os a) ''Server.cpp'' 420 s)
      else run_bind (lock_clients s) (\<lambda>s. Done (unlock_clients s)))"

fun pic_loop :: "'w around \<Rightarrow> nat \<Rightarrow> 'w server \<Rightarrow> 'w server run" where
  "pic_loop a 0 s = Out_Of_Fuel"
| "pic_loop a (Suc fuel) s =
     (let s = ar_env a s in
      if \<not> sv_isRunning s then Done s
      else run_bind (getActiveClientsCount s) (\<lambda>(count, s).
        if unat count > MAX_CLIENT_COUNT then
          let s = raw_colored CC_WarningHL ''Client connections count limit exceeded'' s in
          pic_loop a fuel (s\<lparr>os_world := ws_sleep (ar_os a) 10000 (os_world s)\<rparr>)
        else
          let s = colored CC_InfoHL ''Wait for client on port %d...'' [FInt (uint (sv_authPort s))] s;
              s = sv_setState Srv_Waiting s in
          run_bind (select_loop a fuel 0 s) (\<lambda>(select_res, s).
            let s = ar_env a s in
            if \<not> sv_isRunning s then Done s
            else
              let s = (if select_res = SOCKET_ERROR then wsa_print_err (ar_os a) ''Server.cpp'' 410 s else s) in
              if select_res \<le> 0 then pic_loop a fuel s
              else run_bind (accept_client a s) (\<lambda>s. pic_loop a fuel s))))"

definition processIncomeConnection :: "'w around \<Rightarrow> nat \<Rightarrow> 'w server \<Rightarrow> 'w server run" where
  "processIncomeConnection a fuel s =
     run_bind (pic_loop a fuel (setThreadDesc ''[Server][PIC]'' s)) (\<lambda>s.
       Done (colored CC_InfoHL ''Closing PIC (Processing Incoming Connections) thread'' [] s))"

end
