(* ===== verification/ServerMain.thy ===== *)
theory ServerMain
  imports ServerCleaner
begin

text \<open>
  Server/main.cpp: start-up and the loop over the operator's commands. \<open>fuel\<close> bounds the loop;
  \<open>ar_env\<close> is what the server's other threads do before each test of \<open>isRunning()\<close>.
\<close>

definition sv_AUTH_PORT :: port where "sv_AUTH_PORT = 27010"
definition sv_DATA_PORT :: port where "sv_DATA_PORT = 27011"

definition server_command :: "'w around \<Rightarrow> string \<Rightarrow> 'w server \<Rightarrow> 'w server run" where
  "server_command a cmd s =
     (if cmd = ''list'' then printClientsList False s
      else if cmd = ''list_detailed'' then printClientsList True s
      else if cmd = ''send'' then sv_send a None None s
      else if cmd = ''send_all'' then sv_sendAll None s
      else if cmd = ''save'' then sv_save s
      else if cmd = ''clean'' then cleanInactiveClients a True s
      else if cmd = ''commands'' then Done (cln_printCommandsList (sv_printCommandsList s))
      else if cmd = ''close'' then closeServer a s
      else if cmd = ''enable_cleaner'' then startCleaner a s
      else if cmd = ''get_cleaner_mode'' then Done (cln_printMode s)
      else if cmd = ''change_cleaner_mode'' then Done (cln_changeMode a s)
      else if cmd = ''disable_cleaner'' then Done (closeCleaner a s)
      else Done s)"

fun server_loop :: "'w around \<Rightarrow> nat \<Rightarrow> 'w server \<Rightarrow> 'w server run" where
  "server_loop a 0 s = Out_Of_Fuel"
| "server_loop a (Suc fuel) s =
     (let s = ar_env a s in
      if \<not> sv_isRunning s then Done s
      else let (cmd, s) = cin_word s;
               s = cin_ignore s in
        run_bind (server_command a cmd s) (server_loop a fuel))"

definition server_start :: "'w around \<Rightarrow> nat \<Rightarrow> 'w server \<Rightarrow> (ServerError \<times> 'w server) run" where
  "server_start a fuel s =
     run_bind (startServer (ar_os a) sv_AUTH_PORT s) (\<lambda>(err, s).
       if is_error (se_code err) then Done (SE_START_SERVER, s)
       else let s = cln_printCommandsList (sv_printCommandsList s) in
         run_bind (server_loop a fuel s) (\<lambda>s.
           if \<not> sv_isRunning s then run_bind (closeServer a s) (\<lambda>s. Done (SE_OK, s))
           else Done (SE_OK, s)))"

definition server_main :: "'w around \<Rightarrow> nat \<Rightarrow> 'w server \<Rightarrow> (int \<times> 'w server) run" where
  "server_main a fuel s =
     run_bind (server_start a fuel (setThreadDesc ''[main]'' s)) (\<lambda>(err, s).
       let s = (if is_error (se_code err) then colored CC_DangerHL ''Server creating failed - error: %d''
                  [FInt (se_code err)] s else s);
           s = raw_colored CC_InfoHL ''Press any button to end execution of server'' s;
           (_, s) = cin_word s
       in Done (0, s))"

end
