(* ===== verification/PoolProps.thy ===== *)
theory PoolProps
  imports ServerMain
begin

text \<open>
  Traversal and look-up in the client pool, and what the \<open>send\<close> and \<open>send_all\<close> commands do with them.
\<close>

section \<open>Look-up\<close>

definition matches :: "bool \<Rightarrow> (conn \<Rightarrow> bool) \<Rightarrow> pool \<Rightarrow> u16 set" where
  "matches onlyActive h ps = {k. \<exists>c. (k, c) \<in> set ps \<and> (onlyActive \<longrightarrow> cc_isRunning c) \<and> h c}"

lemma matches_simps [simp]:
  "matches oa h [] = {}"
  "matches oa h ((k, c) # ps) = (if (oa \<longrightarrow> cc_isRunning c) \<and> h c then insert k (matches oa h ps) else matches oa h ps)"
  by (auto simp: matches_def)

lemma finite_matches [simp]: "finite (matches oa h ps)"
  by (rule finite_subset [of _ "fst ` set ps"]) (force simp: matches_def)+

lemma matches_keys: "k \<in> matches oa h ps \<Longrightarrow> k \<in> set (map fst ps)"
  by (force simp: matches_def)

lemma find_loop_Min:
  "pool_wf ps \<Longrightarrow> find_loop oa h ps = (if matches oa h ps = {} then None else Some (Min (matches oa h ps)))"
proof (induction ps)
  case (Cons p ps)
  obtain k c where p: "p = (k, c)" by (metis prod.exhaust)
  have wf: "pool_wf ps" and lt: "\<forall>j\<in>matches oa h ps. k < j"
    using Cons.prems matches_keys [of _ oa h ps] by (auto simp: pool_wf_def p)
  have "Min (insert k (matches oa h ps)) = k"
    using lt by (intro Min_eqI) auto
  with Cons.IH [OF wf] show ?case
    by (cases oa; cases "cc_isRunning c"; cases "h c") (simp_all add: p)
qed simp

text \<open>
  \<open>findClient\<close> finds a client exactly when some client (an active one, if asked) satisfies the
  condition, and then it is the one with the smallest key. The server's state is unchanged, and
  when the mutex is taken it is given back.
\<close>

theorem findClient_least:
  assumes "pool_wf (clientPool s)" and "lockMutex \<longrightarrow> \<not> clients_mutex s"
  shows "findClient lockMutex onlyActive h s = Done
    (if matches onlyActive h (clientPool s) = {} then None
     else Some (Min (matches onlyActive h (clientPool s))), s)"
proof -
  have "s\<lparr>clients_mutex := False\<rparr> = s" if "lockMutex" using assms(2) that by simp
  then show ?thesis
    using find_loop_Min [OF assms(1), of onlyActive h] assms(2)
    by (simp add: findClient_def lock_clients_def unlock_clients_def)
qed

definition sample_server :: "pool \<Rightarrow> string \<Rightarrow> sample_world server" where
  "sample_server ps i = \<lparr>os_world = sample_world [], con_out = [], con_desc = (\<lambda>_. []), cur_thread = 0,
     bad_format = False, next_packet_id = 0, std_in = i, debug_build = False, clientPool = ps,
     clients_mutex = False, firstHandshakesHandler = False, secondHandshakesHandler = False,
     sv_started = True, sv_state = Srv_Waiting, sv_authPort = 27010, sv_authSocket = 3,
     next_client_id = 2, data_file = [], cl_clean_started = False, cl_clean_mode = OnlyDisconnect,
     cl_clean_thread = False\<rparr>"

lemma sample_server_simps [simp]:
  "clientPool (sample_server ps i) = ps" "\<not> clients_mutex (sample_server ps i)" "std_in (sample_server ps i) = i"
  "sv_started (sample_server ps i)" "\<not> cl_clean_started (sample_server ps i)" "\<not> cl_clean_thread (sample_server ps i)"
  "cl_clean_mode (sample_server ps i) = OnlyDisconnect" "next_packet_id (sample_server ps i) = 0"
  "\<not> firstHandshakesHandler (sample_server ps i)" "\<not> secondHandshakesHandler (sample_server ps i)"
  "sv_authSocket (sample_server ps i) = 3" "os_world (sample_server ps i) = sample_world []"
  by (simp_all add: sample_server_def)

text \<open>Two clients: number 1 is active, number 2 lost its connection.\<close>

definition sample_pool :: pool where
  "sample_pool = [(1, sample_conn), (2, sample_conn\<lparr>cc_ID := 2, readSocket := INVALID_SOCKET\<rparr>)]"

lemma sample_pool_wf [simp]: "pool_wf sample_pool"
  by (simp add: pool_wf_def sample_pool_def)

lemma sample_lost [simp]: "\<not> cc_isRunning (sample_conn\<lparr>cc_ID := 2, readSocket := INVALID_SOCKET\<rparr>)"
  by (simp add: cc_isRunning_def)

lemma findClient_least_witness:
  "findClient True False (\<lambda>c. True) (sample_server sample_pool []) = Done (Some 1, sample_server sample_pool [])"
proof -
  have "matches False (\<lambda>c. True) sample_pool = {1, 2}" by (simp add: sample_pool_def)
  then show ?thesis
    using findClient_least [of "sample_server sample_pool []" True False "\<lambda>c. True"] by simp
qed

lemma exclusion_arith:
  "0 \<le> v \<Longrightarrow> v < 65536 \<Longrightarrow> (if v < 32768 then v + 32768 else v - 32768) - 32768 \<noteq> -1 \<and>
     v = (if v < 32768 then v + 32768 else v - 32768) - 32768 \<longleftrightarrow> \<not> 32768 \<le> (v :: int)"
  by auto

text \<open>
  The \<open>clientID\<close> parameter of \<open>getClientByLogin\<close>, which should exclude a client from the search, works
  only for IDs below 32768: it is a signed 16-bit number compared with an unsigned one, so a client
  with a larger ID is found by its own login although it is to be excluded.
\<close>

theorem login_exclusion:
  assumes "cc_loginHash c = h"
  shows "by_login h (cc_ID c) c \<longleftrightarrow> 32768 \<le> unat (cc_ID c)"
proof -
  have u: "uint (cc_ID c) < 65536" "0 \<le> uint (cc_ID c)"
    using uint_lt2p [of "cc_ID c"] by simp_all
  have "sint (cc_ID c) = (uint (cc_ID c) + 32768) mod 65536 - 32768"
    by (simp add: sint_uint signed_take_bit_eq_take_bit_shift take_bit_eq_mod)
  moreover have "(uint (cc_ID c) + 32768) mod 65536 =
      (if uint (cc_ID c) < 32768 then uint (cc_ID c) + 32768 else uint (cc_ID c) - 32768)"
  proof (cases "uint (cc_ID c) < 32768")
    case False
    then have "(uint (cc_ID c) + 32768) mod 65536 = (uint (cc_ID c) - 32768) mod 65536"
      using mod_add_self2 [of "uint (cc_ID c) - 32768" 65536] by (simp add: add.commute)
    with False u show ?thesis by simp
  qed (use u in simp)
  moreover have "int (unat (cc_ID c)) = uint (cc_ID c)" by simp
  then have "32768 \<le> unat (cc_ID c) \<longleftrightarrow> 32768 \<le> uint (cc_ID c)" by linarith
  ultimately have "sint (cc_ID c) \<noteq> -1 \<and> uint (cc_ID c) = sint (cc_ID c) \<longleftrightarrow> \<not> 32768 \<le> unat (cc_ID c)"
    using exclusion_arith [OF u(2,1)] by simp
  with assms show ?thesis by (simp add: by_login_def)
qed

lemma login_exclusion_witness:
  "by_login 9 40000 (sample_conn\<lparr>cc_ID := 40000, cc_loginHash := 9\<rparr>)"
  using login_exclusion [of "sample_conn\<lparr>cc_ID := 40000, cc_loginHash := 9\<rparr>" 9] by simp

section \<open>Traversal\<close>

text \<open>Is the entry visited, and what becomes of it.\<close>

definition visited :: "bool \<Rightarrow> u16 \<times> conn \<Rightarrow> bool" where
  "visited onlyActive e \<longleftrightarrow> (onlyActive \<longrightarrow> cc_isRunning (snd e))"

definition visit :: "bool \<Rightarrow> (conn \<Rightarrow> conn) \<Rightarrow> u16 \<times> conn \<Rightarrow> u16 \<times> conn" where
  "visit onlyActive f e = (if visited onlyActive e then (fst e, f (snd e)) else e)"

lemma process_loop_entry:
  assumes "h = Some (\<lambda>c s. Done (err c, f c, s))"
  shows "process_loop oa h (e # ps) n s =
    (if \<not> visited oa e \<or> err (snd e) = 0
     then run_bind (process_loop oa h ps (if visited oa e then n + 1 else n) s) (\<lambda>(x, n, qs, s).
            Done (x, n, visit oa f e # qs, s))
     else Done (err (snd e), n, visit oa f e # ps, s))"
  by (cases e) (simp add: assms visited_def visit_def)

lemma process_loop_pure:
  assumes "ok = (\<lambda>e. \<not> visited oa e \<or> err (snd e) = 0)"
  shows "process_loop oa (Some (\<lambda>c s. Done (err c, f c, s))) ps n s =
     (case dropWhile ok ps of
        [] \<Rightarrow> Done (0, n + of_nat (length (filter (visited oa) ps)), map (visit oa f) ps, s)
      | y # zs \<Rightarrow> Done (err (snd y), n + of_nat (length (filter (visited oa) (takeWhile ok ps))),
                     map (visit oa f) (takeWhile ok ps) @ visit oa f y # zs, s))"
proof (induction ps arbitrary: n)
  case (Cons e ps)
  show ?case
  proof (cases "ok e")
    case True
    then show ?thesis
      by (cases "visited oa e"; cases "dropWhile ok ps")
        (simp_all add: process_loop_entry [OF refl] Cons.IH assms del: process_loop.simps dropWhile_eq_Nil_conv)
  next
    case False
    then show ?thesis by (simp add: process_loop_entry [OF refl] assms del: process_loop.simps)
  qed
qed simp

text \<open>
  \<open>processClientsByPair\<close> applies the handler once to every client (every active one, if asked), in
  ascending order of the keys, up to and including the first that reports an error; nothing else
  changes and the mutex is given back. It returns the number of clients handled, or 0 if the
  handler reported an error, even though the clients before the error have been handled.
\<close>

theorem process_all_or_error:
  assumes "\<not> clients_mutex s"
    and "ok = (\<lambda>e. \<not> visited onlyActive e \<or> err (snd e) = 0)"
  shows "processClientsByPair onlyActive (Some (\<lambda>c s. Done (err c, f c, s))) s = Done
    (case dropWhile ok (clientPool s) of
       [] \<Rightarrow> (of_nat (length (filter (visited onlyActive) (clientPool s))),
              s\<lparr>clientPool := map (visit onlyActive f) (clientPool s)\<rparr>)
     | y # zs \<Rightarrow> (0, s\<lparr>clientPool := map (visit onlyActive f) (takeWhile ok (clientPool s)) @ visit onlyActive f y # zs\<rparr>))"
proof -
  have bad: "err (snd y) \<noteq> 0" if "dropWhile ok (clientPool s) = y # zs" for y zs
    using hd_dropWhile [of ok "clientPool s"] that by (simp add: assms(2) del: dropWhile_eq_Nil_conv)
  have "s\<lparr>clients_mutex := False\<rparr> = s" using assms(1) by simp
  then have unlock: "unlock_clients (s\<lparr>clients_mutex := True, clientPool := x\<rparr>) = s\<lparr>clientPool := x\<rparr>" for x
    by (cases s) (simp add: unlock_clients_def)
  have "process_loop onlyActive (Some (\<lambda>c s. Done (err c, f c, s))) (clientPool s) 0 (s\<lparr>clients_mutex := True\<rparr>) =
    (case dropWhile ok (clientPool s) of
        [] \<Rightarrow> Done (0, of_nat (length (filter (visited onlyActive) (clientPool s))),
          map (visit onlyActive f) (clientPool s), s\<lparr>clients_mutex := True\<rparr>)
      | y # zs \<Rightarrow> Done (err (snd y), of_nat (length (filter (visited onlyActive) (takeWhile ok (clientPool s)))),
          map (visit onlyActive f) (takeWhile ok (clientPool s)) @ visit onlyActive f y # zs, s\<lparr>clients_mutex := True\<rparr>))"
    unfolding process_loop_pure [OF assms(2)]
    by (cases "dropWhile ok (clientPool s)") (simp_all del: dropWhile_eq_Nil_conv)
  then show ?thesis
    using assms(1) bad
    by (cases "dropWhile ok (clientPool s)") (simp_all add: processClientsByPair_def lock_clients_def unlock del: dropWhile_eq_Nil_conv)
qed

lemma visited_sample [simp]:
  "visited True (k, sample_conn)" "\<not> visited True (k, sample_conn\<lparr>cc_ID := 2, readSocket := INVALID_SOCKET\<rparr>)"
  by (simp_all add: visited_def)

lemma process_all_or_error_witness:
  "processClientsByPair True (Some (\<lambda>c s. Done (0, cc_sendPacket None c, s))) (sample_server sample_pool []) =
   Done (1, sample_server sample_pool [])"
proof -
  have "sample_server sample_pool [] \<lparr>clientPool := sample_pool\<rparr> = sample_server sample_pool []"
    by (simp add: sample_server_def)
  moreover have "length (filter (visited True) sample_pool) = 1" by (simp add: sample_pool_def)
  moreover have "visit True (cc_sendPacket None) = id"
    by (simp add: fun_eq_iff visit_def cc_sendPacket_def)
  ultimately show ?thesis
    using process_all_or_error [OF _ refl, of "sample_server sample_pool []" True "\<lambda>_. 0" "cc_sendPacket None"]
    by (simp add: dropWhile_eq_Nil_conv [THEN iffD2])
qed

end
