(* ===== verification/SendProps.thy ===== *)
theory SendProps
  imports PoolProps
begin

text \<open>
  The operator's \<open>send\<close> and \<open>send_all\<close> commands: who gets the packet, and what becomes of the mutex.
\<close>

section \<open>Looking a target up\<close>

definition least :: "u16 set \<Rightarrow> u16 option" where
  "least ks = (if ks = {} then None else Some (Min ks))"

lemma findClient_locked:
  "pool_wf (clientPool s) \<Longrightarrow> findClient False oa h s = Done (least (matches oa h (clientPool s)), s)"
  by (simp add: findClient_def find_loop_Min least_def)

text \<open>
  The client that a typed text with the leading number \<open>i\<close> selects: the active client with that
  ID, else the first with the IP address, else the first with the login.
\<close>

definition send_target :: "'w around \<Rightarrow> string \<Rightarrow> int \<Rightarrow> pool \<Rightarrow> u16 option" where
  "send_target a cmd i ps =
     (let IDs = matches True (by_ID (of_int i)) ps;
          IPs = matches True (by_IP (case ws_inet_pton (ar_os a) cmd of Some ip \<Rightarrow> ip | None \<Rightarrow> ar_junk_ip a) (-1) False) ps;
          logins = matches True (by_login (ar_hash a cmd) (-1)) ps in
      if IDs \<noteq> {} then least IDs else if IPs \<noteq> {} then least IPs else least logins)"

lemma send_lookup_eq:
  assumes "stoi cmd = Inr i" and "pool_wf (clientPool s)"
  shows "send_lookup a cmd s = Done (send_target a cmd i (clientPool s), s)"
  using assms
  by (simp add: send_lookup_def getClientByID_def getClientByIP_def getClientByLogin_def findClient_locked
      send_target_def least_def Let_def)

text \<open>The line that \<open>getline\<close> reads next, and the input after it.\<close>

definition typed :: "'w server \<Rightarrow> string" where
  "typed s = takeWhile (\<lambda>c. c \<noteq> CHR 0x0A) (std_in s)"

definition after_line :: "'w server \<Rightarrow> string" where
  "after_line s = drop 1 (dropWhile (\<lambda>c. c \<noteq> CHR 0x0A) (std_in s))"

lemma cin_getline_log:
  "cin_getline (raw_colored col t s) = (typed s, (raw_colored col t s)\<lparr>std_in := after_line s\<rparr>)"
  by (simp add: cin_getline_def typed_def after_line_def frame_simps Let_def)

lemma server_log [frame_simps]:
  "clientPool (raw_colored col t s) = clientPool s"
  "clients_mutex (raw_colored col t s) = clients_mutex s"
  "sv_started (raw_colored col t s) = sv_started s"
  "clientPool (colored col f xs s) = clientPool s"
  "clients_mutex (colored col f xs s) = clients_mutex s"
  "sv_started (colored col f xs s) = sv_started s"
  "cl_clean_mode (raw_colored col t s) = cl_clean_mode s"
  "cl_clean_started (raw_colored col t s) = cl_clean_started s"
  "cl_clean_thread (raw_colored col t s) = cl_clean_thread s"
  "cl_clean_mode (colored col f xs s) = cl_clean_mode s"
  "cl_clean_started (colored col f xs s) = cl_clean_started s"
  "cl_clean_thread (colored col f xs s) = cl_clean_thread s"
  by (simp_all add: log_upds)


definition sample_around :: "sample_world around" where
  "sample_around = \<lparr>ar_os = sample_os, ar_hash = (\<lambda>_. 0), ar_junk_ip = 77, ar_junk_cmd = 0,
     ar_receiver = join_receiver sample_os 1, ar_sender = join_sender sample_os 1,
     ar_first = id, ar_second = id, ar_cleaner = id, ar_spawn = id, ar_env = id\<rparr>"

lemma sample_around_simps [simp]:
  "ar_os sample_around = sample_os" "ar_hash sample_around = (\<lambda>_. 0)" "ar_junk_ip sample_around = 77"
  "ar_receiver sample_around = join_receiver sample_os 1" "ar_sender sample_around = join_sender sample_os 1"
  "ar_first sample_around = id" "ar_second sample_around = id" "ar_cleaner sample_around = id"
  "ar_spawn sample_around = id" "ar_env sample_around = id"
  by (simp_all add: sample_around_def)

lemma stoi_1 [simp]: "stoi ''1'' = Inr 1"
  by (simp add: stoi_def is_space_def is_digit_def digits_value_def)


section \<open>The mutex after a failed look-up\<close>

definition pool_commands :: "string set" where
  "pool_commands = {''list'', ''list_detailed'', ''send'', ''save'', ''clean''}"

lemma pool_command_relock:
  "clients_mutex s \<Longrightarrow> cmd \<in> pool_commands \<Longrightarrow> server_command a cmd s = Fault Relock"
  unfolding pool_commands_def
  by (elim insertE emptyE) (simp_all add: server_command_def printClientsList_def processClientsByPair_def
      lock_clients_def sv_send_def sv_save_def cleanInactiveClients_def)



section \<open>What the text means\<close>

lemma digits_not_special: "is_digit d \<Longrightarrow> \<not> is_space d \<and> d \<noteq> CHR ''-'' \<and> d \<noteq> CHR ''+''"
  by (auto simp: is_digit_def is_space_def)

lemma stoi_digits:
  assumes "ds \<noteq> []" "\<forall>d\<in>set ds. is_digit d" "rest = [] \<or> \<not> is_digit (hd rest)" "digits_value ds < 2 ^ 31" "0 \<le> digits_value ds"
  shows "stoi (ds @ rest) = Inr (digits_value ds)"
proof -
  obtain d es where ds: "ds = d # es" using assms(1) by (cases ds) auto
  have d: "\<not> is_space d" "d \<noteq> CHR ''-''" "d \<noteq> CHR ''+''"
    using assms(2) digits_not_special [of d] ds by auto
  have "takeWhile is_digit (ds @ rest) = ds"
    using assms(2,3) by (cases rest) simp_all
  with d ds assms(4,5) show ?thesis by (simp add: stoi_def)
qed

lemma digits_value_nonneg:
  assumes "\<forall>d\<in>set ds. is_digit d"
  shows "0 \<le> digits_value ds"
proof -
  have "0 \<le> v \<Longrightarrow> 0 \<le> foldl (\<lambda>v d. 10 * v + (int (of_char d) - 48)) v ds" for v
    using assms
  proof (induction ds arbitrary: v)
    case (Cons d ds)
    have "is_digit d" using Cons.prems(2) by simp
    then have "48 \<le> (of_char d :: nat)" by (auto simp: is_digit_def)
    then have "0 \<le> 10 * v + (int (of_char d) - 48)" using Cons.prems(1) by linarith
    from Cons.IH [OF this] Cons.prems(2) show ?case by simp
  qed simp
  then show ?thesis by (simp add: digits_value_def)
qed

lemma ucast_of_int_eq:
  assumes "0 \<le> v" "v < 65536"
  shows "ucast (k :: u16) = (of_int v :: u32) \<longleftrightarrow> k = of_int v"
proof -
  have "uint (of_int v :: u32) = v" "uint (of_int v :: u16) = v"
    using assms by (simp_all add: unsigned_of_int take_bit_int_eq_self)
  then show ?thesis
    using uint_lt2p [of k] by (simp add: word_uint_eq_iff unsigned_ucast_eq take_bit_int_eq_self)
qed

text \<open>
  An IP address typed for \<open>send\<close> is read as an ID first: \<open>stoi\<close> takes the leading digits. If
  some active client has the first number of the address as its ID, the packet goes to it, and the
  address is never looked at. A text without a leading number ends the program with an exception,
  so a login can only be found if it starts with a number.
\<close>

theorem send_reads_id_first:
  assumes "ds \<noteq> []" "\<forall>d\<in>set ds. is_digit d" "digits_value ds < 65536" and "rest = [] \<or> \<not> is_digit (hd rest)"
    and "pool_wf (clientPool s)" "pool_keyed (clientPool s)"
    and "(of_int (digits_value ds), c) \<in> set (clientPool s)" "cc_isRunning c"
  shows "send_lookup a (ds @ rest) s = Done (Some (of_int (digits_value ds)), s)"
proof -
  let ?k = "of_int (digits_value ds) :: u16"
  have v: "0 \<le> digits_value ds" using assms(2) by (rule digits_value_nonneg)
  have st: "stoi (ds @ rest) = Inr (digits_value ds)"
    using stoi_digits [OF assms(1,2,4)] assms(3) v by simp
  have "matches True (by_ID (of_int (digits_value ds))) (clientPool s) = {?k}"
  proof (intro equalityI subsetI)
    fix k assume "k \<in> matches True (by_ID (of_int (digits_value ds))) (clientPool s)"
    then obtain d where "(k, d) \<in> set (clientPool s)" "ucast (cc_ID d) = (of_int (digits_value ds) :: u32)"
      by (auto simp: matches_def by_ID_def)
    then have "ucast k = (of_int (digits_value ds) :: u32)"
      using assms(6) by (auto simp: pool_keyed_def)
    then show "k \<in> {?k}" by (simp add: ucast_of_int_eq [OF v assms(3)])
  next
    fix k assume "k \<in> {?k}"
    moreover have "cc_ID c = ?k" using assms(6,7) by (auto simp: pool_keyed_def)
    ultimately show "k \<in> matches True (by_ID (of_int (digits_value ds))) (clientPool s)"
      using assms(7,8) by (auto simp: matches_def by_ID_def ucast_of_int_eq [OF v assms(3)])
  qed
  then show ?thesis
    using send_lookup_eq [OF st assms(5)] by (simp add: send_target_def least_def)
qed

lemma send_reads_id_first_witness:
  "send_lookup sample_around ''1.2.3.4'' (sample_server sample_pool []) = Done (Some 1, sample_server sample_pool [])"
  using send_reads_id_first [of "''1''" "''.2.3.4''" "sample_server sample_pool []" sample_conn sample_around]
  by (simp add: is_digit_def digits_value_def pool_keyed_def sample_pool_def [symmetric]) (simp add: sample_pool_def)

section \<open>Sending to everybody\<close>

text \<open>
  \<open>send_all\<close> with a packet appends it to the queue of every active client and of no other, gives
  the mutex back and reports the number of active clients.
\<close>

theorem send_all_active:
  assumes "\<not> clients_mutex s"
  shows "sv_sendAll (Some p) s = Done (colored CC_SuccessHL ''Data was successfully sended to %u clients''
      [FInt (uint (of_nat (length (filter (visited True) (clientPool s))) :: u32))]
      (s\<lparr>clientPool := map (visit True (cc_sendPacket (Some p))) (clientPool s)\<rparr>))"
proof -
  have "s\<lparr>clients_mutex := False\<rparr> = s" using assms by simp
  then have "unlock_clients (s\<lparr>clients_mutex := True, clientPool := x\<rparr>) = s\<lparr>clientPool := x\<rparr>" for x
    by (cases s) (simp add: unlock_clients_def)
  with assms show ?thesis
    by (simp add: sv_sendAll_def processClientsByPair_def lock_clients_def
        process_loop_pure [OF refl, where err = "\<lambda>_. 0"] dropWhile_eq_Nil_conv [THEN iffD2])
qed

lemma send_all_active_witness:
  "\<exists>t. sv_sendAll (Some (sample_packet 0 DT_MSG False [65])) (sample_server sample_pool []) = Done t \<and>
     clientPool t = [(1, cc_sendPacket (Some (sample_packet 0 DT_MSG False [65])) sample_conn),
       (2, sample_conn\<lparr>cc_ID := 2, readSocket := INVALID_SOCKET\<rparr>)]"
  using send_all_active [of "sample_server sample_pool []" "sample_packet 0 DT_MSG False [65]"]
  by (simp add: frame_simps) (simp add: sample_pool_def visit_def)

end
