(* ===== verification/CleanerProps.thy ===== *)
theory CleanerProps
  imports SendProps
begin

text \<open>
  The inactive-client cleaner: which clients a pass disconnects or removes, its commands, the race at
  its start; and what closing the server leaves behind.
\<close>

section \<open>Threads that leave the server alone\<close>

lemma conn_end_host:
  "same_host s (colored col f xs (cc_close_end os l k (snd (cc_setState st c (cc_shutdown_end os l' k' (snd (cc_setState st' c' s)))))))"
  by (rule same_host_trans [OF _ same_host_log(3)], rule same_host_trans [OF _ end_same_host(2)],
      rule same_host_trans [OF _ same_host_log(8)], rule same_host_trans [OF _ end_same_host(1)], rule same_host_log(8))

lemma cc_receiverThread_host: "cc_receiverThread os fuel c s = Done (d, t) \<Longrightarrow> same_host s t"
proof -
  assume a: "cc_receiverThread os fuel c s = Done (d, t)"
  let ?s = "setThreadDescID ''[Client %d][Receiver]'' (cc_ID c) s"
  from a obtain c1 s1 where l: "cc_receiver_loop os fuel c ?s = Done (c1, s1)"
      and t: "t = colored CC_InfoHL ''Receiver thread closed'' [] (cc_close_end os 213 (readSocket c1)
        (snd (cc_setState Conn_CloseSocket (fst (cc_setState Conn_Shutdown c1 s1)) (cc_shutdown_end os 206 (readSocket c1)
          (snd (cc_setState Conn_Shutdown c1 s1))))))"
    by (auto simp: cc_receiverThread_def run_bind_Done_iff cc_setState_def Let_def split_beta)
  have "same_host s s1"
    using cc_receiver_loop_frame [OF l] same_host_trans [OF same_host_log(6)] by blast
  then show "same_host s t"
    unfolding t by (rule same_host_trans) (rule conn_end_host)
qed

lemma cc_senderThread_host: "cc_senderThread os fuel c s = Done (d, t) \<Longrightarrow> same_host s t"
proof -
  assume a: "cc_senderThread os fuel c s = Done (d, t)"
  let ?s = "setThreadDescID ''[Client %d][Sender]'' (cc_ID c) s"
  from a obtain c1 s1 where l: "cc_sender_loop os fuel c ?s = Done (c1, s1)"
      and t: "t = colored CC_InfoHL ''Sender thread closed'' [] (cc_close_end os 265 (writeSocket c1)
        (snd (cc_setState Conn_CloseSocket (fst (cc_setState Conn_Shutdown c1 s1)) (cc_shutdown_end os 258 (writeSocket c1)
          (snd (cc_setState Conn_Shutdown c1 s1))))))"
    by (auto simp: cc_senderThread_def run_bind_Done_iff cc_setState_def Let_def split_beta)
  have "same_host s s1"
    using cc_sender_loop_flags [OF l] same_host_trans [OF same_host_log(6)] by blast
  then show "same_host s t"
    unfolding t by (rule same_host_trans) (rule conn_end_host)
qed

text \<open>The threads of a connected client do not touch the server's own fields.\<close>

locale quiet_threads = conn_threads jr js
  for jr js :: "conn \<times> ('w, 'z) host_scheme \<Rightarrow> conn \<times> ('w, 'z) host_scheme" +
  assumes jr_host: "same_host (snd cs) (snd (jr cs))"
    and js_host: "same_host (snd cs) (snd (js cs))"
begin

lemma disconnect_host:
  assumes "cc_disconnect jr js c s = (b, d, t)"
  shows "same_host s t"
proof (cases "cc_started c \<and> \<not> cc_disconnected c")
  case True
  define c1 where "c1 = c\<lparr>cc_started := False\<rparr>"
  obtain c2 s2 where c2: "(if cc_receiver c1 then (case jr (c1, s) of (c, s) \<Rightarrow> (c\<lparr>cc_receiver := False\<rparr>, s)) else (c1, s)) = (c2, s2)"
    by (metis prod.exhaust)
  obtain c3 s3 where c3: "(if cc_sender c2 then (case js (c2, s2) of (c, s) \<Rightarrow> (c\<lparr>cc_sender := False\<rparr>, s)) else (c2, s2)) = (c3, s3)"
    by (metis prod.exhaust)
  have "same_host s s2" using c2 jr_host [of "(c1, s)"] by (auto split: if_splits prod.splits)
  moreover have "same_host s2 s3" using c3 js_host [of "(c2, s2)"] by (auto split: if_splits prod.splits)
  moreover have "t = colored CC_InfoHL ''Connected client %d was stopped'' [FInt (uint (cc_ID c3))] s3"
    using assms True unfolding cc_disconnect_def c1_def [symmetric] Let_def c2 prod.case c3 by simp
  ultimately show ?thesis
    using same_host_trans [OF same_host_trans same_host_log(3), of s s2 s3] by simp
next
  case False
  with assms show ?thesis by (auto simp: cc_disconnect_def)
qed

text \<open>A client that \<open>disconnect\<close> has stopped can be destroyed.\<close>

lemma destroy_stopped:
  assumes "cc_disconnect jr js c s = (b, d, t)" "cc_started c" "\<not> cc_disconnected c"
  shows "cc_destroy jr js d u = Done u"
  using disconnect_again [OF assms(1)] disconnect_started [OF assms(2,3,1)]
  by (simp add: cc_destroy_def)

end

interpretation worker: quiet_threads "join_receiver os fuel" "join_sender os fuel" for os fuel
  by unfold_locales
    (auto simp: join_receiver_def join_sender_def split: run.split dest: cc_receiverThread_host cc_senderThread_host)

section \<open>One pass of the cleaner\<close>

lemma server_same_hostD:
  assumes "same_host s t"
  shows "clientPool t = clientPool s" "clients_mutex t = clients_mutex s" "sv_started t = sv_started s"
    "cl_clean_mode t = cl_clean_mode s" "cl_clean_started t = cl_clean_started s"
    "cl_clean_thread t = cl_clean_thread s" "firstHandshakesHandler t = firstHandshakesHandler s"
    "secondHandshakesHandler t = secondHandshakesHandler s" "sv_authSocket t = sv_authSocket s"
    "sv_authPort t = sv_authPort s" "data_file t = data_file s" "next_client_id t = next_client_id s"
  by (subst assms [unfolded same_host_def], simp)+

text \<open>A client whose connection is gone but that has not been disconnected.\<close>

definition dead :: "conn \<Rightarrow> bool" where
  "dead c \<longleftrightarrow> cc_started c \<and> \<not> cc_disconnected c \<and> \<not> cc_isRunning c"

text \<open>What a pass in the mild mode makes of an entry.\<close>

definition swept :: "u16 \<times> conn \<Rightarrow> u16 \<times> conn \<Rightarrow> bool" where
  "swept e f \<longleftrightarrow> fst f = fst e \<and>
     (if dead (snd e) then cc_disconnected (snd f) \<and> \<not> cc_started (snd f) \<and> cc_ID (snd f) = cc_ID (snd e) \<and>
        \<not> cc_receiver (snd f) \<and> \<not> cc_sender (snd f) \<and> cc_mainPackets (snd f) = []
      else snd f = snd e)"

lemma clean_loop_spec:
  assumes a: "ar_receiver a = join_receiver os fuel" "ar_sender a = join_sender os fuel"
  shows "\<exists>qs t. clean_loop a ps n s = Done (n + of_nat (length (filter (\<lambda>e. dead (snd e)) ps)), qs, t) \<and> same_host s t \<and>
    (if cl_clean_mode s = AgressiveMode then qs = filter (\<lambda>e. \<not> dead (snd e)) ps else list_all2 swept ps qs)"
proof (induction ps arbitrary: n s)
  case (Cons e ps)
  obtain k c where e: "e = (k, c)" by (metis prod.exhaust)
  show ?case
  proof (cases "dead c")
    case True
    obtain b d u where dis: "cc_disconnect (ar_receiver a) (ar_sender a) c s = (b, d, u)" by (metis prod_cases3)
    note dis' = dis [unfolded a]
    have st: "cc_started c" "\<not> cc_disconnected c" using True by (auto simp: dead_def)
    note d = worker.disconnect_started [OF st dis'] worker.disconnect_host [OF dis']
    have mode: "cl_clean_mode u = cl_clean_mode s" using d by (simp add: server_same_hostD)
    have des: "cc_destroy (ar_receiver a) (ar_sender a) d u = Done u"
      using worker.destroy_stopped [OF dis' st] by (simp add: a)
    from Cons.IH [of "n + 1" u] obtain qs t where IH: "clean_loop a ps (n + 1) u =
        Done (n + 1 + of_nat (length (filter (\<lambda>e. dead (snd e)) ps)), qs, t)" "same_host u t"
        "if cl_clean_mode u = AgressiveMode then qs = filter (\<lambda>e. \<not> dead (snd e)) ps else list_all2 swept ps qs" by blast
    have "\<not> cc_isRunning c" "\<not> isDisconnected c" using True by (simp_all add: dead_def isDisconnected_def)
    then have "clean_loop a (e # ps) n s = Done (n + 1 + of_nat (length (filter (\<lambda>e. dead (snd e)) ps)),
        if cl_clean_mode s = AgressiveMode then qs else (k, d) # qs, t)"
      using d(1) IH(1) by (simp add: e dis des mode)
    moreover have "swept e (k, d)" using True d(1) by (simp add: swept_def e)
    ultimately show ?thesis
      using True IH(2,3) d(2) by (auto simp: e mode intro: same_host_trans)
  next
    case False
    have same: "clean_loop a (e # ps) n s = run_bind (clean_loop a ps n s) (\<lambda>(n, qs, s). Done (n, e # qs, s))"
      using False by (auto simp: e dead_def isDisconnected_def cc_disconnect_def)
    have "swept e e" using False by (simp add: swept_def e)
    with Cons.IH [of n s] False show ?thesis unfolding same by (auto simp: e)
  qed
qed simp

lemma raw_colored_same_server: "same_host s t \<Longrightarrow> same_host s (raw_colored col x t)"
  and colored_same_server: "same_host s t \<Longrightarrow> same_host s (colored col f xs t)"
  by (erule same_host_trans, rule same_host_log)+

text \<open>
  C32: One pass of the cleaner. A client is dead if it is started, not disconnected and has lost a
  socket. In the mild mode every dead client is disconnected (its threads joined, its queues
  emptied) and stays in the pool under its key; in the aggressive mode exactly the dead clients
  are removed from the pool. All other clients are left as they are and the mutex is given back.
\<close>

theorem cleaner_pass:
  assumes "\<not> clients_mutex s"
    and "ar_receiver a = join_receiver os fuel" and "ar_sender a = join_sender os fuel"
  shows "\<exists>t. cleanInactiveClients a ext s = Done t \<and> \<not> clients_mutex t \<and>
    (if cl_clean_mode s = AgressiveMode then clientPool t = filter (\<lambda>e. \<not> dead (snd e)) (clientPool s)
     else list_all2 swept (clientPool s) (clientPool t))"
proof -
  from clean_loop_spec [OF assms(2,3), of "clientPool s" 0 "s\<lparr>clients_mutex := True\<rparr>"] obtain qs u
    where l: "clean_loop a (clientPool s) 0 (s\<lparr>clients_mutex := True\<rparr>) =
        Done (of_nat (length (filter (\<lambda>e. dead (snd e)) (clientPool s))), qs, u)"
      and qs: "if cl_clean_mode s = AgressiveMode then qs = filter (\<lambda>e. \<not> dead (snd e)) (clientPool s)
        else list_all2 swept (clientPool s) qs" by auto
  let ?u = "unlock_clients (u\<lparr>clientPool := qs\<rparr>)"
  have u: "clients_mutex ?u = False" "clientPool ?u = qs" by (simp_all add: unlock_clients_def)
  then have "\<exists>t. cleanInactiveClients a ext s = Done t \<and> \<not> clients_mutex t \<and> clientPool t = qs"
    using assms(1) by (simp add: cleanInactiveClients_def lock_clients_def l Let_def frame_simps)
  with qs show ?thesis by metis
qed

lemma dead_sample [simp]:
  "\<not> dead sample_conn" "dead (sample_conn\<lparr>cc_ID := 2, readSocket := INVALID_SOCKET\<rparr>)"
  by (simp_all add: dead_def)

lemma cleaner_pass_witness:
  "\<exists>t. cleanInactiveClients sample_around False (sample_server sample_pool [] \<lparr>cl_clean_mode := AgressiveMode\<rparr>) = Done t \<and>
     clientPool t = [(1, sample_conn)]"
  using cleaner_pass [of "sample_server sample_pool [] \<lparr>cl_clean_mode := AgressiveMode\<rparr>" sample_around sample_os 1 False]
  by (auto simp: sample_pool_def)

end
