(* ===== verification/ServerProps.thy ===== *)
theory ServerProps
  imports CleanerProps
begin

text \<open>
  The cleaner's commands and the race at its start, start-up and shut-down of the server, the empty
  client pool, and the end of the operator's input.
\<close>

section \<open>The cleaner's commands\<close>

text \<open>
  The cleaner's mode cannot be changed from the keyboard. \<open>change_cleaner_mode\<close> reads a character,
  not a number, and compares its code with 0 and 1; so every character but those two control
  characters, in particular the offered 0 and 1, leaves the mode as it is and is called invalid.
\<close>

theorem mode_needs_control_character:
  assumes "dropWhile is_space (std_in s) = c # rest"
  shows "cl_clean_mode (cln_changeMode a s) =
    (if c = CHR 0x00 then OnlyDisconnect else if c = CHR 0x01 then AgressiveMode else cl_clean_mode s)"
proof -
  have "byte_of_char c = 0 \<longleftrightarrow> c = CHR 0x00"
    by (cases c) (auto simp: byte_of_char_def of_char_def)?
  moreover have "byte_of_char c = 1 \<longleftrightarrow> c = CHR 0x01"
    by (cases c) (auto simp: byte_of_char_def of_char_def)?
  ultimately show ?thesis
    using assms by (auto simp: cln_changeMode_def cin_char_def frame_simps Let_def)
qed

lemma mode_needs_control_character_witness:
  "cl_clean_mode (cln_changeMode sample_around (sample_server [] ''1'')) = OnlyDisconnect"
  using mode_needs_control_character [of "sample_server [] ''1''" "CHR ''1''" "[]" sample_around]
  by (simp add: is_space_def)

text \<open>
  Printing the cleaner's mode is undefined behaviour in both modes, because the enumerator is
  passed for \<open>%s\<close>; enabling the cleaner prints the mode, so it is undefined as well.
\<close>

theorem cleaner_start_undefined:
  assumes "\<not> cl_clean_started s" and "startCleaner a s = Done t"
  shows "bad_format (cln_printMode s) \<and> bad_format t"
proof -
  have p: "bad_format (cln_printMode u)" for u
    by (cases "cl_clean_mode u") (simp_all add: cln_printMode_def log_upds)
  have "bad_format (cln_printCommandsList u) = bad_format u" for u
    by (simp add: cln_printCommandsList_def log_upds Let_def)
  with p show ?thesis
    using assms by (auto simp: startCleaner_def Let_def split: if_splits)
qed

lemma cleaner_start_undefined_witness:
  "\<exists>t. startCleaner sample_around (sample_server [] []) = Done t \<and> bad_format t"
proof -
  have "\<exists>t. startCleaner sample_around (sample_server [] []) = Done t"
    by (simp add: startCleaner_def)
  then obtain t where t: "startCleaner sample_around (sample_server [] []) = Done t" ..
  with cleaner_start_undefined [OF _ t] show ?thesis by simp
qed

text \<open>Letting a thread run to its end as soon as it is created.\<close>

definition run_now :: "('w server \<Rightarrow> 'w server run) \<Rightarrow> 'w server \<Rightarrow> 'w server" where
  "run_now f s = (case f s of Done t \<Rightarrow> t | _ \<Rightarrow> s)"

text \<open>
  The cleaner may stop before it has started. Its thread is created before \<open>started\<close> is set; if
  it runs at once it finds \<open>started\<close> false and returns without a single pass, and the cleaner is
  then reported as enabled with a thread that has already ended. Dead clients stay in the pool.
\<close>

theorem cleaner_start_race:
  assumes "\<not> cl_clean_started s" and "\<not> cl_clean_thread s"
    and "ar_spawn a = run_now (inactiveClientsCleaner b (Suc fuel))"
  shows "\<exists>t. startCleaner a s = Done t \<and> cl_clean_started t \<and> cl_clean_thread t \<and>
    clientPool t = clientPool s \<and>
    ar_spawn a (s\<lparr>cl_clean_mode := OnlyDisconnect, cl_clean_thread := True\<rparr>) =
      setThreadDesc ''[Server][Cleaner]'' (s\<lparr>cl_clean_mode := OnlyDisconnect, cl_clean_thread := True\<rparr>)"
proof -
  let ?s = "s\<lparr>cl_clean_mode := OnlyDisconnect, cl_clean_thread := True\<rparr>"
  have thread: "ar_spawn a ?s = setThreadDesc ''[Server][Cleaner]'' ?s"
    using assms(1) by (simp add: assms(3) run_now_def inactiveClientsCleaner_def setThreadDesc_def)
  have pool: "clientPool (cln_printCommandsList (cln_printMode u)) = clientPool u"
      "cl_clean_started (cln_printCommandsList (cln_printMode u)) = cl_clean_started u"
      "cl_clean_thread (cln_printCommandsList (cln_printMode u)) = cl_clean_thread u" for u
    by (simp_all add: cln_printCommandsList_def cln_printMode_def frame_simps Let_def)
  have "clientPool (ar_spawn a ?s) = clientPool s" "cl_clean_thread (ar_spawn a ?s)"
    by (simp_all add: thread setThreadDesc_def)
  with assms(1,2) thread show ?thesis
    by (simp add: startCleaner_def pool frame_simps Let_def)
qed

lemma cleaner_start_race_witness:
  "\<exists>a t. startCleaner a (sample_server sample_pool []) = Done t \<and> cl_clean_started t \<and> clientPool t = sample_pool"
proof -
  let ?a = "sample_around\<lparr>ar_spawn := run_now (inactiveClientsCleaner sample_around (Suc 0))\<rparr>"
  have "ar_spawn ?a = run_now (inactiveClientsCleaner sample_around (Suc 0))" by simp
  from cleaner_start_race [OF _ _ this, of "sample_server sample_pool []"] show ?thesis by auto
qed

section \<open>Start-up\<close>

lemma sv_setState_frame [frame_simps]:
  "clientPool (sv_setState st s) = clientPool s" "clients_mutex (sv_setState st s) = clients_mutex s"
  "sv_started (sv_setState st s) = sv_started s" "sv_authSocket (sv_setState st s) = sv_authSocket s"
  "sv_authPort (sv_setState st s) = sv_authPort s" "std_in (sv_setState st s) = std_in s"
  "firstHandshakesHandler (sv_setState st s) = firstHandshakesHandler s"
  "secondHandshakesHandler (sv_setState st s) = secondHandshakesHandler s"
  "cl_clean_started (sv_setState st s) = cl_clean_started s" "cl_clean_thread (sv_setState st s) = cl_clean_thread s"
  by (simp_all add: sv_setState_def log_upds Let_def)

lemma server_wsa [frame_simps]:
  "clientPool (wsa_print_err os f l s) = clientPool s" "clients_mutex (wsa_print_err os f l s) = clients_mutex s"
  "sv_started (wsa_print_err os f l s) = sv_started s" "sv_authSocket (wsa_print_err os f l s) = sv_authSocket s"
  "firstHandshakesHandler (wsa_print_err os f l s) = firstHandshakesHandler s"
  "secondHandshakesHandler (wsa_print_err os f l s) = secondHandshakesHandler s"
  by (subst wsa_print_err_upd, simp)+

lemma server_log2 [frame_simps]:
  "firstHandshakesHandler (raw_colored col x s) = firstHandshakesHandler s"
  "secondHandshakesHandler (raw_colored col x s) = secondHandshakesHandler s"
  "sv_authSocket (raw_colored col x s) = sv_authSocket s" "sv_authPort (raw_colored col x s) = sv_authPort s"
  "firstHandshakesHandler (colored col f xs s) = firstHandshakesHandler s"
  "secondHandshakesHandler (colored col f xs s) = secondHandshakesHandler s"
  "sv_authSocket (colored col f xs s) = sv_authSocket s" "sv_authPort (colored col f xs s) = sv_authPort s"
  by (simp_all add: log_upds)

text \<open>The fields that creating a socket leaves alone.\<close>

lemma sv_initSocket_frame:
  "sv_initSocket os p s = (k, t) \<Longrightarrow> sv_started t = sv_started s \<and> clientPool t = clientPool s \<and>
     firstHandshakesHandler t = firstHandshakesHandler s \<and> secondHandshakesHandler t = secondHandshakesHandler s"
  by (auto simp: sv_initSocket_def Let_def split_beta frame_simps split: if_splits)

lemma sv_initSockets_result:
  assumes "sv_initSockets os s = (e, t)" and "\<not> sv_started s"
  shows "clientPool t = clientPool s \<and> firstHandshakesHandler t = firstHandshakesHandler s \<and>
    secondHandshakesHandler t = secondHandshakesHandler s \<and>
    (e = SE_OK \<and> sv_started t \<and> sv_authSocket t \<noteq> INVALID_SOCKET \<or>
     e = SE_CREATE_SOCKET \<and> \<not> sv_started t \<and> sv_authSocket t = INVALID_SOCKET)"
proof -
  obtain k u where i: "sv_initSocket os (sv_authPort (sv_setState Srv_CreateAuthSocket s)) (sv_setState Srv_CreateAuthSocket s) = (k, u)"
    by (metis prod.exhaust)
  from sv_initSocket_frame [OF i] assms(2) have u: "\<not> sv_started u" "clientPool u = clientPool s"
      "firstHandshakesHandler u = firstHandshakesHandler s" "secondHandshakesHandler u = secondHandshakesHandler s"
    by (simp_all add: frame_simps)
  note e = assms(1) [unfolded sv_initSockets_def Let_def i prod.case]
  show ?thesis
  proof (cases "k = INVALID_SOCKET")
    case True
    with e have "e = SE_CREATE_SOCKET" "t = wsa_print_err os ''Server.cpp'' 360 (u\<lparr>sv_authSocket := k\<rparr>)" by auto
    with u True show ?thesis by (simp add: frame_simps)
  next
    case False
    with e obtain fmt xs where "e = SE_OK"
        "t = (colored CC_SuccessHL fmt xs (u\<lparr>sv_authSocket := k\<rparr>))\<lparr>sv_started := True\<rparr>" by auto
    with u False show ?thesis by (simp add: frame_simps)
  qed
qed

text \<open>
  Starting a stopped server whose threads are not running. It returns SE_OK exactly when the
  server is then running, with a valid listening socket and both threads created; otherwise it
  returns SE_INIT_WINSOCK or SE_CREATE_SOCKET, there is no listening socket, and no thread has been
  created.
\<close>

theorem startServer_outcome:
  assumes "\<not> sv_started s" "\<not> firstHandshakesHandler s" "\<not> secondHandshakesHandler s"
  shows "\<exists>e t. startServer os p s = Done (e, t) \<and> clientPool t = clientPool s \<and>
    (if e = SE_OK
     then sv_started t \<and> sv_authSocket t \<noteq> INVALID_SOCKET \<and> firstHandshakesHandler t \<and> secondHandshakesHandler t
     else e \<in> {SE_INIT_WINSOCK, SE_CREATE_SOCKET} \<and> \<not> sv_started t \<and> sv_authSocket t = INVALID_SOCKET \<and>
       \<not> firstHandshakesHandler t \<and> \<not> secondHandshakesHandler t)"
proof -
  define u where "u = sv_setState Srv_InitWinSock (s\<lparr>sv_authSocket := INVALID_SOCKET, sv_authPort := p, sv_started := False\<rparr>)"
  have u: "\<not> sv_started u" "sv_authSocket u = INVALID_SOCKET" "clientPool u = clientPool s"
      "\<not> firstHandshakesHandler u" "\<not> secondHandshakesHandler u"
    using assms by (simp_all add: u_def frame_simps)
  obtain r w where r: "ws_startup os (os_world u) = (r, w)" by (metis prod.exhaust)
  obtain e v where v: "sv_initSockets os (u\<lparr>os_world := w\<rparr>) = (e, v)" by (metis prod.exhaust)
  have "startServer os p s =
    (if r \<noteq> NO_ERROR then Done (SE_INIT_WINSOCK, wsa_print_err os ''Server.cpp'' 26 (u\<lparr>os_world := w\<rparr>))
     else if se_code e \<noteq> 0 then Done (e, v)
     else Done (SE_OK, (raw_colored CC_SuccessHL ''The server is running'' v)
       \<lparr>sv_started := True, firstHandshakesHandler := True, secondHandshakesHandler := True\<rparr>))"
    using assms sv_initSockets_result [OF v] u
    unfolding startServer_def Let_def u_def [symmetric] syscall_def r prod.case v
    by (auto simp: frame_simps)
  then show ?thesis
    using sv_initSockets_result [OF v] u by (auto simp: frame_simps)
qed

lemma startServer_outcome_witness:
  "\<exists>e t. startServer sample_os 27010 (sample_server [] [] \<lparr>sv_started := False\<rparr>) = Done (e, t) \<and> clientPool t = []"
  using startServer_outcome [of "sample_server [] [] \<lparr>sv_started := False\<rparr>" sample_os 27010] by auto

section \<open>The end of the input\<close>

text \<open>
  When the operator's input ends while the server runs, the command loop spins: no number of
  iterations finishes it, because reading fails at once and the empty command is ignored.
\<close>

theorem server_loop_spins:
  assumes "sv_started s" "std_in s = []"
    and "\<forall>s. sv_started s \<and> std_in s = [] \<longrightarrow> sv_started (ar_env a s) \<and> std_in (ar_env a s) = []"
  shows "server_loop a fuel s = Out_Of_Fuel"
  using assms(1,2)
proof (induction fuel arbitrary: s)
  case (Suc fuel)
  with assms(3) have e: "sv_started (ar_env a s)" "std_in (ar_env a s) = []" by auto
  have "server_command a [] u = Done u" for u by (simp add: server_command_def)
  with e Suc.IH [of "cin_ignore (snd (cin_word (ar_env a s)))"] show ?case
    by (simp add: sv_isRunning_def cin_word_def cin_ignore_def Let_def)
qed simp

lemma server_loop_spins_witness: "server_loop sample_around 1000 (sample_server [] []) = Out_Of_Fuel"
  by (rule server_loop_spins) simp_all

end
