(* ===== verification/ServerLife.thy ===== *)
theory ServerLife
  imports ServerProps
begin

text \<open>
  The server from start to end: closing it, and the client pool of the whole program, which stays
  empty because accepted connections are not turned into clients.
\<close>

section \<open>Closing\<close>

definition pool_inv :: "pool \<Rightarrow> bool" where
  "pool_inv ps \<longleftrightarrow> (\<forall>(k, c)\<in>set ps. conn_inv c)"

text \<open>
  What \<open>closeServer\<close> relies on while it joins a thread: the thread does not hold the mutex when it
  ends, does not restart anything, and keeps the clients in order.
\<close>

definition bystander :: "('w server \<Rightarrow> 'w server) \<Rightarrow> bool" where
  "bystander f \<longleftrightarrow> (\<forall>s. (\<not> clients_mutex s \<longrightarrow> \<not> clients_mutex (f s)) \<and> sv_started (f s) = sv_started s \<and>
     firstHandshakesHandler (f s) = firstHandshakesHandler s \<and>
     secondHandshakesHandler (f s) = secondHandshakesHandler s \<and>
     cl_clean_started (f s) = cl_clean_started s \<and> (pool_inv (clientPool s) \<longrightarrow> pool_inv (clientPool (f s))))"

lemma destroy_host:
  "cc_destroy (join_receiver os fuel) (join_sender os fuel) c s = Done t \<Longrightarrow> same_host s t"
  by (auto simp: cc_destroy_def split: prod.splits if_splits dest: worker.disconnect_host)

lemma clear_pool_done:
  assumes "ar_receiver a = join_receiver os fuel" "ar_sender a = join_sender os fuel"
  shows "pool_inv ps \<Longrightarrow> \<exists>t. clear_pool a ps s = Done t \<and> same_host s t"
proof (induction ps arbitrary: s)
  case (Cons e ps)
  obtain k c where e: "e = (k, c)" by (metis prod.exhaust)
  from Cons.prems e have "conn_inv c" "pool_inv ps" by (simp_all add: pool_inv_def)
  from conn_inv_destroy [OF this(1)] obtain u
    where u: "cc_destroy (join_receiver os fuel) (join_sender os fuel) c s = Done u" by blast
  with Cons.IH [OF \<open>pool_inv ps\<close>, of u] destroy_host [OF u] show ?case
    by (auto simp: e assms intro: same_host_trans)
qed simp

lemma closeCleaner_frame:
  assumes "bystander (ar_cleaner a)"
  shows "\<not> cl_clean_started (closeCleaner a s)" "sv_started (closeCleaner a s) = sv_started s"
    "firstHandshakesHandler (closeCleaner a s) = firstHandshakesHandler s"
    "secondHandshakesHandler (closeCleaner a s) = secondHandshakesHandler s"
    "\<not> clients_mutex s \<Longrightarrow> \<not> clients_mutex (closeCleaner a s)"
    "pool_inv (clientPool s) \<Longrightarrow> pool_inv (clientPool (closeCleaner a s))"
  using assms [unfolded bystander_def, rule_format, of "s\<lparr>cl_clean_started := False\<rparr>"]
  by (simp_all add: closeCleaner_def cln_printCommandsList_def frame_simps Let_def)

lemma auth_close_form:
  "\<exists>w x. (if sv_authSocket v \<noteq> INVALID_SOCKET then
        (case syscall (ws_closesocket os (sv_authSocket v)) v of (err, s) \<Rightarrow>
           if err = SOCKET_ERROR then wsa_print_err os ''Server.cpp'' 71 s else s) else v) =
      v\<lparr>os_world := w, con_out := x\<rparr>"
proof -
  have "\<exists>w x. v = v\<lparr>os_world := w, con_out := x\<rparr>"
    by (intro exI [of _ "os_world v"] exI [of _ "con_out v"]) simp
  moreover have "\<exists>w x. v\<lparr>os_world := u\<rparr> = v\<lparr>os_world := w, con_out := x\<rparr>" for u
    by (intro exI [of _ u] exI [of _ "con_out v"]) simp
  moreover have "\<exists>w x. wsa_print_err os ''Server.cpp'' 71 (v\<lparr>os_world := u\<rparr>) = v\<lparr>os_world := w, con_out := x\<rparr>" for u
    by (subst wsa_print_err_upd) auto
  ultimately show ?thesis by (auto simp: syscall_def split: prod.split)
qed


lemma bystander_id [simp]: "bystander id"
  by (simp add: bystander_def)


section \<open>The pool of the whole program\<close>

lemma processClients_empty:
  "clientPool s = [] \<Longrightarrow> processClientsByPair oa h s = Done (n, t) \<Longrightarrow> clientPool t = []"
  by (auto simp: processClientsByPair_def lock_clients_def unlock_clients_def split: if_splits)

lemma send_lookup_state: "send_lookup a cmd s = Done (r, t) \<Longrightarrow> t = s"
  by (auto simp: send_lookup_def getClientByID_def getClientByIP_def getClientByLogin_def findClient_def
      Let_def split: sum.splits if_splits)

lemma ask_packet_pool: "ask_packet s = Done (p, t) \<Longrightarrow> clientPool t = clientPool s"
  by (auto simp: ask_packet_def create_def factory_getID_def run_bind_Done_iff cin_getline_log Let_def frame_simps)

lemma sv_send_empty:
  assumes "clientPool s = []" and "sv_send a None None s = Done t"
  shows "clientPool t = []"
proof -
  define u where "u = (raw_colored CC_Info ''Please type the client ID/IP/login'' (s\<lparr>clients_mutex := True\<rparr>))
    \<lparr>std_in := after_line s\<rparr>"
  have u: "clientPool u = []" using assms(1) by (simp add: u_def frame_simps)
  have "cin_getline (raw_colored CC_Info ''Please type the client ID/IP/login'' (s\<lparr>clients_mutex := True\<rparr>)) = (typed s, u)"
    by (simp add: u_def cin_getline_log typed_def after_line_def)
  with assms(2) obtain r v where l: "send_lookup a (typed s) u = Done (r, v)"
      and c: "(case r of None \<Rightarrow> Done (raw_colored CC_WarningHL ''Client not found!'' v)
        | Some k \<Rightarrow> run_bind (case (None :: packet option) of Some p \<Rightarrow> Done (p, v) | None \<Rightarrow> ask_packet v) (\<lambda>(p, s).
            let s = s\<lparr>clientPool := update_client k (cc_sendPacket (Some p)) (clientPool s)\<rparr>; s = unlock_clients s
            in Done (raw_colored CC_SuccessHL ''Data was successfully sended!'' s))) = Done t"
    by (auto simp: sv_send_def lock_clients_def run_bind_Done_iff Let_def split: if_splits)
  have v: "clientPool v = []" using send_lookup_state [OF l] u by simp
  show ?thesis
  proof (cases r)
    case None
    with c v show ?thesis by (auto simp: frame_simps)
  next
    case (Some k)
    with c obtain p w where w: "ask_packet v = Done (p, w)"
        and t: "t = raw_colored CC_SuccessHL ''Data was successfully sended!''
          (unlock_clients (w\<lparr>clientPool := update_client k (cc_sendPacket (Some p)) (clientPool w)\<rparr>))"
      by (auto simp: run_bind_Done_iff Let_def)
    have "clientPool w = []" using ask_packet_pool [OF w] v by simp
    then show ?thesis unfolding t by (simp add: unlock_clients_def update_client_def frame_simps)
  qed
qed

lemma sv_sendAll_empty:
  assumes "clientPool s = []" and "sv_sendAll None s = Done t"
  shows "clientPool t = []"
proof -
  from assms(2) obtain p u n v where "ask_packet s = Done (p, u)"
      and v: "processClientsByPair True (Some (\<lambda>c s. Done (0, cc_sendPacket (Some p) c, s))) u = Done (n, v)"
      and t: "t = colored CC_SuccessHL ''Data was successfully sended to %u clients'' [FInt (uint n)] v"
    by (auto simp: sv_sendAll_def run_bind_Done_iff)
  with assms(1) have "clientPool u = []" by (simp add: ask_packet_pool)
  from processClients_empty [OF this v] t show ?thesis by (simp add: frame_simps)
qed

lemma sv_save_empty:
  assumes "clientPool s = []" and "sv_save s = Done t"
  shows "clientPool t = []"
proof -
  from assms(2) obtain n v where v: "processClientsByPair False (Some (\<lambda>c s.
         run_bind (saveData c (data_file s)) (\<lambda>f. Done (0, c, s\<lparr>data_file := f\<rparr>)))) s = Done (n, v)"
      and t: "t = colored CC_SuccessHL ''Data was successfully saved!'' [] v"
    by (auto simp: sv_save_def run_bind_Done_iff)
  from processClients_empty [OF assms(1) v] t show ?thesis by (simp add: frame_simps)
qed

lemma clean_empty: "clientPool s = [] \<Longrightarrow> cleanInactiveClients a ext s = Done t \<Longrightarrow> clientPool t = []"
  by (auto simp: cleanInactiveClients_def lock_clients_def unlock_clients_def Let_def frame_simps split: if_splits)

lemma closeServer_empty: "closeServer a s = Done t \<Longrightarrow> clientPool s = [] \<Longrightarrow> clientPool t = []"
  by (auto simp: closeServer_def Let_def run_bind_Done_iff unlock_clients_def syscall_def frame_simps
      split: if_splits prod.splits)

lemma sv_initSockets_pool: "sv_initSockets os s = (e, t) \<Longrightarrow> clientPool t = clientPool s"
  by (auto simp: sv_initSockets_def Let_def frame_simps split: prod.splits if_splits dest: sv_initSocket_frame)

lemma startServer_pool: "startServer os p s = Done (e, t) \<Longrightarrow> clientPool t = clientPool s"
proof -
  assume a: "startServer os p s = Done (e, t)"
  define u where "u = sv_setState Srv_InitWinSock (s\<lparr>sv_authSocket := INVALID_SOCKET, sv_authPort := p, sv_started := False\<rparr>)"
  have u: "clientPool u = clientPool s" by (simp add: u_def frame_simps)
  obtain r w where r: "ws_startup os (os_world u) = (r, w)" by (metis prod.exhaust)
  obtain e' v where v: "sv_initSockets os (u\<lparr>os_world := w\<rparr>) = (e', v)" by (metis prod.exhaust)
  have "clientPool v = clientPool s" using sv_initSockets_pool [OF v] u by simp
  with a u show ?thesis
    unfolding startServer_def Let_def u_def [symmetric] syscall_def r prod.case v
    by (auto simp: frame_simps split: if_splits)
qed

section \<open>The server's own threads\<close>

text \<open>A connection thread changes neither the pool nor the mutex, whatever is accepted.\<close>

lemma process_loop_count: "process_loop oa None ps n s = Done (e, m, qs, t) \<Longrightarrow> e = 0 \<and> qs = ps \<and> t = s"
proof (induction ps arbitrary: n e m qs t)
  case (Cons p ps)
  obtain k c where p: "p = (k, c)" by (metis prod.exhaust)
  show ?case
  proof (cases "oa \<and> \<not> cc_isRunning c")
    case True
    with Cons.prems obtain qs' where "process_loop oa None ps n s = Done (e, m, qs', t)" "qs = p # qs'"
      by (auto simp: p run_bind_Done_iff)
    with Cons.IH show ?thesis by blast
  next
    case False
    with Cons.prems obtain qs' where "process_loop oa None ps (n + 1) s = Done (e, m, qs', t)" "qs = p # qs'"
      by (auto simp: p run_bind_Done_iff)
    with Cons.IH show ?thesis by blast
  qed
qed simp

lemma active_count_frame:
  "getActiveClientsCount s = Done (n, t) \<Longrightarrow> clientPool t = clientPool s \<and> clients_mutex t = False"
  by (auto simp: getActiveClientsCount_def processClientsByPair_def lock_clients_def unlock_clients_def Let_def
      run_bind_Done_iff split: if_splits dest!: process_loop_count)

lemma select_loop_pool:
  assumes "\<And>s. clientPool s = [] \<Longrightarrow> clientPool (ar_env a s) = []"
  shows "clientPool s = [] \<Longrightarrow> select_loop a fuel r s = Done (q, t) \<Longrightarrow> clientPool t = []"
proof (induction fuel arbitrary: r s)
  case (Suc fuel)
  let ?s = "ar_env a s"
  have e: "clientPool ?s = []" using assms Suc.prems(1) .
  obtain x w where x: "ws_select (ar_os a) (r + 1) (sv_authSocket ?s) TIMEOUT (os_world ?s) = (x, w)"
    by (metis prod.exhaust)
  have "select_loop a (Suc fuel) r s = (if \<not> sv_isRunning ?s then Done (r, ?s)
      else if x \<noteq> 0 then Done (x, ?s\<lparr>os_world := w\<rparr>)
      else select_loop a fuel x (?s\<lparr>os_world := ws_sleep (ar_os a) 1000 w\<rparr>))"
    by (simp add: syscall_def x Let_def)
  with Suc.prems(2) e Suc.IH [of "?s\<lparr>os_world := ws_sleep (ar_os a) 1000 w\<rparr>" x] show ?case
    by (auto split: if_splits)
qed simp

lemma accept_client_pool: "accept_client a s = Done t \<Longrightarrow> clientPool t = clientPool s"
  by (auto simp: accept_client_def lock_clients_def unlock_clients_def frame_simps Let_def split: prod.splits if_splits)

lemma pic_loop_pool:
  assumes "\<And>s. clientPool s = [] \<Longrightarrow> clientPool (ar_env a s) = []"
  shows "clientPool s = [] \<Longrightarrow> pic_loop a fuel s = Done t \<Longrightarrow> clientPool t = []"
proof (induction fuel arbitrary: s)
  case (Suc fuel)
  let ?s = "ar_env a s"
  have e: "clientPool ?s = []" using assms Suc.prems(1) .
  show ?case
  proof (cases "sv_isRunning ?s")
    case True
    let ?W = "\<lambda>q s. if q = SOCKET_ERROR then wsa_print_err (ar_os a) ''Server.cpp'' 410 (ar_env a s) else ar_env a s"
    let ?full = "\<lambda>u. raw_colored CC_WarningHL ''Client connections count limit exceeded'' u"
    let ?wait = "\<lambda>u. sv_setState Srv_Waiting (colored CC_InfoHL ''Wait for client on port %d...'' [FInt (uint (sv_authPort u))] u)"
    let ?after = "\<lambda>q s. if \<not> sv_isRunning (ar_env a s) then Done (ar_env a s)
      else if q \<le> 0 then pic_loop a fuel (?W q s) else run_bind (accept_client a (?W q s)) (pic_loop a fuel)"
    have eq: "pic_loop a (Suc fuel) s = run_bind (getActiveClientsCount ?s) (\<lambda>(n, u).
        if unat n > MAX_CLIENT_COUNT
        then pic_loop a fuel ((?full u)\<lparr>os_world := ws_sleep (ar_os a) 10000 (os_world (?full u))\<rparr>)
        else run_bind (select_loop a fuel 0 (?wait u)) (\<lambda>(q, s). ?after q s))"
      using True unfolding pic_loop.simps Let_def by simp
    from trans [OF eq [symmetric] Suc.prems(2)]
    obtain n u where n: "getActiveClientsCount ?s = Done (n, u)" and r: "(if unat n > MAX_CLIENT_COUNT
        then pic_loop a fuel ((?full u)\<lparr>os_world := ws_sleep (ar_os a) 10000 (os_world (?full u))\<rparr>)
        else run_bind (select_loop a fuel 0 (?wait u)) (\<lambda>(q, s). ?after q s)) = Done t"
      by (cases "getActiveClientsCount ?s") auto
    have u: "clientPool u = []" using active_count_frame [OF n] e by simp
    show ?thesis
    proof (cases "unat n > MAX_CLIENT_COUNT")
      case True
      with r have "pic_loop a fuel ((?full u)\<lparr>os_world := ws_sleep (ar_os a) 10000 (os_world (?full u))\<rparr>) = Done t"
        by (simp only: if_True)
      from Suc.IH [OF _ this] u show ?thesis by (simp add: frame_simps)
    next
      case False
      with r obtain q v where q: "select_loop a fuel 0 (?wait u) = Done (q, v)" and z: "?after q v = Done t"
        by (cases "select_loop a fuel 0 (?wait u)") auto
      have "clientPool v = []" using select_loop_pool [OF assms _ q] u by (simp add: frame_simps)
      then have v: "clientPool (ar_env a v) = []" by (rule assms)
      then have w: "clientPool (?W q v) = []" by (simp add: frame_simps)
      show ?thesis
      proof (cases "sv_isRunning (ar_env a v) \<and> 0 < q")
        case True
        with z obtain x where x: "accept_client a (?W q v) = Done x" "pic_loop a fuel x = Done t"
          by (auto simp: run_bind_Done_iff)
        from Suc.IH [OF _ x(2)] accept_client_pool [OF x(1)] w show ?thesis by simp
      next
        case False
        with z v w Suc.IH show ?thesis by (auto split: if_splits)
      qed
    qed
  next
    case False
    with Suc.prems e show ?thesis by simp
  qed
qed simp

lemma pic_pool:
  assumes "\<And>s. clientPool s = [] \<Longrightarrow> clientPool (ar_env a s) = []" and "clientPool s = []"
  shows "clientPool (run_now (processIncomeConnection a fuel) s) = []"
proof (cases "processIncomeConnection a fuel s")
  case (Done t)
  then obtain u where "pic_loop a fuel (setThreadDesc ''[Server][PIC]'' s) = Done u"
      "t = colored CC_InfoHL ''Closing PIC (Processing Incoming Connections) thread'' [] u"
    by (auto simp: processIncomeConnection_def run_bind_Done_iff)
  moreover have "clientPool (setThreadDesc ''[Server][PIC]'' s) = []" using assms(2) by (simp add: setThreadDesc_def)
  ultimately have "clientPool t = []" using pic_loop_pool [OF assms(1)] by (metis server_log(4))
  with Done show ?thesis by (simp add: run_now_def)
qed (simp_all add: run_now_def assms(2))

lemma cleaner_loop_pool:
  assumes "\<And>s. clientPool s = [] \<Longrightarrow> clientPool (ar_env a s) = []"
  shows "clientPool s = [] \<Longrightarrow> cleaner_loop a fuel s = Done t \<Longrightarrow> clientPool t = []"
proof (induction fuel arbitrary: s)
  case (Suc fuel)
  show ?case
  proof (cases "sv_isRunning s \<and> cl_clean_started s")
    case True
    with Suc.prems obtain u where "cleanInactiveClients a False s = Done u"
        and r: "cleaner_loop a fuel (ar_env a (u\<lparr>os_world := ws_sleep (ar_os a) 5000 (os_world u)\<rparr>)) = Done t"
      by (auto simp: run_bind_Done_iff)
    with Suc.prems(1) have "clientPool u = []" by (blast intro: clean_empty)
    then show ?thesis using Suc.IH [OF _ r] assms by simp
  qed (use Suc.prems in auto)
qed simp

lemma cleaner_pool:
  assumes "\<And>s. clientPool s = [] \<Longrightarrow> clientPool (ar_env a s) = []" and "clientPool s = []"
  shows "clientPool (run_now (inactiveClientsCleaner a fuel) s) = []"
  using cleaner_loop_pool [OF assms(1), of "setThreadDesc ''[Server][Cleaner]'' s" fuel] assms(2)
  by (auto simp: run_now_def inactiveClientsCleaner_def setThreadDesc_def split: run.split)

text \<open>
  Surroundings in which every other thread is the program's own code: a joined connection thread or
  cleaner runs its loop from the start, a newly created cleaner runs at once, and between two
  commands of the operator a connection thread runs \<open>fuel\<close> iterations. \<open>base\<close> gives the system and
  what is uninitialised.
\<close>

definition code_around :: "'w around \<Rightarrow> nat \<Rightarrow> 'w around" where
  "code_around base fuel =
     (let q = base\<lparr>ar_env := id\<rparr> in
      base\<lparr>ar_receiver := join_receiver (ar_os base) fuel, ar_sender := join_sender (ar_os base) fuel,
           ar_first := run_now (processIncomeConnection q fuel), ar_second := run_now (processIncomeConnection q fuel),
           ar_cleaner := run_now (inactiveClientsCleaner q fuel), ar_spawn := run_now (inactiveClientsCleaner q fuel),
           ar_env := run_now (processIncomeConnection q fuel)\<rparr>)"

text \<open>The threads that the server waits for or runs beside do not put clients into an empty pool.\<close>

locale empty_pool =
  fixes a :: "'w around"
  assumes first: "clientPool s = [] \<Longrightarrow> clientPool (ar_first a s) = []"
    and second: "clientPool s = [] \<Longrightarrow> clientPool (ar_second a s) = []"
    and cleaner: "clientPool s = [] \<Longrightarrow> clientPool (ar_cleaner a s) = []"
    and spawn: "clientPool s = [] \<Longrightarrow> clientPool (ar_spawn a s) = []"
    and env: "clientPool s = [] \<Longrightarrow> clientPool (ar_env a s) = []"
begin

lemma closeCleaner_empty: "clientPool s = [] \<Longrightarrow> clientPool (closeCleaner a s) = []"
  by (simp add: closeCleaner_def cln_printCommandsList_def frame_simps cleaner Let_def)

lemma startCleaner_empty: "clientPool s = [] \<Longrightarrow> startCleaner a s = Done t \<Longrightarrow> clientPool t = []"
  by (auto simp: startCleaner_def cln_printCommandsList_def cln_printMode_def frame_simps spawn Let_def split: if_splits)

lemma changeMode_empty: "clientPool s = [] \<Longrightarrow> clientPool (cln_changeMode a s) = []"
  by (simp add: cln_changeMode_def cin_char_def frame_simps Let_def split: list.split prod.split)

lemma command_empty:
  assumes "clientPool s = []" and "server_command a cmd s = Done t"
  shows "clientPool t = []"
proof -
  have "printClientsList ext s = Done t \<Longrightarrow> clientPool t = []" for ext
    using processClients_empty [OF assms(1)] by (auto simp: printClientsList_def run_bind_Done_iff)
  moreover have "clientPool (cln_printCommandsList (sv_printCommandsList s)) = []" "clientPool (cln_printMode s) = []"
    using assms(1) by (simp_all add: cln_printCommandsList_def sv_printCommandsList_def cln_printMode_def frame_simps Let_def)
  moreover note sv_send_empty [OF assms(1)] sv_sendAll_empty [OF assms(1)] sv_save_empty [OF assms(1)]
    clean_empty [OF assms(1)] closeServer_empty [OF _ assms(1)] startCleaner_empty [OF assms(1)]
    changeMode_empty [OF assms(1)] closeCleaner_empty [OF assms(1)]
  ultimately show ?thesis
    using assms unfolding server_command_def by (metis run.inject(1))
qed

lemma loop_empty: "clientPool s = [] \<Longrightarrow> server_loop a fuel s = Done t \<Longrightarrow> clientPool t = []"
proof (induction fuel arbitrary: s)
  case (Suc fuel)
  let ?s = "ar_env a s"
  have e: "clientPool ?s = []" using env Suc.prems(1) .
  show ?case
  proof (cases "sv_isRunning ?s")
    case False
    with Suc.prems e show ?thesis by simp
  next
    case True
    let ?u = "cin_ignore (snd (cin_word ?s))"
    have u: "clientPool ?u = []" using e by (simp add: cin_ignore_def cin_word_def Let_def)
    from True Suc.prems(2) obtain v where "server_command a (fst (cin_word ?s)) ?u = Done v" "server_loop a fuel v = Done t"
      by (auto simp: Let_def split_beta run_bind_Done_iff)
    with command_empty [OF u] Suc.IH show ?thesis by blast
  qed
qed simp

lemma main_empty:
  assumes "clientPool s = []" and "server_main a fuel s = Done (r, t)"
    and start: "\<And>u e v. startServer (ar_os a) sv_AUTH_PORT u = Done (e, v) \<Longrightarrow> clientPool v = clientPool u"
  shows "clientPool t = []"
proof -
  from assms(2) obtain e u where u: "server_start a fuel (setThreadDesc ''[main]'' s) = Done (e, u)"
      and t: "clientPool t = clientPool u"
    by (auto simp: server_main_def run_bind_Done_iff cin_word_def frame_simps Let_def)
  from u obtain e' v where v: "startServer (ar_os a) sv_AUTH_PORT (setThreadDesc ''[main]'' s) = Done (e', v)"
      and n: "u = v \<or> (\<exists>w. server_loop a fuel (cln_printCommandsList (sv_printCommandsList v)) = Done w \<and>
                 (u = w \<or> closeServer a w = Done u))"
    by (auto simp: server_start_def run_bind_Done_iff split: if_splits)
  have "clientPool v = []" using start [OF v] assms(1) by (simp add: setThreadDesc_def)
  moreover from this have "clientPool (cln_printCommandsList (sv_printCommandsList v)) = []"
    by (simp add: cln_printCommandsList_def sv_printCommandsList_def frame_simps Let_def)
  ultimately show ?thesis
    using n t loop_empty closeServer_empty by metis
qed

end

interpretation code: empty_pool "code_around base fuel" for base fuel
  by unfold_locales (simp_all add: code_around_def pic_pool cleaner_pool Let_def)



end
