(* ===== verification/AsioBase.thy ===== *)
theory AsioBase
  imports Prelude
begin

text \<open>
  What the theories on the networking library under \<open>src/ServerAsio/include/asio\<close> share: error
  codes, thrown exceptions and their propagation, and the conversions between host and network
  byte order. The library is modelled as the project file builds it: on 32-bit Windows
  (\<open>WIN32\<close> is defined, \<open>ASIO_WINDOWS_RUNTIME\<close> is not), a little-endian machine.
\<close>

named_theorems except_simps \<open>propagation of exceptions\<close>

section \<open>Error codes (error.hpp, error_code.hpp)\<close>

datatype category = system_category | misc_category

datatype error_code = Ec category u32

definition no_error :: error_code where
  "no_error = Ec system_category 0"

text \<open>The conversion of an error code to \<open>bool\<close>.\<close>

fun ec_set :: "error_code \<Rightarrow> bool" where
  "ec_set (Ec _ v) \<longleftrightarrow> v \<noteq> 0"

text \<open>The codes used: WinSock's \<open>WSAEINVAL\<close> and \<open>WSAEAFNOSUPPORT\<close>, and \<open>misc_errors\<close>.\<close>

definition ec_invalid_argument :: error_code where
  "ec_invalid_argument = Ec system_category 10022"

definition address_family_not_supported :: error_code where
  "address_family_not_supported = Ec system_category 10047"

definition ec_operation_aborted :: error_code where
  "ec_operation_aborted = Ec system_category 995"

definition ec_eof :: error_code where
  "ec_eof = Ec misc_category 2"

definition ec_not_found :: error_code where
  "ec_not_found = Ec misc_category 3"

lemma ec_set_simps [simp]:
  "\<not> ec_set no_error" "ec_set ec_invalid_argument" "ec_set address_family_not_supported"
  "ec_set ec_operation_aborted" "ec_set ec_eof" "ec_set ec_not_found"
  by (simp_all add: no_error_def ec_invalid_argument_def address_family_not_supported_def
      ec_operation_aborted_def ec_eof_def ec_not_found_def)

section \<open>Exceptions\<close>

datatype thrown = out_of_range string | invalid_argument string | system_error error_code
  | length_error string

fun try_bind :: "thrown + 'a \<Rightarrow> ('a \<Rightarrow> thrown + 'b) \<Rightarrow> thrown + 'b" where
  "try_bind (Inl e) k = Inl e"
| "try_bind (Inr x) k = k x"

declare try_bind.simps [except_simps]

lemma try_bind_Inr_iff: "try_bind m k = Inr y \<longleftrightarrow> (\<exists>x. m = Inr x \<and> k x = Inr y)"
  by (cases m) auto

text \<open>\<open>throw_error(ec)\<close> followed by \<open>return x\<close>.\<close>

definition throw_error :: "error_code \<Rightarrow> 'a \<Rightarrow> thrown + 'a" where
  "throw_error ec x = (if ec_set ec then Inl (system_error ec) else Inr x)"

text \<open>The largest value of \<open>size_t\<close>, and the difference of two such values, which wraps around.\<close>

definition size_max :: nat where
  "size_max = 2 ^ 32 - 1"

definition size_diff :: "nat \<Rightarrow> nat \<Rightarrow> nat" where
  "size_diff a b = (if b \<le> a then a - b else a + 2 ^ 32 - b)"

lemma size_diff_le [simp]: "b \<le> a \<Longrightarrow> size_diff a b = a - b"
  by (simp add: size_diff_def)

text \<open>For fixpoint induction over a loop at one argument.\<close>

lemma option_admissible_at:
  "option.admissible (\<lambda>f. f x = Some y \<longrightarrow> Q)"
proof -
  have "(\<lambda>f. f x = Some y \<longrightarrow> Q) = (\<lambda>f. \<forall>u v. f u = Some v \<longrightarrow> u = x \<longrightarrow> v = y \<longrightarrow> Q)"
    by auto
  then show ?thesis using option_admissible [of "\<lambda>u v. u = x \<longrightarrow> v = y \<longrightarrow> Q"] by simp
qed

section \<open>Byte order (detail/impl/socket_ops.ipp)\<close>

text \<open>\<open>ntohl\<close> and \<open>htonl\<close> reverse the bytes of a 32-bit word on a little-endian machine.\<close>

definition network_to_host_long :: "u32 \<Rightarrow> u32" where
  "network_to_host_long w = un_le32 (rev (le32 w))"

definition host_to_network_long :: "u32 \<Rightarrow> u32" where
  "host_to_network_long w = un_le32 (rev (le32 w))"

lemma le32_un_le32 [simp]: "length bs = 4 \<Longrightarrow> le32 (un_le32 bs) = bs"
proof -
  assume "length bs = 4"
  then obtain a b c d where bs: "bs = [a, b, c, d]"
    by (auto simp: numeral_eq_Suc length_Suc_conv)
  have "ucast (un_le32 [a, b, c, d]) = a" "ucast (drop_bit 8 (un_le32 [a, b, c, d])) = b"
    "ucast (drop_bit 16 (un_le32 [a, b, c, d])) = c" "ucast (drop_bit 24 (un_le32 [a, b, c, d])) = d"
    by (rule bit_word_eqI; auto simp: bit_simps dest: bit_imp_le_length)+
  then show ?thesis
    by (simp add: bs le32_def)
qed

lemma to_host_to_network [simp]: "network_to_host_long (host_to_network_long w) = w"
  by (simp add: network_to_host_long_def host_to_network_long_def)

lemma to_network_to_host [simp]: "host_to_network_long (network_to_host_long w) = w"
  by (simp add: network_to_host_long_def host_to_network_long_def)

lemma network_to_host_eq_iff [simp]:
  "network_to_host_long v = network_to_host_long w \<longleftrightarrow> v = w"
  using to_network_to_host by metis

end
