(* ===== verification/AsioAddress.thy ===== *)
theory AsioAddress
  imports AsioBase
begin

text \<open>
  IPv4 addresses: \<open>address_v4\<close> (ip/address_v4.hpp, ip/impl/address_v4.ipp), the iterator and the
  range of addresses (ip/address_v4_iterator.hpp, ip/address_v4_range.hpp) and the conversion
  between addresses and text over the system calls (detail/impl/socket_ops.ipp).
\<close>

section \<open>Addresses\<close>

text \<open>\<open>s_addr\<close> is the address in network byte order, as \<open>in_addr\<close> stores it.\<close>

record address_v4 = s_addr :: u32

definition v4_default :: address_v4 where
  "v4_default = \<lparr>s_addr = 0\<rparr>"

text \<open>\<open>UCHAR_MAX\<close> is 255, so the range check on the bytes is compiled out; the array has 4 bytes.\<close>

definition v4_from_bytes :: "bytes \<Rightarrow> address_v4" where
  "v4_from_bytes bs = \<lparr>s_addr = un_le32 bs\<rparr>"

text \<open>The maximum of \<open>uint_type\<close> is \<open>0xFFFFFFFF\<close>, so the constructor's test is false.\<close>

definition v4_from_uint :: "u32 \<Rightarrow> address_v4" where
  "v4_from_uint a = \<lparr>s_addr = host_to_network_long a\<rparr>"

definition v4_to_bytes :: "address_v4 \<Rightarrow> bytes" where
  "v4_to_bytes a = le32 (s_addr a)"

definition v4_to_uint :: "address_v4 \<Rightarrow> u32" where
  "v4_to_uint a = network_to_host_long (s_addr a)"

definition v4_to_ulong :: "address_v4 \<Rightarrow> u32" where
  "v4_to_ulong a = network_to_host_long (s_addr a)"

definition is_loopback :: "address_v4 \<Rightarrow> bool" where
  "is_loopback a \<longleftrightarrow> v4_to_uint a AND 0xFF000000 = 0x7F000000"

definition is_unspecified :: "address_v4 \<Rightarrow> bool" where
  "is_unspecified a \<longleftrightarrow> v4_to_uint a = 0"

definition is_class_a :: "address_v4 \<Rightarrow> bool" where
  "is_class_a a \<longleftrightarrow> v4_to_uint a AND 0x80000000 = 0"

definition is_class_b :: "address_v4 \<Rightarrow> bool" where
  "is_class_b a \<longleftrightarrow> v4_to_uint a AND 0xC0000000 = 0x80000000"

definition is_class_c :: "address_v4 \<Rightarrow> bool" where
  "is_class_c a \<longleftrightarrow> v4_to_uint a AND 0xE0000000 = 0xC0000000"

definition is_multicast :: "address_v4 \<Rightarrow> bool" where
  "is_multicast a \<longleftrightarrow> v4_to_uint a AND 0xF0000000 = 0xE0000000"

definition v4_broadcast_of :: "address_v4 \<Rightarrow> address_v4 \<Rightarrow> address_v4" where
  "v4_broadcast_of addr msk = v4_from_uint (v4_to_uint addr OR (v4_to_uint msk XOR 0xFFFFFFFF))"

definition v4_class_netmask :: "address_v4 \<Rightarrow> address_v4" where
  "v4_class_netmask addr =
     (if is_class_a addr then v4_from_uint 0xFF000000
      else if is_class_b addr then v4_from_uint 0xFFFF0000
      else if is_class_c addr then v4_from_uint 0xFFFFFF00
      else v4_from_uint 0xFFFFFFFF)"

definition v4_any :: address_v4 where "v4_any = v4_default"
definition v4_loopback :: address_v4 where "v4_loopback = v4_from_uint 0x7F000001"
definition v4_broadcast :: address_v4 where "v4_broadcast = v4_from_uint 0xFFFFFFFF"

definition v4_eq :: "address_v4 \<Rightarrow> address_v4 \<Rightarrow> bool" where
  "v4_eq a1 a2 \<longleftrightarrow> s_addr a1 = s_addr a2"

definition v4_ne :: "address_v4 \<Rightarrow> address_v4 \<Rightarrow> bool" where
  "v4_ne a1 a2 \<longleftrightarrow> s_addr a1 \<noteq> s_addr a2"

definition v4_less :: "address_v4 \<Rightarrow> address_v4 \<Rightarrow> bool" where
  "v4_less a1 a2 \<longleftrightarrow> v4_to_uint a1 < v4_to_uint a2"

definition v4_greater :: "address_v4 \<Rightarrow> address_v4 \<Rightarrow> bool" where
  "v4_greater a1 a2 \<longleftrightarrow> v4_to_uint a1 > v4_to_uint a2"

definition v4_less_eq :: "address_v4 \<Rightarrow> address_v4 \<Rightarrow> bool" where
  "v4_less_eq a1 a2 \<longleftrightarrow> v4_to_uint a1 \<le> v4_to_uint a2"

definition v4_greater_eq :: "address_v4 \<Rightarrow> address_v4 \<Rightarrow> bool" where
  "v4_greater_eq a1 a2 \<longleftrightarrow> v4_to_uint a1 \<ge> v4_to_uint a2"

lemma v4_uint [simp]: "v4_to_uint (v4_from_uint w) = w"
  by (simp add: v4_to_uint_def v4_from_uint_def)

lemma v4_of_uint [simp]: "v4_from_uint (v4_to_uint a) = a"
  by (simp add: v4_to_uint_def v4_from_uint_def)

lemma v4_bytes [simp]: "length bs = 4 \<Longrightarrow> v4_to_bytes (v4_from_bytes bs) = bs"
  by (simp add: v4_to_bytes_def v4_from_bytes_def)

lemma s_addr_inject [simp]: "s_addr (a :: address_v4) = s_addr b \<longleftrightarrow> a = b"
  by (cases a; cases b) simp

lemma v4_eq_iff [simp]: "v4_eq a b \<longleftrightarrow> a = b"
  by (simp add: v4_eq_def)

lemma v4_ne_iff [simp]: "v4_ne a b \<longleftrightarrow> a \<noteq> b"
  by (simp add: v4_ne_def)

lemma v4_to_uint_inject [simp]: "v4_to_uint a = v4_to_uint b \<longleftrightarrow> a = b"
  by (simp add: v4_to_uint_def)

lemma v4_from_uint_inject [simp]: "v4_from_uint v = v4_from_uint w \<longleftrightarrow> v = w"
  using v4_uint by metis

lemma v4_default_uint [simp]: "v4_to_uint v4_default = 0"
  by (simp add: v4_to_uint_def v4_default_def network_to_host_long_def le32_def)

text \<open>The bytes of an address are its octets, the most significant first.\<close>

lemma v4_to_bytes_from_uint: "v4_to_bytes (v4_from_uint w) = rev (le32 w)"
  by (simp add: v4_to_bytes_def v4_from_uint_def host_to_network_long_def)

section \<open>Addresses as text\<close>

text \<open>
  The system calls \<open>WSAAddressToString\<close> and \<open>WSAStringToAddress\<close> are parameters: each gives the
  result of the call, \<open>None\<close> for \<open>SOCKET_ERROR\<close>, and what \<open>WSAGetLastError\<close> returns after it. The
  conversions between narrow and wide characters around them are part of the parameter. An
  IPv4 socket address is its four address bytes, an IPv6 one its sixteen bytes and scope.
\<close>

datatype af = AF_INET | AF_INET6 | AF_OTHER

datatype sockaddr = Sockaddr4 bytes | Sockaddr6 bytes u32

record wsa =
  AddressToString :: "sockaddr \<Rightarrow> nat \<Rightarrow> string option \<times> u32"
  StringToAddress :: "string \<Rightarrow> af \<Rightarrow> sockaddr option \<times> u32"

definition max_addr_v4_str_len :: nat where
  "max_addr_v4_str_len = 256"

text \<open>\<open>inet_ntop\<close>: the text, \<open>None\<close> for a null pointer, and the error code.\<close>

definition inet_ntop :: "wsa \<Rightarrow> af \<Rightarrow> bytes \<Rightarrow> nat \<Rightarrow> u32 \<Rightarrow> string option \<times> error_code" where
  "inet_ntop W f src len scope_id =
     (if f \<noteq> AF_INET \<and> f \<noteq> AF_INET6 then (None, address_family_not_supported)
      else
        let address = (if f = AF_INET then Sockaddr4 (take 4 src) else Sockaddr6 (take 16 src) scope_id);
            (result, err) = AddressToString W address len;
            ec = Ec system_category err;
            ec = (if result \<noteq> None then no_error
                  else if \<not> ec_set ec then ec_invalid_argument else ec)
        in (result, ec))"

text \<open>
  \<open>inet_pton\<close>: the return value, the destination buffer, the scope and the error code. The
  destination is a buffer of 4 bytes for \<open>AF_INET\<close> and of 16 for \<open>AF_INET6\<close>; \<open>bytes_of\<close> reads the
  address out of the union the system call filled.
\<close>

fun sockaddr_bytes :: "sockaddr \<Rightarrow> bytes" where
  "sockaddr_bytes (Sockaddr4 bs) = bs"
| "sockaddr_bytes (Sockaddr6 bs _) = bs"

fun sockaddr_scope :: "sockaddr \<Rightarrow> u32" where
  "sockaddr_scope (Sockaddr4 _) = 0"
| "sockaddr_scope (Sockaddr6 _ s) = s"

definition inet_pton ::
  "wsa \<Rightarrow> af \<Rightarrow> string \<Rightarrow> bytes \<Rightarrow> u32 option \<Rightarrow> int \<times> bytes \<times> u32 option \<times> error_code" where
  "inet_pton W f src dest scope_id =
     (if f \<noteq> AF_INET \<and> f \<noteq> AF_INET6 then (- 1, dest, scope_id, address_family_not_supported)
      else
        let (result, err) = StringToAddress W src f;
            ec = Ec system_category err;
            (dest, scope_id, ec) =
              (if f = AF_INET then
                 (case result of
                    Some a \<Rightarrow> (sockaddr_bytes a, scope_id, no_error)
                  | None \<Rightarrow> if src = ''255.255.255.255'' then (replicate 4 255, scope_id, no_error)
                            else (dest, scope_id, ec))
               else
                 (case result of
                    Some a \<Rightarrow> (sockaddr_bytes a, map_option (\<lambda>_. sockaddr_scope a) scope_id, no_error)
                  | None \<Rightarrow> (dest, scope_id, ec)));
            ec = (if result = None \<and> \<not> ec_set ec then ec_invalid_argument else ec);
            ec = (if result \<noteq> None then no_error else ec)
        in (if result = None then - 1 else 1, dest, scope_id, ec))"

definition v4_to_string_ec :: "wsa \<Rightarrow> address_v4 \<Rightarrow> string \<times> error_code" where
  "v4_to_string_ec W a =
     (let (addr, ec) = inet_ntop W AF_INET (v4_to_bytes a) max_addr_v4_str_len 0
      in case addr of None \<Rightarrow> ([], ec) | Some str \<Rightarrow> (str, ec))"

definition v4_to_string :: "wsa \<Rightarrow> address_v4 \<Rightarrow> thrown + string" where
  "v4_to_string W a =
     (let (addr, ec) = inet_ntop W AF_INET (v4_to_bytes a) max_addr_v4_str_len 0
      in case addr of None \<Rightarrow> throw_error ec [] | Some str \<Rightarrow> Inr str)"

definition make_address_v4_ec :: "wsa \<Rightarrow> string \<Rightarrow> address_v4 \<times> error_code" where
  "make_address_v4_ec W str =
     (let (r, bs, _, ec) = inet_pton W AF_INET str (replicate 4 0) None
      in if r \<le> 0 then (v4_default, ec) else (v4_from_bytes bs, ec))"

definition make_address_v4 :: "wsa \<Rightarrow> string \<Rightarrow> thrown + address_v4" where
  "make_address_v4 W str = (let (addr, ec) = make_address_v4_ec W str in throw_error ec addr)"

text \<open>A system whose text conversions are inverse, as WinSock documents them for IPv4.\<close>

definition wsa_inverse :: "wsa \<Rightarrow> bool" where
  "wsa_inverse W \<longleftrightarrow>
     (\<forall>bs n. length bs = 4 \<longrightarrow> 16 \<le> n \<longrightarrow>
        (\<exists>str. fst (AddressToString W (Sockaddr4 bs) n) = Some str \<and>
               fst (StringToAddress W str AF_INET) = Some (Sockaddr4 bs)))"

lemma inet_pton_some:
  "StringToAddress W str AF_INET = (Some a, err) \<Longrightarrow>
   inet_pton W AF_INET str dest sc = (1, sockaddr_bytes a, sc, no_error)"
  by (simp add: inet_pton_def)

lemma inet_ntop_some:
  "AddressToString W (Sockaddr4 bs) n = (Some str, err) \<Longrightarrow> length bs = 4 \<Longrightarrow>
   inet_ntop W AF_INET bs n sc = (Some str, no_error)"
  by (simp add: inet_ntop_def Let_def)


text \<open>A system that prints an address as its four bytes and reads back texts of four characters.\<close>

definition raw_wsa :: wsa where
  "raw_wsa = \<lparr>AddressToString = (\<lambda>a n. (Some (to_text (sockaddr_bytes a)), 0)),
     StringToAddress = (\<lambda>str f. (if length str = 4 then Some (Sockaddr4 (to_bytes str)) else None, 0))\<rparr>"

lemma byte_of_char_of_byte [simp]: "byte_of_char (char_of_byte b) = b"
proof -
  have "unat b < 256" using unsigned_less [of b] by simp
  then have "(of_nat (of_char (char_of (unat b)) :: nat) :: u8) = of_nat (unat b)" by simp
  then show ?thesis by (simp only: byte_of_char_def char_of_byte_def of_nat_of_char) simp
qed

lemma to_bytes_to_text [simp]: "to_bytes (to_text bs) = bs"
  by (induction bs) (auto simp: to_bytes_def to_text_def)

lemma raw_wsa_inverse: "wsa_inverse raw_wsa"
  by (simp add: wsa_inverse_def raw_wsa_def)


lemma broadcast_text_error:
  assumes "fst (StringToAddress W ''255.255.255.255'' AF_INET) = None"
  shows "inet_pton W AF_INET ''255.255.255.255'' dest sc
           = (- 1, replicate 4 255, sc, ec_invalid_argument)"
    and "make_address_v4_ec W ''255.255.255.255'' = (v4_default, ec_invalid_argument)"
    and "make_address_v4 W ''255.255.255.255'' = Inl (system_error ec_invalid_argument)"
proof -
  obtain e where "StringToAddress W ''255.255.255.255'' AF_INET = (None, e)"
    using assms by (cases "StringToAddress W ''255.255.255.255'' AF_INET") simp
  then show eq: "inet_pton W AF_INET ''255.255.255.255'' d s = (- 1, replicate 4 255, s, ec_invalid_argument)"
    for d s by (simp add: inet_pton_def)
  show "make_address_v4_ec W ''255.255.255.255'' = (v4_default, ec_invalid_argument)"
    by (simp add: make_address_v4_ec_def eq)
  then show "make_address_v4 W ''255.255.255.255'' = Inl (system_error ec_invalid_argument)"
    by (simp add: make_address_v4_def throw_error_def)
qed

text \<open>
  The special case of \<open>inet_pton\<close> for the text \<open>255.255.255.255\<close>, there because older systems
  reject it, has no effect: when the system call fails the function stores the broadcast address
  and clears the error, then sets the error again because the call failed and returns -1.
  \<open>make_address_v4\<close> reports \<open>invalid_argument\<close> and yields the address 0.0.0.0.
\<close>

theorem broadcast_text_rejected:
  assumes "fst (StringToAddress W ''255.255.255.255'' AF_INET) = None"
  shows "inet_pton W AF_INET ''255.255.255.255'' dest sc = (- 1, replicate 4 255, sc, ec_invalid_argument) \<and>
    make_address_v4_ec W ''255.255.255.255'' = (v4_default, ec_invalid_argument) \<and>
    make_address_v4 W ''255.255.255.255'' = Inl (system_error ec_invalid_argument)"
  using broadcast_text_error [OF assms] by (intro conjI)

lemma broadcast_text_rejected_witness:
  "make_address_v4 raw_wsa ''255.255.255.255'' = Inl (system_error ec_invalid_argument)"
  using broadcast_text_rejected [of raw_wsa] by (simp add: raw_wsa_def)

section \<open>Iterators and ranges\<close>

record v4_iter = it_address :: address_v4

definition iter_at :: "address_v4 \<Rightarrow> v4_iter" where
  "iter_at addr = \<lparr>it_address = addr\<rparr>"

definition iter_inc :: "v4_iter \<Rightarrow> v4_iter" where
  "iter_inc i = i\<lparr>it_address := v4_from_uint ((v4_to_uint (it_address i) + 1) AND 0xFFFFFFFF)\<rparr>"

text \<open>The postfix forms give the old iterator and the new one.\<close>

definition iter_post_inc :: "v4_iter \<Rightarrow> v4_iter \<times> v4_iter" where
  "iter_post_inc i = (i, iter_inc i)"

definition iter_dec :: "v4_iter \<Rightarrow> v4_iter" where
  "iter_dec i = i\<lparr>it_address := v4_from_uint ((v4_to_uint (it_address i) - 1) AND 0xFFFFFFFF)\<rparr>"

definition iter_post_dec :: "v4_iter \<Rightarrow> v4_iter \<times> v4_iter" where
  "iter_post_dec i = (i, iter_dec i)"

definition iter_eq :: "v4_iter \<Rightarrow> v4_iter \<Rightarrow> bool" where
  "iter_eq a b \<longleftrightarrow> v4_eq (it_address a) (it_address b)"

definition iter_ne :: "v4_iter \<Rightarrow> v4_iter \<Rightarrow> bool" where
  "iter_ne a b \<longleftrightarrow> v4_ne (it_address a) (it_address b)"

record v4_range =
  r_begin :: v4_iter
  r_end :: v4_iter

definition range_default :: v4_range where
  "range_default = \<lparr>r_begin = iter_at v4_default, r_end = iter_at v4_default\<rparr>"

definition range_of :: "v4_iter \<Rightarrow> v4_iter \<Rightarrow> v4_range" where
  "range_of i j = \<lparr>r_begin = i, r_end = j\<rparr>"

text \<open>The subtraction is done on 32-bit unsigned integers.\<close>

definition range_size :: "v4_range \<Rightarrow> u32" where
  "range_size r = v4_to_uint (it_address (r_end r)) - v4_to_uint (it_address (r_begin r))"

definition range_empty :: "v4_range \<Rightarrow> bool" where
  "range_empty r \<longleftrightarrow> range_size r = 0"

definition range_find :: "v4_range \<Rightarrow> address_v4 \<Rightarrow> v4_iter" where
  "range_find r addr =
     (if v4_greater_eq addr (it_address (r_begin r)) \<and> v4_less addr (it_address (r_end r))
      then iter_at addr else r_end r)"

lemma and_all_ones [simp]: "(w :: u32) AND 0xFFFFFFFF = w"
proof -
  have "(0xFFFFFFFF :: u32) = - 1" by simp
  then show ?thesis by (simp only: and.right_neutral)
qed

text \<open>\<open>n\<close> increments of an iterator add \<open>n\<close> to its address, modulo the number of addresses.\<close>

lemma iter_inc_funpow: "(iter_inc ^^ n) i = iter_at (v4_from_uint (v4_to_uint (it_address i) + of_nat n))"
proof (induction n)
  case 0
  then show ?case by (cases i) (simp add: iter_at_def)
next
  case (Suc n)
  then show ?case by (simp add: iter_inc_def iter_at_def add.assoc add.commute)
qed

text \<open>
  The addresses a loop \<open>for (it = begin; it != end; ++it)\<close> visits in at most \<open>n\<close> rounds.
\<close>

fun visit :: "nat \<Rightarrow> v4_iter \<Rightarrow> v4_iter \<Rightarrow> address_v4 list option" where
  "visit 0 i j = None"
| "visit (Suc n) i j =
     (if iter_ne i j then map_option ((#) (it_address i)) (visit n (iter_inc i) j) else Some [])"

lemma visit_eq:
  assumes "v4_to_uint (it_address j) = v4_to_uint (it_address i) + of_nat k" and "k < 2 ^ 32" and "k < n"
  shows "visit n i j = Some (map (\<lambda>d. v4_from_uint (v4_to_uint (it_address i) + of_nat d)) [0..<k])"
  using assms
proof (induction k arbitrary: n i)
  case 0
  then have "v4_to_uint (it_address j) = v4_to_uint (it_address i)" by simp
  then have "it_address j = it_address i" by (simp only: v4_to_uint_inject)
  with 0 show ?case by (cases n) (simp_all add: iter_ne_def)
next
  case (Suc k)
  then obtain n' where n: "n = Suc n'" "k < n'" by (cases n) auto
  have "(of_nat (Suc k) :: u32) \<noteq> 0"
    using Suc.prems(2) by (simp only: word_of_nat_eq_0_iff) (auto dest: dvd_imp_le)
  then have "it_address j \<noteq> it_address i"
    using Suc.prems(1) by auto
  moreover have "v4_to_uint (it_address j) = v4_to_uint (it_address (iter_inc i)) + of_nat k"
    using Suc.prems(1) by (simp add: iter_inc_def)
  with Suc.prems(2) have "visit n' (iter_inc i) j
      = Some (map (\<lambda>d. v4_from_uint (v4_to_uint (it_address (iter_inc i)) + of_nat d)) [0..<k])"
    by (intro Suc.IH n(2)) auto
  ultimately show ?case
    by (simp add: n(1) iter_ne_def iter_inc_def upt_conv_Cons map_Suc_upt [symmetric] add.assoc
        del: upt_Suc)
qed

text \<open>
  Iterating over a range ends after as many increments as \<open>size\<close> says, also when the range
  wraps around the end of the address space, and visits that many consecutive addresses.
\<close>

theorem range_iteration_ends:
  "visit (Suc (unat (range_size r))) (r_begin r) (r_end r)
     = Some (map (\<lambda>d. v4_from_uint (v4_to_uint (it_address (r_begin r)) + of_nat d))
         [0..<unat (range_size r)])"
proof (rule visit_eq)
  show "v4_to_uint (it_address (r_end r))
      = v4_to_uint (it_address (r_begin r)) + of_nat (unat (range_size r))"
    by (simp add: range_size_def)
  show "unat (range_size r) < 2 ^ 32" using unsigned_less [of "range_size r"] by simp
qed simp

end
