(* ===== verification/AsioNetwork.thy ===== *)
theory AsioNetwork
  imports AsioAddress
begin

text \<open>
  IPv4 networks: \<open>network_v4\<close> (ip/network_v4.hpp, ip/impl/network_v4.ipp). The constructors that
  throw give a sum; \<open>hosts\<close> gives the range of AsioAddress.
\<close>

record network_v4 =
  net_address :: address_v4
  net_prefix_length :: u16

definition network_default :: network_v4 where
  "network_default = \<lparr>net_address = v4_default, net_prefix_length = 0\<rparr>"

definition network_of_prefix :: "address_v4 \<Rightarrow> u16 \<Rightarrow> thrown + network_v4" where
  "network_of_prefix addr prefix_len =
     (if prefix_len > 32 then Inl (out_of_range ''prefix length too large'')
      else Inr \<lparr>net_address = addr, net_prefix_length = prefix_len\<rparr>)"

text \<open>The switch of the loop: what a byte adds to the prefix length and whether it ends the mask.\<close>

fun mask_byte :: "u8 \<Rightarrow> (u16 \<times> bool) option" where
  "mask_byte b =
     (if b = 255 then Some (8, False)
      else if b = 254 then Some (1 + 1 + 1 + 1 + 1 + 1 + 1, True)
      else if b = 252 then Some (1 + 1 + 1 + 1 + 1 + 1, True)
      else if b = 248 then Some (1 + 1 + 1 + 1 + 1, True)
      else if b = 240 then Some (1 + 1 + 1 + 1, True)
      else if b = 224 then Some (1 + 1 + 1, True)
      else if b = 192 then Some (1 + 1, True)
      else if b = 128 then Some (1, True)
      else if b = 0 then Some (0, True)
      else None)"

fun mask_loop :: "bytes \<Rightarrow> bool \<Rightarrow> u16 \<Rightarrow> thrown + u16" where
  "mask_loop [] finished plen = Inr plen"
| "mask_loop (b # bs) finished plen =
     (if finished then
        (if b \<noteq> 0 then Inl (invalid_argument ''non-contiguous netmask'')
         else mask_loop bs finished plen)
      else
        (case mask_byte b of
           Some (k, finished) \<Rightarrow> mask_loop bs finished (plen + k)
         | None \<Rightarrow> Inl (out_of_range ''non-contiguous netmask'')))"

definition network_of_mask :: "address_v4 \<Rightarrow> address_v4 \<Rightarrow> thrown + network_v4" where
  "network_of_mask addr msk =
     (case mask_loop (v4_to_bytes msk) False 0 of
        Inl e \<Rightarrow> Inl e
      | Inr plen \<Rightarrow> Inr \<lparr>net_address = addr, net_prefix_length = plen\<rparr>)"

definition netmask :: "network_v4 \<Rightarrow> address_v4" where
  "netmask n =
     (let nmbits = (if net_prefix_length n = 0 then 0
                    else push_bit (unat (32 - net_prefix_length n)) (0xFFFFFFFF :: u32))
      in v4_from_uint nmbits)"

definition network :: "network_v4 \<Rightarrow> address_v4" where
  "network n = v4_from_uint (v4_to_uint (net_address n) AND v4_to_uint (netmask n))"

definition net_broadcast :: "network_v4 \<Rightarrow> address_v4" where
  "net_broadcast n = v4_from_uint (v4_to_uint (network n) OR (v4_to_uint (netmask n) XOR 0xFFFFFFFF))"

definition is_host :: "network_v4 \<Rightarrow> bool" where
  "is_host n \<longleftrightarrow> net_prefix_length n = 32"

definition hosts :: "network_v4 \<Rightarrow> v4_range" where
  "hosts n =
     (if is_host n
      then range_of (iter_at (net_address n)) (iter_at (v4_from_uint (v4_to_uint (net_address n) + 1)))
      else range_of (iter_at (v4_from_uint (v4_to_uint (network n) + 1))) (iter_at (net_broadcast n)))"

definition canonical :: "network_v4 \<Rightarrow> thrown + network_v4" where
  "canonical n = network_of_mask (network n) (netmask n)"

definition net_eq :: "network_v4 \<Rightarrow> network_v4 \<Rightarrow> bool" where
  "net_eq a b \<longleftrightarrow> v4_eq (net_address a) (net_address b) \<and> net_prefix_length a = net_prefix_length b"

definition net_ne :: "network_v4 \<Rightarrow> network_v4 \<Rightarrow> bool" where
  "net_ne a b \<longleftrightarrow> \<not> net_eq a b"

definition is_subnet_of :: "network_v4 \<Rightarrow> network_v4 \<Rightarrow> thrown + bool" where
  "is_subnet_of n other =
     (if net_prefix_length other \<ge> net_prefix_length n then Inr False
      else try_bind (network_of_prefix (net_address n) (net_prefix_length other)) (\<lambda>me.
           try_bind (canonical other) (\<lambda>a.
           try_bind (canonical me) (\<lambda>b. Inr (net_eq a b)))))"

text \<open>\<open>sprintf("/%u", prefix_length_)\<close> after the address; only the address conversion can throw.\<close>

definition net_to_string_ec :: "wsa \<Rightarrow> network_v4 \<Rightarrow> thrown + string \<times> error_code" where
  "net_to_string_ec W n =
     try_bind (v4_to_string W (net_address n)) (\<lambda>str.
       Inr (str @ ''/'' @ show_nat (unat (net_prefix_length n)), no_error))"

definition net_to_string :: "wsa \<Rightarrow> network_v4 \<Rightarrow> thrown + string" where
  "net_to_string W n = try_bind (net_to_string_ec W n) (\<lambda>(addr, ec). throw_error ec addr)"

text \<open>
  \<open>std::atoi\<close> of a text of digits: the value, which the C library leaves undefined above
  \<open>INT_MAX\<close>; Microsoft's library returns \<open>INT_MAX\<close> then.
\<close>

definition digits :: string where
  "digits = ''0123456789''"

definition atoi_digits :: "string \<Rightarrow> int" where
  "atoi_digits ds = min (foldl (\<lambda>v d. 10 * v + (of_char d - 48)) 0 ds) (2 ^ 31 - 1)"

definition make_network_v4_ec :: "wsa \<Rightarrow> string \<Rightarrow> thrown + network_v4 \<times> error_code" where
  "make_network_v4_ec W str =
     (let pos = length (takeWhile (\<lambda>ch. ch \<noteq> CHR ''/'') str)
      in if pos = length str then Inr (network_default, ec_invalid_argument)
      else if pos = length str - 1 then Inr (network_default, ec_invalid_argument)
      else if \<not> (\<forall>ch \<in> set (drop (pos + 1) str). ch \<in> set digits)
      then Inr (network_default, ec_invalid_argument)
      else
        let (addr, ec) = make_address_v4_ec W (take pos str)
        in if ec_set ec then Inr (network_default, ec)
        else
          let prefix_len = atoi_digits (drop (pos + 1) str)
          in if prefix_len < 0 \<or> prefix_len > 32 then Inr (network_default, ec_invalid_argument)
          else try_bind (network_of_prefix addr (of_int prefix_len)) (\<lambda>net. Inr (net, ec)))"

definition make_network_v4 :: "wsa \<Rightarrow> string \<Rightarrow> thrown + network_v4" where
  "make_network_v4 W str = try_bind (make_network_v4_ec W str) (\<lambda>(net, ec). throw_error ec net)"

section \<open>Netmasks and prefix lengths\<close>

definition net_wf :: "network_v4 \<Rightarrow> bool" where
  "net_wf n \<longleftrightarrow> net_prefix_length n \<le> 32"

text \<open>The mask of a prefix length, as a word and as the bytes of the address.\<close>

definition prefix_mask :: "u16 \<Rightarrow> u32" where
  "prefix_mask p = (if p = 0 then 0 else push_bit (unat (32 - p)) 0xFFFFFFFF)"

lemma netmask_uint [simp]: "v4_to_uint (netmask n) = prefix_mask (net_prefix_length n)"
  by (simp add: netmask_def prefix_mask_def)

lemma small_prefix_cases:
  assumes "(p :: u16) \<le> 32" and "\<And>k. k < 33 \<Longrightarrow> P (of_nat k)"
  shows "P p"
proof -
  have "unat p < 33" using assms(1) by (simp add: word_le_nat_alt)
  from assms(2) [OF this] show ?thesis by simp
qed

lemma mask_loop_table:
  "list_all (\<lambda>k. mask_loop (rev (le32 (prefix_mask (of_nat k)))) False 0 = Inr (of_nat k)) [0..<33]"
  by code_simp

lemma mask_loop_prefix_mask:
  assumes "p \<le> 32"
  shows "mask_loop (rev (le32 (prefix_mask p))) False 0 = Inr p"
  using assms
proof (rule small_prefix_cases)
  fix k :: nat assume "k < 33"
  then show "mask_loop (rev (le32 (prefix_mask (of_nat k)))) False 0 = Inr (of_nat k)"
    using mask_loop_table by (simp add: list_all_iff del: upt_rec_numeral)
qed

lemma mask_loop_zeros: "mask_loop bs True p = Inr q \<longleftrightarrow> q = p \<and> bs = replicate (length bs) 0"
  by (induction bs) auto

declare mask_byte.simps [simp del]

definition partial_bytes :: "(u8 \<times> u16) list" where
  "partial_bytes = [(254, 7), (252, 6), (248, 5), (240, 4), (224, 3), (192, 2), (128, 1), (0, 0)]"

lemma mask_loop_step:
  assumes "mask_loop (b # bs) False q = Inr p"
  shows "b = 255 \<and> mask_loop bs False (q + 8) = Inr p \<or>
         (\<exists>k. (b, k) \<in> set partial_bytes \<and> p = q + k \<and> bs = replicate (length bs) 0)"
  using assms by (auto simp: partial_bytes_def mask_loop_zeros mask_byte.simps split: if_splits)

declare mask_loop.simps(2) [simp del]

lemma partial_mask_table:
  "list_all (\<lambda>(i, b, k). let p = 8 * of_nat i + k in
       p \<le> 32 \<and> replicate i 255 @ b # replicate (3 - i) 0 = rev (le32 (prefix_mask p)))
     (List.product [0..<4] partial_bytes)"
  by code_simp

lemma partial_mask:
  assumes "(b, k) \<in> set partial_bytes" and "i < 4"
  shows "8 * of_nat i + k \<le> 32 \<and>
     replicate i 255 @ b # replicate (3 - i) 0 = rev (le32 (prefix_mask (8 * of_nat i + k)))"
  using partial_mask_table assms by (fastforce simp: list_all_iff Let_def simp del: upt_rec_numeral)

lemma full_mask: "(32 :: u16) \<le> 32 \<and> [255, 255, 255, 255] = rev (le32 (prefix_mask 32))"
  by code_simp

lemma mask_loop_contiguous:
  assumes "mask_loop [a, b, c, d] False 0 = Inr p"
  shows "p \<le> 32 \<and> [a, b, c, d] = rev (le32 (prefix_mask p))"
  using mask_loop_step [OF assms]
proof (elim disjE conjE exE)
  fix k assume "(a, k) \<in> set partial_bytes" "p = 0 + k" "[b, c, d] = replicate (length [b, c, d]) 0"
  then show ?thesis using partial_mask [of a k 0] by (simp add: numeral_eq_Suc)
next
  assume a: "a = 255" and "mask_loop [b, c, d] False (0 + 8) = Inr p"
  from mask_loop_step [OF this(2)] show ?thesis
  proof (elim disjE conjE exE)
    fix k assume "(b, k) \<in> set partial_bytes" "p = 0 + 8 + k" "[c, d] = replicate (length [c, d]) 0"
    then show ?thesis using partial_mask [of b k 1] a by (simp add: numeral_eq_Suc)
  next
    assume b: "b = 255" and "mask_loop [c, d] False (0 + 8 + 8) = Inr p"
    from mask_loop_step [OF this(2)] show ?thesis
    proof (elim disjE conjE exE)
      fix k assume "(c, k) \<in> set partial_bytes" "p = 0 + 8 + 8 + k" "[d] = replicate (length [d]) 0"
      then show ?thesis using partial_mask [of c k 2] a b by (simp add: numeral_eq_Suc)
    next
      assume c: "c = 255" and "mask_loop [d] False (0 + 8 + 8 + 8) = Inr p"
      from mask_loop_step [OF this(2)] show ?thesis
      proof (elim disjE conjE exE)
        fix k assume "(d, k) \<in> set partial_bytes" "p = 0 + 8 + 8 + 8 + k"
        then show ?thesis using partial_mask [of d k 3] a b c by (simp add: numeral_eq_Suc)
      next
        assume "d = 255" and "mask_loop [] False (0 + 8 + 8 + 8 + 8) = Inr p"
        then show ?thesis using full_mask a b c by simp
      qed
    qed
  qed
qed

lemma network_of_mask_valid:
  "network_of_mask addr msk = Inr n \<longleftrightarrow> net_address n = addr \<and> net_wf n \<and> netmask n = msk"
proof
  obtain a b c d where bs: "v4_to_bytes msk = [a, b, c, d]"
    by (simp add: v4_to_bytes_def le32_def)
  assume "network_of_mask addr msk = Inr n"
  then have l: "mask_loop [a, b, c, d] False 0 = Inr (net_prefix_length n)" and "net_address n = addr"
    by (auto simp: network_of_mask_def bs split: sum.splits)
  moreover have "v4_to_uint msk = prefix_mask (net_prefix_length n)"
  proof -
    have "v4_to_uint msk = un_le32 (rev (v4_to_bytes msk))"
      by (simp only: v4_to_uint_def v4_to_bytes_def network_to_host_long_def)
    also have "\<dots> = un_le32 (rev (rev (le32 (prefix_mask (net_prefix_length n)))))"
      using mask_loop_contiguous [OF l] bs by metis
    finally show ?thesis by simp
  qed
  then have "netmask n = msk"
    by (simp only: v4_to_uint_inject [symmetric] netmask_uint)
  ultimately show "net_address n = addr \<and> net_wf n \<and> netmask n = msk"
    using mask_loop_contiguous [OF l] by (simp add: net_wf_def)
next
  assume n: "net_address n = addr \<and> net_wf n \<and> netmask n = msk"
  then have "v4_to_bytes msk = rev (le32 (prefix_mask (net_prefix_length n)))"
    by (metis netmask_uint v4_of_uint v4_to_bytes_from_uint)
  with n show "network_of_mask addr msk = Inr n"
    by (cases n) (simp add: network_of_mask_def net_wf_def mask_loop_prefix_mask)
qed

text \<open>
  C29: The constructor that takes a netmask accepts exactly the contiguous masks and computes the
  length \<open>netmask\<close> turns back into the same mask: it returns a network if and only if that network
  has the given address, a prefix length of at most 32 and the given mask.
\<close>

theorem network_of_mask_iff:
  "network_of_mask addr msk = Inr n \<longleftrightarrow> net_address n = addr \<and> net_wf n \<and> netmask n = msk"
  by (rule network_of_mask_valid)

text \<open>\<open>canonical\<close> is declared not to throw: on a network with a prefix length up to 32 it does not.\<close>

lemma netmask_cong: "net_prefix_length m = net_prefix_length n \<Longrightarrow> netmask m = netmask n"
  by (simp add: netmask_def)

lemma canonical_eq:
  assumes "net_wf n"
  shows "canonical n = Inr \<lparr>net_address = network n, net_prefix_length = net_prefix_length n\<rparr>"
proof -
  have "netmask \<lparr>net_address = network n, net_prefix_length = net_prefix_length n\<rparr> = netmask n"
    by (rule netmask_cong) simp
  with assms show ?thesis
    by (simp add: canonical_def network_of_mask_valid net_wf_def)
qed

lemma networks_wf:
  shows "net_wf network_default"
    and "network_of_prefix addr k = Inr n \<Longrightarrow> net_wf n"
    and "network_of_mask addr msk = Inr n \<Longrightarrow> net_wf n"
    and "make_network_v4_ec W str = Inr (n, ec) \<Longrightarrow> net_wf n"
    and "net_wf n \<Longrightarrow> \<exists>c. canonical n = Inr c \<and> net_wf c"
    and "net_wf n \<Longrightarrow> net_wf m \<Longrightarrow> \<exists>b. is_subnet_of n m = Inr b"
proof -
  show def: "net_wf network_default" by (simp add: net_wf_def network_default_def)
  show pre: "network_of_prefix addr k = Inr n \<Longrightarrow> net_wf n" for addr k n
    by (auto simp: network_of_prefix_def net_wf_def not_less split: if_splits)
  show "network_of_mask addr msk = Inr n \<Longrightarrow> net_wf n" by (simp add: network_of_mask_valid)
  show "make_network_v4_ec W str = Inr (n, ec) \<Longrightarrow> net_wf n"
    by (auto simp: make_network_v4_ec_def Let_def try_bind_Inr_iff def dest: pre
        split: if_splits prod.splits)
  show "net_wf n \<Longrightarrow> \<exists>c. canonical n = Inr c \<and> net_wf c" by (simp add: canonical_eq net_wf_def)
  assume wf: "net_wf n" "net_wf m"
  then have "canonical \<lparr>net_address = a, net_prefix_length = net_prefix_length m\<rparr>
      = Inr \<lparr>net_address = network \<lparr>net_address = a, net_prefix_length = net_prefix_length m\<rparr>,
             net_prefix_length = net_prefix_length m\<rparr>" for a
    by (subst canonical_eq) (simp_all add: net_wf_def)
  moreover have "canonical m = Inr \<lparr>net_address = network m, net_prefix_length = net_prefix_length m\<rparr>"
    using wf by (simp add: canonical_eq)
  moreover have "network_of_prefix a (net_prefix_length m)
      = Inr \<lparr>net_address = a, net_prefix_length = net_prefix_length m\<rparr>" for a
    using wf by (simp add: network_of_prefix_def net_wf_def not_less)
  ultimately show "\<exists>b. is_subnet_of n m = Inr b"
    by (cases "net_prefix_length n \<le> net_prefix_length m") (auto simp: is_subnet_of_def)
qed

text \<open>
  C40: The class invariant of \<open>network_v4\<close>: every way to make a network, the text parser included,
  gives one whose prefix length is at most 32; \<open>canonical\<close>, which is declared \<open>noexcept\<close> but calls
  a constructor that throws, never throws on such a network, and neither does \<open>is_subnet_of\<close>.
\<close>

theorem network_prefix_invariant:
  shows "net_wf network_default \<and>
    (network_of_prefix addr k = Inr n \<longrightarrow> net_wf n) \<and> (network_of_mask addr msk = Inr n \<longrightarrow> net_wf n) \<and>
    (make_network_v4_ec W str = Inr (n, ec) \<longrightarrow> net_wf n) \<and>
    (net_wf n \<longrightarrow> (\<exists>c. canonical n = Inr c \<and> net_wf c)) \<and>
    (net_wf n \<longrightarrow> net_wf m \<longrightarrow> (\<exists>b. is_subnet_of n m = Inr b))"
  using networks_wf by blast

definition sample_net :: "u32 \<Rightarrow> u16 \<Rightarrow> network_v4" where
  "sample_net a k = \<lparr>net_address = v4_from_uint a, net_prefix_length = k\<rparr>"

lemma network_prefix_invariant_witness:
  "\<exists>b. is_subnet_of (sample_net 0x0A000100 24) (sample_net 0x0A000000 16) = Inr b"
  using network_prefix_invariant [of _ _ "sample_net 0x0A000100 24" _ _ _ _ "sample_net 0x0A000000 16"]
  by (simp add: net_wf_def sample_net_def)

section \<open>Subnets\<close>

text \<open>The addresses of a network: those that agree with it under its mask.\<close>

definition in_net :: "network_v4 \<Rightarrow> address_v4 \<Rightarrow> bool" where
  "in_net n a \<longleftrightarrow> v4_to_uint a AND v4_to_uint (netmask n) = v4_to_uint (net_address n) AND v4_to_uint (netmask n)"

lemma bit_prefix_mask:
  assumes "p \<le> 32"
  shows "bit (prefix_mask p) i \<longleftrightarrow> 32 - unat p \<le> i \<and> i < 32"
proof (cases "p = 0")
  case False
  have "unat (32 - p) = 32 - unat p" using assms by (simp add: unat_sub)
  then have "prefix_mask p = push_bit (32 - unat p) 0xFFFFFFFF"
    using False by (simp only: prefix_mask_def if_False)
  also have "(0xFFFFFFFF :: u32) = - 1" by simp
  finally show ?thesis by (auto simp: bit_simps)
qed (auto simp: prefix_mask_def)

lemma prefix_mask_and:
  assumes "p \<le> q" and "q \<le> 32"
  shows "prefix_mask p AND prefix_mask q = prefix_mask p"
  using assms by (intro bit_word_eqI) (auto simp: bit_simps bit_prefix_mask word_le_nat_alt)

lemma in_net_mono:
  assumes "net_wf n" and "net_prefix_length m \<le> net_prefix_length n" and "in_net m (net_address n)"
    and "in_net n a"
  shows "in_net m a"
proof -
  let ?p = "prefix_mask (net_prefix_length m)" and ?q = "prefix_mask (net_prefix_length n)"
  have pq: "?q AND ?p = ?p"
    using prefix_mask_and [OF assms(2)] assms(1) by (simp add: net_wf_def and.commute)
  have "v4_to_uint a AND ?p = (v4_to_uint a AND ?q) AND ?p" by (simp only: and.assoc pq)
  also have "\<dots> = (v4_to_uint (net_address n) AND ?q) AND ?p" using assms(4) by (simp add: in_net_def)
  also have "\<dots> = v4_to_uint (net_address n) AND ?p" by (simp only: and.assoc pq)
  finally show ?thesis using assms(3) by (simp add: in_net_def)
qed

text \<open>
  C28: \<open>is_subnet_of\<close> decides strict containment of the sets of addresses: it is true exactly when
  the other network has a shorter prefix and contains every address of this one.
\<close>

theorem is_subnet_of_iff:
  assumes "net_wf n" and "net_wf m"
  shows "is_subnet_of n m =
    Inr (net_prefix_length m < net_prefix_length n \<and> (\<forall>a. in_net n a \<longrightarrow> in_net m a))"
proof (cases "net_prefix_length m < net_prefix_length n")
  case True
  let ?me = "\<lparr>net_address = net_address n, net_prefix_length = net_prefix_length m\<rparr>"
  have me: "network_of_prefix (net_address n) (net_prefix_length m) = Inr ?me"
    using assms(2) by (simp add: network_of_prefix_def net_wf_def not_less)
  have mask_me: "netmask ?me = netmask m" by (rule netmask_cong) simp
  have "is_subnet_of n m = Inr (network m = network ?me)"
    using True assms(2) me canonical_eq [of m] canonical_eq [of ?me]
    by (simp add: is_subnet_of_def except_simps net_eq_def net_wf_def not_le)
  also have "network m = network ?me \<longleftrightarrow> in_net m (net_address n)"
    by (simp only: network_def in_net_def mask_me v4_from_uint_inject network_v4.simps) (rule eq_commute)
  also have "\<dots> \<longleftrightarrow> (\<forall>a. in_net n a \<longrightarrow> in_net m a)"
  proof
    assume "in_net m (net_address n)"
    with True show "\<forall>a. in_net n a \<longrightarrow> in_net m a"
      using in_net_mono [OF assms(1)] by (metis order_less_imp_le)
  next
    have "in_net n (net_address n)" by (simp add: in_net_def)
    then show "\<forall>a. in_net n a \<longrightarrow> in_net m a \<Longrightarrow> in_net m (net_address n)" by blast
  qed
  finally show ?thesis using True by simp
qed (simp add: is_subnet_of_def not_less)

lemma is_subnet_of_iff_witness:
  "is_subnet_of (sample_net 0x0A000100 24) (sample_net 0x0A000000 16)
     = Inr (net_prefix_length (sample_net 0x0A000000 16) < net_prefix_length (sample_net 0x0A000100 24) \<and>
        (\<forall>a. in_net (sample_net 0x0A000100 24) a \<longrightarrow> in_net (sample_net 0x0A000000 16) a))"
  by (rule is_subnet_of_iff) (simp_all add: net_wf_def sample_net_def)

section \<open>Hosts\<close>

lemma prefix_mask_and_drop:
  assumes "p \<le> 32"
  shows "w AND prefix_mask p = push_bit (32 - unat p) (drop_bit (32 - unat p) w)"
  using assms by (intro bit_word_eqI) (auto simp: bit_simps bit_prefix_mask)

lemma and_le_word: "w AND m \<le> (w :: u32)"
proof -
  have "uint w AND uint m \<le> uint w" by (intro AND_upper1) simp
  then show ?thesis by (simp add: word_le_def uint_and)
qed

lemma network_uint: "v4_to_uint (network n) = v4_to_uint (net_address n) AND prefix_mask (net_prefix_length n)"
  by (simp add: network_def)

lemma broadcast_uint: "v4_to_uint (net_broadcast n) = v4_to_uint (net_address n) OR NOT (prefix_mask (net_prefix_length n))"
proof -
  have "(0xFFFFFFFF :: u32) = - 1" by simp
  then have "m XOR 0xFFFFFFFF = NOT m" for m :: u32
    by (simp only:) (intro bit_word_eqI, simp add: bit_simps)
  then show ?thesis
    unfolding net_broadcast_def v4_uint network_uint netmask_uint
    by (intro bit_word_eqI) (auto simp: bit_simps)
qed

lemma drop_bit_between:
  assumes "a \<le> b" "b \<le> (c :: u32)" and "drop_bit k a = drop_bit k c"
  shows "drop_bit k b = drop_bit k a"
proof -
  have div: "unat (drop_bit k w) = unat w div 2 ^ k" for w :: u32
    by (rule trans [OF unat_drop_bit_eq drop_bit_eq_div])
  have "unat (drop_bit k a) \<le> unat (drop_bit k b)" "unat (drop_bit k b) \<le> unat (drop_bit k c)"
    using assms(1,2) unfolding div word_le_nat_alt by (auto intro: div_le_mono)
  then have "unat (drop_bit k b) = unat (drop_bit k a)" using assms(3) by simp
  then show ?thesis by (rule unsigned_word_eqI)
qed

lemma in_net_interval:
  assumes "net_wf n"
  shows "in_net n a \<longleftrightarrow> v4_less_eq (network n) a \<and> v4_less_eq a (net_broadcast n)"
proof -
  let ?M = "prefix_mask (net_prefix_length n)" and ?k = "32 - unat (net_prefix_length n)"
  have le: "net_prefix_length n \<le> 32" using assms by (simp add: net_wf_def)
  have "v4_to_uint a AND ?M \<le> v4_to_uint a" "v4_to_uint a \<le> v4_to_uint a OR NOT ?M"
    by (rule and_le_word, rule le_word_or2)
  moreover have "v4_to_uint (net_address n) OR NOT ?M = v4_to_uint a OR NOT ?M" if "in_net n a"
  proof -
    have "x OR NOT ?M = (x AND ?M) OR NOT ?M" for x :: u32
      by (intro bit_word_eqI) (auto simp: bit_simps)
    with that show ?thesis by (metis in_net_def netmask_uint)
  qed
  ultimately have "v4_less_eq (network n) a \<and> v4_less_eq a (net_broadcast n)" if "in_net n a"
    using that by (simp add: v4_less_eq_def network_uint broadcast_uint in_net_def)
  moreover have "in_net n a" if "v4_less_eq (network n) a" "v4_less_eq a (net_broadcast n)"
  proof -
    have "drop_bit ?k (v4_to_uint (network n)) = drop_bit ?k (v4_to_uint (net_address n))"
      "drop_bit ?k (v4_to_uint (net_broadcast n)) = drop_bit ?k (v4_to_uint (net_address n))"
      by (intro bit_word_eqI; auto simp: network_uint broadcast_uint bit_simps bit_prefix_mask [OF le]
          dest: bit_imp_le_length)+
    then have "drop_bit ?k (v4_to_uint a) = drop_bit ?k (v4_to_uint (net_address n))"
      using drop_bit_between [of "v4_to_uint (network n)" "v4_to_uint a" "v4_to_uint (net_broadcast n)" ?k] that
      by (simp add: v4_less_eq_def)
    then show ?thesis by (simp add: in_net_def prefix_mask_and_drop [OF le])
  qed
  ultimately show ?thesis by blast
qed

lemma range_find_found:
  "it_address (range_find r a) = a \<and> iter_ne (range_find r a) (r_end r) \<longleftrightarrow>
     v4_less_eq (it_address (r_begin r)) a \<and> v4_less a (it_address (r_end r))"
  by (auto simp: range_find_def v4_less_def v4_less_eq_def v4_greater_eq_def iter_ne_def iter_at_def)

lemma network_not_max:
  assumes "net_wf n" and "\<not> is_host n"
  shows "v4_to_uint (network n) + 1 \<noteq> 0"
proof
  assume "v4_to_uint (network n) + 1 = 0"
  then have "v4_to_uint (network n) = - 1" by (simp add: eq_neg_iff_add_eq_0)
  then have "bit (v4_to_uint (network n)) 0" by simp
  moreover have "\<not> bit (prefix_mask (net_prefix_length n)) 0"
  proof -
    have "net_prefix_length n < 32" using assms by (auto simp: net_wf_def is_host_def)
    then show ?thesis
      using assms(1) by (simp add: bit_prefix_mask net_wf_def word_less_nat_alt del: bit_0)
  qed
  ultimately show False by (simp add: network_uint bit_and_iff del: bit_0)
qed

lemma succ_le_iff: "w + 1 \<noteq> (0 :: u32) \<Longrightarrow> w + 1 \<le> v \<longleftrightarrow> w < v"
  using unatSuc [of w] by (simp add: word_le_nat_alt word_less_nat_alt add.commute Suc_le_eq)

lemma hosts_find_iff:
  assumes "net_wf n" and "\<not> is_host n"
  shows "iter_ne (range_find (hosts n) a) (r_end (hosts n)) \<longleftrightarrow>
    v4_less (network n) a \<and> v4_less a (net_broadcast n)"
  using succ_le_iff [OF network_not_max [OF assms], of "v4_to_uint a"] assms(2)
  by (auto simp: hosts_def range_of_def range_find_def v4_less_def v4_greater_eq_def iter_ne_def iter_at_def)

lemma hosts_find_cases:
  shows "net_wf n \<Longrightarrow> \<not> is_host n \<Longrightarrow>
      iter_ne (range_find (hosts n) a) (r_end (hosts n)) \<longleftrightarrow>
      in_net n a \<and> a \<noteq> network n \<and> a \<noteq> net_broadcast n"
    and "range_size (hosts (sample_net 0xFFFFFFFF 32)) = 1"
    and "\<not> iter_ne (range_find (hosts (sample_net 0xFFFFFFFF 32)) a) (r_end (hosts (sample_net 0xFFFFFFFF 32)))"
proof -
  assume wf: "net_wf n" and nh: "\<not> is_host n"
  have "a \<noteq> b \<longleftrightarrow> v4_to_uint a \<noteq> v4_to_uint b" for a b by simp
  then show "iter_ne (range_find (hosts n) a) (r_end (hosts n)) \<longleftrightarrow>
      in_net n a \<and> a \<noteq> network n \<and> a \<noteq> net_broadcast n"
    unfolding hosts_find_iff [OF wf nh] in_net_interval [OF wf]
    by (auto simp: v4_less_def v4_less_eq_def simp del: v4_to_uint_inject)
next
  show "range_size (hosts (sample_net 0xFFFFFFFF 32)) = 1"
    by (simp add: hosts_def is_host_def sample_net_def range_of_def range_size_def iter_at_def)
  have "hosts (sample_net 0xFFFFFFFF 32) = range_of (iter_at (v4_from_uint 0xFFFFFFFF)) (iter_at (v4_from_uint 0))"
    by (simp add: hosts_def is_host_def sample_net_def range_of_def iter_at_def)
  then show "\<not> iter_ne (range_find (hosts (sample_net 0xFFFFFFFF 32)) a) (r_end (hosts (sample_net 0xFFFFFFFF 32)))"
    by (simp add: range_of_def range_find_def iter_at_def iter_ne_def v4_greater_eq_def v4_less_def)
qed

text \<open>
  The hosts of a network that is not a single host: \<open>find\<close> on the range \<open>hosts\<close> finds exactly the
  addresses of the network strictly between the network address and the broadcast address; and for
  the single host 255.255.255.255/32 the range wraps around, so \<open>find\<close> does not find its only member.
\<close>

theorem hosts_find:
  shows "(net_wf n \<longrightarrow> \<not> is_host n \<longrightarrow>
      (iter_ne (range_find (hosts n) a) (r_end (hosts n)) \<longleftrightarrow>
       in_net n a \<and> a \<noteq> network n \<and> a \<noteq> net_broadcast n)) \<and>
    range_size (hosts (sample_net 0xFFFFFFFF 32)) = 1 \<and>
    \<not> iter_ne (range_find (hosts (sample_net 0xFFFFFFFF 32)) a) (r_end (hosts (sample_net 0xFFFFFFFF 32)))"
  by (intro conjI impI hosts_find_cases)

lemma hosts_find_witness:
  "iter_ne (range_find (hosts (sample_net 0x0A000100 24)) v4_loopback) (r_end (hosts (sample_net 0x0A000100 24)))
   \<longleftrightarrow> in_net (sample_net 0x0A000100 24) v4_loopback \<and> v4_loopback \<noteq> network (sample_net 0x0A000100 24) \<and>
       v4_loopback \<noteq> net_broadcast (sample_net 0x0A000100 24)"
  by (rule hosts_find [THEN conjunct1, rule_format]) (simp_all add: net_wf_def sample_net_def is_host_def)

end
