(* ===== verification/AsioHashMap.thy ===== *)
theory AsioHashMap
  imports AsioBase
begin

text \<open>
  The hash map of detail/hash_map.hpp: all entries are in one list \<open>values_\<close>, in which those of a
  bucket are neighbours, and a bucket is a pair of iterators to its first and last entry. Erased
  list nodes are kept in \<open>spares_\<close> and used again. Nodes have addresses (natural numbers), so that an
  iterator is an address, or \<open>None\<close> for \<open>end()\<close>, and stays valid when its node is moved. The result
  \<open>None\<close> of an operation is a loop that does not end or the use of \<open>end()\<close> as an entry.
\<close>

section \<open>std::list and its iterators\<close>

definition first_of :: "'n list \<Rightarrow> 'n option" where
  "first_of xs = (case xs of [] \<Rightarrow> None | x # _ \<Rightarrow> Some x)"

text \<open>\<open>++it\<close> and \<open>--it\<close>.\<close>

fun next_in :: "'n list \<Rightarrow> 'n \<Rightarrow> 'n option" where
  "next_in [] n = None"
| "next_in (x # xs) n = (if x = n then first_of xs else next_in xs n)"

fun prev_in :: "'n list \<Rightarrow> 'n option \<Rightarrow> 'n option" where
  "prev_in [] it = None"
| "prev_in (x # xs) it = (if first_of xs = it then Some x else prev_in xs it)"

fun insert_before :: "'n list \<Rightarrow> 'n option \<Rightarrow> 'n \<Rightarrow> 'n list" where
  "insert_before [] it n = [n]"
| "insert_before (x # xs) it n = (if it = Some x then n # x # xs else x # insert_before xs it n)"

text \<open>\<open>splice\<close> of the list's own node \<open>n\<close> before \<open>it\<close>.\<close>

definition splice_in :: "'n list \<Rightarrow> 'n option \<Rightarrow> 'n \<Rightarrow> 'n list" where
  "splice_in xs it n = (if it = Some n then xs else insert_before (remove1 n xs) it n)"

section \<open>The map\<close>

text \<open>
  What the template arguments provide: \<open>K()\<close>, the hash function, and the construction, copying and
  assignment (old value first) of values.
\<close>

record ('k, 'v) elem_ops =
  key_default :: 'k
  hash_value :: "'k \<Rightarrow> nat"
  val_new :: 'v
  val_copy :: "'v \<Rightarrow> 'v"
  val_assign :: "'v \<Rightarrow> 'v \<Rightarrow> 'v"

definition calculate_hash_value_int :: "u32 \<Rightarrow> nat" where
  "calculate_hash_value_int i = unat i"

definition calculate_hash_value_ptr :: "u32 \<Rightarrow> nat" where
  "calculate_hash_value_ptr p = unat (p + drop_bit 3 p)"

definition calculate_hash_value_socket :: "u32 \<Rightarrow> nat" where
  "calculate_hash_value_socket s = unat s"

text \<open>\<open>hm_node\<close> is the memory of the list nodes, \<open>hm_fresh\<close> the address the allocator gives next.\<close>

record ('k, 'v) hash_map =
  hm_size :: nat
  hm_values :: "nat list"
  hm_spares :: "nat list"
  hm_buckets :: "(nat option \<times> nat option) list"
  hm_num_buckets :: nat
  hm_node :: "nat \<Rightarrow> 'k \<times> 'v"
  hm_fresh :: nat

definition hm_new :: "(nat \<Rightarrow> 'k \<times> 'v) \<Rightarrow> ('k, 'v) hash_map" where
  "hm_new mem = \<lparr>hm_size = 0, hm_values = [], hm_spares = [], hm_buckets = [], hm_num_buckets = 0,
     hm_node = mem, hm_fresh = 0\<rparr>"

definition hm_begin :: "('k, 'v) hash_map \<Rightarrow> nat option" where
  "hm_begin m = first_of (hm_values m)"

definition hm_end :: "nat option" where
  "hm_end = None"

definition hm_empty :: "('k, 'v) hash_map \<Rightarrow> bool" where
  "hm_empty m \<longleftrightarrow> hm_values m = []"

definition bucket_of :: "('k, 'v) elem_ops \<Rightarrow> ('k, 'v) hash_map \<Rightarrow> 'k \<Rightarrow> nat" where
  "bucket_of E m k = hash_value E k mod hm_num_buckets m"

text \<open>The loop that looks for a key from \<open>it\<close> up to \<open>end_it\<close>.\<close>

partial_function (option) walk ::
  "('k, 'v) hash_map \<Rightarrow> 'k \<Rightarrow> nat option \<Rightarrow> nat option \<Rightarrow> nat option option" where
  "walk m k it end_it =
     (if it = end_it then Some None
      else case it of None \<Rightarrow> None
      | Some n \<Rightarrow> if fst (hm_node m n) = k then Some (Some n)
                  else walk m k (next_in (hm_values m) n) end_it)"

definition hm_find :: "('k, 'v) elem_ops \<Rightarrow> ('k, 'v) hash_map \<Rightarrow> 'k \<Rightarrow> nat option option" where
  "hm_find E m k =
     (if hm_num_buckets m \<noteq> 0 then
        let bucket = bucket_of E m k; it = fst (hm_buckets m ! bucket) in
        if it = hm_end then Some hm_end
        else let end_it = next_in (hm_values m) (the (snd (hm_buckets m ! bucket))) in walk m k it end_it
      else Some hm_end)"

definition hash_sizes :: "nat list" where
  "hash_sizes = [3, 13, 23, 53, 97, 193, 389, 769, 1543, 3079, 6151, 12289, 24593, 49157, 98317, 196613,
     393241, 786433, 1572869, 3145739, 6291469, 12582917, 25165843]"

definition hash_size :: "nat \<Rightarrow> nat" where
  "hash_size num_elems =
     (case find (\<lambda>s. num_elems < s) (butlast hash_sizes) of Some s \<Rightarrow> s | None \<Rightarrow> last hash_sizes)"

partial_function (option) rehash_loop ::
  "('k, 'v) elem_ops \<Rightarrow> ('k, 'v) hash_map \<Rightarrow> nat option \<Rightarrow> ('k, 'v) hash_map option" where
  "rehash_loop E m it =
     (case it of None \<Rightarrow> Some m
      | Some n \<Rightarrow>
          let bucket = bucket_of E m (fst (hm_node m n)); (f, l) = hm_buckets m ! bucket in
          if l = hm_end then
            rehash_loop E (m\<lparr>hm_buckets := (hm_buckets m)[bucket := (Some n, Some n)]\<rparr>) (next_in (hm_values m) n)
          else
            let l = next_in (hm_values m) (the l) in
            if l = Some n then
              rehash_loop E (m\<lparr>hm_buckets := (hm_buckets m)[bucket := (f, l)]\<rparr>) (next_in (hm_values m) n)
            else
              let after = next_in (hm_values m) n;
                  m = m\<lparr>hm_values := splice_in (hm_values m) l n\<rparr>
              in rehash_loop E
                   (m\<lparr>hm_buckets := (hm_buckets m)[bucket := (f, prev_in (hm_values m) l)]\<rparr>) after)"

definition rehash :: "('k, 'v) elem_ops \<Rightarrow> ('k, 'v) hash_map \<Rightarrow> nat \<Rightarrow> ('k, 'v) hash_map option" where
  "rehash E m num_buckets =
     (if num_buckets = hm_num_buckets m then Some m
      else let m = m\<lparr>hm_num_buckets := num_buckets, hm_buckets := replicate num_buckets (None, None)\<rparr>
           in rehash_loop E m (hm_begin m))"

text \<open>The node that holds the new entry, and the map.\<close>

definition values_insert ::
  "('k, 'v) elem_ops \<Rightarrow> ('k, 'v) hash_map \<Rightarrow> nat option \<Rightarrow> 'k \<times> 'v \<Rightarrow> nat option \<times> ('k, 'v) hash_map" where
  "values_insert E m it kv =
     (case hm_spares m of
        [] \<Rightarrow>
          let n = hm_fresh m
          in (Some n, m\<lparr>hm_fresh := n + 1, hm_node := (hm_node m)(n := (fst kv, val_copy E (snd kv))),
                hm_values := insert_before (hm_values m) it n\<rparr>)
      | n # spares \<Rightarrow>
          let m = m\<lparr>hm_node := (hm_node m)(n := (fst kv, val_assign E (snd (hm_node m n)) (snd kv))),
                hm_values := insert_before (hm_values m) it n, hm_spares := spares\<rparr>
          in (prev_in (hm_values m) it, m))"

definition values_erase :: "('k, 'v) elem_ops \<Rightarrow> ('k, 'v) hash_map \<Rightarrow> nat \<Rightarrow> ('k, 'v) hash_map" where
  "values_erase E m n =
     m\<lparr>hm_node := (hm_node m)(n := (key_default E, val_assign E (snd (hm_node m n)) (val_new E))),
       hm_values := remove1 n (hm_values m), hm_spares := n # hm_spares m\<rparr>"

definition hm_insert ::
  "('k, 'v) elem_ops \<Rightarrow> ('k, 'v) hash_map \<Rightarrow> 'k \<times> 'v \<Rightarrow> (nat option \<times> bool \<times> ('k, 'v) hash_map) option" where
  "hm_insert E m kv =
     Option.bind (if hm_size m + 1 \<ge> hm_num_buckets m then rehash E m (hash_size (hm_size m + 1)) else Some m) (\<lambda>m.
       let bucket = bucket_of E m (fst kv); (f, l) = hm_buckets m ! bucket in
       if f = hm_end then
         let (n, m) = values_insert E m hm_end kv;
             m = m\<lparr>hm_buckets := (hm_buckets m)[bucket := (n, n)], hm_size := hm_size m + 1\<rparr>
         in Some (n, True, m)
       else
         let end_it = next_in (hm_values m) (the l) in
         Option.bind (walk m (fst kv) f end_it) (\<lambda>found. case found of
           Some n \<Rightarrow> Some (Some n, False, m)
         | None \<Rightarrow>
             let (n, m) = values_insert E m end_it kv;
                 m = m\<lparr>hm_buckets := (hm_buckets m)[bucket := (f, n)], hm_size := hm_size m + 1\<rparr>
             in Some (n, True, m)))"

definition hm_erase :: "('k, 'v) elem_ops \<Rightarrow> ('k, 'v) hash_map \<Rightarrow> nat \<Rightarrow> ('k, 'v) hash_map" where
  "hm_erase E m n =
     (let bucket = bucket_of E m (fst (hm_node m n)); (f, l) = hm_buckets m ! bucket;
          is_first = (Some n = f); is_last = (Some n = l);
          m = m\<lparr>hm_buckets := (hm_buckets m)[bucket :=
            (if is_first \<and> is_last then (hm_end, hm_end)
             else if is_first then (next_in (hm_values m) n, l)
             else if is_last then (f, prev_in (hm_values m) (Some n))
             else (f, l))]\<rparr>;
          m = values_erase E m n
      in m\<lparr>hm_size := hm_size m - 1\<rparr>)"

definition hm_erase_key :: "('k, 'v) elem_ops \<Rightarrow> ('k, 'v) hash_map \<Rightarrow> 'k \<Rightarrow> ('k, 'v) hash_map option" where
  "hm_erase_key E m k =
     map_option (\<lambda>it. case it of None \<Rightarrow> m | Some n \<Rightarrow> hm_erase E m n) (hm_find E m k)"

definition hm_clear :: "('k, 'v) hash_map \<Rightarrow> ('k, 'v) hash_map" where
  "hm_clear m = m\<lparr>hm_values := [], hm_size := 0, hm_buckets := replicate (hm_num_buckets m) (hm_end, hm_end)\<rparr>"

end
