(* ===== verification/AsioHashProps.thy ===== *)
theory AsioHashProps
  imports AsioHashMap "HOL-Library.Multiset"
begin

text \<open>
  The hash map implements a finite map. \<open>hm_inv\<close> is its invariant: the entries of a bucket are
  neighbours in the list of all entries (\<open>grouped\<close>), and the bucket's iterators point to the first and
  the last of them. \<open>hm_map\<close> is the map it stands for.
\<close>

section \<open>Positions in a list\<close>

lemma first_of_simps [simp]: "first_of [] = None" "first_of (x # xs) = Some x"
  "first_of xs = None \<longleftrightarrow> xs = []"
  by (auto simp: first_of_def split: list.splits)

lemma first_of_append: "first_of (xs @ ys) = (if xs = [] then first_of ys else first_of xs)"
  by (cases xs) auto

lemma first_of_SomeD: "first_of xs = Some x \<Longrightarrow> \<exists>ys. xs = x # ys"
  by (cases xs) auto

lemma next_in_append [simp]: "n \<notin> set xs \<Longrightarrow> next_in (xs @ n # ys) n = first_of ys"
  by (induction xs) auto

lemma prev_in_append [simp]: "distinct (xs @ x # ys) \<Longrightarrow> prev_in (xs @ x # ys) (first_of ys) = Some x"
proof (induction xs)
  case (Cons a xs)
  have "first_of (xs @ x # ys) \<noteq> first_of ys"
    using Cons.prems by (cases xs; cases ys) auto
  then show ?case using Cons by simp
qed simp

lemma insert_before_append [simp]:
  "set xs \<inter> set ys = {} \<Longrightarrow> insert_before (xs @ ys) (first_of ys) n = xs @ n # ys"
proof (induction xs)
  case Nil
  then show ?case by (cases ys) auto
next
  case (Cons a xs)
  then have "first_of ys \<noteq> Some a" by (auto dest: first_of_SomeD)
  then show ?case using Cons by simp
qed

lemma insert_before_None [simp]: "insert_before xs None n = xs @ [n]"
  by (induction xs) auto

lemma set_insert_before [simp]: "set (insert_before xs it n) = insert n (set xs)"
  by (induction xs) auto

text \<open>The loop over the entries of one bucket.\<close>

lemma walk_segment:
  assumes "hm_values m = xs @ zs @ ys" and "distinct (hm_values m)"
  shows "walk m k (first_of (zs @ ys)) (first_of ys) = Some (find (\<lambda>n. fst (hm_node m n) = k) zs)"
  using assms(1)
proof (induction zs arbitrary: xs)
  case Nil
  then show ?case by (subst walk.simps) simp
next
  case (Cons z zs)
  have ne: "Some z \<noteq> first_of ys" using Cons.prems assms(2) by (cases ys) auto
  have nx: "next_in (hm_values m) z = first_of (zs @ ys)"
    using Cons.prems assms(2) by auto
  have "walk m k (first_of (zs @ ys)) (first_of ys) = Some (find (\<lambda>n. fst (hm_node m n) = k) zs)"
    using Cons.IH [of "xs @ [z]"] Cons.prems by simp
  with ne nx show ?case by (subst walk.simps) simp
qed

section \<open>Grouped lists\<close>

text \<open>Equal elements are neighbours.\<close>

fun grouped :: "'a list \<Rightarrow> bool" where
  "grouped [] = True"
| "grouped (x # xs) \<longleftrightarrow> grouped xs \<and> (x \<in> set xs \<longrightarrow> first_of xs = Some x)"

lemma grouped_append:
  "grouped (xs @ ys) \<longleftrightarrow> grouped xs \<and> grouped ys \<and>
     (\<forall>x \<in> set xs \<inter> set ys. last xs = x \<and> first_of ys = Some x)"
proof (induction xs)
  case (Cons a xs)
  show ?case
  proof (cases "xs = []")
    case False
    then have f: "first_of (xs @ ys) = first_of xs" by (cases xs) auto
    have "first_of xs = Some a \<Longrightarrow> a \<in> set xs" by (cases xs) auto
    with Cons.IH f False show ?thesis by auto
  qed (auto simp: first_of_append)
qed simp

lemma grouped_block:
  assumes "grouped (map f xs)"
  obtains us vs where "xs = us @ filter (\<lambda>x. f x = b) xs @ vs" "b \<notin> f ` set us" "b \<notin> f ` set vs"
proof -
  have "\<exists>us vs. xs = us @ filter (\<lambda>x. f x = b) xs @ vs \<and> b \<notin> f ` set us \<and> b \<notin> f ` set vs"
    using assms
  proof (induction xs)
    case (Cons x xs)
    from Cons obtain us vs where IH: "xs = us @ filter (\<lambda>x. f x = b) xs @ vs" "b \<notin> f ` set us" "b \<notin> f ` set vs"
      by auto
    show ?case
    proof (cases "f x = b")
      case False
      then show ?thesis using IH by (intro exI [of _ "x # us"] exI [of _ vs]) auto
    next
      case eq: True
      show ?thesis
      proof (cases "filter (\<lambda>x. f x = b) xs = []")
        case True
        then show ?thesis using eq by (intro exI [of _ "[]"] exI [of _ xs]) (auto simp: filter_empty_conv)
      next
        case False
        then have "b \<in> set (map f xs)" by (auto simp: filter_empty_conv)
        then have "first_of (map f xs) = Some b" using Cons.prems eq by simp
        then have "us = []" using IH(1,2) by (cases us) (auto simp: first_of_def split: list.splits)
        then show ?thesis using eq IH by (intro exI [of _ "[]"] exI [of _ vs]) auto
      qed
    qed
  qed simp
  then show thesis using that by blast
qed

lemma grouped_remove: "grouped (xs @ x # ys) \<Longrightarrow> grouped (xs @ ys)"
  by (auto simp: grouped_append)

lemma grouped_insert:
  assumes "grouped (xs @ bs @ ys)" and "bs \<noteq> []" and "set bs = {b}" and "b \<notin> set ys"
  shows "grouped (xs @ bs @ b # ys)"
proof -
  have l: "last bs = b" "b \<in> set bs" using last_in_set [OF assms(2)] assms(3) by simp_all
  have f: "first_of (bs @ zs) = Some b" for zs using assms(2,3) by (cases bs) auto
  note g = assms(1) [unfolded grouped_append]
  have "grouped (b # ys)" using g assms(4) by simp
  moreover have "set (bs @ b # ys) = set (bs @ ys)" using l(2) by auto
  ultimately show ?thesis
    using g assms(3) l f unfolding grouped_append by simp
qed

section \<open>The invariant and the map\<close>

definition key_at :: "('k, 'v) hash_map \<Rightarrow> nat \<Rightarrow> 'k" where
  "key_at m n = fst (hm_node m n)"

definition bk :: "('k, 'v) elem_ops \<Rightarrow> ('k, 'v) hash_map \<Rightarrow> nat \<Rightarrow> nat" where
  "bk E m n = bucket_of E m (key_at m n)"

definition ends :: "nat list \<Rightarrow> nat option \<times> nat option" where
  "ends xs = (first_of xs, if xs = [] then None else Some (last xs))"

text \<open>The buckets describe the entries \<open>ns\<close>, which are grouped by bucket.\<close>

definition part_inv :: "('k, 'v) elem_ops \<Rightarrow> ('k, 'v) hash_map \<Rightarrow> nat list \<Rightarrow> bool" where
  "part_inv E m ns \<longleftrightarrow> length (hm_buckets m) = hm_num_buckets m \<and> grouped (map (bk E m) ns) \<and>
     (\<forall>b < hm_num_buckets m. hm_buckets m ! b = ends (filter (\<lambda>n. bk E m n = b) ns))"

definition nodes_inv :: "('k, 'v) hash_map \<Rightarrow> bool" where
  "nodes_inv m \<longleftrightarrow> distinct (hm_values m @ hm_spares m) \<and> distinct (map (key_at m) (hm_values m)) \<and>
     (\<forall>n \<in> set (hm_values m @ hm_spares m). n < hm_fresh m)"

definition hm_inv :: "('k, 'v) elem_ops \<Rightarrow> ('k, 'v) hash_map \<Rightarrow> bool" where
  "hm_inv E m \<longleftrightarrow> nodes_inv m \<and> part_inv E m (hm_values m) \<and> hm_size m = length (hm_values m) \<and>
     (hm_num_buckets m = 0 \<longrightarrow> hm_values m = [])"

definition hm_map :: "('k, 'v) hash_map \<Rightarrow> 'k \<rightharpoonup> 'v" where
  "hm_map m = map_of (map (hm_node m) (hm_values m))"

definition entry_of :: "('k, 'v) hash_map \<Rightarrow> 'k \<Rightarrow> nat option" where
  "entry_of m k = find (\<lambda>n. key_at m n = k) (hm_values m)"

lemma ends_simps [simp]: "fst (ends xs) = first_of xs" "xs \<noteq> [] \<Longrightarrow> snd (ends xs) = Some (last xs)"
  "ends [] = (None, None)" "snd (ends xs) = None \<longleftrightarrow> xs = []"
  by (simp_all add: ends_def)

lemma bk_less: "0 < hm_num_buckets m \<Longrightarrow> bk E m n < hm_num_buckets m"
  by (simp add: bk_def bucket_of_def)

lemma hm_map_entry: "hm_map m k = map_option (\<lambda>n. snd (hm_node m n)) (entry_of m k)"
proof -
  have "map_of (map (hm_node m) ns) k = map_option (\<lambda>n. snd (hm_node m n)) (find (\<lambda>n. key_at m n = k) ns)" for ns
    by (induction ns) (auto simp: key_at_def split: prod.split)
  then show ?thesis by (simp add: hm_map_def entry_of_def)
qed

lemma find_middle:
  "(\<And>x. x \<in> set us \<union> set ws \<Longrightarrow> \<not> P x) \<Longrightarrow> find P (us @ zs @ ws) = find P zs"
proof -
  assume no: "\<And>x. x \<in> set us \<union> set ws \<Longrightarrow> \<not> P x"
  have "find P (us @ ys) = find P ys" for ys using no by (induction us) auto
  moreover have "find P (zs @ ws) = find P zs" using no by (induction zs) (auto simp: find_None_iff)
  ultimately show ?thesis by simp
qed

lemma entry_of_unique:
  "distinct (map (key_at m) (hm_values m)) \<Longrightarrow> n \<in> set (hm_values m) \<Longrightarrow> entry_of m (key_at m n) = Some n"
proof -
  assume d: "distinct (map (key_at m) (hm_values m))" and n: "n \<in> set (hm_values m)"
  have "find (\<lambda>x. key_at m x = key_at m n) (hm_values m) \<noteq> None" using n by (auto simp: find_None_iff)
  then obtain x where x: "find (\<lambda>x. key_at m x = key_at m n) (hm_values m) = Some x" by blast
  then have "x \<in> set (hm_values m)" "key_at m x = key_at m n" by (auto simp: find_Some_iff)
  with d n have "x = n" by (auto simp: distinct_map dest: inj_onD)
  with x show ?thesis by (simp add: entry_of_def)
qed

text \<open>The entries of a bucket in the list.\<close>

lemma bucket_block:
  assumes "part_inv E m ns" and "b < hm_num_buckets m"
  obtains us zs ws where "ns = us @ zs @ ws" "\<forall>x \<in> set zs. bk E m x = b"
    "b \<notin> bk E m ` set us" "b \<notin> bk E m ` set ws" "hm_buckets m ! b = ends zs"
proof -
  have g: "grouped (map (bk E m) ns)" and e: "hm_buckets m ! b = ends (filter (\<lambda>n. bk E m n = b) ns)"
    using assms by (auto simp: part_inv_def)
  from grouped_block [OF g, of b] obtain us ws where
    "ns = us @ filter (\<lambda>n. bk E m n = b) ns @ ws" "b \<notin> bk E m ` set us" "b \<notin> bk E m ` set ws" by metis
  from that [OF this(1) _ this(2,3) e] show thesis by simp
qed

lemma next_of_block:
  assumes "ns @ rest = us @ zs @ ws" and "zs \<noteq> []" and "distinct (ns @ rest)"
  shows "next_in (ns @ rest) (last zs) = first_of ws"
proof -
  have "us @ zs @ ws = (us @ butlast zs) @ last zs # ws" using assms(2) by simp
  moreover have "last zs \<notin> set (us @ butlast zs)"
    using assms by (metis calculation distinct_append not_distinct_conv_prefix append.assoc append_Cons)
  ultimately show ?thesis using assms(1) by (metis next_in_append)
qed

lemma find_entry:
  assumes "hm_inv E m"
  shows "hm_find E m k = Some (entry_of m k)"
proof (cases "hm_num_buckets m = 0")
  case True
  then show ?thesis using assms by (simp add: hm_find_def hm_inv_def entry_of_def hm_end_def)
next
  case False
  define b where "b = bucket_of E m k"
  have b: "b < hm_num_buckets m" using False by (simp add: b_def bucket_of_def)
  have part: "part_inv E m (hm_values m)" and dist: "distinct (hm_values m)"
    using assms by (auto simp: hm_inv_def nodes_inv_def)
  obtain us zs vs where ns: "hm_values m = us @ zs @ vs" "b \<notin> bk E m ` set us" "b \<notin> bk E m ` set vs"
    "hm_buckets m ! b = ends zs"
    using bucket_block [OF part b] by metis
  have "find (\<lambda>n. key_at m n = k) (us @ zs @ vs) = find (\<lambda>n. key_at m n = k) zs"
    by (rule find_middle) (use ns(2,3) in \<open>auto simp: bk_def b_def\<close>)
  then have "entry_of m k = find (\<lambda>n. key_at m n = k) zs" by (simp add: entry_of_def ns(1))
  moreover have "walk m k (first_of (zs @ vs)) (first_of vs) = Some (find (\<lambda>n. key_at m n = k) zs)"
    using walk_segment [OF ns(1) dist] by (simp add: key_at_def)
  moreover have "next_in (hm_values m) (last zs) = first_of vs" if "zs \<noteq> []"
    using next_of_block [of "hm_values m" "[]" us zs vs] ns(1) that dist by simp
  ultimately show ?thesis
    using False ns(4) by (cases "zs = []") (auto simp: hm_find_def hm_end_def first_of_append b_def)
qed

section \<open>Adding and removing an entry of a bucket\<close>

lemma part_inv_cong:
  assumes "hm_buckets m' = hm_buckets m" and "hm_num_buckets m' = hm_num_buckets m"
    and "\<And>n. n \<in> set ns \<Longrightarrow> key_at m' n = key_at m n"
  shows "part_inv E m' ns \<longleftrightarrow> part_inv E m ns"
proof -
  have bk: "bk E m' n = bk E m n" if "n \<in> set ns" for n
    using assms(2) assms(3) [OF that] by (simp add: bk_def bucket_of_def)
  then have "filter (\<lambda>n. bk E m' n = b) ns = filter (\<lambda>n. bk E m n = b) ns" for b
    by (auto intro: filter_cong)
  moreover have "map (bk E m') ns = map (bk E m) ns" using bk by auto
  ultimately show ?thesis unfolding part_inv_def assms(1,2) by (simp only:)
qed

lemma bk_update [simp]:
  "bk E (m\<lparr>hm_buckets := x\<rparr>) = bk E m" "bk E (m\<lparr>hm_values := y\<rparr>) = bk E m" "bk E (m\<lparr>hm_size := z\<rparr>) = bk E m"
  by (auto simp: bk_def bucket_of_def key_at_def fun_eq_iff)

lemma key_at_update [simp]:
  "key_at (m\<lparr>hm_buckets := x\<rparr>) = key_at m" "key_at (m\<lparr>hm_values := y\<rparr>) = key_at m"
  "key_at (m\<lparr>hm_size := z\<rparr>) = key_at m" "key_at (m\<lparr>hm_num_buckets := k\<rparr>) = key_at m"
  by (auto simp: key_at_def fun_eq_iff)

lemma part_inv_values [simp]:
  "part_inv E (m\<lparr>hm_values := vs, hm_buckets := bs\<rparr>) ns \<longleftrightarrow> part_inv E (m\<lparr>hm_buckets := bs\<rparr>) ns"
  "part_inv E (m\<lparr>hm_values := vs\<rparr>) ns \<longleftrightarrow> part_inv E m ns"
  by (rule part_inv_cong; simp)+

lemma part_inv_add:
  assumes "part_inv E m (us @ zs @ ws)" and b: "\<forall>x \<in> set zs. bk E m x = b" "b \<notin> bk E m ` set us" "b \<notin> bk E m ` set ws"
    and "bk E m n = b" and "b < hm_num_buckets m" and "zs = [] \<Longrightarrow> ws = []"
  shows "part_inv E (m\<lparr>hm_buckets := (hm_buckets m)[b := ends (zs @ [n])]\<rparr>) (us @ zs @ n # ws)"
proof -
  have g: "grouped (map (bk E m) us @ map (bk E m) zs @ map (bk E m) ws)"
    using assms(1) by (simp add: part_inv_def)
  have "grouped (map (bk E m) us @ map (bk E m) zs @ b # map (bk E m) ws)"
  proof (cases "zs = []")
    case True
    then show ?thesis using g assms(2-3,7) by (auto simp: grouped_append)
  next
    case False
    then have "set (map (bk E m) zs) = {b}" using b(1) by (cases zs) auto
    with False show ?thesis using grouped_insert [OF g, of b] b(3) by simp
  qed
  moreover have "filter (\<lambda>x. bk E m x = b) zs = zs" "filter (\<lambda>x. bk E m x = b) us = []"
    "filter (\<lambda>x. bk E m x = b) ws = []"
    using b by (auto simp: filter_id_conv filter_empty_conv)
  ultimately show ?thesis
    using assms(1,5,6) by (auto simp: part_inv_def nth_list_update)
qed

section \<open>Rehashing\<close>

text \<open>One round of the loop: \<open>ns\<close> are the entries that have been put into the new buckets.\<close>

lemma rehash_step:
  assumes nodes: "distinct (hm_values m)" and vs: "hm_values m = ns @ n # rest"
    and part: "part_inv E m ns" and pos: "0 < hm_num_buckets m"
  shows "\<exists>ns' bs. rehash_loop E m (Some n) =
      rehash_loop E (m\<lparr>hm_values := ns' @ rest, hm_buckets := bs\<rparr>) (first_of rest) \<and>
    mset ns' = add_mset n (mset ns) \<and> part_inv E (m\<lparr>hm_values := ns' @ rest, hm_buckets := bs\<rparr>) ns'"
proof -
  define b where "b = bk E m n"
  have b: "b < hm_num_buckets m" using bk_less [OF pos] by (simp add: b_def)
  obtain us zs ws where ns: "ns = us @ zs @ ws" and zs: "\<forall>x \<in> set zs. bk E m x = b"
    and out: "b \<notin> bk E m ` set us" "b \<notin> bk E m ` set ws" and bu: "hm_buckets m ! b = ends zs"
    using bucket_block [OF part b] by metis
  have bb: "bucket_of E m (fst (hm_node m n)) = b" by (simp add: b_def bk_def key_at_def)
  have after: "next_in (hm_values m) n = first_of rest" using vs nodes by auto
  have part': "part_inv E m (us @ zs @ ws)" using part ns by simp
  note add = part_inv_add [OF part' zs out b_def [symmetric] b]
  show ?thesis
  proof (cases "zs = []")
    case True
    have "b \<notin> bk E m ` set ns" using out True ns by auto
    then have p: "part_inv E (m\<lparr>hm_buckets := (hm_buckets m)[b := (Some n, Some n)]\<rparr>) (ns @ [n])"
      using part_inv_add [of E m ns "[]" "[]" b n] part b b_def [symmetric] by (simp add: ends_def)
    have "rehash_loop E m (Some n)
        = rehash_loop E (m\<lparr>hm_buckets := (hm_buckets m)[b := (Some n, Some n)]\<rparr>) (first_of rest)"
      using True bu bb after by (subst rehash_loop.simps) (simp add: hm_end_def Let_def)
    moreover have e: "m\<lparr>hm_values := (ns @ [n]) @ rest, hm_buckets := bs\<rparr> = m\<lparr>hm_buckets := bs\<rparr>" for bs
      using vs by (cases m) simp
    ultimately show ?thesis using p
      by (intro exI [of _ "ns @ [n]"] exI [of _ "(hm_buckets m)[b := (Some n, Some n)]"]) (simp add: e [simplified])
  next
    case False
    have nx: "next_in (hm_values m) (last zs) = first_of (ws @ n # rest)"
      using next_of_block [of ns "n # rest" us zs "ws @ n # rest"] False nodes vs ns by simp
    have bu': "hm_buckets m ! b = (first_of zs, Some (last zs))" using bu False by (simp add: ends_def)
    let ?bs = "(hm_buckets m)[b := (first_of zs, Some n)]"
    have p: "part_inv E (m\<lparr>hm_buckets := ?bs\<rparr>) (us @ zs @ n # ws)"
      using add False by (simp add: ends_def first_of_append)
    let ?m = "m\<lparr>hm_values := (us @ zs @ n # ws) @ rest, hm_buckets := ?bs\<rparr>"
    have "rehash_loop E m (Some n) = rehash_loop E ?m (first_of rest)"
    proof (cases ws)
      case Nil
      then have "?m = m\<lparr>hm_buckets := ?bs\<rparr>" using vs ns by (cases m) simp
      moreover have "next_in (hm_values m) (last zs) = Some n" using nx Nil by simp
      ultimately show ?thesis using bu' bb after
        by (subst rehash_loop.simps) (simp add: hm_end_def Let_def)
    next
      case (Cons w ws')
      have dist: "distinct ((us @ zs @ ws) @ n # rest)" using nodes vs ns by simp
      then have ne: "w \<noteq> n" using Cons by auto
      have r: "remove1 n (hm_values m) = (us @ zs) @ ws @ rest"
        using vs ns dist by (simp add: remove1_append)
      have "splice_in (hm_values m) (Some w) n = insert_before ((us @ zs) @ ws @ rest) (first_of (ws @ rest)) n"
        using ne r by (simp add: splice_in_def Cons)
      also have "\<dots> = (us @ zs) @ n # ws @ rest"
        by (rule insert_before_append) (use dist in auto)
      finally have sp: "splice_in (hm_values m) (Some w) n = us @ zs @ n # ws @ rest" by simp
      have pr: "prev_in (us @ zs @ n # ws @ rest) (Some w) = Some n"
        using prev_in_append [of "us @ zs" n "ws @ rest"] dist Cons by simp
      have "next_in (hm_values m) (last zs) = Some w" using nx Cons by simp
      then show ?thesis using bu' bb after ne sp pr
        by (subst rehash_loop.simps) (simp add: hm_end_def Let_def)
    qed
    with p show ?thesis
      by (intro exI [of _ "us @ zs @ n # ws"] exI [of _ ?bs])
        (simp add: ns)
  qed
qed

lemma rehash_loop_correct:
  assumes "distinct (hm_values m)" and "hm_values m = ns @ rest" and "part_inv E m ns" and "0 < hm_num_buckets m"
  shows "\<exists>vs bs. rehash_loop E m (first_of rest) = Some (m\<lparr>hm_values := vs, hm_buckets := bs\<rparr>) \<and>
    mset vs = mset (hm_values m) \<and> part_inv E (m\<lparr>hm_values := vs, hm_buckets := bs\<rparr>) vs"
  using assms
proof (induction rest arbitrary: m ns)
  case Nil
  have "m = m\<lparr>hm_values := ns, hm_buckets := hm_buckets m\<rparr>" using Nil.prems(2) by (cases m) simp
  with Nil.prems show ?case by (intro exI [of _ ns] exI [of _ "hm_buckets m"]) (simp add: rehash_loop.simps)
next
  case (Cons n rest)
  from rehash_step [OF Cons.prems] obtain ns' bs where
    st: "rehash_loop E m (Some n) = rehash_loop E (m\<lparr>hm_values := ns' @ rest, hm_buckets := bs\<rparr>) (first_of rest)"
      "mset ns' = add_mset n (mset ns)" "part_inv E (m\<lparr>hm_values := ns' @ rest, hm_buckets := bs\<rparr>) ns'"
    by (elim exE conjE) (rule that)
  let ?m = "m\<lparr>hm_values := ns' @ rest, hm_buckets := bs\<rparr>"
  have eq: "mset (ns' @ rest) = mset (hm_values m)" using st(2) Cons.prems(2) by simp
  have "distinct (hm_values ?m)" using mset_eq_imp_distinct_iff [OF eq] Cons.prems(1) by simp
  from Cons.IH [OF this _ st(3)] Cons.prems(4) obtain vs bs' where
    "rehash_loop E ?m (first_of rest) = Some (m\<lparr>hm_values := vs, hm_buckets := bs'\<rparr>)"
    "mset vs = mset (ns' @ rest)" "part_inv E (m\<lparr>hm_values := vs, hm_buckets := bs'\<rparr>) vs" by auto
  then show ?case using st(1) eq by (intro exI [of _ vs] exI [of _ bs']) simp
qed

lemma hash_size_pos: "0 < hash_size n"
  by (auto simp: hash_size_def hash_sizes_def find_Some_iff split: option.splits)

text \<open>The map only depends on the entries, not on their order.\<close>

definition same_entries :: "('k, 'v) hash_map \<Rightarrow> ('k, 'v) hash_map \<Rightarrow> bool" where
  "same_entries m m' \<longleftrightarrow> mset (hm_values m') = mset (hm_values m) \<and> hm_node m' = hm_node m \<and>
     hm_spares m' = hm_spares m \<and> hm_fresh m' = hm_fresh m \<and> hm_size m' = hm_size m"

lemma hm_map_eqI:
  assumes "distinct (map fst xs)" and "distinct (map (key_at m) (hm_values m))"
    and "set (map (hm_node m) (hm_values m)) = set xs"
  shows "hm_map m = map_of xs"
proof -
  have "fst \<circ> hm_node m = key_at m" by (simp add: key_at_def fun_eq_iff)
  then show ?thesis using assms map_of_inject_set [of "map (hm_node m) (hm_values m)" xs] by (simp add: hm_map_def)
qed

lemma same_entriesD:
  assumes "same_entries m m'" and "nodes_inv m"
  shows "nodes_inv m'" and "hm_map m' = hm_map m" and "set (hm_values m') = set (hm_values m)"
proof -
  have eq: "mset (hm_values m') = mset (hm_values m)" using assms(1) by (simp add: same_entries_def)
  show s: "set (hm_values m') = set (hm_values m)" using eq by (rule mset_eq_setD)
  have k: "key_at m' = key_at m" using assms(1) by (auto simp: same_entries_def key_at_def fun_eq_iff)
  have "mset (map (key_at m) (hm_values m')) = mset (map (key_at m) (hm_values m))" using eq by simp
  then have d: "distinct (map (key_at m) (hm_values m'))"
    using mset_eq_imp_distinct_iff assms(2) unfolding nodes_inv_def by blast
  then show "nodes_inv m'"
    using assms s k mset_eq_imp_distinct_iff [OF eq] by (auto simp: nodes_inv_def same_entries_def)
  have "distinct (map fst (map (hm_node m) (hm_values m)))"
    using assms(2) by (simp add: nodes_inv_def key_at_def [abs_def] comp_def)
  then show "hm_map m' = hm_map m"
    using hm_map_eqI [of "map (hm_node m) (hm_values m)" m'] d k s assms(1)
    by (simp add: hm_map_def same_entries_def)
qed

lemma rehash_correct:
  assumes "hm_inv E m" and "0 < k"
  shows "\<exists>m'. rehash E m k = Some m' \<and> hm_inv E m' \<and> hm_num_buckets m' = k \<and> same_entries m m'"
proof (cases "k = hm_num_buckets m")
  case True
  then show ?thesis using assms by (simp add: rehash_def same_entries_def)
next
  case False
  let ?m = "m\<lparr>hm_num_buckets := k, hm_buckets := replicate k (None, None)\<rparr>"
  have "part_inv E ?m []" by (simp add: part_inv_def)
  moreover have "distinct (hm_values ?m)" using assms(1) by (simp add: hm_inv_def nodes_inv_def)
  ultimately obtain vs bs where
    r: "rehash_loop E ?m (first_of (hm_values m)) = Some (?m\<lparr>hm_values := vs, hm_buckets := bs\<rparr>)"
      "mset vs = mset (hm_values m)" "part_inv E (?m\<lparr>hm_values := vs, hm_buckets := bs\<rparr>) vs"
    using rehash_loop_correct [of ?m "[]" "hm_values m" E] assms(2) by auto
  let ?m' = "?m\<lparr>hm_values := vs, hm_buckets := bs\<rparr>"
  have same: "same_entries m ?m'" using r(2) by (simp add: same_entries_def)
  have "length vs = length (hm_values m)" using r(2) by (rule mset_eq_length)
  then have "hm_inv E ?m'"
    using assms r(3) same_entriesD(1) [OF same] by (simp add: hm_inv_def)
  then show ?thesis using False r(1) same by (intro exI [of _ ?m']) (simp add: rehash_def hm_begin_def)
qed

end
