(* ===== verification/AsioHashOps.thy ===== *)
theory AsioHashOps
  imports AsioHashProps
begin

text \<open>
  The operations of the hash map on the finite map it implements: insertion, erasure and clearing,
  as an instance of the interface \<open>finite_map\<close> that the reactor's queues use.
\<close>

section \<open>Insertion\<close>

text \<open>What a new entry's value becomes: a copy, or the assignment to the value left in a spare node.\<close>

definition inserted_value :: "('k, 'v) elem_ops \<Rightarrow> ('k, 'v) hash_map \<Rightarrow> 'v \<Rightarrow> 'v" where
  "inserted_value E m v =
     (case hm_spares m of [] \<Rightarrow> val_copy E v | n # _ \<Rightarrow> val_assign E (snd (hm_node m n)) v)"

lemma values_insert_at:
  assumes "nodes_inv m" and "hm_values m = us @ ws"
  shows "\<exists>n m'. values_insert E m (first_of ws) (k, v) = (Some n, m') \<and> hm_values m' = us @ n # ws \<and>
    hm_node m' = (hm_node m)(n := (k, inserted_value E m v)) \<and> n \<notin> set (hm_values m) \<and>
    distinct (hm_values m' @ hm_spares m') \<and> (\<forall>x \<in> set (hm_values m' @ hm_spares m'). x < hm_fresh m') \<and>
    hm_spares m' = tl (hm_spares m) \<and> hm_buckets m' = hm_buckets m \<and> hm_num_buckets m' = hm_num_buckets m \<and>
    hm_size m' = hm_size m"
proof -
  have dist: "set us \<inter> set ws = {}" using assms by (auto simp: nodes_inv_def)
  then have ins: "insert_before (us @ ws) (first_of ws) n = us @ n # ws" for n
    by (rule insert_before_append)
  show ?thesis
  proof (cases "hm_spares m")
    case Nil
    have "hm_fresh m \<notin> set (hm_values m)" using assms(1) by (auto simp: nodes_inv_def)
    then show ?thesis using Nil assms ins
      by (auto simp: values_insert_def inserted_value_def nodes_inv_def Let_def intro: less_SucI)
  next
    case (Cons n ss)
    then have "distinct (us @ n # ws)" using assms by (auto simp: nodes_inv_def)
    then have "prev_in (us @ n # ws) (first_of ws) = Some n" by (rule prev_in_append)
    then show ?thesis using Cons assms ins
      by (auto simp: values_insert_def inserted_value_def nodes_inv_def Let_def)
  qed
qed

text \<open>A new entry \<open>n\<close> behind the entries \<open>zs\<close> of its bucket.\<close>

lemma entry_added:
  assumes inv: "hm_inv E m" and pos: "0 < hm_num_buckets m" and new: "k \<notin> key_at m ` set (hm_values m)"
    and b: "b = bucket_of E m k" and vs: "hm_values m = us @ zs @ ws" and zs: "\<forall>x \<in> set zs. bk E m x = b"
    and out: "b \<notin> bk E m ` set us" "b \<notin> bk E m ` set ws" and last: "zs = [] \<Longrightarrow> ws = []"
    and ins: "values_insert E m (first_of ws) (k, v) = (it, m1)"
    and m': "m' = m1\<lparr>hm_buckets := (hm_buckets m1)[b := (if zs = [] then it else first_of zs, it)],
      hm_size := hm_size m + 1\<rparr>"
  shows "\<exists>n. it = Some n \<and> hm_inv E m' \<and> hm_map m' = (hm_map m)(k \<mapsto> inserted_value E m v) \<and>
    n \<notin> set (hm_values m) \<and> hm_values m' = us @ zs @ n # ws \<and>
    hm_node m' = (hm_node m)(n := (k, inserted_value E m v)) \<and> hm_spares m' = tl (hm_spares m) \<and>
    hm_num_buckets m' = hm_num_buckets m"
proof -
  have nodes: "nodes_inv m" and part: "part_inv E m (us @ zs @ ws)" and sz: "hm_size m = length (hm_values m)"
    using inv vs by (auto simp: hm_inv_def)
  obtain n where n: "it = Some n" "hm_values m1 = us @ zs @ n # ws"
    "hm_node m1 = (hm_node m)(n := (k, inserted_value E m v))" "n \<notin> set (hm_values m)"
    "distinct (hm_values m1 @ hm_spares m1)" "\<forall>x \<in> set (hm_values m1 @ hm_spares m1). x < hm_fresh m1"
    "hm_spares m1 = tl (hm_spares m)" "hm_buckets m1 = hm_buckets m" "hm_num_buckets m1 = hm_num_buckets m"
    "hm_size m1 = hm_size m"
    using values_insert_at [OF nodes, of "us @ zs" ws E k v]
    unfolding ins append_assoc prod.inject vs by (elim exE conjE meta_impE [OF _ refl]) (rule that; simp add: vs)
  have key: "key_at m1 x = (if x = n then k else key_at m x)" for x by (simp add: key_at_def n(3))
  have bk1: "bk E m1 x = (if x = n then b else bk E m x)" for x
    using n(9) by (simp add: bk_def bucket_of_def key b)
  have ne: "n \<notin> set us" "n \<notin> set zs" "n \<notin> set ws" using n(4) vs by auto
  have "part_inv E m1 (us @ zs @ ws)"
    by (subst part_inv_cong [OF n(8,9)]) (use key ne part in auto)
  then have "part_inv E (m1\<lparr>hm_buckets := (hm_buckets m1)[b := ends (zs @ [n])]\<rparr>) (us @ zs @ n # ws)"
  proof (rule part_inv_add)
    show "b < hm_num_buckets m1" using pos n(9) by (simp add: b bucket_of_def)
  qed (use zs out ne last in \<open>auto simp: bk1 split: if_splits\<close>)
  moreover have "ends (zs @ [n]) = (if zs = [] then it else first_of zs, it)"
    by (simp add: ends_def first_of_append n(1))
  ultimately have part': "part_inv E m' (us @ zs @ n # ws)"
    by (simp add: m' part_inv_cong [of "m1\<lparr>hm_buckets := _, hm_size := _\<rparr>" "m1\<lparr>hm_buckets := _\<rparr>"])
  have keys: "map (key_at m') (hm_values m') = map (key_at m) (us @ zs) @ k # map (key_at m) ws"
    using ne by (auto simp: m' n(2) key)
  have dk: "distinct (map (key_at m') (hm_values m'))"
    unfolding keys using nodes new by (auto simp: nodes_inv_def vs)
  then have inv': "hm_inv E m'"
    using n(5,6) part' sz pos by (simp add: hm_inv_def nodes_inv_def m' n vs)
  have "hm_node m' ` set (hm_values m') = insert (k, inserted_value E m v) (hm_node m ` set (hm_values m))"
    using ne by (auto simp: m' n(2,3) vs)
  moreover have "distinct (map fst ((k, inserted_value E m v) # map (hm_node m) (hm_values m)))"
    using nodes new by (simp add: nodes_inv_def key_at_def [abs_def] comp_def image_image)
  ultimately have "hm_map m' = map_of ((k, inserted_value E m v) # map (hm_node m) (hm_values m))"
    by (intro hm_map_eqI [OF _ dk]) simp_all
  then show ?thesis using inv' n ne vs by (intro exI [of _ n]) (simp add: m' hm_map_def)
qed

lemma entry_of_None: "entry_of m k = None \<longleftrightarrow> k \<notin> key_at m ` set (hm_values m)"
  by (auto simp: entry_of_def find_None_iff)

lemma entry_of_SomeD: "entry_of m k = Some n \<Longrightarrow> n \<in> set (hm_values m) \<and> key_at m n = k"
  by (auto simp: entry_of_def find_Some_iff)

text \<open>
  \<open>insert\<close> returns the entry of the key and whether it is new; it keeps all entries, and the
  iterators to them, and leaves an existing entry as it is.
\<close>

lemma insert_correct:
  assumes "hm_inv E m"
  shows "\<exists>n isnew m'. hm_insert E m (k, v) = Some (Some n, isnew, m') \<and> hm_inv E m' \<and>
    isnew = (hm_map m k = None) \<and> hm_map m' = (if isnew then (hm_map m)(k \<mapsto> inserted_value E m v) else hm_map m) \<and>
    set (hm_values m') = (if isnew then insert n (set (hm_values m)) else set (hm_values m)) \<and>
    (if isnew then n \<notin> set (hm_values m) else n \<in> set (hm_values m)) \<and> key_at m' n = k \<and>
    (\<forall>x \<in> set (hm_values m). hm_node m' x = hm_node m x) \<and>
    hm_node m' n = (if isnew then (k, inserted_value E m v) else hm_node m n) \<and>
    set (hm_spares m') \<subseteq> set (hm_spares m) \<and> (\<forall>x \<in> set (hm_spares m'). hm_node m' x = hm_node m x)"
proof -
  obtain m0 where r: "(if hm_size m + 1 \<ge> hm_num_buckets m then rehash E m (hash_size (hm_size m + 1)) else Some m) = Some m0"
    and inv: "hm_inv E m0" and pos: "0 < hm_num_buckets m0" and same: "same_entries m m0"
    using rehash_correct [OF assms hash_size_pos, of "hm_size m + 1"] hash_size_pos [of "hm_size m + 1"] assms
    by (cases "hm_size m + 1 \<ge> hm_num_buckets m") (auto simp: same_entries_def)
  have nodes: "nodes_inv m" "nodes_inv m0" and map0: "hm_map m0 = hm_map m" "set (hm_values m0) = set (hm_values m)"
    using assms inv same_entriesD [OF same] by (auto simp: hm_inv_def)
  have node0: "hm_node m0 = hm_node m" "hm_spares m0 = hm_spares m" "inserted_value E m0 v = inserted_value E m v"
    using same by (simp_all add: same_entries_def inserted_value_def split: list.split)
  define b where "b = bucket_of E m0 k"
  have "b < hm_num_buckets m0" using pos by (simp add: b_def bucket_of_def)
  moreover have "part_inv E m0 (hm_values m0)" using inv by (simp add: hm_inv_def)
  ultimately obtain us zs ws where vs: "hm_values m0 = us @ zs @ ws" and zs: "\<forall>x \<in> set zs. bk E m0 x = b"
    and out: "b \<notin> bk E m0 ` set us" "b \<notin> bk E m0 ` set ws" and bu: "hm_buckets m0 ! b = ends zs"
    using bucket_block by metis
  have dist: "distinct (hm_values m0)" using nodes by (simp add: nodes_inv_def)
  have found: "find (\<lambda>n. key_at m0 n = k) zs = entry_of m0 k"
    unfolding entry_of_def vs by (rule find_middle [symmetric]) (use out in \<open>auto simp: bk_def b_def\<close>)
  have isnew: "hm_map m k = None \<longleftrightarrow> entry_of m0 k = None"
    by (simp add: map0(1) [symmetric] hm_map_entry)
  show ?thesis
  proof (cases "entry_of m0 k")
    case None
    then have new: "k \<notin> key_at m0 ` set (hm_values m0)" by (simp add: entry_of_None)
    define ws' where "ws' = (if zs = [] then [] else ws)"
    define us' where "us' = (if zs = [] then us @ ws else us)"
    have vs': "hm_values m0 = us' @ zs @ ws'" by (simp add: us'_def ws'_def vs)
    have out': "b \<notin> bk E m0 ` set us'" "b \<notin> bk E m0 ` set ws'" using out by (auto simp: us'_def ws'_def)
    obtain it m1 where ins: "values_insert E m0 (first_of ws') (k, v) = (it, m1)" by fastforce
    define m' where "m' = m1\<lparr>hm_buckets := (hm_buckets m1)[b := (if zs = [] then it else first_of zs, it)],
      hm_size := hm_size m0 + 1\<rparr>"
    from entry_added [OF inv pos new b_def vs' zs out' _ ins m'_def] obtain n where
      n: "it = Some n" "hm_inv E m'" "hm_map m' = (hm_map m)(k \<mapsto> inserted_value E m v)" "n \<notin> set (hm_values m)"
        "hm_values m' = us' @ zs @ n # ws'" "hm_node m' = (hm_node m)(n := (k, inserted_value E m v))"
        "hm_spares m' = tl (hm_spares m)"
      by (auto simp: ws'_def map0 node0)
    have nx: "next_in (hm_values m0) (last zs) = first_of ws" if "zs \<noteq> []"
      using next_of_block [of "hm_values m0" "[]" us zs ws] vs that dist by simp
    have "walk m0 k (first_of (zs @ ws)) (first_of ws) = Some None"
      using walk_segment [OF vs dist] found None by (simp add: key_at_def)
    moreover have "hm_size m1 = hm_size m0"
      using ins by (auto simp: values_insert_def Let_def split: list.splits)
    ultimately have "hm_insert E m (k, v) = Some (it, True, m')"
      unfolding hm_insert_def r using ins nx bu
      by (cases "zs = []") (simp_all add: b_def [symmetric] hm_end_def ws'_def m'_def first_of_append ends_def)
    moreover have "n \<notin> set (hm_spares m')" 
      using n(2,5) by (auto simp: hm_inv_def nodes_inv_def)
    moreover have "set (hm_spares m') \<subseteq> set (hm_spares m)" using n(7) by (cases "hm_spares m") auto
    ultimately show ?thesis using n isnew None vs' map0(2)
      by (intro exI [of _ n] exI [of _ True] exI [of _ m']) (auto simp: key_at_def)
  next
    case (Some n)
    then have ne: "zs \<noteq> []" using found by auto
    have nx: "next_in (hm_values m0) (last zs) = first_of ws"
      using next_of_block [of "hm_values m0" "[]" us zs ws] vs ne dist by simp
    have "walk m0 k (first_of (zs @ ws)) (first_of ws) = Some (Some n)"
      using walk_segment [OF vs dist] found Some by (simp add: key_at_def)
    then have "hm_insert E m (k, v) = Some (Some n, False, m0)"
      unfolding hm_insert_def r using nx bu ne by (simp add: b_def [symmetric] hm_end_def first_of_append Let_def ends_def)
    then show ?thesis using inv isnew Some entry_of_SomeD [OF Some] map0 node0
      by (intro exI [of _ n] exI [of _ False] exI [of _ m0]) simp
  qed
qed

section \<open>Erasure\<close>

lemma grouped_remove_block:
  assumes "grouped (us @ (xs @ y # ys) @ ws)"
  shows "grouped (us @ (xs @ ys) @ ws)"
  using grouped_remove [of "us @ xs" y "ys @ ws"] assms by simp

lemma part_inv_remove:
  assumes "part_inv E m (us @ (xs @ n # ys) @ ws)" and b: "\<forall>x \<in> set (xs @ n # ys). bk E m x = b"
    and out: "b \<notin> bk E m ` set us" "b \<notin> bk E m ` set ws" and "b < hm_num_buckets m"
  shows "part_inv E (m\<lparr>hm_buckets := (hm_buckets m)[b := ends (xs @ ys)]\<rparr>) (us @ (xs @ ys) @ ws)"
proof -
  have g: "grouped (map (bk E m) us @ (map (bk E m) xs @ bk E m n # map (bk E m) ys) @ map (bk E m) ws)"
    using assms(1) by (simp add: part_inv_def)
  have "filter (\<lambda>x. bk E m x = b) xs = xs" "filter (\<lambda>x. bk E m x = b) ys = ys"
    using b by (auto simp: filter_id_conv)
  moreover have "filter (\<lambda>x. bk E m x = b) us = []" "filter (\<lambda>x. bk E m x = b) ws = []"
    using out by (force simp: filter_empty_conv)+
  ultimately show ?thesis
    using assms(1) b \<open>b < hm_num_buckets m\<close> grouped_remove_block [OF g]
    by (auto simp: part_inv_def nth_list_update)
qed

text \<open>The four cases of the update of the bucket's iterators give the ends of what is left.\<close>

lemma erase_ends:
  assumes "distinct (us @ (xs @ n # ys) @ ws)" and "(f, l) = ends (xs @ n # ys)" and vs: "vs = us @ (xs @ n # ys) @ ws"
  shows "(if Some n = f \<and> Some n = l then (None, None) else if Some n = f then (next_in vs n, l)
    else if Some n = l then (f, prev_in vs (Some n)) else (f, l)) = ends (xs @ ys)"
proof -
  have first: "Some n = f \<longleftrightarrow> xs = []" using assms(1,2) by (cases xs) (auto simp: ends_def)
  have last: "Some n = l \<longleftrightarrow> ys = []"
    using assms(1,2) last_in_set [of ys] by (auto simp: ends_def split: if_splits)
  have "n \<notin> set (us @ xs)" using assms(1) by auto
  then have nx: "next_in vs n = first_of (ys @ ws)" using next_in_append [of n "us @ xs" "ys @ ws"] vs by simp
  have pr: "prev_in vs (Some n) = Some (last xs)" if "xs \<noteq> []"
  proof -
    have "vs = (us @ butlast xs) @ last xs # n # ys @ ws" using vs that by simp
    moreover have "distinct ((us @ butlast xs) @ last xs # n # ys @ ws)"
      using calculation assms(1) vs by metis
    ultimately show ?thesis using prev_in_append [of "us @ butlast xs" "last xs" "n # ys @ ws"] by simp
  qed
  show ?thesis
    unfolding first last using assms(2) nx pr
    by (cases "xs = []"; cases "ys = []") (simp_all add: ends_def first_of_append)
qed

lemma erase_correct:
  assumes inv: "hm_inv E m" and n: "n \<in> set (hm_values m)"
  shows "hm_inv E (hm_erase E m n) \<and> hm_map (hm_erase E m n) = (hm_map m)(key_at m n := None) \<and>
    hm_values (hm_erase E m n) = remove1 n (hm_values m) \<and>
    (\<forall>x. x \<noteq> n \<longrightarrow> hm_node (hm_erase E m n) x = hm_node m x) \<and>
    hm_spares (hm_erase E m n) = n # hm_spares m \<and>
    hm_node (hm_erase E m n) n = (key_default E, val_assign E (snd (hm_node m n)) (val_new E))"
proof -
  have nodes: "nodes_inv m" and part: "part_inv E m (hm_values m)" and sz: "hm_size m = length (hm_values m)"
    and pos: "0 < hm_num_buckets m"
    using inv n by (auto simp: hm_inv_def)
  define b where "b = bk E m n"
  have b: "b < hm_num_buckets m" using bk_less [OF pos] by (simp add: b_def)
  obtain us zs ws where vs: "hm_values m = us @ zs @ ws" and zs: "\<forall>x \<in> set zs. bk E m x = b"
    and out: "b \<notin> bk E m ` set us" "b \<notin> bk E m ` set ws" and bu: "hm_buckets m ! b = ends zs"
    using bucket_block [OF part b] by metis
  have "n \<in> set zs" using n vs out b_def by auto
  then obtain xs ys where xy: "zs = xs @ n # ys" by (meson split_list)
  have dist: "distinct (us @ (xs @ n # ys) @ ws)" using nodes vs xy by (auto simp: nodes_inv_def)
  have rm: "remove1 n (hm_values m) = us @ (xs @ ys) @ ws"
    using dist by (simp add: vs xy remove1_append)
  let ?m = "hm_erase E m n"
  have bb: "bucket_of E m (fst (hm_node m n)) = b" by (simp add: b_def bk_def key_at_def)
  obtain f l where fl: "hm_buckets m ! b = (f, l)" by fastforce
  have "(f, l) = ends (xs @ n # ys)" using fl bu xy by simp
  note upd = erase_ends [OF dist this vs [unfolded xy]]
  have m: "?m = m\<lparr>hm_buckets := (hm_buckets m)[b := ends (xs @ ys)],
      hm_node := (hm_node m)(n := (key_default E, val_assign E (snd (hm_node m n)) (val_new E))),
      hm_values := us @ (xs @ ys) @ ws, hm_spares := n # hm_spares m, hm_size := hm_size m - 1\<rparr>"
    by (simp only: hm_erase_def bb fl Let_def prod.case hm_end_def upd) (simp add: values_erase_def rm)
  have key: "key_at ?m x = key_at m x" if "x \<noteq> n" for x using that by (simp add: m key_at_def)
  have vals: "set (hm_values m) = insert n (set (hm_values ?m))" "n \<notin> set (hm_values ?m)"
    using dist by (auto simp: m vs xy)
  have "part_inv E m (us @ (xs @ n # ys) @ ws)" using part vs xy by simp
  from part_inv_remove [OF this _ out b] zs xy
  have "part_inv E (m\<lparr>hm_buckets := (hm_buckets m)[b := ends (xs @ ys)]\<rparr>) (us @ (xs @ ys) @ ws)" by simp
  then have part': "part_inv E ?m (us @ (xs @ ys) @ ws)"
  proof (rule part_inv_cong [THEN iffD2, rotated 3])
    fix x assume "x \<in> set (us @ (xs @ ys) @ ws)"
    with dist have "x \<noteq> n" by auto
    from key [OF this] show "key_at ?m x = key_at (m\<lparr>hm_buckets := (hm_buckets m)[b := ends (xs @ ys)]\<rparr>) x" by simp
  qed (simp_all add: m)
  have keys: "map (key_at ?m) (hm_values ?m) = map (key_at m) (us @ (xs @ ys) @ ws)"
  proof -
    have "hm_values ?m = us @ (xs @ ys) @ ws" by (simp add: m)
    moreover have "key_at ?m x = key_at m x" if "x \<in> set (us @ (xs @ ys) @ ws)" for x
      by (rule key) (use that dist in auto)
    ultimately show ?thesis by (metis map_ext)
  qed
  have dk: "distinct (map (key_at ?m) (hm_values ?m))" "key_at m n \<notin> set (map (key_at ?m) (hm_values ?m))"
    unfolding keys using nodes by (auto simp: nodes_inv_def vs xy)
  have inv': "hm_inv E ?m"
    using part' dk(1) nodes sz pos by (auto simp: hm_inv_def nodes_inv_def m vs xy)
  have "hm_map m = map_of ((key_at m n, snd (hm_node m n)) # map (hm_node ?m) (hm_values ?m))"
  proof (rule hm_map_eqI)
    show "distinct (map (key_at m) (hm_values m))" using nodes by (simp add: nodes_inv_def)
    show "set (map (hm_node m) (hm_values m)) = set ((key_at m n, snd (hm_node m n)) # map (hm_node ?m) (hm_values ?m))"
      using vals by (auto simp: m key_at_def)
    show "distinct (map fst ((key_at m n, snd (hm_node m n)) # map (hm_node ?m) (hm_values ?m)))"
      using dk by (simp add: key_at_def [abs_def] comp_def image_image)
  qed
  moreover have "hm_map ?m (key_at m n) = None"
    using dk(2) by (auto simp: hm_map_entry entry_of_None)
  ultimately have "hm_map ?m = (hm_map m)(key_at m n := None)" by (auto simp: hm_map_def fun_eq_iff)
  then show ?thesis using inv' rm by (simp add: m)
qed

lemma erase_key_correct:
  assumes "hm_inv E m"
  shows "\<exists>m'. hm_erase_key E m k = Some m' \<and> hm_inv E m' \<and> hm_map m' = (hm_map m)(k := None)"
proof (cases "entry_of m k")
  case None
  then have "(hm_map m)(k := None) = hm_map m" by (intro fun_upd_idem) (simp add: hm_map_entry)
  then show ?thesis using find_entry [OF assms, of k] assms None by (simp add: hm_erase_key_def)
next
  case (Some n)
  from entry_of_SomeD [OF this] erase_correct [OF assms, of n] find_entry [OF assms, of k] Some
  show ?thesis by (simp add: hm_erase_key_def)
qed

lemma clear_correct:
  assumes "hm_inv E m"
  shows "hm_inv E (hm_clear m) \<and> hm_map (hm_clear m) = Map.empty"
  using assms by (auto simp: hm_inv_def nodes_inv_def part_inv_def hm_clear_def hm_map_def hm_end_def)

lemma new_correct: "hm_inv E (hm_new mem) \<and> hm_map (hm_new mem) = Map.empty"
  by (simp add: hm_inv_def nodes_inv_def part_inv_def hm_new_def hm_map_def)

section \<open>The interface of a finite map\<close>

text \<open>
  \<open>stored m v\<close> is what becomes of a value that is put into the map \<open>m\<close>. An insertion says whether
  the key was new and leaves an existing entry alone.
\<close>

locale finite_map =
  fixes inv :: "'m \<Rightarrow> bool" and mp :: "'m \<Rightarrow> 'k \<rightharpoonup> 'v" and look :: "'m \<Rightarrow> 'k \<Rightarrow> 'v option option"
    and ins :: "'m \<Rightarrow> 'k \<Rightarrow> 'v \<Rightarrow> (bool \<times> 'm) option" and del :: "'m \<Rightarrow> 'k \<Rightarrow> 'm option"
    and clr :: "'m \<Rightarrow> 'm" and stored :: "'m \<Rightarrow> 'v \<Rightarrow> 'v"
  assumes look: "inv m \<Longrightarrow> look m k = Some (mp m k)"
    and ins: "inv m \<Longrightarrow> \<exists>m'. ins m k v = Some (mp m k = None, m') \<and> inv m' \<and>
      mp m' = (if mp m k = None then (mp m)(k \<mapsto> stored m v) else mp m)"
    and del: "inv m \<Longrightarrow> \<exists>m'. del m k = Some m' \<and> inv m' \<and> mp m' = (mp m)(k := None)"
    and clr: "inv m \<Longrightarrow> inv (clr m) \<and> mp (clr m) = Map.empty"

datatype ('k, 'v) map_op = Insert 'k 'v | Erase 'k | Clear

text \<open>A sequence of operations, on any implementation and on maps.\<close>

fun run_ops ::
  "('m \<Rightarrow> 'k \<Rightarrow> 'v \<Rightarrow> (bool \<times> 'm) option) \<Rightarrow> ('m \<Rightarrow> 'k \<Rightarrow> 'm option) \<Rightarrow> ('m \<Rightarrow> 'm) \<Rightarrow>
   ('k, 'v) map_op list \<Rightarrow> 'm \<Rightarrow> 'm option" where
  "run_ops ins del clr [] m = Some m"
| "run_ops ins del clr (Insert k v # os) m = Option.bind (ins m k v) (\<lambda>(_, m). run_ops ins del clr os m)"
| "run_ops ins del clr (Erase k # os) m = Option.bind (del m k) (run_ops ins del clr os)"
| "run_ops ins del clr (Clear # os) m = run_ops ins del clr os (clr m)"

fun ref_ops :: "('k, 'v) map_op list \<Rightarrow> ('k \<rightharpoonup> 'v) \<Rightarrow> ('k \<rightharpoonup> 'v)" where
  "ref_ops [] A = A"
| "ref_ops (Insert k v # os) A = ref_ops os (if A k = None then A(k \<mapsto> v) else A)"
| "ref_ops (Erase k # os) A = ref_ops os (A(k := None))"
| "ref_ops (Clear # os) A = ref_ops os Map.empty"

context finite_map
begin

lemma look_after_ins:
  assumes "inv m" and "ins m k v = Some (isnew, m')"
  shows "look m' k = Some (Some (case mp m k of None \<Rightarrow> stored m v | Some u \<Rightarrow> u))"
  using ins [OF assms(1), of k v] assms(2) look [of m'] by (auto split: option.splits)

lemma look_after_del:
  assumes "inv m" and "del m k = Some m'"
  shows "look m' j = Some (if j = k then None else mp m j)"
  using del [OF assms(1), of k] assms(2) look [of m' j] by auto

lemma run_simulates:
  assumes "inv m" and "\<And>m v. stored m v = v"
  shows "\<exists>m'. run_ops ins del clr os m = Some m' \<and> inv m' \<and> mp m' = ref_ops os (mp m)"
  using assms(1)
proof (induction os arbitrary: m)
  case (Cons x os)
  show ?case
  proof (cases x)
    case (Insert k v)
    obtain m' where m': "ins m k v = Some (mp m k = None, m')" "inv m'"
      "mp m' = (if mp m k = None then (mp m)(k \<mapsto> v) else mp m)"
      using ins [OF Cons.prems, of k v] assms(2) by auto
    from Cons.IH [OF m'(2)] Insert m' show ?thesis by simp
  next
    case (Erase k)
    obtain m' where m': "del m k = Some m'" "inv m'" "mp m' = (mp m)(k := None)"
      using del [OF Cons.prems] by blast
    from Cons.IH [OF m'(2)] show ?thesis unfolding Erase ref_ops.simps run_ops.simps m'(1,3) Option.bind.simps .
  next
    case Clear
    have c: "inv (clr m)" "mp (clr m) = Map.empty" using clr [OF Cons.prems] by auto
    from Cons.IH [OF c(1)] Clear c(2) show ?thesis by simp
  qed
qed simp

end

text \<open>The hash map as such a map.\<close>

definition hm_look :: "('k, 'v) elem_ops \<Rightarrow> ('k, 'v) hash_map \<Rightarrow> 'k \<Rightarrow> 'v option option" where
  "hm_look E m k = map_option (map_option (\<lambda>n. snd (hm_node m n))) (hm_find E m k)"

definition hm_ins :: "('k, 'v) elem_ops \<Rightarrow> ('k, 'v) hash_map \<Rightarrow> 'k \<Rightarrow> 'v \<Rightarrow> (bool \<times> ('k, 'v) hash_map) option" where
  "hm_ins E m k v = map_option snd (hm_insert E m (k, v))"

interpretation hm: finite_map "hm_inv E" hm_map "hm_look E" "hm_ins E" "hm_erase_key E" hm_clear "inserted_value E"
  for E :: "('k, 'v) elem_ops"
proof
  fix m :: "('k, 'v) hash_map" and k v assume inv: "hm_inv E m"
  show "hm_look E m k = Some (hm_map m k)" by (simp add: hm_look_def find_entry [OF inv] hm_map_entry)
  show "\<exists>m'. hm_ins E m k v = Some (hm_map m k = None, m') \<and> hm_inv E m' \<and>
      hm_map m' = (if hm_map m k = None then (hm_map m)(k \<mapsto> inserted_value E m v) else hm_map m)"
    using insert_correct [OF inv, of k v] by (auto simp: hm_ins_def)
  show "\<exists>m'. hm_erase_key E m k = Some m' \<and> hm_inv E m' \<and> hm_map m' = (hm_map m)(k := None)"
    by (rule erase_key_correct [OF inv])
  show "hm_inv E (hm_clear m) \<and> hm_map (hm_clear m) = Map.empty" by (rule clear_correct [OF inv])
qed

lemma hm_size_card:
  assumes "hm_inv E m"
  shows "hm_size m = card (dom (hm_map m))"
proof -
  have "distinct (map (key_at m) (hm_values m))" using assms by (simp add: hm_inv_def nodes_inv_def)
  then have "card (set (map (key_at m) (hm_values m))) = length (hm_values m)"
    using distinct_card by fastforce
  moreover have "dom (hm_map m) = set (map (key_at m) (hm_values m))"
    by (simp add: hm_map_def dom_map_of_conv_image_fst image_image key_at_def [abs_def])
  ultimately show ?thesis using assms by (simp add: hm_inv_def)
qed

text \<open>
  C24: With values that are copied and assigned as usual, any sequence of insertions, erasures and
  clearings of a new hash map ends, and then \<open>find\<close> gives for every key what the same sequence gives
  on a finite map, and the size is the number of its keys; whatever the hash function.
\<close>

theorem hash_map_equals_map:
  assumes "\<And>v. val_copy E v = v" and "\<And>u v. val_assign E u v = v"
  shows "\<exists>m. run_ops (hm_ins E) (hm_erase_key E) hm_clear os (hm_new mem) = Some m \<and>
    (\<forall>k. \<exists>it. hm_find E m k = Some it \<and> map_option (\<lambda>n. snd (hm_node m n)) it = ref_ops os Map.empty k) \<and>
    hm_size m = card (dom (ref_ops os Map.empty))"
proof -
  have "inserted_value E m v = v" for m v by (simp add: inserted_value_def assms split: list.split)
  from hm.run_simulates [OF conjunct1 [OF new_correct [of E mem]] this, of os]
  obtain m where m: "run_ops (hm_ins E) (hm_erase_key E) hm_clear os (hm_new mem) = Some m"
    "hm_inv E m" "hm_map m = ref_ops os Map.empty"
    using new_correct [of E mem] by auto
  then show ?thesis
    using find_entry [OF m(2)] hm_map_entry [of m] hm_size_card [OF m(2)] by (intro exI [of _ m]) metis
qed

definition int_ops :: "(u32, nat) elem_ops" where
  "int_ops = \<lparr>key_default = 0, hash_value = calculate_hash_value_int, val_new = 0, val_copy = (\<lambda>v. v),
     val_assign = (\<lambda>u v. v)\<rparr>"

lemma hash_map_equals_map_witness:
  "\<exists>m. run_ops (hm_ins int_ops) (hm_erase_key int_ops) hm_clear
      [Insert 1 10, Insert 4 20, Insert 2 30, Insert 7 40, Erase 4, Insert 1 50] (hm_new (\<lambda>_. (0, 0))) = Some m \<and>
    (\<exists>it. hm_find int_ops m 1 = Some it \<and> map_option (\<lambda>n. snd (hm_node m n)) it = Some 10) \<and> hm_size m = 3"
proof -
  let ?os = "[Insert 1 10, Insert 4 20, Insert 2 30, Insert 7 40, Erase 4, Insert 1 50] :: (u32, nat) map_op list"
  have ref: "ref_ops ?os Map.empty = [1 \<mapsto> 10, 2 \<mapsto> 30, 7 \<mapsto> 40]" by auto
  have "dom [1 \<mapsto> 10, 2 \<mapsto> 30, 7 \<mapsto> (40 :: nat)] = {1, 2, 7 :: u32}" by auto
  then have card: "card (dom [1 \<mapsto> 10, 2 \<mapsto> 30, 7 :: u32 \<mapsto> (40 :: nat)]) = (3 :: nat)" by simp
  from hash_map_equals_map [of int_ops ?os "\<lambda>_. (0, 0)"] show ?thesis
    unfolding ref card by (auto simp: int_ops_def dest: spec [of _ 1])
qed

text \<open>
  C27: Iterators stay valid: an insertion, which may rebuild all buckets, and the erasure of another
  entry keep every entry at its address with its key and value.
\<close>

theorem entries_are_stable:
  assumes "hm_inv E m" and "x \<in> set (hm_values m)"
  shows "(\<exists>it isnew m'. hm_insert E m (k, v) = Some (it, isnew, m') \<and> x \<in> set (hm_values m') \<and>
      hm_node m' x = hm_node m x) \<and>
    (\<forall>n \<in> set (hm_values m). n \<noteq> x \<longrightarrow> x \<in> set (hm_values (hm_erase E m n)) \<and>
      hm_node (hm_erase E m n) x = hm_node m x)"
proof
  show "\<exists>it isnew m'. hm_insert E m (k, v) = Some (it, isnew, m') \<and> x \<in> set (hm_values m') \<and>
      hm_node m' x = hm_node m x"
    using insert_correct [OF assms(1), of k v] assms(2) by (auto split: if_splits)
  show "\<forall>n \<in> set (hm_values m). n \<noteq> x \<longrightarrow> x \<in> set (hm_values (hm_erase E m n)) \<and>
      hm_node (hm_erase E m n) x = hm_node m x"
    using erase_correct [OF assms(1)] assms(2) by (metis in_set_remove1)
qed

definition sample_map :: "(u32, nat) hash_map" where
  "sample_map = snd (snd (the (hm_insert int_ops (hm_new (\<lambda>_. (0, 0))) (1, 10))))"

lemma sample_map_inv: "hm_inv int_ops sample_map \<and> hm_map sample_map = [1 \<mapsto> 10]"
  using insert_correct [OF conjunct1 [OF new_correct], of int_ops "\<lambda>_. (0, 0)" 1 10]
    new_correct [of int_ops "\<lambda>_. (0, 0)"]
  by (auto simp: sample_map_def inserted_value_def hm_new_def int_ops_def split: list.splits)

lemma entries_are_stable_witness:
  "\<exists>x \<in> set (hm_values sample_map). \<exists>it isnew m'. hm_insert int_ops sample_map (4, 20) = Some (it, isnew, m') \<and>
    x \<in> set (hm_values m') \<and> hm_node m' x = hm_node sample_map x"
proof -
  have "hm_map sample_map \<noteq> Map.empty" using sample_map_inv by (metis fun_upd_same option.distinct(1))
  then have "hm_values sample_map \<noteq> []" by (auto simp: hm_map_def)
  then obtain x where x: "x \<in> set (hm_values sample_map)" by (cases "hm_values sample_map") auto
  from entries_are_stable [OF conjunct1 [OF sample_map_inv] this, of 4 20] x show ?thesis by blast
qed

end
