(* ===== verification/AsioOpQueue.thy ===== *)
theory AsioOpQueue
  imports AsioBase
begin

text \<open>
  The queue of operations of detail/op_queue.hpp: a singly linked list threaded through the
  operations themselves. The operations' \<open>next_\<close> fields are a store from operations to
  successors; a queue is its two end pointers. \<open>queue_rep\<close> relates the pointers to a list, and the
  operations are shown to implement those of a list. The locale \<open>fifo\<close> is what the timer queue and
  the reactor's queue rely on.
\<close>

section \<open>Operations and their store\<close>

text \<open>What the operations in memory hold: \<open>next_\<close>, \<open>ec_\<close>, and which have been destroyed.\<close>

record 'o opstore =
  nextp :: "'o \<Rightarrow> 'o option"
  op_ec :: "'o \<Rightarrow> error_code"
  destroyed :: "'o list"

definition op_next :: "'o opstore \<Rightarrow> 'o \<Rightarrow> 'o option" where
  "op_next st p = nextp st p"

definition set_next :: "'o \<Rightarrow> 'o option \<Rightarrow> 'o opstore \<Rightarrow> 'o opstore" where
  "set_next o1 o2 st = st\<lparr>nextp := (nextp st)(o1 := o2)\<rparr>"

definition op_destroy :: "'o \<Rightarrow> 'o opstore \<Rightarrow> 'o opstore" where
  "op_destroy p st = st\<lparr>destroyed := destroyed st @ [p]\<rparr>"

section \<open>The queue\<close>

record 'o op_queue =
  frontp :: "'o option"
  backp :: "'o option"

definition q_new :: "'o op_queue" where
  "q_new = \<lparr>frontp = None, backp = None\<rparr>"

definition q_front :: "'o op_queue \<Rightarrow> 'o option" where
  "q_front q = frontp q"

definition q_pop :: "'o opstore \<Rightarrow> 'o op_queue \<Rightarrow> 'o opstore \<times> 'o op_queue" where
  "q_pop st q =
     (case frontp q of
        None \<Rightarrow> (st, q)
      | Some tmp \<Rightarrow>
          let q = q\<lparr>frontp := op_next st tmp\<rparr>;
              q = (if frontp q = None then q\<lparr>backp := None\<rparr> else q)
          in (set_next tmp None st, q))"

definition q_push :: "'o opstore \<Rightarrow> 'o op_queue \<Rightarrow> 'o \<Rightarrow> 'o opstore \<times> 'o op_queue" where
  "q_push st q h =
     (let st = set_next h None st
      in case backp q of
           Some b \<Rightarrow> (set_next b (Some h) st, q\<lparr>backp := Some h\<rparr>)
         | None \<Rightarrow> (st, q\<lparr>frontp := Some h, backp := Some h\<rparr>))"

text \<open>\<open>push(q2)\<close>: the store, the queue and the emptied source.\<close>

definition q_push_all ::
  "'o opstore \<Rightarrow> 'o op_queue \<Rightarrow> 'o op_queue \<Rightarrow> 'o opstore \<times> 'o op_queue \<times> 'o op_queue" where
  "q_push_all st q q2 =
     (case frontp q2 of
        None \<Rightarrow> (st, q, q2)
      | Some other_front \<Rightarrow>
          let (st, q) = (case backp q of
                           Some b \<Rightarrow> (set_next b (Some other_front) st, q)
                         | None \<Rightarrow> (st, q\<lparr>frontp := Some other_front\<rparr>));
              q = q\<lparr>backp := backp q2\<rparr>
          in (st, q, \<lparr>frontp = None, backp = None\<rparr>))"

definition q_empty :: "'o op_queue \<Rightarrow> bool" where
  "q_empty q \<longleftrightarrow> frontp q = None"

definition is_enqueued :: "'o opstore \<Rightarrow> 'o op_queue \<Rightarrow> 'o \<Rightarrow> bool" where
  "is_enqueued st q p \<longleftrightarrow> op_next st p \<noteq> None \<or> backp q = Some p"

text \<open>The destructor; a loop that would not end is \<open>None\<close>.\<close>

partial_function (option) q_destroy :: "'o opstore \<Rightarrow> 'o op_queue \<Rightarrow> 'o opstore option" where
  "q_destroy st q =
     (case frontp q of
        None \<Rightarrow> Some st
      | Some p \<Rightarrow> (let (st, q) = q_pop st q in q_destroy (op_destroy p st) q))"

section \<open>Representation\<close>

primrec linked :: "('o \<Rightarrow> 'o option) \<Rightarrow> 'o option \<Rightarrow> 'o list \<Rightarrow> bool" where
  "linked nx p [] \<longleftrightarrow> p = None"
| "linked nx p (x # xs) \<longleftrightarrow> p = Some x \<and> linked nx (nx x) xs"

definition queue_rep :: "'o opstore \<Rightarrow> 'o op_queue \<Rightarrow> 'o list \<Rightarrow> bool" where
  "queue_rep st q xs \<longleftrightarrow> linked (nextp st) (frontp q) xs \<and> distinct xs \<and>
     backp q = (if xs = [] then None else Some (last xs))"

lemma linked_None [simp]: "linked nx None xs \<longleftrightarrow> xs = []"
  by (cases xs) auto

lemma linked_update [simp]: "x \<notin> set xs \<Longrightarrow> linked (nx(x := y)) p xs = linked nx p xs"
  by (induction xs arbitrary: p) auto

lemma linked_append:
  "linked nx p xs \<Longrightarrow> distinct xs \<Longrightarrow> xs \<noteq> [] \<Longrightarrow> linked (nx(last xs := r)) r ys \<Longrightarrow>
   linked (nx(last xs := r)) p (xs @ ys)"
proof (induction xs arbitrary: p)
  case (Cons x xs)
  show ?case
  proof (cases "xs = []")
    case False
    with Cons.prems have "last xs \<noteq> x" by (metis distinct.simps(2) last_in_set)
    with Cons False show ?thesis by simp
  qed (use Cons.prems in simp)
qed simp

lemma linked_last:
  "linked nx p xs \<Longrightarrow> xs \<noteq> [] \<Longrightarrow> nx (last xs) = None"
  by (induction xs arbitrary: p) (auto split: if_splits)

lemma queue_rep_frame:
  "queue_rep st q xs \<Longrightarrow> x \<notin> set xs \<Longrightarrow> queue_rep (set_next x y st) q xs"
  by (simp add: queue_rep_def set_next_def)

lemma queue_rep_destroyed [simp]: "queue_rep (op_destroy p st) q xs = queue_rep st q xs"
  by (simp add: queue_rep_def op_destroy_def)

lemma queue_rep_ec [simp]: "queue_rep (st\<lparr>op_ec := e\<rparr>) q xs = queue_rep st q xs"
  by (simp add: queue_rep_def)

lemma linked_unique: "linked nx p xs \<Longrightarrow> linked nx p ys \<Longrightarrow> xs = ys"
proof (induction xs arbitrary: p ys)
  case (Cons x xs)
  then show ?case by (cases ys) auto
next
  case Nil
  then show ?case by (cases ys) auto
qed

lemma queue_rep_unique: "queue_rep st q xs \<Longrightarrow> queue_rep st q ys \<Longrightarrow> xs = ys"
  by (auto simp: queue_rep_def dest: linked_unique)

section \<open>The interface\<close>

text \<open>
  A family of queues over a shared store. \<open>others\<close> in each law is what the operation promises about
  a queue that shares no operation with the ones it changes.
\<close>

locale fifo =
  fixes rep :: "'s \<Rightarrow> 'q \<Rightarrow> 'o list \<Rightarrow> bool"
    and new :: 'q
    and front :: "'q \<Rightarrow> 'o option"
    and pop :: "'s \<Rightarrow> 'q \<Rightarrow> 's \<times> 'q"
    and push :: "'s \<Rightarrow> 'q \<Rightarrow> 'o \<Rightarrow> 's \<times> 'q"
    and push_all :: "'s \<Rightarrow> 'q \<Rightarrow> 'q \<Rightarrow> 's \<times> 'q \<times> 'q"
    and empty :: "'q \<Rightarrow> bool"
  assumes new: "rep s new []"
    and distinct: "rep s q xs \<Longrightarrow> distinct xs"
    and front: "rep s q xs \<Longrightarrow> front q = (case xs of [] \<Rightarrow> None | x # _ \<Rightarrow> Some x)"
    and empty: "rep s q xs \<Longrightarrow> empty q \<longleftrightarrow> xs = []"
    and pop: "rep s q xs \<Longrightarrow> pop s q = (s', q') \<Longrightarrow> rep s' q' (tl xs)"
    and pop_others: "rep s q xs \<Longrightarrow> pop s q = (s', q') \<Longrightarrow> rep s r ys \<Longrightarrow> set xs \<inter> set ys = {} \<Longrightarrow> rep s' r ys"
    and push: "rep s q xs \<Longrightarrow> x \<notin> set xs \<Longrightarrow> push s q x = (s', q') \<Longrightarrow> rep s' q' (xs @ [x])"
    and push_others: "rep s q xs \<Longrightarrow> push s q x = (s', q') \<Longrightarrow> rep s r ys \<Longrightarrow> x \<notin> set ys
      \<Longrightarrow> set xs \<inter> set ys = {} \<Longrightarrow> rep s' r ys"
    and push_all: "rep s q xs \<Longrightarrow> rep s r ys \<Longrightarrow> set xs \<inter> set ys = {} \<Longrightarrow> push_all s q r = (s', q', r')
      \<Longrightarrow> rep s' q' (xs @ ys) \<and> rep s' r' []"
    and push_all_others: "rep s q xs \<Longrightarrow> rep s r ys \<Longrightarrow> push_all s q r = (s', q', r') \<Longrightarrow> rep s t zs
      \<Longrightarrow> set xs \<inter> set zs = {} \<Longrightarrow> set ys \<inter> set zs = {} \<Longrightarrow> rep s' t zs"
begin

text \<open>Moving the first \<open>n\<close> operations from one queue to another, one by one.\<close>

fun move :: "nat \<Rightarrow> 's \<Rightarrow> 'q \<Rightarrow> 'q \<Rightarrow> 's \<times> 'q \<times> 'q" where
  "move 0 s q r = (s, q, r)"
| "move (Suc n) s q r =
     (case front q of
        None \<Rightarrow> (s, q, r)
      | Some x \<Rightarrow> (let (s, q) = pop s q; (s, r) = push s r x in move n s q r))"

lemma move:
  assumes "rep s q xs" and "rep s r ys" and "set xs \<inter> set ys = {}" and "move n s q r = (s', q', r')"
  shows "rep s' q' (drop n xs) \<and> rep s' r' (ys @ take n xs)"
  using assms
proof (induction n arbitrary: s q r xs ys)
  case (Suc n)
  show ?case
  proof (cases xs)
    case Nil
    with Suc.prems show ?thesis by (simp add: front)
  next
    case (Cons x xs')
    obtain s1 q1 where p: "pop s q = (s1, q1)" by (cases "pop s q")
    obtain s2 r2 where u: "push s1 r x = (s2, r2)" by (cases "push s1 r x")
    have q1: "rep s1 q1 xs'" using pop [OF Suc.prems(1) p] Cons by simp
    have r1: "rep s1 r ys" using pop_others [OF Suc.prems(1) p Suc.prems(2,3)] .
    have x: "x \<notin> set ys" "x \<notin> set xs'" "set xs' \<inter> set ys = {}"
      using Suc.prems(3) distinct [OF Suc.prems(1)] Cons by auto
    have q2: "rep s2 q1 xs'" using push_others [OF r1 u q1 x(2)] x(3) by (simp add: Int_commute)
    have r2: "rep s2 r2 (ys @ [x])" using push [OF r1 x(1) u] .
    have "move n s2 q1 r2 = (s', q', r')"
      using Suc.prems(1,4) Cons p u by (simp add: front)
    from Suc.IH [OF q2 r2 _ this] x Cons show ?thesis by auto
  qed
qed simp

end

interpretation opq: fifo queue_rep q_new q_front q_pop q_push q_push_all q_empty
proof unfold_locales
  fix s :: "'o opstore" and q r t q' r' :: "'o op_queue" and xs ys zs :: "'o list" and x s'
  show "queue_rep s q_new []" by (simp add: queue_rep_def q_new_def)
  assume rep: "queue_rep s q xs"
  then show "distinct xs" by (simp add: queue_rep_def)
  show "q_front q = (case xs of [] \<Rightarrow> None | x # _ \<Rightarrow> Some x)"
    using rep by (cases xs) (auto simp: queue_rep_def q_front_def)
  show "q_empty q \<longleftrightarrow> xs = []"
    using rep by (cases xs) (auto simp: queue_rep_def q_empty_def)
  show "queue_rep s' q' (tl xs)" if "q_pop s q = (s', q')"
    using rep that by (cases xs; cases "tl xs")
      (auto simp: queue_rep_def q_pop_def op_next_def set_next_def Let_def)
  show "queue_rep s' r ys" if "q_pop s q = (s', q')" "queue_rep s r ys" "set xs \<inter> set ys = {}"
    using rep that by (cases xs)
      (auto simp: queue_rep_def q_pop_def op_next_def set_next_def Let_def split: if_splits)
  show "queue_rep s' q' (xs @ [x])" if "x \<notin> set xs" "q_push s q x = (s', q')"
  proof (cases "xs = []")
    case False
    have "linked ((nextp s)(x := None, last xs := Some x)) (frontp q) (xs @ [x])"
      using rep that(1) False
      by (intro linked_append) (auto simp: queue_rep_def dest: last_in_set)
    with rep that False show ?thesis
      by (auto simp: queue_rep_def q_push_def set_next_def Let_def)
  qed (use rep that in \<open>auto simp: queue_rep_def q_push_def set_next_def Let_def\<close>)
  show "queue_rep s' r ys" if "q_push s q x = (s', q')" "queue_rep s r ys" "x \<notin> set ys" "set xs \<inter> set ys = {}"
  proof (cases "xs = []")
    case False
    with that(4) have "last xs \<notin> set ys" using last_in_set [of xs] by blast
    with rep that False show ?thesis by (auto simp: queue_rep_def q_push_def set_next_def Let_def)
  qed (use rep that in \<open>auto simp: queue_rep_def q_push_def set_next_def Let_def\<close>)
  assume rep': "queue_rep s r ys"
  show "queue_rep s' q' (xs @ ys) \<and> queue_rep s' r' []"
    if "set xs \<inter> set ys = {}" "q_push_all s q r = (s', q', r')"
  proof (cases "ys = [] \<or> xs = []")
    case False
    have "last xs \<notin> set ys" using that(1) False last_in_set [of xs] by blast
    then have "linked ((nextp s)(last xs := frontp r)) (frontp q) (xs @ ys)"
      using rep rep' False
      by (intro linked_append linked_update [THEN iffD2]) (auto simp: queue_rep_def)
    with rep rep' that False show ?thesis
      by (cases ys) (auto simp: queue_rep_def q_push_all_def set_next_def)
  qed (use rep rep' that in \<open>auto simp: queue_rep_def q_push_all_def set_next_def split: option.splits\<close>)
  show "queue_rep s' t zs" if "q_push_all s q r = (s', q', r')" "queue_rep s t zs"
    "set xs \<inter> set zs = {}" "set ys \<inter> set zs = {}"
  proof -
    have "xs \<noteq> [] \<Longrightarrow> last xs \<notin> set zs" using that(3) last_in_set [of xs] by blast
    with rep rep' that show ?thesis
      by (cases "xs = []"; cases ys) (auto simp: queue_rep_def q_push_all_def set_next_def)
  qed
qed

section \<open>What a change of the store leaves alone\<close>

text \<open>A change of the store that leaves alone every queue without an operation of \<open>S\<close>.\<close>

definition only_touches :: "'o set \<Rightarrow> 'o opstore \<Rightarrow> 'o opstore \<Rightarrow> bool" where
  "only_touches S st st' \<longleftrightarrow>
     (\<forall>q xs. queue_rep st q xs \<longrightarrow> set xs \<inter> S = {} \<longrightarrow> queue_rep st' q xs) \<and>
     (\<forall>p. p \<notin> S \<longrightarrow> op_ec st' p = op_ec st p) \<and> destroyed st' = destroyed st"

lemma only_touchesI:
  assumes "op_ec st' = op_ec st \<and> destroyed st' = destroyed st"
    and "\<And>q xs. queue_rep st q xs \<Longrightarrow> S \<inter> set xs = {} \<Longrightarrow> queue_rep st' q xs"
  shows "only_touches S st st'"
  using assms by (simp add: only_touches_def Int_commute)

lemma only_touches_refl [simp]: "only_touches S st st"
  by (simp add: only_touches_def)

lemma only_touches_trans [trans]:
  "only_touches S st st1 \<Longrightarrow> only_touches S st1 st2 \<Longrightarrow> only_touches S st st2"
  by (simp add: only_touches_def)

lemma only_touches_mono: "only_touches S st st' \<Longrightarrow> S \<subseteq> T \<Longrightarrow> only_touches T st st'"
  unfolding only_touches_def by blast

lemma only_touchesD:
  "only_touches S st st' \<Longrightarrow> queue_rep st q xs \<Longrightarrow> set xs \<inter> S = {} \<Longrightarrow> queue_rep st' q xs"
  by (simp add: only_touches_def)

lemma pop_keeps: "q_pop st q = (st', q') \<Longrightarrow> op_ec st' = op_ec st \<and> destroyed st' = destroyed st"
  by (auto simp: q_pop_def Let_def set_next_def split: option.splits)

lemma push_keeps: "q_push st q p = (st', q') \<Longrightarrow> op_ec st' = op_ec st \<and> destroyed st' = destroyed st"
  by (auto simp: q_push_def Let_def set_next_def split: option.splits)

lemma push_all_keeps: "q_push_all st q r = (st', q', r') \<Longrightarrow> op_ec st' = op_ec st \<and> destroyed st' = destroyed st"
  by (auto simp: q_push_all_def Let_def set_next_def split: option.splits)

lemma push_touches:
  assumes "queue_rep st ops ys" and "q_push st ops p = (st', ops')"
  shows "only_touches (insert p (set ys)) st st'"
  by (rule only_touchesI [OF push_keeps [OF assms(2)]], rule opq.push_others [OF assms]) auto

lemma push_all_touches:
  assumes "queue_rep st ops ys" and "queue_rep st q xs" and "q_push_all st ops q = (st', ops', q')"
  shows "only_touches (set xs \<union> set ys) st st'"
  by (rule only_touchesI [OF push_all_keeps [OF assms(3)]], rule opq.push_all_others [OF assms(1,2,3)]) auto

section \<open>Properties\<close>

lemma next_in_queue:
  assumes "linked nx p xs" and "i < length xs"
  shows "nx (xs ! i) = (if Suc i < length xs then Some (xs ! Suc i) else None)"
  using assms
proof (induction xs arbitrary: p i)
  case (Cons x xs)
  then show ?case by (cases i; cases xs) auto
qed simp

lemma op_queue_ops:
  assumes "queue_rep st q xs" and "queue_rep st r ys" and "set xs \<inter> set ys = {}"
  shows "q_front q = (case xs of [] \<Rightarrow> None | x # _ \<Rightarrow> Some x)"
    and "q_empty q \<longleftrightarrow> xs = []"
    and "h \<in> set xs \<or> op_next st h = None \<Longrightarrow> is_enqueued st q h \<longleftrightarrow> h \<in> set xs"
    and "case q_pop st q of (st', q') \<Rightarrow> queue_rep st' q' (tl xs) \<and> queue_rep st' r ys \<and>
           (\<forall>x \<in> set (take 1 xs). op_next st' x = None)"
    and "h \<notin> set xs \<Longrightarrow> h \<notin> set ys \<Longrightarrow>
         (case q_push st q h of (st', q') \<Rightarrow> queue_rep st' q' (xs @ [h]) \<and> queue_rep st' r ys)"
    and "case q_push_all st q r of (st', q', r') \<Rightarrow> queue_rep st' q' (xs @ ys) \<and> queue_rep st' r' []"
proof -
  show "q_front q = (case xs of [] \<Rightarrow> None | x # _ \<Rightarrow> Some x)" and "q_empty q \<longleftrightarrow> xs = []"
    using opq.front [OF assms(1)] opq.empty [OF assms(1)] by simp_all
  show "is_enqueued st q h \<longleftrightarrow> h \<in> set xs" if "h \<in> set xs \<or> op_next st h = None"
  proof
    assume "h \<in> set xs"
    then obtain i where i: "i < length xs" "xs ! i = h" by (auto simp: in_set_conv_nth)
    then have "\<not> Suc i < length xs \<Longrightarrow> last xs = h"
      by (metis Suc_lessI diff_Suc_1 last_conv_nth length_0_conv not_less_zero)
    with i show "is_enqueued st q h"
      using assms(1) next_in_queue [of "nextp st" "frontp q" xs i]
      by (auto simp: is_enqueued_def op_next_def queue_rep_def split: if_splits)
  next
    assume "is_enqueued st q h"
    with that show "h \<in> set xs"
      using assms(1) by (auto simp: is_enqueued_def queue_rep_def split: if_splits)
  qed
  show "case q_pop st q of (st', q') \<Rightarrow> queue_rep st' q' (tl xs) \<and> queue_rep st' r ys \<and>
      (\<forall>x \<in> set (take 1 xs). op_next st' x = None)"
  proof (cases "q_pop st q")
    case (Pair st' q')
    moreover have "\<forall>x \<in> set (take 1 xs). op_next st' x = None"
      using Pair assms(1) by (cases xs) (auto simp: queue_rep_def q_pop_def Let_def op_next_def set_next_def)
    ultimately show ?thesis
      using opq.pop [OF assms(1) Pair] opq.pop_others [OF assms(1) Pair assms(2,3)] by simp
  qed
  show "case q_push st q h of (st', q') \<Rightarrow> queue_rep st' q' (xs @ [h]) \<and> queue_rep st' r ys"
    if "h \<notin> set xs" "h \<notin> set ys"
    using opq.push [OF assms(1) that(1)] opq.push_others [OF assms(1) _ assms(2) that(2) assms(3)]
    by (cases "q_push st q h") auto
  show "case q_push_all st q r of (st', q', r') \<Rightarrow> queue_rep st' q' (xs @ ys) \<and> queue_rep st' r' []"
    using opq.push_all [OF assms] by (cases "q_push_all st q r") auto
qed

text \<open>
  C23: The queue of operations implements a list. For queues represented by lists without a common
  operation, \<open>push\<close> appends, \<open>pop\<close> removes the first operation and clears its link, \<open>push\<close> of a
  whole queue appends it and empties the source, and no other queue changes; \<open>front\<close>, \<open>empty\<close> and,
  for an operation that is in no other queue, \<open>is_enqueued\<close> read the list.
\<close>

theorem op_queue_refines_list:
  assumes "queue_rep st q xs" and "queue_rep st r ys" and "set xs \<inter> set ys = {}"
  shows "q_front q = (case xs of [] \<Rightarrow> None | x # _ \<Rightarrow> Some x) \<and> (q_empty q \<longleftrightarrow> xs = []) \<and>
    (h \<in> set xs \<or> op_next st h = None \<longrightarrow> (is_enqueued st q h \<longleftrightarrow> h \<in> set xs)) \<and>
    (case q_pop st q of (st', q') \<Rightarrow> queue_rep st' q' (tl xs) \<and> queue_rep st' r ys \<and>
       (\<forall>x \<in> set (take 1 xs). op_next st' x = None)) \<and>
    (h \<notin> set xs \<longrightarrow> h \<notin> set ys \<longrightarrow>
       (case q_push st q h of (st', q') \<Rightarrow> queue_rep st' q' (xs @ [h]) \<and> queue_rep st' r ys)) \<and>
    (case q_push_all st q r of (st', q', r') \<Rightarrow> queue_rep st' q' (xs @ ys) \<and> queue_rep st' r' [])"
  using op_queue_ops [OF assms] by (intro conjI impI)

definition sample_store :: "nat opstore" where
  "sample_store = \<lparr>nextp = (\<lambda>n. if n = 1 then Some 2 else None), op_ec = (\<lambda>_. no_error), destroyed = []\<rparr>"

lemma sample_queue_rep: "queue_rep sample_store \<lparr>frontp = Some 1, backp = Some 2\<rparr> [1, 2]"
  by (simp add: queue_rep_def sample_store_def)

lemma op_queue_refines_list_witness:
  "case q_push sample_store \<lparr>frontp = Some 1, backp = Some 2\<rparr> 3 of
     (st', q') \<Rightarrow> queue_rep st' q' ([1, 2] @ [3]) \<and> queue_rep st' q_new []"
  using op_queue_refines_list [OF sample_queue_rep opq.new, of 3] by simp

text \<open>
  The destructor of a queue ends, and destroys each of its operations once, in order.
\<close>

theorem queue_destructor_ends:
  assumes "queue_rep st q xs"
  shows "\<exists>st'. q_destroy st q = Some st' \<and> destroyed st' = destroyed st @ xs"
  using assms
proof (induction xs arbitrary: st q)
  case Nil
  then show ?case by (subst q_destroy.simps) (simp add: queue_rep_def)
next
  case (Cons x xs)
  obtain st1 q1 where p: "q_pop st q = (st1, q1)" by (cases "q_pop st q")
  have "queue_rep (op_destroy x st1) q1 xs" using opq.pop [OF Cons.prems p] by simp
  from Cons.IH [OF this] obtain st'
    where "q_destroy (op_destroy x st1) q1 = Some st'" "destroyed st' = destroyed (op_destroy x st1) @ xs"
    by blast
  moreover have "frontp q = Some x" using Cons.prems by (simp add: queue_rep_def)
  moreover from this p have "destroyed st1 = destroyed st"
    by (auto simp: q_pop_def Let_def set_next_def)
  ultimately show ?case
    by (subst q_destroy.simps) (simp add: p op_destroy_def)
qed

lemma queue_destructor_ends_witness:
  "\<exists>st'. q_destroy sample_store \<lparr>frontp = Some 1, backp = Some 2\<rparr> = Some st' \<and>
     destroyed st' = destroyed sample_store @ [1, 2]"
  by (rule queue_destructor_ends [OF sample_queue_rep])

end
