(* ===== verification/AsioReactorQueue.thy ===== *)
theory AsioReactorQueue
  imports AsioHashOps AsioOpQueue
begin

text \<open>
  The reactor's queues of operations, detail/reactor_op_queue.hpp: a hash map from descriptors to
  queues of operations. The entries of the map are modified in place through iterators, operations
  move to a queue of the caller, and the nodes of erased entries, with the queue that is in them,
  are used again. The operations are shown to be those of a map from descriptors to nonempty lists.
\<close>

section \<open>Operations\<close>

text \<open>
  \<open>mapped_type\<close>: copying makes a new queue and the assignment does nothing. What follows holds for
  every way of hashing descriptors.
\<close>

definition mapped_ops :: "(u32, 'o op_queue) elem_ops" where
  "mapped_ops = \<lparr>key_default = 0, hash_value = calculate_hash_value_socket, val_new = q_new,
     val_copy = (\<lambda>_. q_new), val_assign = (\<lambda>old _. old)\<rparr>"

type_synonym 'o reactor_queue = "(u32, 'o op_queue) hash_map"

datatype op_status = NotDone | Done | DoneAndExhausted

text \<open>
  \<open>perform()\<close> calls the function pointer of the operation, which works on the operation's own error
  code and on the rest of the program's state.
\<close>

type_synonym ('o, 'w) perform_func = "'o \<Rightarrow> error_code \<Rightarrow> 'w \<Rightarrow> op_status \<times> error_code \<times> 'w"

definition set_op_ec :: "'o \<Rightarrow> error_code \<Rightarrow> 'o opstore \<Rightarrow> 'o opstore" where
  "set_op_ec p ec st = st\<lparr>op_ec := (op_ec st)(p := ec)\<rparr>"

definition op_perform ::
  "('o, 'w) perform_func \<Rightarrow> 'o \<Rightarrow> 'o opstore \<Rightarrow> 'w \<Rightarrow> op_status \<times> 'o opstore \<times> 'w" where
  "op_perform pf p st w = (case pf p (op_ec st p) w of (status, ec, w) \<Rightarrow> (status, set_op_ec p ec st, w))"

text \<open>\<open>i->second\<close>, and an entry whose queue has been changed through the iterator.\<close>

definition queue_at :: "'o reactor_queue \<Rightarrow> nat \<Rightarrow> 'o op_queue" where
  "queue_at m n = snd (hm_node m n)"

definition set_queue_at :: "nat \<Rightarrow> 'o op_queue \<Rightarrow> 'o reactor_queue \<Rightarrow> 'o reactor_queue" where
  "set_queue_at n q m = m\<lparr>hm_node := (hm_node m)(n := (fst (hm_node m n), q))\<rparr>"

definition enqueue_operation ::
  "u32 \<Rightarrow> 'o \<Rightarrow> 'o opstore \<Rightarrow> 'o reactor_queue \<Rightarrow> (bool \<times> 'o opstore \<times> 'o reactor_queue) option" where
  "enqueue_operation d p st m =
     Option.bind (hm_insert mapped_ops m (d, q_new)) (\<lambda>(it, isnew, m).
       case it of None \<Rightarrow> None
       | Some n \<Rightarrow> let (st, q) = q_push st (queue_at m n) p in Some (isnew, st, set_queue_at n q m))"

partial_function (option) rq_cancel_loop ::
  "error_code \<Rightarrow> 'o opstore \<Rightarrow> 'o op_queue \<Rightarrow> 'o op_queue \<Rightarrow> ('o opstore \<times> 'o op_queue \<times> 'o op_queue) option"
where
  "rq_cancel_loop ec st q ops =
     (case q_front q of
        None \<Rightarrow> Some (st, q, ops)
      | Some p \<Rightarrow>
          let st = set_op_ec p ec st; (st, q) = q_pop st q; (st, ops) = q_push st ops p
          in rq_cancel_loop ec st q ops)"

text \<open>The results are what the function returns, the store, the map and the caller's queue.\<close>

definition cancel_operations_at ::
  "error_code \<Rightarrow> nat option \<Rightarrow> 'o opstore \<Rightarrow> 'o reactor_queue \<Rightarrow> 'o op_queue \<Rightarrow>
   (bool \<times> 'o opstore \<times> 'o reactor_queue \<times> 'o op_queue) option" where
  "cancel_operations_at ec i st m ops =
     (case i of
        Some n \<Rightarrow>
          Option.bind (rq_cancel_loop ec st (queue_at m n) ops) (\<lambda>(st, q, ops).
            Some (True, st, hm_erase mapped_ops (set_queue_at n q m) n, ops))
      | None \<Rightarrow> Some (False, st, m, ops))"

definition cancel_operations ::
  "error_code \<Rightarrow> u32 \<Rightarrow> 'o opstore \<Rightarrow> 'o reactor_queue \<Rightarrow> 'o op_queue \<Rightarrow>
   (bool \<times> 'o opstore \<times> 'o reactor_queue \<times> 'o op_queue) option" where
  "cancel_operations ec d st m ops =
     Option.bind (hm_find mapped_ops m d) (\<lambda>i. cancel_operations_at ec i st m ops)"

definition rq_empty :: "'o reactor_queue \<Rightarrow> bool" where
  "rq_empty m \<longleftrightarrow> hm_empty m"

definition has_operation :: "u32 \<Rightarrow> 'o reactor_queue \<Rightarrow> bool option" where
  "has_operation d m = map_option (\<lambda>i. i \<noteq> hm_end) (hm_find mapped_ops m d)"

text \<open>The loop's first result is whether an operation is not finished.\<close>

partial_function (option) perform_loop ::
  "('o, 'w) perform_func \<Rightarrow> 'w \<Rightarrow> 'o opstore \<Rightarrow> 'o op_queue \<Rightarrow> 'o op_queue \<Rightarrow>
   (bool \<times> 'w \<times> 'o opstore \<times> 'o op_queue \<times> 'o op_queue) option" where
  "perform_loop pf w st q ops =
     (case q_front q of
        None \<Rightarrow> Some (False, w, st, q, ops)
      | Some p \<Rightarrow>
          let (status, st, w) = op_perform pf p st w in
          if status \<noteq> NotDone then
            let (st, q) = q_pop st q; (st, ops) = q_push st ops p in perform_loop pf w st q ops
          else Some (True, w, st, q, ops))"

definition perform_operations_at ::
  "('o, 'w) perform_func \<Rightarrow> nat option \<Rightarrow> 'w \<Rightarrow> 'o opstore \<Rightarrow> 'o reactor_queue \<Rightarrow> 'o op_queue \<Rightarrow>
   (bool \<times> 'w \<times> 'o opstore \<times> 'o reactor_queue \<times> 'o op_queue) option" where
  "perform_operations_at pf i w st m ops =
     (case i of
        Some n \<Rightarrow>
          Option.bind (perform_loop pf w st (queue_at m n) ops) (\<lambda>(unfinished, w, st, q, ops).
            let m = set_queue_at n q m in
            if unfinished then Some (True, w, st, m, ops)
            else Some (False, w, st, hm_erase mapped_ops m n, ops))
      | None \<Rightarrow> Some (False, w, st, m, ops))"

definition perform_operations ::
  "('o, 'w) perform_func \<Rightarrow> u32 \<Rightarrow> 'w \<Rightarrow> 'o opstore \<Rightarrow> 'o reactor_queue \<Rightarrow> 'o op_queue \<Rightarrow>
   (bool \<times> 'w \<times> 'o opstore \<times> 'o reactor_queue \<times> 'o op_queue) option" where
  "perform_operations pf d w st m ops =
     Option.bind (hm_find mapped_ops m d) (\<lambda>i. perform_operations_at pf i w st m ops)"

partial_function (option) get_all_loop ::
  "nat option \<Rightarrow> 'o opstore \<Rightarrow> 'o reactor_queue \<Rightarrow> 'o op_queue \<Rightarrow>
   ('o opstore \<times> 'o reactor_queue \<times> 'o op_queue) option" where
  "get_all_loop i st m ops =
     (case i of
        None \<Rightarrow> Some (st, m, ops)
      | Some op_iter \<Rightarrow>
          let i = next_in (hm_values m) op_iter;
              (st, ops, q) = q_push_all st ops (queue_at m op_iter)
          in get_all_loop i st (hm_erase mapped_ops (set_queue_at op_iter q m) op_iter) ops)"

definition get_all_operations ::
  "'o opstore \<Rightarrow> 'o reactor_queue \<Rightarrow> 'o op_queue \<Rightarrow> ('o opstore \<times> 'o reactor_queue \<times> 'o op_queue) option" where
  "get_all_operations st m ops = get_all_loop (hm_begin m) st m ops"

section \<open>The loops\<close>

lemma queue_rep_set_op_ec [simp]: "queue_rep (set_op_ec p e st) q xs = queue_rep st q xs"
  by (simp add: set_op_ec_def)

lemma op_ec_set_op_ec [simp]: "op_ec (set_op_ec p e st) = (op_ec st)(p := e)"
  by (simp add: set_op_ec_def)

lemma destroyed_set_op_ec [simp]: "destroyed (set_op_ec p e st) = destroyed st"
  by (simp add: set_op_ec_def)

lemma only_touches_set_op_ec: "p \<in> S \<Longrightarrow> only_touches S st (set_op_ec p e st)"
  by (auto simp: only_touches_def)

text \<open>One operation from the front of a queue to the end of another.\<close>

lemma move_one:
  assumes q: "queue_rep st q (p # xs)" and ops: "queue_rep st ops ys" and dj: "set (p # xs) \<inter> set ys = {}"
    and pop: "q_pop st q = (st1, q1)" and push: "q_push st1 ops p = (st2, ops2)"
  shows "queue_rep st2 q1 xs \<and> queue_rep st2 ops2 (ys @ [p]) \<and> only_touches (set (p # xs) \<union> set ys) st st2 \<and>
    op_ec st2 = op_ec st"
proof -
  have q1: "queue_rep st1 q1 xs" and ops1: "queue_rep st1 ops ys"
    using opq.pop [OF q pop] opq.pop_others [OF q pop ops dj] by simp_all
  have p: "p \<notin> set ys" "p \<notin> set xs" using opq.distinct [OF q] dj by auto
  have "only_touches (set (p # xs)) st st1"
    by (rule only_touchesI [OF pop_keeps [OF pop]], rule opq.pop_others [OF _ pop]) (use q in auto)
  then have "only_touches (set (p # xs) \<union> set ys) st st1" by (rule only_touches_mono) auto
  also have "only_touches (set (p # xs) \<union> set ys) st1 st2"
    using push_touches [OF ops1 push] by (rule only_touches_mono) auto
  finally have t: "only_touches (set (p # xs) \<union> set ys) st st2" .
  have "queue_rep st2 q1 xs"
    using opq.push_others [OF ops1 push q1 p(2)] dj by auto
  with t show ?thesis
    using opq.push [OF ops1 p(1) push] pop_keeps [OF pop] push_keeps [OF push] by simp
qed

lemma rq_cancel_loop_moves:
  assumes "queue_rep st q xs" and "queue_rep st ops ys" and "set xs \<inter> set ys = {}"
  shows "\<exists>st' q' ops'. rq_cancel_loop ec st q ops = Some (st', q', ops') \<and> queue_rep st' q' [] \<and>
    queue_rep st' ops' (ys @ xs) \<and> only_touches (set xs \<union> set ys) st st' \<and>
    op_ec st' = (\<lambda>p. if p \<in> set xs then ec else op_ec st p)"
  using assms
proof (induction xs arbitrary: st q ops ys)
  case Nil
  then show ?case by (subst rq_cancel_loop.simps) (simp add: opq.front)
next
  case (Cons p xs)
  obtain st1 q1 where pop: "q_pop (set_op_ec p ec st) q = (st1, q1)" by fastforce
  obtain st2 ops2 where push: "q_push st1 ops p = (st2, ops2)" by fastforce
  have m: "queue_rep st2 q1 xs" "queue_rep st2 ops2 (ys @ [p])"
    "only_touches (set (p # xs) \<union> set ys) (set_op_ec p ec st) st2" "op_ec st2 = (op_ec st)(p := ec)"
    using move_one [OF _ _ Cons.prems(3) pop push] Cons.prems(1,2) by simp_all
  have "only_touches (set (p # xs) \<union> set ys) st (set_op_ec p ec st)" by (simp add: only_touches_set_op_ec)
  also note m(3)
  finally have t: "only_touches (set (p # xs) \<union> set ys) st st2" .
  have "set xs \<inter> set (ys @ [p]) = {}" using Cons.prems opq.distinct [OF Cons.prems(1)] by auto
  from Cons.IH [OF m(1,2) this] obtain st' q' ops' where
    r: "rq_cancel_loop ec st2 q1 ops2 = Some (st', q', ops')" "queue_rep st' q' []"
      "queue_rep st' ops' ((ys @ [p]) @ xs)" "only_touches (set xs \<union> set (ys @ [p])) st2 st'"
      "op_ec st' = (\<lambda>x. if x \<in> set xs then ec else op_ec st2 x)" by blast
  have "only_touches (set (p # xs) \<union> set ys) st2 st'" using r(4) by (rule only_touches_mono) auto
  with t have "only_touches (set (p # xs) \<union> set ys) st st'" by (rule only_touches_trans)
  moreover have "rq_cancel_loop ec st q ops = Some (st', q', ops')"
    using opq.front [OF Cons.prems(1)] by (subst rq_cancel_loop.simps) (simp add: pop push r(1))
  ultimately show ?case using r(2,3,5) m(4) by (intro exI conjI) (assumption | auto)+
qed

text \<open>
  What performing a list of operations comes to: those that finish, up to the first one that does
  not, the error codes and the state.
\<close>

fun performed ::
  "('o, 'w) perform_func \<Rightarrow> ('o \<Rightarrow> error_code) \<Rightarrow> 'w \<Rightarrow> 'o list \<Rightarrow> 'o list \<times> 'o list \<times> ('o \<Rightarrow> error_code) \<times> 'w"
where
  "performed pf ec w [] = ([], [], ec, w)"
| "performed pf ec w (p # xs) =
     (case pf p (ec p) w of (status, e, w) \<Rightarrow>
        if status = NotDone then ([], p # xs, ec(p := e), w)
        else (case performed pf (ec(p := e)) w xs of (ds, rs, ec, w) \<Rightarrow> (p # ds, rs, ec, w)))"

lemma performed_parts: "performed pf ec w xs = (ds, rs, ec', w') \<Longrightarrow> ds @ rs = xs"
  by (induction xs arbitrary: ec w ds) (auto split: prod.splits if_splits)

lemma performed_ec: "performed pf ec w xs = (ds, rs, ec', w') \<Longrightarrow> p \<notin> set xs \<Longrightarrow> ec' p = ec p"
  by (induction xs arbitrary: ec w ds) (fastforce split: prod.splits if_splits)+

lemma perform_loop_moves:
  assumes "queue_rep st q xs" and "queue_rep st ops ys" and "set xs \<inter> set ys = {}"
    and "performed pf (op_ec st) w xs = (ds, rs, ec', w')"
  shows "\<exists>st' q' ops'. perform_loop pf w st q ops = Some (rs \<noteq> [], w', st', q', ops') \<and> queue_rep st' q' rs \<and>
    queue_rep st' ops' (ys @ ds) \<and> only_touches (set xs \<union> set ys) st st' \<and> op_ec st' = ec'"
  using assms
proof (induction xs arbitrary: st q ops ys w ds)
  case Nil
  then show ?case by (subst perform_loop.simps) (simp add: opq.front)
next
  case (Cons p xs)
  obtain status e w1 where pf: "pf p (op_ec st p) w = (status, e, w1)" by (cases "pf p (op_ec st p) w")
  then have perf: "op_perform pf p st w = (status, set_op_ec p e st, w1)" by (simp add: op_perform_def)
  have front: "q_front q = Some p" using opq.front [OF Cons.prems(1)] by simp
  have t1: "only_touches (set (p # xs) \<union> set ys) st (set_op_ec p e st)" by (simp add: only_touches_set_op_ec)
  show ?case
  proof (cases "status = NotDone")
    case True
    with Cons.prems(1,2,4) pf front perf t1 show ?thesis by (subst perform_loop.simps) auto
  next
    case False
    obtain ds1 where ds: "ds = p # ds1" and rest: "performed pf ((op_ec st)(p := e)) w1 xs = (ds1, rs, ec', w')"
      using Cons.prems(4) pf False by (auto split: prod.splits)
    obtain st1 q1 where pop: "q_pop (set_op_ec p e st) q = (st1, q1)" by fastforce
    obtain st2 ops2 where push: "q_push st1 ops p = (st2, ops2)" by fastforce
    have m: "queue_rep st2 q1 xs" "queue_rep st2 ops2 (ys @ [p])"
      "only_touches (set (p # xs) \<union> set ys) (set_op_ec p e st) st2" "op_ec st2 = (op_ec st)(p := e)"
      using move_one [OF _ _ Cons.prems(3) pop push] Cons.prems(1,2) by simp_all
    have "set xs \<inter> set (ys @ [p]) = {}" using Cons.prems opq.distinct [OF Cons.prems(1)] by auto
    from Cons.IH [OF m(1,2) this rest [folded m(4)]] obtain st' q' ops' where
      r: "perform_loop pf w1 st2 q1 ops2 = Some (rs \<noteq> [], w', st', q', ops')" "queue_rep st' q' rs"
        "queue_rep st' ops' ((ys @ [p]) @ ds1)" "only_touches (set xs \<union> set (ys @ [p])) st2 st'" "op_ec st' = ec'"
      by blast
    have "only_touches (set (p # xs) \<union> set ys) st2 st'" using r(4) by (rule only_touches_mono) auto
    with t1 m(3) have "only_touches (set (p # xs) \<union> set ys) st st'" by (blast intro: only_touches_trans)
    moreover have "perform_loop pf w st q ops = Some (rs \<noteq> [], w', st', q', ops')"
      by (subst perform_loop.simps) (simp add: front perf False pop push r(1))
    ultimately show ?thesis using r(2,3,5) ds by (intro exI conjI) (assumption | simp)+
  qed
qed

section \<open>The map from descriptors to lists of operations\<close>

definition all_ops :: "(u32 \<rightharpoonup> 'o list) \<Rightarrow> 'o set" where
  "all_ops A = \<Union> (set ` ran A)"

definition apart :: "(u32 \<rightharpoonup> 'o list) \<Rightarrow> bool" where
  "apart A \<longleftrightarrow> (\<forall>d e xs ys. A d = Some xs \<longrightarrow> A e = Some ys \<longrightarrow> d \<noteq> e \<longrightarrow> set xs \<inter> set ys = {})"

definition holds_queue :: "'o opstore \<Rightarrow> 'o op_queue option \<Rightarrow> 'o list option \<Rightarrow> bool" where
  "holds_queue st = rel_option (\<lambda>q xs. xs \<noteq> [] \<and> queue_rep st q xs)"

text \<open>
  The queues of all descriptors but \<open>d\<close>, as they are while the entry of \<open>d\<close> is worked on, and of all
  descriptors. The queues in spare nodes are empty.
\<close>

definition rq_but :: "u32 \<Rightarrow> 'o opstore \<Rightarrow> 'o reactor_queue \<Rightarrow> (u32 \<rightharpoonup> 'o list) \<Rightarrow> bool" where
  "rq_but d st m B \<longleftrightarrow> hm_inv mapped_ops m \<and> (\<forall>e. e \<noteq> d \<longrightarrow> holds_queue st (hm_map m e) (B e)) \<and> B d = None \<and>
     apart B \<and> (\<forall>n \<in> set (hm_spares m). queue_at m n = q_new)"

definition rq_rep :: "'o opstore \<Rightarrow> 'o reactor_queue \<Rightarrow> (u32 \<rightharpoonup> 'o list) \<Rightarrow> bool" where
  "rq_rep st m A \<longleftrightarrow> hm_inv mapped_ops m \<and> (\<forall>e. holds_queue st (hm_map m e) (A e)) \<and>
     apart A \<and> (\<forall>n \<in> set (hm_spares m). queue_at m n = q_new)"

lemma all_ops_empty [simp]: "all_ops Map.empty = {}"
  by (simp add: all_ops_def)

lemma all_ops_upd [simp]: "all_ops (A(d \<mapsto> xs)) = set xs \<union> all_ops (A(d := None))"
  by (auto simp: all_ops_def ran_def split: if_splits)

lemma all_ops_split: "A d = Some xs \<Longrightarrow> all_ops A = set xs \<union> all_ops (A(d := None))"
  using all_ops_upd [of A d xs] by (simp add: fun_upd_idem)

lemma all_ops_None: "A d = None \<Longrightarrow> A(d := None) = A"
  by (rule fun_upd_idem)

lemma apart_del [simp]: "apart A \<Longrightarrow> apart (A(d := None))"
  by (auto simp: apart_def split: if_splits)

lemma apart_upd: "apart A \<Longrightarrow> set xs \<inter> all_ops (A(d := None)) = {} \<Longrightarrow> apart (A(d \<mapsto> xs))"
  unfolding apart_def all_ops_def ran_def by (auto split: if_splits)

lemma apart_rest: "apart A \<Longrightarrow> A d = Some xs \<Longrightarrow> set xs \<inter> all_ops (A(d := None)) = {}"
  unfolding apart_def all_ops_def ran_def by (auto split: if_splits) blast

lemma holds_queue_frame:
  "holds_queue st q (A d) \<Longrightarrow> only_touches S st st' \<Longrightarrow> S \<inter> all_ops A = {} \<Longrightarrow> holds_queue st' q (A d)"
  unfolding holds_queue_def all_ops_def ran_def
  by (cases "A d"; cases q) (auto dest!: only_touchesD)

lemma rq_rep_frame: "rq_rep st m A \<Longrightarrow> only_touches S st st' \<Longrightarrow> S \<inter> all_ops A = {} \<Longrightarrow> rq_rep st' m A"
  unfolding rq_rep_def using holds_queue_frame by blast

lemma rq_but_frame: "rq_but d st m B \<Longrightarrow> only_touches S st st' \<Longrightarrow> S \<inter> all_ops B = {} \<Longrightarrow> rq_but d st' m B"
  unfolding rq_but_def using holds_queue_frame by blast

lemma rq_rep_but: "rq_rep st m A \<Longrightarrow> rq_but d st m (A(d := None))"
  by (simp add: rq_rep_def rq_but_def)

text \<open>The entry of a descriptor.\<close>

lemma rq_entry:
  assumes "rq_rep st m A"
  shows "case entry_of m d of None \<Rightarrow> A d = None
    | Some n \<Rightarrow> n \<in> set (hm_values m) \<and> key_at m n = d \<and> (\<exists>xs. A d = Some xs \<and> xs \<noteq> [] \<and> queue_rep st (queue_at m n) xs)"
proof -
  have "holds_queue st (hm_map m d) (A d)" using assms by (simp add: rq_rep_def)
  then show ?thesis
    using entry_of_SomeD [of m d]
    by (auto simp: holds_queue_def hm_map_entry queue_at_def rel_option_iff split: option.splits)
qed

lemma key_at_set_queue_at [simp]: "key_at (set_queue_at n q m) = key_at m"
  by (auto simp: key_at_def set_queue_at_def fun_eq_iff)

lemma set_queue_at_keeps [simp]:
  "hm_values (set_queue_at n q m) = hm_values m" "hm_spares (set_queue_at n q m) = hm_spares m"
  "hm_buckets (set_queue_at n q m) = hm_buckets m" "hm_num_buckets (set_queue_at n q m) = hm_num_buckets m"
  "hm_size (set_queue_at n q m) = hm_size m" "hm_fresh (set_queue_at n q m) = hm_fresh m"
  "queue_at (set_queue_at n q m) x = (if x = n then q else queue_at m x)"
  "snd (hm_node (set_queue_at n q m) n) = q" "x \<noteq> n \<Longrightarrow> hm_node (set_queue_at n q m) x = hm_node m x"
  by (simp_all add: set_queue_at_def queue_at_def)

lemma mapped_ops_simps [simp]:
  "val_assign mapped_ops old v = old" "val_copy mapped_ops v = q_new" "val_new mapped_ops = q_new"
  by (simp_all add: mapped_ops_def)

lemma hm_inv_set_queue_at [simp]: "hm_inv E (set_queue_at n q m) = hm_inv E m"
proof -
  have "part_inv E (set_queue_at n q m) ns = part_inv E m ns" for ns
    by (rule part_inv_cong) simp_all
  then show ?thesis by (simp add: hm_inv_def nodes_inv_def)
qed

lemma hm_map_set_queue_at:
  assumes "hm_inv E m" and "n \<in> set (hm_values m)"
  shows "hm_map (set_queue_at n q m) = (hm_map m)(key_at m n \<mapsto> q)"
proof
  fix d
  have e: "entry_of (set_queue_at n q m) = entry_of m" by (simp add: entry_of_def fun_eq_iff)
  have u: "entry_of m (key_at m n) = Some n" using assms by (intro entry_of_unique) (simp_all add: hm_inv_def nodes_inv_def)
  show "hm_map (set_queue_at n q m) d = ((hm_map m)(key_at m n \<mapsto> q)) d"
    unfolding hm_map_entry e using u entry_of_SomeD [of m d]
    by (cases "entry_of m d") (auto simp: set_queue_at_def hm_map_entry)
qed

lemma rq_store:
  assumes "rq_but d st m B" and "n \<in> set (hm_values m)" and "key_at m n = d"
    and "queue_rep st q zs" and "zs \<noteq> []" and "set zs \<inter> all_ops B = {}"
  shows "rq_rep st (set_queue_at n q m) (B(d \<mapsto> zs))"
proof -
  have inv: "hm_inv mapped_ops m" and "n \<notin> set (hm_spares m)"
    using assms(1,2) by (auto simp: rq_but_def hm_inv_def nodes_inv_def)
  moreover have "apart (B(d \<mapsto> zs))"
    using assms(1,6) by (intro apart_upd) (simp_all add: rq_but_def all_ops_None)
  ultimately show ?thesis
    using assms(1,4,5) unfolding rq_rep_def hm_map_set_queue_at [OF inv assms(2)] assms(3)
    by (auto simp: rq_but_def holds_queue_def)
qed

lemma rq_remove:
  assumes "rq_but d st m B" and "n \<in> set (hm_values m)" and "key_at m n = d" and "queue_rep st q []"
  shows "rq_rep st (hm_erase mapped_ops (set_queue_at n q m) n) B"
proof -
  let ?m = "set_queue_at n q m"
  have inv: "hm_inv mapped_ops m" and "n \<notin> set (hm_spares m)"
    using assms(1,2) by (auto simp: rq_but_def hm_inv_def nodes_inv_def)
  have q: "q = q_new" using assms(4) by (cases q) (simp add: queue_rep_def q_new_def)
  have e: "hm_inv mapped_ops (hm_erase mapped_ops ?m n)"
    "hm_map (hm_erase mapped_ops ?m n) = (hm_map ?m)(d := None)"
    "hm_spares (hm_erase mapped_ops ?m n) = n # hm_spares m"
    "\<forall>x. x \<noteq> n \<longrightarrow> hm_node (hm_erase mapped_ops ?m n) x = hm_node ?m x"
    "snd (hm_node (hm_erase mapped_ops ?m n) n) = q"
    using erase_correct [of mapped_ops ?m n] inv assms(2,3) by simp_all
  have "queue_at (hm_erase mapped_ops ?m n) x = (if x = n then q else queue_at m x)" for x
    using e(4,5) by (auto simp: queue_at_def set_queue_at_def)
  then show ?thesis
    using e(1-3) assms(1,3) q hm_map_set_queue_at [OF inv assms(2), of q]
    by (auto simp: rq_rep_def rq_but_def holds_queue_def)
qed

section \<open>The operations on the map of lists\<close>

definition old_ops :: "(u32 \<rightharpoonup> 'o list) \<Rightarrow> u32 \<Rightarrow> 'o list" where
  "old_ops A d = (case A d of None \<Rightarrow> [] | Some xs \<Rightarrow> xs)"

lemma old_ops_subset: "set (old_ops A d) \<subseteq> all_ops A"
  by (cases "A d") (auto simp: old_ops_def all_ops_def ran_def)

lemma old_ops_rest: "apart A \<Longrightarrow> set (old_ops A d) \<inter> all_ops (A(d := None)) = {}"
  using apart_rest [of A d] by (cases "A d") (simp_all add: old_ops_def)

lemma all_ops_del: "all_ops (A(d := None)) \<subseteq> all_ops A"
  by (auto simp: all_ops_def ran_def split: if_splits)

lemma hm_map_at: "hm_inv E m \<Longrightarrow> n \<in> set (hm_values m) \<Longrightarrow> hm_map m (key_at m n) = Some (snd (hm_node m n))"
  by (simp add: hm_map_entry entry_of_unique hm_inv_def nodes_inv_def)

text \<open>The insertion of an empty queue makes or finds the entry of the descriptor.\<close>

lemma insert_entry:
  assumes "rq_rep st m A"
  shows "\<exists>n m'. hm_insert mapped_ops m (d, q_new) = Some (Some n, A d = None, m') \<and>
    rq_but d st m' (A(d := None)) \<and> n \<in> set (hm_values m') \<and> key_at m' n = d \<and>
    queue_rep st (queue_at m' n) (old_ops A d)"
proof -
  have inv: "hm_inv mapped_ops m" and ap: "apart A" and sp: "\<forall>n \<in> set (hm_spares m). queue_at m n = q_new"
    and h: "\<And>e. holds_queue st (hm_map m e) (A e)"
    using assms by (auto simp: rq_rep_def)
  have iv: "inserted_value mapped_ops m q_new = q_new"
    using sp by (auto simp: inserted_value_def queue_at_def split: list.split)
  obtain n isnew m' where i: "hm_insert mapped_ops m (d, q_new) = Some (Some n, isnew, m')" "hm_inv mapped_ops m'"
    "isnew = (hm_map m d = None)" "hm_map m' = (if isnew then (hm_map m)(d \<mapsto> q_new) else hm_map m)"
    "n \<in> set (hm_values m')" "key_at m' n = d"
    "set (hm_spares m') \<subseteq> set (hm_spares m)" "\<forall>x \<in> set (hm_spares m'). hm_node m' x = hm_node m x"
    using insert_correct [OF inv, of d q_new] unfolding iv
    by (elim exE conjE) (rule that, auto split: if_splits)
  have isnew: "isnew \<longleftrightarrow> A d = None"
    using h [of d] i(3) by (auto simp: holds_queue_def rel_option_iff split: option.splits)
  have "rq_but d st m' (A(d := None))"
    using i(2,4,7,8) h ap sp by (auto simp: rq_but_def queue_at_def)
  moreover have "hm_map m' d = Some (queue_at m' n)"
    using hm_map_at [OF i(2,5)] i(6) by (simp add: queue_at_def)
  then have "queue_rep st (queue_at m' n) (old_ops A d)"
    using h [of d] i(4) isnew opq.new [of st]
    by (auto simp: old_ops_def holds_queue_def rel_option_iff split: option.splits if_splits)
  ultimately show ?thesis using i(1,5,6) unfolding isnew by blast
qed

lemma enqueue_correct:
  assumes "rq_rep st m A" and "p \<notin> all_ops A"
  shows "\<exists>st' m'. enqueue_operation d p st m = Some (A d = None, st', m') \<and>
    rq_rep st' m' (A(d \<mapsto> old_ops A d @ [p])) \<and> only_touches (insert p (set (old_ops A d))) st st' \<and>
    op_ec st' = op_ec st"
proof -
  obtain n m1 where i: "hm_insert mapped_ops m (d, q_new) = Some (Some n, A d = None, m1)"
    "rq_but d st m1 (A(d := None))" "n \<in> set (hm_values m1)" "key_at m1 n = d"
    "queue_rep st (queue_at m1 n) (old_ops A d)"
    using insert_entry [OF assms(1)] by blast
  obtain st' q' where push: "q_push st (queue_at m1 n) p = (st', q')" by fastforce
  have ap: "set (old_ops A d) \<inter> all_ops (A(d := None)) = {}"
    using assms(1) by (intro old_ops_rest) (simp add: rq_rep_def)
  have p: "p \<notin> all_ops (A(d := None))" "p \<notin> set (old_ops A d)"
    using assms(2) all_ops_del old_ops_subset by fast+
  have t: "only_touches (insert p (set (old_ops A d))) st st'" using push_touches [OF i(5) push] .
  have "rq_but d st' m1 (A(d := None))" using rq_but_frame [OF i(2) t] p(1) ap by auto
  from rq_store [OF this i(3,4) opq.push [OF i(5) p(2) push]] p(1) ap
  have "rq_rep st' (set_queue_at n q' m1) (A(d \<mapsto> old_ops A d @ [p]))" by simp
  moreover have "enqueue_operation d p st m = Some (A d = None, st', set_queue_at n q' m1)"
    by (simp add: enqueue_operation_def i(1) push)
  ultimately show ?thesis using t push_keeps [OF push] by blast
qed

text \<open>The entry of a descriptor, as \<open>cancel_operations\<close> and \<open>perform_operations\<close> find it.\<close>

lemma found_entry:
  assumes "rq_rep st m A" and "A d = Some xs"
  obtains n where "hm_find mapped_ops m d = Some (Some n)" "n \<in> set (hm_values m)" "key_at m n = d" "xs \<noteq> []"
    "queue_rep st (queue_at m n) xs"
  using rq_entry [OF assms(1), of d] assms find_entry [of mapped_ops m d]
  by (auto simp: rq_rep_def split: option.splits)

lemma no_entry: "rq_rep st m A \<Longrightarrow> A d = None \<Longrightarrow> hm_find mapped_ops m d = Some None"
  using rq_entry [of st m A d] find_entry [of mapped_ops m d] by (auto simp: rq_rep_def split: option.splits)

lemma cancel_correct:
  assumes "rq_rep st m A" and "queue_rep st ops ys" and "set ys \<inter> all_ops A = {}"
  shows "\<exists>st' m' ops'. cancel_operations ec d st m ops = Some (A d \<noteq> None, st', m', ops') \<and>
    rq_rep st' m' (A(d := None)) \<and> queue_rep st' ops' (ys @ old_ops A d) \<and>
    only_touches (set ys \<union> set (old_ops A d)) st st' \<and>
    op_ec st' = (\<lambda>p. if p \<in> set (old_ops A d) then ec else op_ec st p)"
proof (cases "A d")
  case None
  then show ?thesis
    using assms no_entry [OF assms(1) None]
    by (simp add: cancel_operations_def cancel_operations_at_def old_ops_def all_ops_None)
next
  case (Some xs)
  obtain n where n: "hm_find mapped_ops m d = Some (Some n)" "n \<in> set (hm_values m)" "key_at m n = d" "xs \<noteq> []"
    "queue_rep st (queue_at m n) xs"
    using found_entry [OF assms(1) Some] .
  have dj: "set xs \<inter> set ys = {}" "set ys \<inter> all_ops (A(d := None)) = {}" "set xs \<inter> all_ops (A(d := None)) = {}"
    using assms(1,3) apart_rest [of A d, OF _ Some] unfolding all_ops_split [of A, OF Some] by (auto simp: rq_rep_def)
  obtain st' q' ops' where c: "rq_cancel_loop ec st (queue_at m n) ops = Some (st', q', ops')" "queue_rep st' q' []"
    "queue_rep st' ops' (ys @ xs)" "only_touches (set xs \<union> set ys) st st'"
    "op_ec st' = (\<lambda>p. if p \<in> set xs then ec else op_ec st p)"
    using rq_cancel_loop_moves [OF n(5) assms(2) dj(1)] by blast
  have "rq_but d st' m (A(d := None))"
    using rq_but_frame [OF rq_rep_but [OF assms(1)] c(4)] dj by blast
  from rq_remove [OF this n(2,3) c(2)] c(3-5) show ?thesis
    by (simp add: cancel_operations_def cancel_operations_at_def n(1) c(1) old_ops_def Some Un_commute)
qed

lemma perform_correct:
  assumes "rq_rep st m A" and "queue_rep st ops ys" and "set ys \<inter> all_ops A = {}"
    and perf: "performed pf (op_ec st) w (old_ops A d) = (ds, rs, ec', w')"
  shows "\<exists>st' m' ops'. perform_operations pf d w st m ops = Some (rs \<noteq> [], w', st', m', ops') \<and>
    rq_rep st' m' (A(d := (if rs = [] then None else Some rs))) \<and> queue_rep st' ops' (ys @ ds) \<and>
    only_touches (set ys \<union> set (old_ops A d)) st st' \<and> op_ec st' = ec'"
proof (cases "A d")
  case None
  then show ?thesis
    using assms no_entry [OF assms(1) None]
    by (simp add: perform_operations_def perform_operations_at_def old_ops_def all_ops_None)
next
  case (Some xs)
  obtain n where n: "hm_find mapped_ops m d = Some (Some n)" "n \<in> set (hm_values m)" "key_at m n = d" "xs \<noteq> []"
    "queue_rep st (queue_at m n) xs"
    using found_entry [OF assms(1) Some] .
  have dj: "set xs \<inter> set ys = {}" "set ys \<inter> all_ops (A(d := None)) = {}" "set xs \<inter> all_ops (A(d := None)) = {}"
    using assms(1,3) apart_rest [of A d, OF _ Some] unfolding all_ops_split [of A, OF Some] by (auto simp: rq_rep_def)
  have perf': "performed pf (op_ec st) w xs = (ds, rs, ec', w')" using perf Some by (simp add: old_ops_def)
  obtain st' q' ops' where c: "perform_loop pf w st (queue_at m n) ops = Some (rs \<noteq> [], w', st', q', ops')"
    "queue_rep st' q' rs" "queue_rep st' ops' (ys @ ds)" "only_touches (set xs \<union> set ys) st st'" "op_ec st' = ec'"
    using perform_loop_moves [OF n(5) assms(2) dj(1) perf'] by blast
  have but: "rq_but d st' m (A(d := None))"
    using rq_but_frame [OF rq_rep_but [OF assms(1)] c(4)] dj by blast
  have "set rs \<inter> all_ops (A(d := None)) = {}" using performed_parts [OF perf'] dj(3) by auto
  with rq_store [OF but n(2,3) c(2)] have "rs \<noteq> [] \<Longrightarrow> rq_rep st' (set_queue_at n q' m) (A(d \<mapsto> rs))" by simp
  moreover have "rs = [] \<Longrightarrow> rq_rep st' (hm_erase mapped_ops (set_queue_at n q' m) n) (A(d := None))"
    using rq_remove [OF but n(2,3)] c(2) by simp
  ultimately show ?thesis using c(3-5)
    by (auto simp: perform_operations_def perform_operations_at_def n(1) c(1) old_ops_def Some Un_commute)
qed

text \<open>The descriptors with operations, in the order of the map's list.\<close>

definition descriptors :: "'o reactor_queue \<Rightarrow> u32 list" where
  "descriptors m = map (key_at m) (hm_values m)"

lemma descriptors_dom:
  assumes "rq_rep st m A"
  shows "set (descriptors m) = dom A \<and> distinct (descriptors m)"
proof -
  have "d \<in> set (descriptors m) \<longleftrightarrow> A d \<noteq> None" for d
    using rq_entry [OF assms, of d] entry_of_None [of m d] by (auto simp: descriptors_def split: option.splits)
  then show ?thesis using assms by (auto simp: rq_rep_def hm_inv_def nodes_inv_def descriptors_def)
qed

lemma empty_correct:
  assumes "rq_rep st m A"
  shows "rq_empty m \<longleftrightarrow> A = Map.empty"
proof -
  have "set (descriptors m) = dom A" using descriptors_dom [OF assms] by blast
  then have "hm_values m = [] \<longleftrightarrow> dom A = {}" unfolding descriptors_def by (metis set_empty2 map_is_Nil_conv)
  then show ?thesis by (simp add: rq_empty_def hm_empty_def)
qed

lemma has_operation_correct:
  assumes "rq_rep st m A"
  shows "has_operation d m = Some (A d \<noteq> None)"
proof (cases "A d")
  case None
  then show ?thesis using no_entry [OF assms] by (simp add: has_operation_def hm_end_def)
next
  case (Some xs)
  obtain n where "hm_find mapped_ops m d = Some (Some n)" using found_entry [OF assms Some] by blast
  then show ?thesis using Some by (simp add: has_operation_def hm_end_def)
qed

lemma get_all_loop_correct:
  assumes "rq_rep st m A" and "queue_rep st ops ys" and "set ys \<inter> all_ops A = {}" and "hm_values m = ns"
  shows "\<exists>st' m' ops'. get_all_loop (first_of ns) st m ops = Some (st', m', ops') \<and> rq_rep st' m' Map.empty \<and>
    queue_rep st' ops' (ys @ concat (map (old_ops A) (descriptors m))) \<and>
    only_touches (set ys \<union> all_ops A) st st' \<and> op_ec st' = op_ec st"
  using assms
proof (induction ns arbitrary: st m ops ys A)
  case Nil
  then have "A = Map.empty" using descriptors_dom [OF Nil.prems(1)] dom_eq_empty_conv [of A] by (simp add: descriptors_def)
  with Nil show ?case by (subst get_all_loop.simps) (simp add: descriptors_def)
next
  case (Cons n ns)
  let ?d = "key_at m n"
  let ?A = "A(?d := None)"
  have inv: "hm_inv mapped_ops m" and n: "n \<in> set (hm_values m)" "distinct (n # ns)" and ap: "apart A"
    using Cons.prems(1,4) by (auto simp: rq_rep_def hm_inv_def nodes_inv_def)
  have "entry_of m ?d = Some n" using inv n(1) by (simp add: entry_of_unique hm_inv_def nodes_inv_def)
  with rq_entry [OF Cons.prems(1), of ?d] obtain xs
    where xs: "A ?d = Some xs" "queue_rep st (queue_at m n) xs" by auto
  have dj: "set ys \<inter> set xs = {}" "set ys \<inter> all_ops ?A = {}" "set xs \<inter> all_ops ?A = {}"
    using Cons.prems(3) apart_rest [OF ap xs(1)] unfolding all_ops_split [of A, OF xs(1)] by auto
  obtain st1 ops1 q where push: "q_push_all st ops (queue_at m n) = (st1, ops1, q)"
    using prod_cases3 by blast
  define m1 where "m1 = hm_erase mapped_ops (set_queue_at n q m) n"
  have q: "queue_rep st1 ops1 (ys @ xs)" "queue_rep st1 q []"
    using opq.push_all [OF Cons.prems(2) xs(2) dj(1) push] by auto
  have t: "only_touches (set xs \<union> set ys) st st1" using push_all_touches [OF Cons.prems(2) xs(2) push] .
  have "rq_but ?d st1 m ?A" using rq_but_frame [OF rq_rep_but [OF Cons.prems(1)] t] dj by blast
  then have rep: "rq_rep st1 m1 ?A" unfolding m1_def by (rule rq_remove [OF _ n(1) refl q(2)])
  have e: "hm_values m1 = ns" "\<And>x. x \<noteq> n \<Longrightarrow> hm_node m1 x = hm_node m x"
    using erase_correct [of mapped_ops "set_queue_at n q m" n] inv n(1) Cons.prems(4)
    by (auto simp: m1_def)
  have keys: "descriptors m1 = map (key_at m) ns"
    unfolding descriptors_def e(1) using e(2) n(2) by (intro map_cong refl) (metis distinct.simps(2) key_at_def)
  have "?d \<notin> key_at m ` set ns"
    using inv Cons.prems(4) by (simp add: hm_inv_def nodes_inv_def)
  then have olds: "map (old_ops ?A) (descriptors m1) = map (old_ops A) (map (key_at m) ns)"
    unfolding keys by (intro map_cong refl) (metis fun_upd_other image_eqI image_set old_ops_def)
  have "set (ys @ xs) \<inter> all_ops ?A = {}" using dj by auto
  from Cons.IH [OF rep q(1) this e(1)] obtain st' m' ops' where
    r: "get_all_loop (first_of ns) st1 m1 ops1 = Some (st', m', ops')" "rq_rep st' m' Map.empty"
      "queue_rep st' ops' ((ys @ xs) @ concat (map (old_ops A) (map (key_at m) ns)))"
      "only_touches (set (ys @ xs) \<union> all_ops ?A) st1 st'" "op_ec st' = op_ec st1"
    unfolding olds by blast
  have sub: "set xs \<union> set ys \<subseteq> set ys \<union> all_ops A" "set (ys @ xs) \<union> all_ops ?A \<subseteq> set ys \<union> all_ops A"
    unfolding all_ops_split [of A, OF xs(1)] by auto
  have "only_touches (set ys \<union> all_ops A) st st'"
    using only_touches_trans [OF only_touches_mono [OF t sub(1)] only_touches_mono [OF r(4) sub(2)]] .
  moreover have "get_all_loop (first_of (n # ns)) st m ops = Some (st', m', ops')"
    using n(2) by (subst get_all_loop.simps) (simp add: Cons.prems(4) push r(1) m1_def [symmetric])
  moreover have "concat (map (old_ops A) (descriptors m)) = xs @ concat (map (old_ops A) (map (key_at m) ns))"
    using xs(1) by (simp add: descriptors_def Cons.prems(4) old_ops_def)
  ultimately show ?case using r(2,3,5) push_all_keeps [OF push]
    by (metis append.assoc)
qed

lemma get_all_correct:
  assumes "rq_rep st m A" and "queue_rep st ops ys" and "set ys \<inter> all_ops A = {}"
  shows "\<exists>st' m' ops'. get_all_operations st m ops = Some (st', m', ops') \<and> rq_rep st' m' Map.empty \<and>
    queue_rep st' ops' (ys @ concat (map (old_ops A) (descriptors m))) \<and>
    only_touches (set ys \<union> all_ops A) st st' \<and> op_ec st' = op_ec st"
  using get_all_loop_correct [OF assms refl] by (simp add: get_all_operations_def hm_begin_def)

lemma new_rq: "rq_rep st (hm_new mem) Map.empty"
  using new_correct [of mapped_ops mem] by (auto simp: rq_rep_def holds_queue_def apart_def hm_new_def)

section \<open>Properties\<close>

text \<open>
  C25: The reactor's queue implements a map from descriptors to nonempty lists of operations.
  \<open>enqueue_operation\<close> appends and says whether the descriptor was without operations;
  \<open>cancel_operations\<close> moves all operations of the descriptor, in order and with the error, to the
  end of the caller's queue, and \<open>get_all_operations\<close> those of every descriptor; every call ends, and
  \<open>empty\<close> and \<open>has_operation\<close> read the map.
\<close>

theorem reactor_queue_refines_map:
  assumes "rq_rep st m A" and "queue_rep st ops ys" and "set ys \<inter> all_ops A = {}" and "p \<notin> all_ops A"
  shows "(\<exists>st' m'. enqueue_operation d p st m = Some (A d = None, st', m') \<and>
      rq_rep st' m' (A(d \<mapsto> old_ops A d @ [p])) \<and> op_ec st' = op_ec st) \<and>
    (\<exists>st' m' ops'. cancel_operations ec d st m ops = Some (A d \<noteq> None, st', m', ops') \<and>
      rq_rep st' m' (A(d := None)) \<and> queue_rep st' ops' (ys @ old_ops A d) \<and>
      op_ec st' = (\<lambda>p. if p \<in> set (old_ops A d) then ec else op_ec st p)) \<and>
    (\<exists>st' m' ops' ds. get_all_operations st m ops = Some (st', m', ops') \<and> rq_rep st' m' Map.empty \<and>
      distinct ds \<and> set ds = dom A \<and> queue_rep st' ops' (ys @ concat (map (old_ops A) ds))) \<and>
    rq_empty m = (A = Map.empty) \<and> has_operation d m = Some (A d \<noteq> None)"
proof (intro conjI)
  show "\<exists>st' m'. enqueue_operation d p st m = Some (A d = None, st', m') \<and>
      rq_rep st' m' (A(d \<mapsto> old_ops A d @ [p])) \<and> op_ec st' = op_ec st"
    using enqueue_correct [OF assms(1,4)] by blast
  show "\<exists>st' m' ops'. cancel_operations ec d st m ops = Some (A d \<noteq> None, st', m', ops') \<and>
      rq_rep st' m' (A(d := None)) \<and> queue_rep st' ops' (ys @ old_ops A d) \<and>
      op_ec st' = (\<lambda>p. if p \<in> set (old_ops A d) then ec else op_ec st p)"
    using cancel_correct [OF assms(1-3)] by blast
  show "\<exists>st' m' ops' ds. get_all_operations st m ops = Some (st', m', ops') \<and> rq_rep st' m' Map.empty \<and>
      distinct ds \<and> set ds = dom A \<and> queue_rep st' ops' (ys @ concat (map (old_ops A) ds))"
    using get_all_correct [OF assms(1-3)] descriptors_dom [OF assms(1)] by blast
  show "rq_empty m = (A = Map.empty)" using empty_correct [OF assms(1)] .
  show "has_operation d m = Some (A d \<noteq> None)" using has_operation_correct [OF assms(1)] .
qed

definition sample_rq :: "nat opstore \<times> nat reactor_queue" where
  "sample_rq = snd (the (enqueue_operation 5 7 sample_store (hm_new (\<lambda>_. (0, q_new)))))"

lemma sample_rq_rep: "rq_rep (fst sample_rq) (snd sample_rq) [5 \<mapsto> [7]]"
  using enqueue_correct [OF new_rq, of 7 5 sample_store "\<lambda>_. (0, q_new)"]
  by (auto simp: sample_rq_def old_ops_def)

lemma reactor_queue_refines_map_witness:
  "\<exists>st' m'. enqueue_operation 5 8 (fst sample_rq) (snd sample_rq) = Some (False, st', m') \<and>
    rq_rep st' m' [5 \<mapsto> [7, 8]]"
  using reactor_queue_refines_map [where d = 5 and p = 8 and ec = no_error, OF sample_rq_rep opq.new]
  by (auto simp: old_ops_def)

text \<open>
  C26: \<open>perform_operations\<close> performs the operations of the descriptor in order up to the first that
  is not finished, moves the finished ones to the caller's queue, keeps the others, and says whether
  any are left. It ends, and no other descriptor's operations are touched.
\<close>

theorem perform_operations_prefix:
  assumes "rq_rep st m A" and "queue_rep st ops ys" and "set ys \<inter> all_ops A = {}"
  shows "case performed pf (op_ec st) w (old_ops A d) of (ds, rs, ec', w') \<Rightarrow>
    ds @ rs = old_ops A d \<and>
    (\<exists>st' m' ops'. perform_operations pf d w st m ops = Some (rs \<noteq> [], w', st', m', ops') \<and>
      rq_rep st' m' (A(d := (if rs = [] then None else Some rs))) \<and> queue_rep st' ops' (ys @ ds) \<and> op_ec st' = ec')"
  using perform_correct [OF assms, of pf w d] performed_parts [of pf "op_ec st" w "old_ops A d"]
  by (auto split: prod.splits)

lemma perform_operations_prefix_witness:
  "\<exists>st' m' ops'. perform_operations (\<lambda>p e w. (if w < 1 then Done else NotDone, e, w + 1)) 5 (0 :: nat)
      (fst sample_rq) (snd sample_rq) q_new = Some (False, 1, st', m', ops') \<and>
    rq_rep st' m' Map.empty \<and> queue_rep st' ops' [7]"
  using perform_operations_prefix [where d = 5 and w = "0 :: nat" and
      pf = "\<lambda>p e w. (if w < 1 then Done else NotDone, e, w + 1)", OF sample_rq_rep opq.new]
  by (auto simp: old_ops_def)

end
