(* ===== verification/AsioChrono.thy ===== *)
theory AsioChrono
  imports AsioBase "HOL-Library.Signed_Division"
begin

text \<open>
  Time arithmetic of detail/chrono_time_traits.hpp and wait_traits.hpp: saturating addition and
  subtraction of 64-bit time points, and the conversion of durations to milliseconds and
  microseconds that detail/timer_queue.hpp does. Signed arithmetic is checked: \<open>None\<close> is an
  overflow, which is undefined behaviour.
\<close>

definition int64_max :: int where "int64_max = 2 ^ 63 - 1"
definition int64_min :: int where "int64_min = - (2 ^ 63)"

definition in64 :: "int \<Rightarrow> bool" where
  "in64 x \<longleftrightarrow> int64_min \<le> x \<and> x \<le> int64_max"

definition chk64 :: "int \<Rightarrow> int option" where
  "chk64 x = (if in64 x then Some x else None)"

definition add64 :: "int \<Rightarrow> int \<Rightarrow> int option" where "add64 a b = chk64 (a + b)"
definition sub64 :: "int \<Rightarrow> int \<Rightarrow> int option" where "sub64 a b = chk64 (a - b)"
definition neg64 :: "int \<Rightarrow> int option" where "neg64 a = chk64 (- a)"
definition mul64 :: "int \<Rightarrow> int \<Rightarrow> int option" where "mul64 a b = chk64 (a * b)"
definition div64 :: "int \<Rightarrow> int \<Rightarrow> int option" where
  "div64 a b = (if b = 0 then None else chk64 (a sdiv b))"

lemmas checked_defs = add64_def sub64_def neg64_def chk64_def in64_def int64_max_def int64_min_def

section \<open>Time points\<close>

text \<open>A time point is its distance from the epoch 0, in ticks of the clock.\<close>

definition time_add :: "int \<Rightarrow> int \<Rightarrow> int option" where
  "time_add t d =
     (if t \<ge> 0 then
        Option.bind (sub64 int64_max t) (\<lambda>r. if r < d then Some int64_max else add64 t d)
      else
        Option.bind (sub64 t int64_min) (\<lambda>r. Option.bind (neg64 r) (\<lambda>r.
          if r > d then Some int64_min else add64 t d)))"

definition time_subtract :: "int \<Rightarrow> int \<Rightarrow> int option" where
  "time_subtract t1 t2 =
     (if t1 \<ge> 0 then
        if t2 \<ge> 0 then sub64 t1 t2
        else if t2 = int64_min then Some int64_max
        else Option.bind (sub64 int64_max t1) (\<lambda>a. Option.bind (sub64 0 t2) (\<lambda>b.
          if a < b then Some int64_max else sub64 t1 t2))
      else
        if t2 < 0 then sub64 t1 t2
        else if t1 = int64_min then Some int64_min
        else Option.bind (sub64 int64_max t2) (\<lambda>a. Option.bind (sub64 0 t1) (\<lambda>b.
          if a < b then Some int64_min else Option.bind (sub64 t2 t1) neg64)))"

definition less_than :: "int \<Rightarrow> int \<Rightarrow> bool" where
  "less_than t1 t2 \<longleftrightarrow> t1 < t2"

definition clamp64 :: "int \<Rightarrow> int" where
  "clamp64 x = max int64_min (min int64_max x)"

lemma time_ops_clamp:
  assumes "in64 a" and "in64 b"
  shows "time_add a b = Some (clamp64 (a + b))" and "time_subtract a b = Some (clamp64 (a - b))"
proof -
  show "time_add a b = Some (clamp64 (a + b))"
    using assms by (auto simp: time_add_def clamp64_def checked_defs)
  show "time_subtract a b = Some (clamp64 (a - b))"
    using assms by (auto simp: time_subtract_def clamp64_def checked_defs)
qed

text \<open>
  Adding a duration to a time point and subtracting two time points saturate: for all 64-bit
  arguments no step overflows, and the result is the exact one, cut off at the ends of the range.
\<close>

theorem time_arithmetic_saturates:
  assumes "in64 a" and "in64 b"
  shows "time_add a b = Some (clamp64 (a + b)) \<and> time_subtract a b = Some (clamp64 (a - b))"
  using time_ops_clamp [OF assms] ..

lemma time_arithmetic_saturates_witness:
  "time_add int64_max 1 = Some (clamp64 (int64_max + 1)) \<and> time_subtract int64_min 1 = Some (clamp64 (int64_min - 1))"
  using time_arithmetic_saturates [of int64_max 1] time_arithmetic_saturates [of int64_min 1]
  by (simp add: in64_def int64_max_def int64_min_def)

section \<open>Durations\<close>

text \<open>The template that computes the greatest common divisor; template recursion on C++ remainders.\<close>

function gcd_value :: "int \<Rightarrow> int \<Rightarrow> int" where
  "gcd_value v1 v2 = (if v2 = 0 then v1 else gcd_value v2 (v1 smod v2))"
  by pat_completeness auto

termination
proof (relation "measure (\<lambda>(v1, v2). nat \<bar>v2\<bar>)")
  fix v1 v2 :: int assume "v2 \<noteq> 0"
  then have "\<bar>v1 smod v2\<bar> < \<bar>v2\<bar>"
    by (simp add: signed_modulo_int_def abs_mult sgn_if)
  then show "((v2, v1 smod v2), v1, v2) \<in> measure (\<lambda>(v1, v2). nat \<bar>v2\<bar>)"
    using \<open>v2 \<noteq> 0\<close> by simp
qed simp

declare gcd_value.simps [simp del]

text \<open>
  A duration of \<open>ticks\<close> periods of \<open>pnum / pden\<close> seconds, converted to units of \<open>num / den\<close>
  seconds. The constants are computed by the compiler.
\<close>

definition duration_cast :: "int \<Rightarrow> int \<Rightarrow> int \<Rightarrow> int \<Rightarrow> int \<Rightarrow> int option" where
  "duration_cast pnum pden Num Den ticks =
     (let num1 = pnum sdiv gcd_value pnum Num;
          num2 = Num sdiv gcd_value pnum Num;
          den1 = pden sdiv gcd_value pden Den;
          den2 = Den sdiv gcd_value pden Den;
          num = num1 * den2;
          den = num2 * den1
      in if num = 1 \<and> den = 1 then Some ticks
         else if num \<noteq> 1 \<and> den = 1 then mul64 ticks num
         else if num = 1 \<and> pden \<noteq> 1 then div64 ticks den
         else Option.bind (mul64 ticks num) (\<lambda>x. div64 x den))"

definition total_seconds :: "int \<Rightarrow> int \<Rightarrow> int \<Rightarrow> int option" where
  "total_seconds pnum pden ticks = duration_cast pnum pden 1 1 ticks"

definition total_milliseconds :: "int \<Rightarrow> int \<Rightarrow> int \<Rightarrow> int option" where
  "total_milliseconds pnum pden ticks = duration_cast pnum pden 1 1000 ticks"

definition total_microseconds :: "int \<Rightarrow> int \<Rightarrow> int \<Rightarrow> int option" where
  "total_microseconds pnum pden ticks = duration_cast pnum pden 1 1000000 ticks"

text \<open>\<open>to_msec\<close> and \<open>to_usec\<close> of the timer queue; \<open>long\<close> has 32 bits.\<close>

definition to_msec :: "int \<Rightarrow> int \<Rightarrow> int \<Rightarrow> int \<Rightarrow> int option" where
  "to_msec pnum pden ticks max_duration =
     (if ticks \<le> 0 then Some 0
      else map_option (\<lambda>msec. if msec = 0 then 1 else if msec > max_duration then max_duration else msec)
        (total_milliseconds pnum pden ticks))"

definition to_usec :: "int \<Rightarrow> int \<Rightarrow> int \<Rightarrow> int \<Rightarrow> int option" where
  "to_usec pnum pden ticks max_duration =
     (if ticks \<le> 0 then Some 0
      else map_option (\<lambda>usec. if usec = 0 then 1 else if usec > max_duration then max_duration else usec)
        (total_microseconds pnum pden ticks))"

text \<open>The wait of a queue: \<open>first\<close> is the time at the front of the heap, \<open>None\<close> when it is empty.\<close>

definition to_wait_duration :: "int \<Rightarrow> int" where
  "to_wait_duration d = d"

definition wait_duration_msec :: "int \<Rightarrow> int \<Rightarrow> int option \<Rightarrow> int \<Rightarrow> int \<Rightarrow> int option" where
  "wait_duration_msec pnum pden first now max_duration =
     (case first of
        None \<Rightarrow> Some max_duration
      | Some t \<Rightarrow> Option.bind (time_subtract t now) (\<lambda>d. to_msec pnum pden (to_wait_duration d) max_duration))"

definition wait_duration_usec :: "int \<Rightarrow> int \<Rightarrow> int option \<Rightarrow> int \<Rightarrow> int \<Rightarrow> int option" where
  "wait_duration_usec pnum pden first now max_duration =
     (case first of
        None \<Rightarrow> Some max_duration
      | Some t \<Rightarrow> Option.bind (time_subtract t now) (\<lambda>d. to_usec pnum pden (to_wait_duration d) max_duration))"

text \<open>For the steady clock, which counts nanoseconds, the casts divide.\<close>

lemma nanosecond_casts:
  "total_milliseconds 1 1000000000 ticks = div64 ticks 1000000"
  "total_microseconds 1 1000000000 ticks = div64 ticks 1000"
  by (simp_all add: total_milliseconds_def total_microseconds_def duration_cast_def gcd_value.simps
      signed_divide_int_def signed_modulo_int_def)

lemma sdiv_pos: "0 < (x :: int) \<Longrightarrow> 0 < k \<Longrightarrow> x sdiv k = x div k"
  by (simp add: signed_divide_int_def sgn_if)

lemma wait_durations:
  assumes "in64 t" and "in64 now" and "1 \<le> max_duration"
  shows "\<exists>w. wait_duration_msec 1 1000000000 (Some t) now max_duration = Some w \<and>
      0 \<le> w \<and> w \<le> max_duration \<and> (w = 0 \<longleftrightarrow> t \<le> now) \<and>
      (now < t \<longrightarrow> w = 1 \<or> w * 1000000 \<le> t - now)"
    and "\<exists>w. wait_duration_usec 1 1000000000 (Some t) now max_duration = Some w \<and>
      0 \<le> w \<and> w \<le> max_duration \<and> (w = 0 \<longleftrightarrow> t \<le> now) \<and>
      (now < t \<longrightarrow> w = 1 \<or> w * 1000 \<le> t - now)"
proof -
  let ?d = "clamp64 (t - now)"
  have sub: "time_subtract t now = Some ?d"
    using assms(1,2) by (auto simp: time_subtract_def clamp64_def checked_defs)
  have d: "?d \<le> 0 \<longleftrightarrow> t \<le> now" "0 < ?d \<Longrightarrow> ?d \<le> t - now" "in64 ?d"
    by (auto simp: clamp64_def in64_def int64_max_def int64_min_def)
  have div: "div64 ?d k = Some (?d div k)" if "0 < ?d" "1 < k" for k
  proof -
    have "?d div k \<le> ?d" "0 \<le> ?d div k" using that int_div_less_self [of ?d k] by (auto simp: pos_imp_zdiv_nonneg_iff)
    with that d(3) show ?thesis by (simp add: div64_def sdiv_pos chk64_def in64_def int64_min_def)
  qed
  have bound: "\<exists>w. (if ?d \<le> 0 then Some 0 else
        map_option (\<lambda>m. if m = 0 then 1 else if m > max_duration then max_duration else m) (div64 ?d k)) = Some w \<and>
      0 \<le> w \<and> w \<le> max_duration \<and> (w = 0 \<longleftrightarrow> t \<le> now) \<and> (now < t \<longrightarrow> w = 1 \<or> w * k \<le> t - now)"
    if "1 < k" for k
  proof (cases "?d \<le> 0")
    case False
    have le: "?d div k * k \<le> t - now"
      using minus_mod_eq_div_mult [of ?d k] pos_mod_sign [of k ?d] that d(2) False by linarith
    have "max_duration * k \<le> t - now" if "max_duration < ?d div k"
    proof -
      have "max_duration * k \<le> ?d div k * k" using that \<open>1 < k\<close> by (intro mult_right_mono) auto
      with le show ?thesis by linarith
    qed
    with le show ?thesis
      using False that d div [of k] assms(3) pos_imp_zdiv_nonneg_iff [of k ?d] by (auto simp: not_le)
  qed (use d assms(3) in auto)
  show "\<exists>w. wait_duration_msec 1 1000000000 (Some t) now max_duration = Some w \<and>
      0 \<le> w \<and> w \<le> max_duration \<and> (w = 0 \<longleftrightarrow> t \<le> now) \<and> (now < t \<longrightarrow> w = 1 \<or> w * 1000000 \<le> t - now)"
    unfolding wait_duration_msec_def to_wait_duration_def to_msec_def nanosecond_casts sub option.case bind.bind_lunit
    by (rule bound) simp
  show "\<exists>w. wait_duration_usec 1 1000000000 (Some t) now max_duration = Some w \<and>
      0 \<le> w \<and> w \<le> max_duration \<and> (w = 0 \<longleftrightarrow> t \<le> now) \<and> (now < t \<longrightarrow> w = 1 \<or> w * 1000 \<le> t - now)"
    unfolding wait_duration_usec_def to_wait_duration_def to_usec_def nanosecond_casts sub option.case bind.bind_lunit
    by (rule bound) simp
qed

text \<open>
  C39: With a clock that counts nanoseconds the wait for the first timer is defined for all 64-bit
  times, lies between 0 and the limit, is 0 exactly when the timer is due, and never sleeps through
  it by more than one unit: a positive wait below a unit is rounded up to one, a longer one down.
\<close>

theorem wait_duration_bounds:
  assumes "in64 t" and "in64 now" and "1 \<le> max_duration"
  shows "(\<exists>w. wait_duration_msec 1 1000000000 (Some t) now max_duration = Some w \<and>
      0 \<le> w \<and> w \<le> max_duration \<and> (w = 0 \<longleftrightarrow> t \<le> now) \<and>
      (now < t \<longrightarrow> w = 1 \<or> w * 1000000 \<le> t - now)) \<and>
    (\<exists>w. wait_duration_usec 1 1000000000 (Some t) now max_duration = Some w \<and>
      0 \<le> w \<and> w \<le> max_duration \<and> (w = 0 \<longleftrightarrow> t \<le> now) \<and>
      (now < t \<longrightarrow> w = 1 \<or> w * 1000 \<le> t - now))"
  using wait_durations [OF assms] ..

lemma wait_duration_bounds_witness:
  "\<exists>w. wait_duration_msec 1 1000000000 (Some 5) 0 100 = Some w \<and> 0 \<le> w \<and> w \<le> 100 \<and>
     (w = 0 \<longleftrightarrow> (5::int) \<le> 0) \<and> ((0::int) < 5 \<longrightarrow> w = 1 \<or> w * 1000000 \<le> 5 - 0)"
  by (rule wait_duration_bounds [THEN conjunct1]) (simp_all add: in64_def int64_max_def int64_min_def)

end
