(* ===== verification/AsioTimerQueue.thy ===== *)
theory AsioTimerQueue
  imports AsioOpQueue AsioChrono "HOL-Library.Multiset"
begin

text \<open>
  The timer queue of detail/timer_queue.hpp: a binary heap of expiry times, each entry pointing to a
  timer that holds its index in the heap, a doubly linked list of the active timers, and one queue
  of waiting operations per timer. Times are those of a clock of detail/chrono_time_traits.hpp,
  whose \<open>less_than\<close> is the order of time points; they are integers here. Timers and operations
  are pointers, the type variables \<open>'t\<close> and \<open>'o\<close>.
\<close>

section \<open>State\<close>

record ('t, 'o) per_timer_data =
  tops :: "'o op_queue"
  heap_index :: nat
  tnext :: "'t option"
  tprev :: "'t option"

definition new_timer_data :: "('t, 'o) per_timer_data" where
  "new_timer_data = \<lparr>tops = q_new, heap_index = size_max, tnext = None, tprev = None\<rparr>"

text \<open>The queue's own fields, the timers in memory and the operations in memory.\<close>

record ('t, 'o) timer_queue =
  timers :: "'t option"
  heap :: "(int \<times> 't) list"
  tdata :: "'t \<Rightarrow> ('t, 'o) per_timer_data"
  tstore :: "'o opstore"

definition new_timers :: "'o opstore \<Rightarrow> ('t, 'o) timer_queue" where
  "new_timers st = \<lparr>timers = None, heap = [], tdata = (\<lambda>_. new_timer_data), tstore = st\<rparr>"

definition upd_timer ::
  "'t \<Rightarrow> (('t, 'o) per_timer_data \<Rightarrow> ('t, 'o) per_timer_data) \<Rightarrow> ('t, 'o) timer_queue \<Rightarrow> ('t, 'o) timer_queue" where
  "upd_timer t f s = s\<lparr>tdata := (tdata s)(t := f (tdata s t))\<rparr>"

text \<open>The overload for time points that are not Boost's.\<close>

definition is_positive_infinity :: "int \<Rightarrow> bool" where
  "is_positive_infinity t = False"

abbreviation time_at :: "('t, 'o) timer_queue \<Rightarrow> nat \<Rightarrow> int" where
  "time_at s i \<equiv> fst (heap s ! i)"

section \<open>The heap\<close>

definition swap_heap :: "nat \<Rightarrow> nat \<Rightarrow> ('t, 'o) timer_queue \<Rightarrow> ('t, 'o) timer_queue" where
  "swap_heap index1 index2 s =
     (let tmp = heap s ! index1;
          s = s\<lparr>heap := (heap s)[index1 := heap s ! index2]\<rparr>;
          s = s\<lparr>heap := (heap s)[index2 := tmp]\<rparr>;
          s = upd_timer (snd (heap s ! index1)) (\<lambda>d. d\<lparr>heap_index := index1\<rparr>) s
      in upd_timer (snd (heap s ! index2)) (\<lambda>d. d\<lparr>heap_index := index2\<rparr>) s)"

lemma swap_heap_frame [simp]:
  "timers (swap_heap i j s) = timers s" "tstore (swap_heap i j s) = tstore s"
  "length (heap (swap_heap i j s)) = length (heap s)"
  by (simp_all add: swap_heap_def upd_timer_def Let_def)

function up_heap :: "nat \<Rightarrow> ('t, 'o) timer_queue \<Rightarrow> ('t, 'o) timer_queue" where
  "up_heap index s =
     (if index > 0 then
        let parent = (index - 1) div 2
        in if \<not> less_than (time_at s index) (time_at s parent) then s
           else up_heap parent (swap_heap index parent s)
      else s)"
  by pat_completeness auto

termination
  by (relation "measure fst") (auto simp: div_le_dividend le_less_trans)

function down_heap :: "nat \<Rightarrow> ('t, 'o) timer_queue \<Rightarrow> ('t, 'o) timer_queue" where
  "down_heap index s =
     (let child = index * 2 + 1
      in if child < length (heap s) then
           let min_child = (if child + 1 = length (heap s) \<or> less_than (time_at s child) (time_at s (child + 1))
                            then child else child + 1)
           in if less_than (time_at s index) (time_at s min_child) then s
              else down_heap min_child (swap_heap index min_child s)
         else s)"
  by pat_completeness auto

termination
  by (relation "measure (\<lambda>(index, s). length (heap s) - index)") auto

declare up_heap.simps [simp del] down_heap.simps [simp del]

section \<open>The operations of the queue\<close>

text \<open>Removal of a timer from the heap, the first part of \<open>remove_timer\<close>.\<close>

definition heap_remove :: "'t \<Rightarrow> ('t, 'o) timer_queue \<Rightarrow> ('t, 'o) timer_queue" where
  "heap_remove timer s =
     (let index = heap_index (tdata s timer)
      in if heap s \<noteq> [] \<and> index < length (heap s) then
           if index = length (heap s) - 1 then
             let s = upd_timer timer (\<lambda>d. d\<lparr>heap_index := size_max\<rparr>) s
             in s\<lparr>heap := butlast (heap s)\<rparr>
           else
             let s = swap_heap index (length (heap s) - 1) s;
                 s = upd_timer timer (\<lambda>d. d\<lparr>heap_index := size_max\<rparr>) s;
                 s = s\<lparr>heap := butlast (heap s)\<rparr>
             in if index > 0 \<and> less_than (time_at s index) (time_at s ((index - 1) div 2))
                then up_heap index s else down_heap index s
         else s)"

text \<open>Removal from the linked list of active timers, the second part.\<close>

definition list_unlink :: "'t \<Rightarrow> ('t, 'o) timer_queue \<Rightarrow> ('t, 'o) timer_queue" where
  "list_unlink timer s =
     (let s = (if timers s = Some timer then s\<lparr>timers := tnext (tdata s timer)\<rparr> else s);
          s = (case tprev (tdata s timer) of
                 Some p \<Rightarrow> upd_timer p (\<lambda>d. d\<lparr>tnext := tnext (tdata s timer)\<rparr>) s | None \<Rightarrow> s);
          s = (case tnext (tdata s timer) of
                 Some n \<Rightarrow> upd_timer n (\<lambda>d. d\<lparr>tprev := tprev (tdata s timer)\<rparr>) s | None \<Rightarrow> s);
          s = upd_timer timer (\<lambda>d. d\<lparr>tnext := None\<rparr>) s
      in upd_timer timer (\<lambda>d. d\<lparr>tprev := None\<rparr>) s)"

definition remove_timer :: "'t \<Rightarrow> ('t, 'o) timer_queue \<Rightarrow> ('t, 'o) timer_queue" where
  "remove_timer timer s = list_unlink timer (heap_remove timer s)"

text \<open>\<open>timer.op_queue_.push(op)\<close>.\<close>

definition push_op :: "'t \<Rightarrow> 'o \<Rightarrow> ('t, 'o) timer_queue \<Rightarrow> ('t, 'o) timer_queue" where
  "push_op timer p s =
     (let (st, q) = q_push (tstore s) (tops (tdata s timer)) p
      in upd_timer timer (\<lambda>d. d\<lparr>tops := q\<rparr>) (s\<lparr>tstore := st\<rparr>))"

definition list_link :: "'t \<Rightarrow> ('t, 'o) timer_queue \<Rightarrow> ('t, 'o) timer_queue" where
  "list_link timer s =
     (let s = upd_timer timer (\<lambda>d. d\<lparr>tnext := timers s\<rparr>) s;
          s = upd_timer timer (\<lambda>d. d\<lparr>tprev := None\<rparr>) s;
          s = (case timers s of Some t \<Rightarrow> upd_timer t (\<lambda>d. d\<lparr>tprev := Some timer\<rparr>) s | None \<Rightarrow> s)
      in s\<lparr>timers := Some timer\<rparr>)"

definition heap_insert :: "int \<Rightarrow> 't \<Rightarrow> ('t, 'o) timer_queue \<Rightarrow> ('t, 'o) timer_queue" where
  "heap_insert time timer s =
     (let s = upd_timer timer (\<lambda>d. d\<lparr>heap_index := length (heap s)\<rparr>) s;
          s = s\<lparr>heap := heap s @ [(time, timer)]\<rparr>
      in up_heap (length (heap s) - 1) s)"

definition enqueue_timer :: "int \<Rightarrow> 't \<Rightarrow> 'o \<Rightarrow> ('t, 'o) timer_queue \<Rightarrow> bool \<times> ('t, 'o) timer_queue" where
  "enqueue_timer time timer p s =
     (let s = (if tprev (tdata s timer) = None \<and> timers s \<noteq> Some timer then
                 let s = (if is_positive_infinity time
                          then upd_timer timer (\<lambda>d. d\<lparr>heap_index := size_max\<rparr>) s
                          else heap_insert time timer s)
                 in list_link timer s
               else s);
          s = push_op timer p s
      in (heap_index (tdata s timer) = 0 \<and> q_front (tops (tdata s timer)) = Some p, s))"

definition tq_empty :: "('t, 'o) timer_queue \<Rightarrow> bool" where
  "tq_empty s \<longleftrightarrow> timers s = None"

text \<open>\<open>get_ready_timers\<close> with the time \<open>now\<close> that the clock gives; \<open>ops\<close> is the caller's queue.\<close>

partial_function (option) ready_loop ::
  "int \<Rightarrow> ('t, 'o) timer_queue \<Rightarrow> 'o op_queue \<Rightarrow> (('t, 'o) timer_queue \<times> 'o op_queue) option" where
  "ready_loop now s ops =
     (if heap s \<noteq> [] \<and> \<not> less_than now (time_at s 0) then
        let timer = snd (heap s ! 0);
            (st, ops, q) = q_push_all (tstore s) ops (tops (tdata s timer));
            s = upd_timer timer (\<lambda>d. d\<lparr>tops := q\<rparr>) (s\<lparr>tstore := st\<rparr>)
        in ready_loop now (remove_timer timer s) ops
      else Some (s, ops))"

definition get_ready_timers ::
  "int \<Rightarrow> ('t, 'o) timer_queue \<Rightarrow> 'o op_queue \<Rightarrow> (('t, 'o) timer_queue \<times> 'o op_queue) option" where
  "get_ready_timers now s ops = (if heap s \<noteq> [] then ready_loop now s ops else Some (s, ops))"

partial_function (option) all_loop ::
  "('t, 'o) timer_queue \<Rightarrow> 'o op_queue \<Rightarrow> (('t, 'o) timer_queue \<times> 'o op_queue) option" where
  "all_loop s ops =
     (case timers s of
        None \<Rightarrow> Some (s, ops)
      | Some timer \<Rightarrow>
          let s = s\<lparr>timers := tnext (tdata s timer)\<rparr>;
              (st, ops, q) = q_push_all (tstore s) ops (tops (tdata s timer));
              s = upd_timer timer (\<lambda>d. d\<lparr>tops := q\<rparr>) (s\<lparr>tstore := st\<rparr>);
              s = upd_timer timer (\<lambda>d. d\<lparr>tnext := None\<rparr>) s;
              s = upd_timer timer (\<lambda>d. d\<lparr>tprev := None\<rparr>) s
          in all_loop s ops)"

definition get_all_timers ::
  "('t, 'o) timer_queue \<Rightarrow> 'o op_queue \<Rightarrow> (('t, 'o) timer_queue \<times> 'o op_queue) option" where
  "get_all_timers s ops = map_option (\<lambda>(s, ops). (s\<lparr>heap := []\<rparr>, ops)) (all_loop s ops)"

partial_function (option) cancel_loop ::
  "nat \<Rightarrow> nat \<Rightarrow> 't \<Rightarrow> ('t, 'o) timer_queue \<Rightarrow> 'o op_queue \<Rightarrow> (nat \<times> ('t, 'o) timer_queue \<times> 'o op_queue) option" where
  "cancel_loop num max_cancelled timer s ops =
     (case (if num \<noteq> max_cancelled then q_front (tops (tdata s timer)) else None) of
        None \<Rightarrow> Some (num, s, ops)
      | Some p \<Rightarrow>
          let st = (tstore s)\<lparr>op_ec := (op_ec (tstore s))(p := ec_operation_aborted)\<rparr>;
              (st, q) = q_pop st (tops (tdata s timer));
              (st, ops) = q_push st ops p;
              s = upd_timer timer (\<lambda>d. d\<lparr>tops := q\<rparr>) (s\<lparr>tstore := st\<rparr>)
          in cancel_loop (num + 1) max_cancelled timer s ops)"

definition cancel_timer ::
  "'t \<Rightarrow> nat \<Rightarrow> ('t, 'o) timer_queue \<Rightarrow> 'o op_queue \<Rightarrow> (nat \<times> ('t, 'o) timer_queue \<times> 'o op_queue) option" where
  "cancel_timer timer max_cancelled s ops =
     (if tprev (tdata s timer) \<noteq> None \<or> timers s = Some timer then
        map_option (\<lambda>(num, s, ops).
          (num, if q_empty (tops (tdata s timer)) then remove_timer timer s else s, ops))
          (cancel_loop 0 max_cancelled timer s ops)
      else Some (0, s, ops))"

definition move_timer :: "'t \<Rightarrow> 't \<Rightarrow> ('t, 'o) timer_queue \<Rightarrow> ('t, 'o) timer_queue" where
  "move_timer target source s =
     (let (st, tq, sq) = q_push_all (tstore s) (tops (tdata s target)) (tops (tdata s source));
          s = s\<lparr>tstore := st\<rparr>;
          s = upd_timer target (\<lambda>d. d\<lparr>tops := tq\<rparr>) s;
          s = upd_timer source (\<lambda>d. d\<lparr>tops := sq\<rparr>) s;
          s = upd_timer target (\<lambda>d. d\<lparr>heap_index := heap_index (tdata s source)\<rparr>) s;
          s = upd_timer source (\<lambda>d. d\<lparr>heap_index := size_max\<rparr>) s;
          i = heap_index (tdata s target);
          s = (if i < length (heap s) then s\<lparr>heap := (heap s)[i := (fst (heap s ! i), target)]\<rparr> else s);
          s = (if timers s = Some source then s\<lparr>timers := Some target\<rparr> else s);
          s = (case tprev (tdata s source) of
                 Some p \<Rightarrow> upd_timer p (\<lambda>d. d\<lparr>tnext := Some target\<rparr>) s | None \<Rightarrow> s);
          s = (case tnext (tdata s source) of
                 Some n \<Rightarrow> upd_timer n (\<lambda>d. d\<lparr>tprev := Some target\<rparr>) s | None \<Rightarrow> s);
          s = upd_timer target (\<lambda>d. d\<lparr>tnext := tnext (tdata s source)\<rparr>) s;
          s = upd_timer target (\<lambda>d. d\<lparr>tprev := tprev (tdata s source)\<rparr>) s;
          s = upd_timer source (\<lambda>d. d\<lparr>tnext := None\<rparr>) s
      in upd_timer source (\<lambda>d. d\<lparr>tprev := None\<rparr>) s)"

end
