(* ===== verification/AsioTimerHeap.thy ===== *)
theory AsioTimerHeap
  imports AsioTimerQueue
begin

text \<open>
  The heap of the timer queue: what \<open>swap_heap\<close>, \<open>up_heap\<close> and \<open>down_heap\<close> do to the order of the
  times, to the indices the timers hold, and to the rest of the state.
\<close>

section \<open>Heap order on lists of times\<close>

definition par :: "nat \<Rightarrow> nat" where
  "par i = (i - 1) div 2"

definition heap_ord :: "int list \<Rightarrow> bool" where
  "heap_ord ks \<longleftrightarrow> (\<forall>i < length ks. 0 < i \<longrightarrow> ks ! par i \<le> ks ! i)"

text \<open>Order except above, or except below, the index \<open>k\<close>.\<close>

definition up_ok :: "int list \<Rightarrow> nat \<Rightarrow> bool" where
  "up_ok ks k \<longleftrightarrow> (\<forall>i < length ks. 0 < i \<longrightarrow>
     (i \<noteq> k \<longrightarrow> ks ! par i \<le> ks ! i) \<and> (par i = k \<longrightarrow> 0 < k \<longrightarrow> ks ! par k \<le> ks ! i))"

definition down_ok :: "int list \<Rightarrow> nat \<Rightarrow> bool" where
  "down_ok ks k \<longleftrightarrow> (\<forall>i < length ks. 0 < i \<longrightarrow>
     (par i \<noteq> k \<longrightarrow> ks ! par i \<le> ks ! i) \<and> (par i = k \<longrightarrow> 0 < k \<longrightarrow> ks ! par k \<le> ks ! i))"

lemma par_less: "0 < i \<Longrightarrow> par i < i"
  by (auto simp: par_def div_le_dividend le_less_trans)

lemma par_children: "0 < i \<Longrightarrow> par i = k \<longleftrightarrow> i = 2 * k + 1 \<or> i = 2 * k + 2"
  by (auto simp: par_def)

lemma heap_ord_front: "heap_ord ks \<Longrightarrow> i < length ks \<Longrightarrow> ks ! 0 \<le> ks ! i"
proof (induction i rule: less_induct)
  case (less i)
  show ?case
  proof (cases "i = 0")
    case False
    then have "par i < i" by (simp add: par_less)
    with less have "ks ! 0 \<le> ks ! par i" by simp
    also have "\<dots> \<le> ks ! i" using less.prems False by (simp add: heap_ord_def)
    finally show ?thesis .
  qed simp
qed

definition swapped :: "'a list \<Rightarrow> nat \<Rightarrow> nat \<Rightarrow> 'a list" where
  "swapped xs i j = xs[i := xs ! j, j := xs ! i]"

lemma length_swapped [simp]: "length (swapped xs i j) = length xs"
  by (simp add: swapped_def)

lemma nth_swapped:
  "i < length xs \<Longrightarrow> j < length xs \<Longrightarrow> m < length xs \<Longrightarrow>
   swapped xs i j ! m = (if m = j then xs ! i else if m = i then xs ! j else xs ! m)"
  by (simp add: swapped_def nth_list_update)

lemma mset_swapped: "i < length xs \<Longrightarrow> j < length xs \<Longrightarrow> mset (swapped xs i j) = mset xs"
  unfolding swapped_def by (rule mset_swap)

lemma map_swapped: "i < length xs \<Longrightarrow> j < length xs \<Longrightarrow> map f (swapped xs i j) = swapped (map f xs) i j"
  by (simp add: swapped_def map_update)

lemma up_ok_stop:
  assumes "up_ok ks k" and "0 < k \<longrightarrow> ks ! par k \<le> ks ! k"
  shows "heap_ord ks"
  using assms unfolding up_ok_def heap_ord_def by metis

lemma up_ok_step:
  assumes up: "up_ok ks k" and k: "0 < k" "k < length ks" and less: "ks ! k < ks ! par k"
  shows "up_ok (swapped ks k (par k)) (par k)"
proof -
  let ?p = "par k"
  have p: "?p < k" "?p < length ks" using par_less [OF k(1)] k(2) by auto
  note at = nth_swapped [OF k(2) p(2)]
  have first: "ks ! par i \<le> ks ! i" if "i < length ks" "0 < i" "i \<noteq> k" for i
    using up that by (simp add: up_ok_def)
  have second: "ks ! ?p \<le> ks ! i" if "i < length ks" "0 < i" "par i = k" for i
    using up that k(1) by (simp add: up_ok_def)
  show ?thesis unfolding up_ok_def length_swapped
  proof (intro allI impI conjI)
    fix i assume i: "i < length ks" "0 < i"
    have pi: "par i < length ks" "par i \<noteq> i" using par_less [OF i(2)] i(1) by auto
    show "swapped ks k ?p ! par i \<le> swapped ks k ?p ! i" if "i \<noteq> ?p"
    proof (cases "i = k")
      case True
      then show ?thesis using less at [OF i(1)] at [OF p(2)] p by simp
    next
      case False
      then have "swapped ks k ?p ! i = ks ! i" using that at [OF i(1)] by simp
      moreover have "swapped ks k ?p ! par i \<le> ks ! i"
        using first [OF i False] second [OF i] less at [OF pi(1)] by auto
      ultimately show ?thesis by simp
    qed
    show "swapped ks k ?p ! par ?p \<le> swapped ks k ?p ! i" if "par i = ?p" "0 < ?p"
    proof -
      have pp: "par ?p < ?p" using par_less [OF that(2)] .
      then have "swapped ks k ?p ! par ?p = ks ! par ?p" using p at [of "par ?p"] by simp
      also have "\<dots> \<le> ks ! ?p" using first [OF p(2) that(2)] p by simp
      also have "\<dots> \<le> swapped ks k ?p ! i"
        using at [OF i(1)] first [OF i] that(1) pi by (cases "i = k") auto
      finally show ?thesis .
    qed
  qed
qed

lemma down_ok_stop:
  assumes "down_ok ks k"
    and "\<And>i. i < length ks \<Longrightarrow> i = 2 * k + 1 \<or> i = 2 * k + 2 \<Longrightarrow> ks ! k \<le> ks ! i"
  shows "heap_ord ks"
  using assms unfolding down_ok_def heap_ord_def by (metis par_children)

lemma down_ok_step:
  assumes down: "down_ok ks k" and m: "m < length ks" "0 < m" "par m = k" and le: "ks ! m \<le> ks ! k"
    and least: "\<And>i. i < length ks \<Longrightarrow> 0 < i \<Longrightarrow> par i = k \<Longrightarrow> ks ! m \<le> ks ! i"
  shows "down_ok (swapped ks k m) m"
proof -
  have k: "k < m" "k < length ks" using par_less [OF m(2)] m by auto
  note at = nth_swapped [OF k(2) m(1)]
  have first: "ks ! par i \<le> ks ! i" if "i < length ks" "0 < i" "par i \<noteq> k" for i
    using down that by (simp add: down_ok_def)
  have second: "ks ! par k \<le> ks ! i" if "i < length ks" "0 < i" "par i = k" "0 < k" for i
    using down that by (simp add: down_ok_def)
  show ?thesis unfolding down_ok_def length_swapped
  proof (intro allI impI conjI)
    fix i assume i: "i < length ks" "0 < i"
    have pi: "par i < length ks" "par i \<noteq> i" using par_less [OF i(2)] i(1) by auto
    show "swapped ks k m ! par i \<le> swapped ks k m ! i" if "par i \<noteq> m"
    proof (cases "par i = k")
      case True
      then show ?thesis using least [OF i True] le at [OF pi(1)] at [OF i(1)] k pi by auto
    next
      case False
      then have "swapped ks k m ! par i = ks ! par i" using that at [OF pi(1)] by simp
      moreover have "ks ! par i \<le> swapped ks k m ! i"
      proof (cases "i = k")
        case True
        then show ?thesis using second [OF m(1,2,3)] i at [OF i(1)] k by simp
      next
        case neq: False
        have "i \<noteq> m" using False m(3) by auto
        then show ?thesis using first [OF i False] neq at [OF i(1)] by simp
      qed
      ultimately show ?thesis by simp
    qed
    show "swapped ks k m ! par m \<le> swapped ks k m ! i" if "par i = m" "0 < m"
    proof -
      have "i \<noteq> k" using par_less [OF i(2)] that k by auto
      then show ?thesis using first [OF i] that m(3) at [OF i(1)] at [OF k(2)] pi k by auto
    qed
  qed
qed

section \<open>The heap in the state\<close>

definition heap_keys :: "('t, 'o) timer_queue \<Rightarrow> int list" where
  "heap_keys s = map fst (heap s)"

text \<open>Every timer in the heap knows its position; then no timer occurs twice.\<close>

definition idx_ok :: "('t, 'o) timer_queue \<Rightarrow> bool" where
  "idx_ok s \<longleftrightarrow> (\<forall>i < length (heap s). heap_index (tdata s (snd (heap s ! i))) = i)"

text \<open>What the heap operations leave alone.\<close>

definition heap_frame :: "('t, 'o) timer_queue \<Rightarrow> ('t, 'o) timer_queue \<Rightarrow> bool" where
  "heap_frame s s' \<longleftrightarrow> timers s' = timers s \<and> tstore s' = tstore s \<and>
     (\<forall>t. tops (tdata s' t) = tops (tdata s t) \<and> tnext (tdata s' t) = tnext (tdata s t) \<and>
          tprev (tdata s' t) = tprev (tdata s t)) \<and>
     (\<forall>t. t \<notin> snd ` set (heap s) \<longrightarrow> heap_index (tdata s' t) = heap_index (tdata s t))"

lemma length_heap_keys [simp]: "length (heap_keys s) = length (heap s)"
  by (simp add: heap_keys_def)

lemma nth_heap_keys [simp]: "i < length (heap s) \<Longrightarrow> heap_keys s ! i = time_at s i"
  by (simp add: heap_keys_def)

lemma heap_frame_refl [simp]: "heap_frame s s"
  by (simp add: heap_frame_def)

lemma heap_frame_trans:
  "heap_frame s s' \<Longrightarrow> heap_frame s' s'' \<Longrightarrow> mset (heap s') = mset (heap s) \<Longrightarrow> heap_frame s s''"
  by (auto simp: heap_frame_def dest: mset_eq_setD)

lemma idx_ok_distinct:
  assumes "idx_ok s"
  shows "distinct (map snd (heap s))"
  unfolding distinct_conv_nth
proof (intro allI impI)
  fix i j assume i: "i < length (map snd (heap s))" and j: "j < length (map snd (heap s))" and "i \<noteq> j"
  then have "heap_index (tdata s (snd (heap s ! i))) \<noteq> heap_index (tdata s (snd (heap s ! j)))"
    using assms by (simp add: idx_ok_def)
  with i j show "map snd (heap s) ! i \<noteq> map snd (heap s) ! j" by auto
qed

lemma idx_ok_inj:
  assumes "idx_ok s" and "i < length (heap s)" and "j < length (heap s)" and "snd (heap s ! i) = snd (heap s ! j)"
  shows "i = j"
proof -
  have "i = heap_index (tdata s (snd (heap s ! i)))" using assms(1,2) by (simp add: idx_ok_def)
  also have "\<dots> = j" using assms(1,3,4) by (simp add: idx_ok_def)
  finally show ?thesis .
qed

lemma swap_heap_heap [simp]: "heap (swap_heap i j s) = swapped (heap s) i j" if "i \<noteq> j"
  using that by (simp add: swap_heap_def upd_timer_def Let_def swapped_def)

lemma swap_heap_tdata:
  assumes "i \<noteq> j" "i < length (heap s)" "j < length (heap s)"
  shows "tdata (swap_heap i j s) = (let d = (tdata s)(snd (heap s ! j) := tdata s (snd (heap s ! j))\<lparr>heap_index := i\<rparr>)
     in d(snd (heap s ! i) := d (snd (heap s ! i))\<lparr>heap_index := j\<rparr>))"
  using assms by (simp add: swap_heap_def upd_timer_def Let_def nth_list_update)

lemma swap_heap_ok:
  assumes idx: "idx_ok s" and ij: "i \<noteq> j" "i < length (heap s)" "j < length (heap s)"
  shows "idx_ok (swap_heap i j s)" and "heap_frame s (swap_heap i j s)"
    and "mset (heap (swap_heap i j s)) = mset (heap s)"
    and "heap_keys (swap_heap i j s) = swapped (heap_keys s) i j"
proof -
  show "mset (heap (swap_heap i j s)) = mset (heap s)"
    using ij by (simp add: mset_swapped)
  show "heap_keys (swap_heap i j s) = swapped (heap_keys s) i j"
    using ij by (simp add: heap_keys_def map_swapped)
  show "heap_frame s (swap_heap i j s)"
    using ij nth_mem [of i "heap s"] nth_mem [of j "heap s"]
    by (auto simp: heap_frame_def swap_heap_tdata Let_def)
  have ne: "snd (heap s ! i) \<noteq> snd (heap s ! j)"
    using idx_ok_inj [OF idx ij(2,3)] ij(1) by blast
  show "idx_ok (swap_heap i j s)" unfolding idx_ok_def
  proof (intro allI impI)
    fix m assume "m < length (heap (swap_heap i j s))"
    then have m: "m < length (heap s)" by simp
    have at: "heap (swap_heap i j s) ! m = heap s ! (if m = j then i else if m = i then j else m)"
      using nth_swapped [OF ij(2,3) m] ij(1) by simp
    show "heap_index (tdata (swap_heap i j s) (snd (heap (swap_heap i j s) ! m))) = m"
    proof (cases "m = i \<or> m = j")
      case True
      then show ?thesis using ne ij unfolding at by (auto simp: swap_heap_tdata Let_def)
    next
      case False
      then have "snd (heap s ! m) \<noteq> snd (heap s ! i)" "snd (heap s ! m) \<noteq> snd (heap s ! j)"
        using idx_ok_inj [OF idx m] ij by blast+
      then show ?thesis using False ij idx m unfolding at by (simp add: swap_heap_tdata Let_def idx_ok_def)
    qed
  qed
qed

text \<open>What a reordering of the heap gives, and that such reorderings compose.\<close>

definition reordered :: "('t, 'o) timer_queue \<Rightarrow> ('t, 'o) timer_queue \<Rightarrow> bool" where
  "reordered s s' \<longleftrightarrow> idx_ok s' \<and> heap_frame s s' \<and> mset (heap s') = mset (heap s)"

lemma reordered_refl: "idx_ok s \<Longrightarrow> reordered s s"
  by (simp add: reordered_def)

lemma reordered_swap:
  "idx_ok s \<Longrightarrow> i \<noteq> j \<Longrightarrow> i < length (heap s) \<Longrightarrow> j < length (heap s) \<Longrightarrow> reordered s (swap_heap i j s)"
  unfolding reordered_def using swap_heap_ok by blast

lemma reordered_trans: "reordered s s' \<Longrightarrow> reordered s' s'' \<Longrightarrow> reordered s s''"
  by (auto simp: reordered_def intro: heap_frame_trans)

lemma up_heap_ok:
  assumes "idx_ok s" and "k < length (heap s)" and "up_ok (heap_keys s) k"
  shows "reordered s (up_heap k s) \<and> heap_ord (heap_keys (up_heap k s))"
  using assms
proof (induction k s rule: up_heap.induct)
  case (1 k s)
  show ?case
  proof (cases "0 < k \<and> time_at s k < time_at s (par k)")
    case True
    then have p: "par k < k" "par k < length (heap s)" using par_less [of k] 1(3) by auto
    then have up: "up_heap k s = up_heap (par k) (swap_heap k (par k) s)"
      using True by (subst up_heap.simps) (simp add: par_def less_than_def Let_def)
    have "k \<noteq> par k" using p by simp
    note sw = swap_heap_ok [OF 1(2) this 1(3) p(2)] reordered_swap [OF 1(2) this 1(3) p(2)]
    have "up_ok (swapped (heap_keys s) k (par k)) (par k)"
      using up_ok_step [OF 1(4)] True 1(3) p by simp
    then have "reordered (swap_heap k (par k) s) (up_heap (par k) (swap_heap k (par k) s)) \<and>
        heap_ord (heap_keys (up_heap (par k) (swap_heap k (par k) s)))"
      using 1(1) [of "par k"] True sw(1,4) p(2) by (simp add: par_def less_than_def)
    then show ?thesis using reordered_trans [OF sw(5)] unfolding up by blast
  next
    case False
    then have "up_heap k s = s" by (subst up_heap.simps) (auto simp: par_def less_than_def Let_def)
    moreover have "0 < k \<longrightarrow> heap_keys s ! par k \<le> heap_keys s ! k"
      using False 1(3) par_less [of k] by auto
    ultimately show ?thesis using up_ok_stop [OF 1(4)] 1(2) by (simp add: reordered_refl)
  qed
qed

lemma down_heap_ok:
  assumes "idx_ok s" and "k < length (heap s)" and "down_ok (heap_keys s) k"
  shows "reordered s (down_heap k s) \<and> heap_ord (heap_keys (down_heap k s))"
  using assms
proof (induction k s rule: down_heap.induct)
  case (1 k s)
  define m where "m = (if k * 2 + 1 + 1 = length (heap s) \<or> less_than (time_at s (k * 2 + 1)) (time_at s (k * 2 + 1 + 1))
                       then k * 2 + 1 else k * 2 + 1 + 1)"
  have eq: "down_heap k s = (if k * 2 + 1 < length (heap s) then
      if less_than (time_at s k) (time_at s m) then s else down_heap m (swap_heap k m s) else s)"
    unfolding m_def by (subst down_heap.simps) (simp only: Let_def)
  show ?case
  proof (cases "k * 2 + 1 < length (heap s)")
    case child: True
    have m: "m < length (heap s)" "0 < m" "k < m" "m = 2 * k + 1 \<or> m = 2 * k + 2"
      using child by (auto simp: m_def)
    have pm: "par m = k" using par_children [OF m(2)] m(4) by simp
    have least: "time_at s m \<le> time_at s i" if "i < length (heap s)" "i = 2 * k + 1 \<or> i = 2 * k + 2" for i
    proof -
      have "k * 2 + 1 = 2 * k + 1" "k * 2 + 1 + 1 = 2 * k + 2" by simp_all
      then have "m = (if 2 * k + 2 = length (heap s) \<or> time_at s (2 * k + 1) < time_at s (2 * k + 2)
          then 2 * k + 1 else 2 * k + 2)" by (simp only: m_def less_than_def)
      with that show ?thesis by (auto split: if_splits)
    qed
    show ?thesis
    proof (cases "less_than (time_at s k) (time_at s m)")
      case True
      then have "down_heap k s = s" using eq child by simp
      moreover have "heap_keys s ! k \<le> heap_keys s ! i" if "i < length (heap_keys s)" "i = 2 * k + 1 \<or> i = 2 * k + 2" for i
        using least [of i] that True 1(3) by (simp add: less_than_def)
      ultimately show ?thesis using down_ok_stop [OF 1(4)] 1(2) by (simp add: reordered_refl)
    next
      case False
      then have down: "down_heap k s = down_heap m (swap_heap k m s)" using eq child by simp
      have "k \<noteq> m" using m by simp
      note sw = swap_heap_ok [OF 1(2) this 1(3) m(1)] reordered_swap [OF 1(2) this 1(3) m(1)]
      have "heap_keys s ! m \<le> heap_keys s ! i" if "i < length (heap_keys s)" "0 < i" "par i = k" for i
        using least [of i] that m(1) par_children [OF that(2)] by auto
      then have "down_ok (swapped (heap_keys s) k m) m"
        using down_ok_step [OF 1(4), of m] m pm False 1(3) by (simp add: less_than_def)
      then have "reordered (swap_heap k m s) (down_heap m (swap_heap k m s)) \<and>
          heap_ord (heap_keys (down_heap m (swap_heap k m s)))"
        using 1(1) [OF refl child m_def False] sw(1,4) m(1) by simp
      then show ?thesis using reordered_trans [OF sw(5)] unfolding down by blast
    qed
  next
    case False
    then have "down_heap k s = s" using eq by simp
    moreover have "heap_ord (heap_keys s)" using False by (intro down_ok_stop [OF 1(4)]) auto
    ultimately show ?thesis using 1(2) by (simp add: reordered_refl)
  qed
qed

section \<open>Insertion and removal\<close>

text \<open>Everything but the heap and the indices.\<close>

definition links_frame :: "('t, 'o) timer_queue \<Rightarrow> ('t, 'o) timer_queue \<Rightarrow> bool" where
  "links_frame s s' \<longleftrightarrow> timers s' = timers s \<and> tstore s' = tstore s \<and>
     (\<forall>t. tops (tdata s' t) = tops (tdata s t) \<and> tnext (tdata s' t) = tnext (tdata s t) \<and>
          tprev (tdata s' t) = tprev (tdata s t))"

lemma reordered_links: "reordered s s' \<Longrightarrow> links_frame r s \<Longrightarrow> links_frame r s'"
  by (simp add: reordered_def heap_frame_def links_frame_def)

lemma heap_insert_ok:
  assumes idx: "idx_ok s" and ord: "heap_ord (heap_keys s)" and t: "t \<notin> snd ` set (heap s)"
  shows "idx_ok (heap_insert time t s) \<and> heap_ord (heap_keys (heap_insert time t s)) \<and>
    mset (heap (heap_insert time t s)) = add_mset (time, t) (mset (heap s)) \<and>
    links_frame s (heap_insert time t s)"
proof -
  let ?n = "length (heap s)"
  define s2 where "s2 = (upd_timer t (\<lambda>d. d\<lparr>heap_index := ?n\<rparr>) s)\<lparr>heap := heap s @ [(time, t)]\<rparr>"
  have eq: "heap_insert time t s = up_heap ?n s2"
    by (simp add: heap_insert_def s2_def upd_timer_def Let_def)
  have heap2: "heap s2 = heap s @ [(time, t)]" by (simp add: s2_def)
  have idx2: "idx_ok s2" unfolding idx_ok_def heap2
  proof (intro allI impI)
    fix i assume "i < length (heap s @ [(time, t)])"
    then consider "i < ?n" | "i = ?n" by fastforce
    then show "heap_index (tdata s2 (snd ((heap s @ [(time, t)]) ! i))) = i"
    proof cases
      case 1
      then have "snd (heap s ! i) \<noteq> t" using t by force
      then show ?thesis using 1 idx by (simp add: nth_append s2_def upd_timer_def idx_ok_def)
    qed (simp add: s2_def upd_timer_def)
  qed
  have keys2: "heap_keys s2 = heap_keys s @ [time]" by (simp add: heap_keys_def heap2)
  have "up_ok (heap_keys s2) ?n" unfolding up_ok_def keys2
  proof (intro allI impI conjI)
    fix i assume i: "i < length (heap_keys s @ [time])" "0 < i"
    note less = par_less [OF i(2)]
    show "(heap_keys s @ [time]) ! par i \<le> (heap_keys s @ [time]) ! i" if "i \<noteq> ?n"
    proof -
      have "i < ?n" using i(1) that by simp
      moreover from this have "par i < ?n" using less by simp
      moreover have "heap_keys s ! par i \<le> heap_keys s ! i"
        using ord \<open>i < ?n\<close> i(2) by (simp add: heap_ord_def del: nth_heap_keys)
      ultimately show ?thesis by (simp add: nth_append del: nth_heap_keys)
    qed
    show "(heap_keys s @ [time]) ! par ?n \<le> (heap_keys s @ [time]) ! i" if "par i = ?n"
      using that less i(1) by simp
  qed
  then have "reordered s2 (up_heap ?n s2) \<and> heap_ord (heap_keys (up_heap ?n s2))"
    by (intro up_heap_ok [OF idx2]) (simp_all add: heap2)
  moreover have "links_frame s s2" by (simp add: links_frame_def s2_def upd_timer_def)
  ultimately show ?thesis
    unfolding eq using reordered_links [of s2 "up_heap ?n s2" s] by (auto simp: reordered_def heap2)
qed

text \<open>The order after the last key has taken the place of the \<open>i\<close>-th.\<close>

lemma replaced_by_last:
  assumes ord: "heap_ord ks" and i: "Suc i < length ks"
    and ls: "ls = butlast (swapped ks i (length ks - 1))"
  shows "0 < i \<Longrightarrow> ls ! i < ls ! par i \<Longrightarrow> up_ok ls i"
    and "\<not> (0 < i \<and> ls ! i < ls ! par i) \<Longrightarrow> down_ok ls i"
proof -
  have at: "ls ! m = (if m = i then ks ! (length ks - 1) else ks ! m)" if "Suc m < length ks" for m
  proof -
    have "m \<noteq> length ks - 1" "m < length ks - 1" using that by auto
    with i show ?thesis by (simp add: ls nth_butlast nth_swapped)
  qed
  have len: "length ls = length ks - 1" by (simp add: ls)
  have old: "ks ! par j \<le> ks ! j" if "Suc j < length ks" "0 < j" for j
    using ord that by (simp add: heap_ord_def)
  have second: "ls ! par i \<le> ls ! j" if j: "Suc j < length ks" "0 < j" "par j = i" "0 < i" for j
  proof -
    have "par i < i" "i < j" using par_less j by blast+
    moreover have "ks ! par i \<le> ks ! j" using old [OF j(1,2)] old [OF i j(4)] j(3) by simp
    ultimately show ?thesis using at [OF j(1)] at [of "par i"] i by simp
  qed
  have first: "ls ! par j \<le> ls ! j" if j: "Suc j < length ks" "0 < j" "par j \<noteq> i" "j \<noteq> i" for j
  proof -
    have "par j < j" using par_less j(2) .
    then show ?thesis using at [OF j(1)] at [of "par j"] old [OF j(1,2)] j by simp
  qed
  show "up_ok ls i" if less: "0 < i" "ls ! i < ls ! par i" unfolding up_ok_def len
  proof (intro allI impI conjI)
    fix j assume j: "j < length ks - 1" "0 < j"
    then have j': "Suc j < length ks" by simp
    show "ls ! par j \<le> ls ! j" if "j \<noteq> i"
      using first [OF j' j(2) _ that] second [OF j' j(2) _ less(1)] less(2) by (cases "par j = i") auto
    show "ls ! par i \<le> ls ! j" if "par j = i" "0 < i"
      using second [OF j' j(2) that] .
  qed
  show "down_ok ls i" if less: "\<not> (0 < i \<and> ls ! i < ls ! par i)" unfolding down_ok_def len
  proof (intro allI impI conjI)
    fix j assume j: "j < length ks - 1" "0 < j"
    then have j': "Suc j < length ks" by simp
    show "ls ! par j \<le> ls ! j" if "par j \<noteq> i"
      using first [OF j' j(2) that] less j(2) by (cases "j = i") auto
    show "ls ! par i \<le> ls ! j" if "par j = i" "0 < i"
      using second [OF j' j(2) that] .
  qed
qed

lemma mset_butlast: "xs \<noteq> [] \<Longrightarrow> mset (butlast xs) = mset xs - {#last xs#}"
  by (metis add_diff_cancel_right' append_butlast_last_id mset.simps(1) mset.simps(2) mset_append)

lemma heap_remove_ok:
  assumes idx: "idx_ok s" and ord: "heap_ord (heap_keys s)"
    and i: "i < length (heap s)" and t: "snd (heap s ! i) = t"
  shows "idx_ok (heap_remove t s) \<and> heap_ord (heap_keys (heap_remove t s)) \<and>
    mset (heap (heap_remove t s)) = mset (heap s) - {#heap s ! i#} \<and> links_frame s (heap_remove t s)"
proof -
  let ?n = "length (heap s)"
  have ti: "heap_index (tdata s t) = i" and ne: "heap s \<noteq> []"
    using idx i t by (auto simp: idx_ok_def)
  show ?thesis
  proof (cases "i = ?n - 1")
    case True
    define s1 where "s1 = (upd_timer t (\<lambda>d. d\<lparr>heap_index := size_max\<rparr>) s)\<lparr>heap := butlast (heap s)\<rparr>"
    have eq: "heap_remove t s = s1"
      using True i by (simp add: heap_remove_def ti ne s1_def upd_timer_def Let_def)
    have "snd (heap s ! m) \<noteq> t" if "m < ?n - 1" for m
      using idx_ok_inj [OF idx, of m i] that i t True by auto
    then have "idx_ok s1"
      using idx by (simp add: s1_def idx_ok_def upd_timer_def nth_butlast)
    moreover have "heap_ord (heap_keys s1)" unfolding heap_ord_def
    proof (intro allI impI)
      fix m assume "m < length (heap_keys s1)" "0 < m"
      then have "m < ?n - 1" "par m < m" using par_less by (simp_all add: s1_def)
      moreover from this have "par m < ?n - 1" "par m < ?n" and "m < ?n" by simp_all
      moreover have "heap_keys s ! par m \<le> heap_keys s ! m"
        using ord \<open>m < ?n\<close> \<open>0 < m\<close> by (simp add: heap_ord_def del: nth_heap_keys)
      ultimately show "heap_keys s1 ! par m \<le> heap_keys s1 ! m"
        by (simp add: s1_def nth_butlast)
    qed
    moreover have "mset (heap s1) = mset (heap s) - {#heap s ! i#}"
      using ne True by (simp add: s1_def mset_butlast last_conv_nth)
    ultimately show ?thesis unfolding eq by (simp add: links_frame_def s1_def upd_timer_def)
  next
    case False
    define s1 where "s1 = swap_heap i (?n - 1) s"
    define s2 where "s2 = (upd_timer t (\<lambda>d. d\<lparr>heap_index := size_max\<rparr>) s1)\<lparr>heap := butlast (heap s1)\<rparr>"
    have ij: "i \<noteq> ?n - 1" "i < ?n" "?n - 1 < ?n" using False i ne by auto
    note sw = swap_heap_ok [OF idx ij, folded s1_def]
    have heap1: "heap s1 = swapped (heap s) i (?n - 1)" using ij(1) by (simp add: s1_def)
    have eq: "heap_remove t s = (if 0 < i \<and> time_at s2 i < time_at s2 (par i) then up_heap i s2 else down_heap i s2)"
      using False i ne by (simp add: heap_remove_def ti s2_def s1_def Let_def less_than_def par_def upd_timer_def)
    have lastt: "heap s1 ! (?n - 1) = heap s ! i" using nth_swapped [OF ij(2,3,3)] by (simp add: heap1)
    have other: "snd (heap s1 ! m) \<noteq> t" if "m < ?n - 1" for m
    proof
      assume "snd (heap s1 ! m) = t"
      then have "m = ?n - 1"
        using that ij(3) lastt t by (intro idx_ok_inj [OF sw(1)]) (simp_all add: heap1)
      with that show False by simp
    qed
    have idx2: "idx_ok s2"
      using sw(1) other by (simp add: s2_def idx_ok_def upd_timer_def nth_butlast heap1)
    have keys2: "heap_keys s2 = butlast (swapped (heap_keys s) i (length (heap_keys s) - 1))"
      using sw(4) by (simp add: s2_def heap_keys_def map_butlast)
    have "mset (heap s2) = mset (heap s1) - {#last (heap s1)#}"
      using ne by (simp add: s2_def mset_butlast heap1 flip: length_greater_0_conv)
    moreover have "last (heap s1) = heap s ! i"
      using lastt ne by (metis heap1 last_conv_nth length_0_conv length_swapped)
    ultimately have mset2: "mset (heap s2) = mset (heap s) - {#heap s ! i#}" using sw(3) by simp
    have fr: "links_frame s s2"
      using sw(2) by (simp add: links_frame_def heap_frame_def s2_def upd_timer_def)
    have i2: "i < length (heap s2)" "par i < length (heap s2)"
      using ij par_less [of i] by (auto simp: s2_def heap1 par_def)
    have Suc: "Suc i < length (heap_keys s)" using ij by simp
    note repl = replaced_by_last [OF ord Suc keys2]
    have "reordered s2 (heap_remove t s) \<and> heap_ord (heap_keys (heap_remove t s))"
    proof (cases "0 < i \<and> time_at s2 i < time_at s2 (par i)")
      case True
      then show ?thesis unfolding eq using up_heap_ok [OF idx2 i2(1)] repl(1) i2 by simp
    next
      case neg: False
      then have "heap_remove t s = down_heap i s2" unfolding eq by (simp only: if_False)
      moreover have "down_ok (heap_keys s2) i" using neg repl(2) i2 by simp
      ultimately show ?thesis using down_heap_ok [OF idx2 i2(1)] by simp
    qed
    then show ?thesis using reordered_links [OF _ fr] mset2 by (auto simp: reordered_def)
  qed
qed

end
