(* ===== verification/AsioTimers.thy ===== *)
theory AsioTimers
  imports AsioTimerHeap
begin

text \<open>
  Correctness of the timer queue: it implements a finite map from active timers to expiry times and
  waiting operations. \<open>tq_rep s A\<close> says that the state represents the map \<open>A\<close>; one theorem per
  operation says what the map is afterwards.
\<close>

section \<open>The list of active timers\<close>

text \<open>\<open>dseg d a p xs b q\<close>: from \<open>p\<close>, whose predecessor is \<open>a\<close>, the links run through \<open>xs\<close> to \<open>q\<close>.\<close>

primrec dseg :: "('t \<Rightarrow> ('t, 'o) per_timer_data) \<Rightarrow> 't option \<Rightarrow> 't option \<Rightarrow> 't list \<Rightarrow> 't option \<Rightarrow> 't option \<Rightarrow> bool" where
  "dseg d a p [] b q \<longleftrightarrow> p = q \<and> b = a"
| "dseg d a p (x # xs) b q \<longleftrightarrow> p = Some x \<and> tprev (d x) = a \<and> dseg d (Some x) (tnext (d x)) xs b q"

lemma dseg_append: "dseg d a p (xs @ ys) b q \<longleftrightarrow> (\<exists>m n. dseg d a p xs m n \<and> dseg d m n ys b q)"
  by (induction xs arbitrary: a p) auto

lemma dseg_cong:
  "dseg d a p xs b q \<Longrightarrow> (\<And>x. x \<in> set xs \<Longrightarrow> tnext (d' x) = tnext (d x) \<and> tprev (d' x) = tprev (d x)) \<Longrightarrow>
   dseg d' a p xs b q"
  by (induction xs arbitrary: a p) auto

lemma dseg_ends:
  "dseg d a p xs b q \<Longrightarrow> p = (if xs = [] then q else Some (hd xs)) \<and> b = (if xs = [] then a else Some (last xs))"
  by (induction xs arbitrary: a p) auto

definition active :: "('t, 'o) timer_queue \<Rightarrow> 't list \<Rightarrow> bool" where
  "active s ts \<longleftrightarrow> distinct ts \<and> (\<exists>b. dseg (tdata s) None (timers s) ts b None) \<and>
     (\<forall>t. t \<notin> set ts \<longrightarrow> tnext (tdata s t) = None \<and> tprev (tdata s t) = None)"

lemma active_cong:
  "active s ts \<Longrightarrow> timers s' = timers s \<Longrightarrow>
   (\<And>t. tnext (tdata s' t) = tnext (tdata s t) \<and> tprev (tdata s' t) = tprev (tdata s t)) \<Longrightarrow> active s' ts"
  unfolding active_def by (metis dseg_cong)

lemma dseg_prev:
  "dseg d a p xs b q \<Longrightarrow> x \<in> set xs \<Longrightarrow> x \<noteq> hd xs \<Longrightarrow> tprev (d x) \<noteq> None"
proof (induction xs arbitrary: a p)
  case (Cons y ys)
  then show ?case by (cases ys) auto
qed simp

lemma active_mem:
  assumes "active s ts"
  shows "tprev (tdata s t) \<noteq> None \<or> timers s = Some t \<longleftrightarrow> t \<in> set ts"
proof
  obtain b where d: "dseg (tdata s) None (timers s) ts b None" using assms by (auto simp: active_def)
  assume "tprev (tdata s t) \<noteq> None \<or> timers s = Some t"
  then show "t \<in> set ts"
    using assms dseg_ends [OF d] by (auto simp: active_def split: if_splits)
next
  obtain b where d: "dseg (tdata s) None (timers s) ts b None" using assms by (auto simp: active_def)
  assume "t \<in> set ts"
  then show "tprev (tdata s t) \<noteq> None \<or> timers s = Some t"
    using dseg_prev [OF d] dseg_ends [OF d] by (cases "t = hd ts") auto
qed

lemma list_link_active:
  assumes "active s ts" and "t \<notin> set ts"
  shows "active (list_link t s) (t # ts)"
proof -
  obtain b where d: "dseg (tdata s) None (timers s) ts b None" using assms(1) by (auto simp: active_def)
  let ?d = "tdata (list_link t s)"
  show ?thesis
  proof (cases ts)
    case Nil
    then show ?thesis using assms d
      by (auto simp: active_def list_link_def upd_timer_def Let_def)
  next
    case (Cons u us)
    have links: "timers s = Some u" "u \<noteq> t" "u \<notin> set us" "t \<notin> set us"
      using d Cons assms by (auto simp: active_def)
    have next_eq: "tnext (?d x) = (if x = t then Some u else tnext (tdata s x))"
      and prev_eq: "tprev (?d x) = (if x = t then None else if x = u then Some t else tprev (tdata s x))" for x
      using links by (auto simp: list_link_def upd_timer_def Let_def)
    have "dseg (tdata s) (Some u) (tnext (tdata s u)) us b None" using d Cons by simp
    then have "dseg ?d (Some u) (tnext (tdata s u)) us b None"
      by (rule dseg_cong) (use links in \<open>auto simp: next_eq prev_eq\<close>)
    moreover have "timers (list_link t s) = Some t"
      by (simp add: list_link_def Let_def)
    ultimately show ?thesis using assms d Cons links
      by (auto simp: active_def next_eq prev_eq)
  qed
qed

lemma list_link_other [simp]:
  "heap (list_link t s) = heap s" "tstore (list_link t s) = tstore s"
  "tops (tdata (list_link t s) u) = tops (tdata s u)"
  "heap_index (tdata (list_link t s) u) = heap_index (tdata s u)"
  by (simp_all add: list_link_def upd_timer_def Let_def split: option.splits)

lemma list_unlink_other [simp]:
  "heap (list_unlink t s) = heap s" "tstore (list_unlink t s) = tstore s"
  "tops (tdata (list_unlink t s) u) = tops (tdata s u)"
  "heap_index (tdata (list_unlink t s) u) = heap_index (tdata s u)"
  by (simp_all add: list_unlink_def upd_timer_def Let_def split: option.splits)

lemma list_unlink_fields:
  assumes "tprev (tdata s t) \<noteq> Some t" and "tnext (tdata s t) \<noteq> Some t"
  shows "timers (list_unlink t s) = (if timers s = Some t then tnext (tdata s t) else timers s)"
    and "tnext (tdata (list_unlink t s) u) =
      (if u = t then None else if tprev (tdata s t) = Some u then tnext (tdata s t) else tnext (tdata s u))"
    and "tprev (tdata (list_unlink t s) u) =
      (if u = t then None else if tnext (tdata s t) = Some u then tprev (tdata s t) else tprev (tdata s u))"
  using assms by (auto simp: list_unlink_def upd_timer_def Let_def split: option.splits)

lemma list_unlink_active:
  assumes "active s (xs @ t # ys)"
  shows "active (list_unlink t s) (xs @ ys)"
proof -
  let ?d = "tdata s" and ?d' = "tdata (list_unlink t s)"
  obtain b m where 1: "dseg ?d None (timers s) xs m (Some t)" and m: "tprev (?d t) = m"
    and 2: "dseg ?d (Some t) (tnext (?d t)) ys b None"
    using assms by (auto simp: active_def dseg_append)
  have dist: "distinct xs" "distinct ys" "t \<notin> set xs" "t \<notin> set ys" "set xs \<inter> set ys = {}"
    using assms by (auto simp: active_def)
  have m': "m = (if xs = [] then None else Some (last xs))"
    and h: "timers s = (if xs = [] then Some t else Some (hd xs))" using dseg_ends [OF 1] by auto
  have n: "tnext (?d t) = (if ys = [] then None else Some (hd ys))" using dseg_ends [OF 2] by auto
  have ends: "xs \<noteq> [] \<Longrightarrow> last xs \<in> set xs" "ys \<noteq> [] \<Longrightarrow> hd ys \<in> set ys" by simp_all
  then have apart: "xs \<noteq> [] \<Longrightarrow> last xs \<notin> set ys" "ys \<noteq> [] \<Longrightarrow> hd ys \<notin> set xs"
    using dist(5) by blast+
  have "tprev (?d t) \<noteq> Some t" "tnext (?d t) \<noteq> Some t"
    using m m' n dist ends by auto
  note f = list_unlink_fields [OF this]
  have "dseg ?d' None (timers (list_unlink t s)) xs m (tnext (?d t))"
  proof (cases "xs = []")
    case True
    then show ?thesis using m' h f(1) by simp
  next
    case False
    then obtain zs z where xs: "xs = zs @ [z]" by (metis rev_exhaust)
    obtain k where k: "dseg ?d None (timers s) zs k (Some z)" "tprev (?d z) = k"
      using 1 by (auto simp: xs dseg_append)
    have "dseg ?d' None (timers s) zs k (Some z)"
      by (rule dseg_cong [OF k(1)]) (use dist m m' n apart in \<open>auto simp: f(2,3) xs split: if_splits\<close>)
    moreover have "tprev (?d' z) = k" "tnext (?d' z) = tnext (?d t)"
      using dist m m' n k(2) apart by (auto simp: f(2,3) xs split: if_splits)
    moreover have "timers (list_unlink t s) = timers s" using False h dist by (auto simp: f(1))
    ultimately show ?thesis using m' by (auto simp: xs dseg_append)
  qed
  moreover have "\<exists>b'. dseg ?d' m (tnext (?d t)) ys b' None"
  proof (cases ys)
    case Nil
    then show ?thesis using n by simp
  next
    case (Cons y ys')
    have "dseg ?d' (Some y) (tnext (?d y)) ys' b None"
      by (rule dseg_cong [of ?d]) (use 2 dist m m' n Cons apart in \<open>auto simp: f(2,3) split: if_splits\<close>)
    moreover have "tprev (?d' y) = m" "tnext (?d' y) = tnext (?d y)"
      using dist m m' n Cons apart by (auto simp: f(2,3) split: if_splits)
    ultimately show ?thesis using n Cons by auto
  qed
  ultimately have "\<exists>b'. dseg ?d' None (timers (list_unlink t s)) (xs @ ys) b' None"
    by (auto simp: dseg_append)
  moreover have "tnext (?d' u) = None \<and> tprev (?d' u) = None" if "u \<notin> set (xs @ ys)" for u
    using assms that m m' n by (auto simp: f(2,3) active_def split: if_splits)
  ultimately show ?thesis using dist by (auto simp: active_def)
qed

section \<open>The abstract map\<close>

type_synonym ('t, 'o) timer_map = "'t \<rightharpoonup> int \<times> 'o list"

definition ops_of :: "('t, 'o) timer_map \<Rightarrow> 't \<Rightarrow> 'o list" where
  "ops_of A t = (case A t of None \<Rightarrow> [] | Some (_, os) \<Rightarrow> os)"

definition entries :: "('t, 'o) timer_map \<Rightarrow> (int \<times> 't) set" where
  "entries A = {(k, t). \<exists>os. A t = Some (k, os)}"

text \<open>The heap part and the queues part of the representation.\<close>

definition heap_rep :: "('t, 'o) timer_queue \<Rightarrow> ('t, 'o) timer_map \<Rightarrow> bool" where
  "heap_rep s A \<longleftrightarrow> idx_ok s \<and> heap_ord (heap_keys s) \<and> set (heap s) = entries A"

definition ops_rep :: "('t, 'o) timer_queue \<Rightarrow> ('t, 'o) timer_map \<Rightarrow> bool" where
  "ops_rep s A \<longleftrightarrow> (\<forall>t. queue_rep (tstore s) (tops (tdata s t)) (ops_of A t)) \<and>
     (\<forall>t u. t \<noteq> u \<longrightarrow> set (ops_of A t) \<inter> set (ops_of A u) = {}) \<and>
     (\<forall>t k os. A t = Some (k, os) \<longrightarrow> os \<noteq> [])"

definition tq_rep :: "('t, 'o) timer_queue \<Rightarrow> ('t, 'o) timer_map \<Rightarrow> bool" where
  "tq_rep s A \<longleftrightarrow> (\<exists>ts. active s ts \<and> set ts = dom A) \<and> heap_rep s A \<and> ops_rep s A"

lemma ops_of_simps [simp]:
  "ops_of (A(t \<mapsto> (k, os))) u = (if u = t then os else ops_of A u)"
  "ops_of (A(t := None)) u = (if u = t then [] else ops_of A u)"
  "ops_of Map.empty u = []"
  by (simp_all add: ops_of_def)

text \<open>All operations that wait on timers.\<close>

definition timer_ops :: "('t, 'o) timer_map \<Rightarrow> 'o set" where
  "timer_ops A = (\<Union>t. set (ops_of A t))"

lemma timer_ops_mono:
  "set (ops_of A t) \<subseteq> timer_ops A" "timer_ops (A(t := None)) \<subseteq> timer_ops A"
  by (auto simp: timer_ops_def split: if_splits)

lemma snd_entries: "snd ` entries A = dom A"
  by (force simp: entries_def)

lemma entries_update [simp]:
  "entries (A(t \<mapsto> (k, os))) = insert (k, t) {(j, u) \<in> entries A. u \<noteq> t}"
  "entries (A(t := None)) = {(j, u) \<in> entries A. u \<noteq> t}"
  by (auto simp: entries_def)

lemma entries_fun: "(j, t) \<in> entries A \<Longrightarrow> (k, t) \<in> entries A \<Longrightarrow> j = k"
  by (auto simp: entries_def)

lemma heap_rep_distinct: "heap_rep s A \<Longrightarrow> distinct (heap s)"
  using idx_ok_distinct [of s] by (auto simp: heap_rep_def distinct_map)

lemma heap_rep_pos:
  assumes "heap_rep s A" and "A t = Some (k, os)"
  obtains i where "i < length (heap s)" "heap s ! i = (k, t)" "heap_index (tdata s t) = i"
proof -
  have "(k, t) \<in> set (heap s)" using assms by (auto simp: heap_rep_def entries_def)
  then obtain i where i: "i < length (heap s)" "heap s ! i = (k, t)" by (auto simp: in_set_conv_nth)
  then have "heap_index (tdata s t) = i" using assms(1) by (auto simp: heap_rep_def idx_ok_def dest: spec [of _ i])
  with i show thesis by (rule that)
qed

lemma heap_rep_front:
  assumes "heap_rep s A" and "(k, t) \<in> entries A"
  shows "heap s \<noteq> [] \<and> time_at s 0 \<le> k"
proof -
  have "(k, t) \<in> set (heap s)" using assms by (simp add: heap_rep_def)
  then obtain i where i: "i < length (heap s)" "heap s ! i = (k, t)" by (auto simp: in_set_conv_nth)
  have "heap_keys s ! 0 \<le> heap_keys s ! i"
    using assms(1) i(1) by (intro heap_ord_front) (simp_all add: heap_rep_def)
  moreover have "heap s \<noteq> []" using i(1) by auto
  ultimately show ?thesis using i by auto
qed

text \<open>The heap, the list and the operation queues are changed by separate parts of each operation.\<close>

lemma heap_rep_cong:
  "heap_rep s A \<Longrightarrow> heap s' = heap s \<Longrightarrow> (\<And>t. heap_index (tdata s' t) = heap_index (tdata s t)) \<Longrightarrow>
   entries A' = entries A \<Longrightarrow> heap_rep s' A'"
  by (simp add: heap_rep_def idx_ok_def heap_keys_def)

lemma ops_rep_cong:
  "ops_rep s A \<Longrightarrow> tstore s' = tstore s \<Longrightarrow> (\<And>t. tops (tdata s' t) = tops (tdata s t)) \<Longrightarrow> ops_rep s' A"
  by (simp add: ops_rep_def)

lemma heap_insert_rep:
  assumes "heap_rep s A" and "A t = None"
  shows "heap_rep (heap_insert time t s) (A(t \<mapsto> (time, os))) \<and> links_frame s (heap_insert time t s)"
proof -
  have "t \<notin> snd ` set (heap s)" using assms by (auto simp: heap_rep_def snd_entries)
  then have ok: "idx_ok (heap_insert time t s)" "heap_ord (heap_keys (heap_insert time t s))"
      "mset (heap (heap_insert time t s)) = add_mset (time, t) (mset (heap s))"
      "links_frame s (heap_insert time t s)"
    using heap_insert_ok [of s t time] assms(1) by (simp_all add: heap_rep_def)
  have "set (heap (heap_insert time t s)) = insert (time, t) (set (heap s))"
    using arg_cong [OF ok(3), of set_mset] by simp
  moreover have "{(j, u) \<in> entries A. u \<noteq> t} = entries A" using assms(2) by (auto simp: entries_def)
  ultimately show ?thesis using ok assms(1) by (simp add: heap_rep_def)
qed

lemma heap_remove_rep:
  assumes "heap_rep s A" and "A t = Some (k, os)"
  shows "heap_rep (heap_remove t s) (A(t := None)) \<and> links_frame s (heap_remove t s)"
proof -
  obtain i where i: "i < length (heap s)" "heap s ! i = (k, t)" using heap_rep_pos [OF assms] .
  have ok: "idx_ok (heap_remove t s)" "heap_ord (heap_keys (heap_remove t s))"
      "mset (heap (heap_remove t s)) = mset (heap s) - {#(k, t)#}" "links_frame s (heap_remove t s)"
    using heap_remove_ok [of s i t] assms(1) i by (simp_all add: heap_rep_def)
  have "set (heap (heap_remove t s)) = set (heap s) - {(k, t)}"
  proof -
    have "mset (heap (heap_remove t s)) = mset (remove1 (k, t) (heap s))" using ok(3) by simp
    then have "set (heap (heap_remove t s)) = set (remove1 (k, t) (heap s))" by (rule mset_eq_setD)
    then show ?thesis using heap_rep_distinct [OF assms(1)] by simp
  qed
  also have "\<dots> = {(j, u) \<in> entries A. u \<noteq> t}"
    using assms by (auto simp: heap_rep_def entries_def)
  finally show ?thesis using ok by (simp add: heap_rep_def)
qed

lemma remove_timer_rep:
  assumes act: "active s ts" and dom: "set ts = dom A" and h: "heap_rep s A" and t: "A t = Some (k, os)"
  shows "\<exists>ts'. active (remove_timer t s) ts' \<and> set ts' = dom (A(t := None))"
    and "heap_rep (remove_timer t s) (A(t := None))"
    and "tstore (remove_timer t s) = tstore s"
    and "tops (tdata (remove_timer t s) u) = tops (tdata s u)"
proof -
  note hr = heap_remove_rep [OF h t]
  have "t \<in> set ts" using dom t by auto
  then obtain xs ys where ts: "ts = xs @ t # ys" by (auto simp: in_set_conv_decomp)
  have "active (heap_remove t s) ts"
    using act by (rule active_cong) (use hr in \<open>auto simp: links_frame_def\<close>)
  then have "active (remove_timer t s) (xs @ ys)"
    unfolding ts remove_timer_def by (rule list_unlink_active)
  moreover have "set (xs @ ys) = dom (A(t := None))"
    using dom act by (auto simp: ts active_def)
  ultimately show "\<exists>ts'. active (remove_timer t s) ts' \<and> set ts' = dom (A(t := None))" by blast
  show "heap_rep (remove_timer t s) (A(t := None))"
    by (rule heap_rep_cong [OF conjunct1 [OF hr]]) (simp_all add: remove_timer_def)
  show "tstore (remove_timer t s) = tstore s" "tops (tdata (remove_timer t s) u) = tops (tdata s u)"
    using hr by (simp_all add: remove_timer_def links_frame_def)
qed

section \<open>Moving operations\<close>

text \<open>The caller's queue \<open>ops\<close> holds \<open>zs\<close>, none of which waits on a timer.\<close>

definition caller_rep :: "('t, 'o) timer_queue \<Rightarrow> 'o op_queue \<Rightarrow> 'o list \<Rightarrow> ('t, 'o) timer_map \<Rightarrow> bool" where
  "caller_rep s ops zs A \<longleftrightarrow> queue_rep (tstore s) ops zs \<and> (\<forall>u. set zs \<inter> set (ops_of A u) = {})"

lemma push_op_other [simp]:
  "heap (push_op t p s) = heap s" "timers (push_op t p s) = timers s"
  "heap_index (tdata (push_op t p s) u) = heap_index (tdata s u)"
  "tnext (tdata (push_op t p s) u) = tnext (tdata s u)"
  "tprev (tdata (push_op t p s) u) = tprev (tdata s u)"
  by (simp_all add: push_op_def upd_timer_def split: prod.splits)

lemma push_op_rep:
  assumes r: "ops_rep s A" and fresh: "\<And>u. p \<notin> set (ops_of A u)"
  shows "ops_rep (push_op t p s) (A(t \<mapsto> (k, ops_of A t @ [p])))"
    and "queue_rep (tstore (push_op t p s)) (tops (tdata (push_op t p s) t)) (ops_of A t @ [p])"
proof -
  obtain st q where pq: "q_push (tstore s) (tops (tdata s t)) p = (st, q)"
    by (cases "q_push (tstore s) (tops (tdata s t)) p")
  have q: "queue_rep (tstore s) (tops (tdata s u)) (ops_of A u)" for u using r by (simp add: ops_rep_def)
  have disj: "set (ops_of A u) \<inter> set (ops_of A v) = {}" if "u \<noteq> v" for u v
    using r that by (simp add: ops_rep_def)
  have "queue_rep st q (ops_of A t @ [p])" using opq.push [OF q fresh pq] .
  moreover have "queue_rep st (tops (tdata s u)) (ops_of A u)" if "u \<noteq> t" for u
    using opq.push_others [OF q pq q fresh disj] that by simp
  moreover have eq: "push_op t p s = upd_timer t (\<lambda>d. d\<lparr>tops := q\<rparr>) (s\<lparr>tstore := st\<rparr>)"
    by (simp add: push_op_def pq)
  ultimately show "queue_rep (tstore (push_op t p s)) (tops (tdata (push_op t p s) t)) (ops_of A t @ [p])"
    and "ops_rep (push_op t p s) (A(t \<mapsto> (k, ops_of A t @ [p])))"
    using r fresh disj by (auto simp: ops_rep_def upd_timer_def)
qed

lemma push_all_rep:
  assumes r: "ops_rep s A" and c: "caller_rep s ops zs A"
    and pq: "q_push_all (tstore s) ops (tops (tdata s t)) = (st, ops', q)"
    and s': "tstore s' = st" "\<And>u. tops (tdata s' u) = (if u = t then q else tops (tdata s u))"
  shows "ops_rep s' (A(t := None)) \<and> caller_rep s' ops' (zs @ ops_of A t) (A(t := None))"
proof -
  have q: "queue_rep (tstore s) (tops (tdata s u)) (ops_of A u)" for u using r by (simp add: ops_rep_def)
  have disj: "set (ops_of A u) \<inter> set (ops_of A v) = {}" if "u \<noteq> v" for u v
    using r that by (simp add: ops_rep_def)
  have z: "queue_rep (tstore s) ops zs" "set zs \<inter> set (ops_of A u) = {}" for u
    using c by (auto simp: caller_rep_def)
  have "queue_rep st ops' (zs @ ops_of A t) \<and> queue_rep st q []"
    using opq.push_all [OF z(1) q z(2) pq] .
  moreover have "queue_rep st (tops (tdata s u)) (ops_of A u)" if "u \<noteq> t" for u
    using opq.push_all_others [OF z(1) q pq q z(2) disj] that by simp
  moreover have "set (zs @ ops_of A t) \<inter> set (ops_of A u) = {}" if "u \<noteq> t" for u
    using z(2) [of u] disj [of t u] that by auto
  ultimately show ?thesis
    using r disj by (simp add: ops_rep_def caller_rep_def s')
qed

lemma op_ec_frame [simp]:
  "op_ec (fst (q_push st q p)) = op_ec st" "op_ec (fst (q_pop st q)) = op_ec st"
  by (auto simp: q_push_def q_pop_def set_next_def Let_def split: option.splits)

text \<open>The store may change on other operations.\<close>

lemma new_timers_rep: "tq_rep (new_timers st) Map.empty"
proof -
  have "active (new_timers st) []" by (simp add: active_def new_timers_def new_timer_data_def)
  moreover have "heap_rep (new_timers st) Map.empty"
    by (simp add: heap_rep_def new_timers_def idx_ok_def heap_ord_def heap_keys_def entries_def)
  moreover have "ops_rep (new_timers st) Map.empty"
    by (simp add: ops_rep_def new_timers_def new_timer_data_def opq.new)
  ultimately show ?thesis by (auto simp: tq_rep_def)
qed

lemma tq_rep_frame:
  assumes "tq_rep s A" and "only_touches S (tstore s) st" and "S \<inter> timer_ops A = {}"
  shows "tq_rep (s\<lparr>tstore := st\<rparr>) A"
proof -
  obtain ts where act: "active s ts" "set ts = dom A" and h: "heap_rep s A" and o: "ops_rep s A"
    using assms(1) by (auto simp: tq_rep_def)
  have "active (s\<lparr>tstore := st\<rparr>) ts" using act(1) by (rule active_cong) simp_all
  moreover have "heap_rep (s\<lparr>tstore := st\<rparr>) A" using h by (rule heap_rep_cong) simp_all
  moreover have "set (ops_of A t) \<inter> S = {}" for t using assms(3) by (auto simp: timer_ops_def)
  then have "ops_rep (s\<lparr>tstore := st\<rparr>) A"
    using o only_touchesD [OF assms(2)] by (simp add: ops_rep_def)
  ultimately show ?thesis using act(2) by (auto simp: tq_rep_def)
qed

lemma caller_rep_set: "caller_rep s ops zs A \<longleftrightarrow> queue_rep (tstore s) ops zs \<and> set zs \<inter> timer_ops A = {}"
  by (auto simp: caller_rep_def timer_ops_def)

section \<open>Adding a timer\<close>

lemma enqueue_new:
  assumes rep: "tq_rep s A" and fresh: "\<And>u. p \<notin> set (ops_of A u)" and t: "A t = None"
    and s': "s' = push_op t p (list_link t (heap_insert time t s))"
  shows "tq_rep s' (A(t \<mapsto> (time, [p])))" and "q_front (tops (tdata s' t)) = Some p"
proof -
  let ?A = "A(t \<mapsto> (time, [p]))" and ?s1 = "heap_insert time t s"
  obtain ts where act: "active s ts" "set ts = dom A" and h: "heap_rep s A" and o: "ops_rep s A"
    using rep by (auto simp: tq_rep_def)
  have ins: "heap_rep ?s1 ?A" "links_frame s ?s1"
    using heap_insert_rep [OF h t] by auto
  have "active ?s1 ts" using act(1) by (rule active_cong) (use ins(2) in \<open>auto simp: links_frame_def\<close>)
  then have "active (list_link t ?s1) (t # ts)"
    by (rule list_link_active) (use act t in auto)
  then have "active s' (t # ts)" unfolding s' by (rule active_cong) simp_all
  moreover have "heap_rep s' ?A" unfolding s' using ins(1) by (rule heap_rep_cong) simp_all
  moreover have "ops_rep (list_link t ?s1) A"
    using o by (rule ops_rep_cong) (use ins(2) in \<open>simp_all add: links_frame_def\<close>)
  note pu = push_op_rep(1) [OF this fresh, of t time] push_op_rep(2) [OF this fresh, of t]
  have "ops_of A t = []" using t by (simp add: ops_of_def)
  then have "ops_rep s' ?A" "queue_rep (tstore s') (tops (tdata s' t)) [p]"
    using pu unfolding s' by simp_all
  ultimately show "tq_rep s' ?A" "q_front (tops (tdata s' t)) = Some p"
    using act(2) opq.front [of "tstore s'" "tops (tdata s' t)" "[p]"]
    by (auto simp: tq_rep_def intro!: exI [of _ "t # ts"])
qed

lemma enqueue_old:
  assumes rep: "tq_rep s A" and fresh: "\<And>u. p \<notin> set (ops_of A u)" and t: "A t = Some (k, os)"
  shows "tq_rep (push_op t p s) (A(t \<mapsto> (k, os @ [p])))" and "q_front (tops (tdata (push_op t p s) t)) = Some (hd os)"
proof -
  let ?A = "A(t \<mapsto> (k, os @ [p]))"
  obtain ts where act: "active s ts" "set ts = dom A" and h: "heap_rep s A" and o: "ops_rep s A"
    using rep by (auto simp: tq_rep_def)
  have os: "ops_of A t = os" "os \<noteq> []" using t o by (auto simp: ops_of_def ops_rep_def)
  note pu = push_op_rep(1) [OF o fresh, of t k, unfolded os(1)] push_op_rep(2) [OF o fresh, of t, unfolded os(1)]
  have "active (push_op t p s) ts" using act(1) by (rule active_cong) simp_all
  moreover have "heap_rep (push_op t p s) ?A"
    using h by (rule heap_rep_cong) (use t in \<open>auto simp: entries_def\<close>)
  ultimately show "tq_rep (push_op t p s) ?A"
    using pu(1) act(2) t by (auto simp: tq_rep_def intro!: exI [of _ ts])
  show "q_front (tops (tdata (push_op t p s) t)) = Some (hd os)"
    using opq.front [OF pu(2)] os(2) by (cases os) auto
qed

lemma front_index:
  assumes "heap_rep s A" and "A t = Some (k, os)" and "heap_index (tdata s t) = 0"
    and "A u = Some (j, os')"
  shows "k \<le> j"
proof -
  obtain i where "i < length (heap s)" "heap s ! i = (k, t)" "heap_index (tdata s t) = i"
    using heap_rep_pos [OF assms(1,2)] .
  moreover have "time_at s 0 \<le> j"
    using heap_rep_front [OF assms(1)] assms(4) by (auto simp: entries_def)
  ultimately show ?thesis using assms(3) by simp
qed

lemma index_of_least:
  assumes "heap_rep s A" and "A t = Some (k, os)" and "\<And>u j os'. u \<noteq> t \<Longrightarrow> A u = Some (j, os') \<Longrightarrow> k < j"
  shows "heap_index (tdata s t) = 0"
proof -
  obtain i where i: "i < length (heap s)" "heap s ! i = (k, t)" "heap_index (tdata s t) = i"
    using heap_rep_pos [OF assms(1,2)] .
  have ne: "0 < length (heap s)" using i(1) by auto
  have "heap s ! 0 \<in> entries A" using assms(1) nth_mem [OF ne] by (simp add: heap_rep_def)
  then obtain u j os' where u: "heap s ! 0 = (j, u)" "A u = Some (j, os')" by (auto simp: entries_def)
  have "j \<le> k" using heap_rep_front [OF assms(1), of k t] assms(2) u(1) by (auto simp: entries_def)
  then have "u = t" using assms(3) [of u j os'] u(2) by fastforce
  then have "snd (heap s ! 0) = snd (heap s ! i)" using u i by simp
  then have "0 = i" using assms(1) ne i(1) by (intro idx_ok_inj) (auto simp: heap_rep_def)
  with i(3) show ?thesis by simp
qed

end
