(* ===== verification/AsioTimerProps.thy ===== *)
theory AsioTimerProps
  imports AsioTimers
begin

text \<open>
  The operations of the timer queue on the map it implements: adding an operation, taking the
  operations of the timers that are due, of all timers, and cancelling those of one timer.
\<close>

section \<open>enqueue_timer\<close>

lemma enqueue_timer_eq:
  assumes "tq_rep s A"
  shows "enqueue_timer time t p s =
    (let s' = (if A t = None then push_op t p (list_link t (heap_insert time t s)) else push_op t p s)
     in (heap_index (tdata s' t) = 0 \<and> q_front (tops (tdata s' t)) = Some p, s'))"
proof -
  obtain ts where "active s ts" "set ts = dom A" using assms by (auto simp: tq_rep_def)
  then have "(tprev (tdata s t) = None \<and> timers s \<noteq> Some t) \<longleftrightarrow> A t = None"
    using active_mem [of s ts t] by (auto simp: domIff)
  then show ?thesis by (simp add: enqueue_timer_def is_positive_infinity_def Let_def)
qed

lemma enqueue_timer_cases:
  assumes "tq_rep s A" and "\<And>u. p \<notin> set (ops_of A u)" and "enqueue_timer time t p s = (b, s')"
  defines "A' \<equiv> A(t \<mapsto> (case A t of None \<Rightarrow> (time, [p]) | Some (k, os) \<Rightarrow> (k, os @ [p])))"
  shows "tq_rep s' A'"
    and "b \<Longrightarrow> A t = None \<and> (\<forall>u k os. A u = Some (k, os) \<longrightarrow> time \<le> k)"
    and "A t = None \<Longrightarrow> \<forall>u k os. A u = Some (k, os) \<longrightarrow> time < k \<Longrightarrow> b"
proof -
  show rep': "tq_rep s' A'"
  proof (cases "A t")
    case None
    then show ?thesis
      using enqueue_new(1) [OF assms(1,2) None, of s' time] assms(3) enqueue_timer_eq [OF assms(1), of time t p]
      by (simp add: A'_def Let_def)
  next
    case (Some a)
    obtain k os where a: "a = (k, os)" by (cases a)
    show ?thesis
      using enqueue_old(1) [OF assms(1,2) Some [unfolded a]] assms(3) enqueue_timer_eq [OF assms(1), of time t p] Some
      by (simp add: A'_def Let_def a)
  qed
  then have h': "heap_rep s' A'" by (simp add: tq_rep_def)
  have b: "b \<longleftrightarrow> heap_index (tdata s' t) = 0 \<and> q_front (tops (tdata s' t)) = Some p"
    using assms(3) enqueue_timer_eq [OF assms(1), of time t p] by (auto simp: Let_def)
  show "A t = None \<and> (\<forall>u k os. A u = Some (k, os) \<longrightarrow> time \<le> k)" if b
  proof (cases "A t")
    case None
    have "time \<le> k" if "A u = Some (k, os)" for u k os
    proof -
      have "A' t = Some (time, [p])" "A' u = Some (k, os)" using None that by (auto simp: A'_def)
      then show ?thesis using front_index [OF h'] \<open>b\<close> b by blast
    qed
    with None show ?thesis by blast
  next
    case (Some a)
    obtain k os where a: "a = (k, os)" by (cases a)
    have "s' = push_op t p s" using assms(3) enqueue_timer_eq [OF assms(1), of time t p] Some by (simp add: Let_def)
    moreover have "os \<noteq> []" using assms(1) Some a by (simp add: tq_rep_def ops_rep_def)
    then have "hd os \<in> set (ops_of A t)" using Some a by (simp add: ops_of_def)
    then have "hd os \<noteq> p" using assms(2) by blast
    ultimately have "\<not> b" using enqueue_old(2) [OF assms(1,2) Some [unfolded a]] b by simp
    with \<open>b\<close> show ?thesis by blast
  qed
  show b if None: "A t = None" and later: "\<forall>u k os. A u = Some (k, os) \<longrightarrow> time < k"
  proof -
    have "s' = push_op t p (list_link t (heap_insert time t s))"
      using assms(3) enqueue_timer_eq [OF assms(1), of time t p] None by (simp add: Let_def)
    moreover have "heap_index (tdata s' t) = 0"
      using None later by (intro index_of_least [OF h', of t time "[p]"]) (auto simp: A'_def)
    ultimately show b using b enqueue_new(2) [OF assms(1,2) None, of s' time] by simp
  qed
qed

lemma enqueue_timer_touches:
  assumes "tq_rep s A" and "enqueue_timer time t p s = (b, s')"
  shows "only_touches (insert p (timer_ops A)) (tstore s) (tstore s')"
proof -
  obtain ts where h: "heap_rep s A" and o: "ops_rep s A" using assms(1) by (auto simp: tq_rep_def)
  define s1 where "s1 = (if A t = None then list_link t (heap_insert time t s) else s)"
  have s': "s' = push_op t p s1"
    using assms(2) enqueue_timer_eq [OF assms(1), of time t p] by (cases "A t") (simp_all add: s1_def Let_def)
  have s1: "tstore s1 = tstore s" "\<And>u. tops (tdata s1 u) = tops (tdata s u)"
    using heap_insert_rep [OF h, of t time "[p]"] by (auto simp: s1_def links_frame_def)
  obtain st q where pq: "q_push (tstore s) (tops (tdata s t)) p = (st, q)"
    by (cases "q_push (tstore s) (tops (tdata s t)) p")
  have "queue_rep (tstore s) (tops (tdata s t)) (ops_of A t)" using o by (simp add: ops_rep_def)
  from push_touches [OF this pq] have "only_touches (insert p (timer_ops A)) (tstore s) st"
    by (rule only_touches_mono) (use timer_ops_mono(1) [of A t] in auto)
  then show ?thesis by (simp add: s' push_op_def s1 pq upd_timer_def)
qed

text \<open>
  Adding an operation that is in no queue to a timer: an inactive timer becomes active with the
  given time and that operation, an active one keeps its time, whatever time is given, and gets the
  operation at the end of its queue. If the result is true, the timer was inactive and no timer is
  due before it; if it was inactive and every other timer is due later, the result is true.
\<close>

theorem enqueue_timer_correct:
  assumes "tq_rep s A" and "\<And>u. p \<notin> set (ops_of A u)" and "enqueue_timer time t p s = (b, s')"
  shows "tq_rep s' (A(t \<mapsto> (case A t of None \<Rightarrow> (time, [p]) | Some (k, os) \<Rightarrow> (k, os @ [p])))) \<and>
    (b \<longrightarrow> A t = None \<and> (\<forall>u k os. A u = Some (k, os) \<longrightarrow> time \<le> k)) \<and>
    (A t = None \<longrightarrow> (\<forall>u k os. A u = Some (k, os) \<longrightarrow> time < k) \<longrightarrow> b)"
  using enqueue_timer_cases [OF assms] by blast

text \<open>An empty queue of timers; timers and operations are numbers.\<close>

definition empty_timers :: "(nat, nat) timer_queue" where
  "empty_timers = new_timers sample_store"

lemma empty_timers_rep: "tq_rep empty_timers Map.empty"
  unfolding empty_timers_def by (rule new_timers_rep)

lemma enqueue_timer_correct_witness:
  "tq_rep (snd (enqueue_timer 7 1 5 empty_timers)) [1 \<mapsto> (7, [5])] \<and> fst (enqueue_timer 7 1 5 empty_timers)"
  using enqueue_timer_correct [OF empty_timers_rep _ prod.collapse [symmetric], of 5 7 1] by simp

text \<open>One timer, due at 7.\<close>

definition one_timer :: "(nat, nat) timer_queue" where
  "one_timer = push_op 1 5 (list_link 1 (heap_insert 7 1 empty_timers))"

definition one_map :: "(nat, nat) timer_map" where
  "one_map = [1 \<mapsto> (7, [5])]"

lemma one_timer_rep: "tq_rep one_timer one_map"
  using enqueue_new(1) [OF empty_timers_rep, where p = 5 and t = 1 and time = 7 and s' = one_timer] by (simp add: one_timer_def one_map_def)

lemma one_timer_caller: "caller_rep one_timer q_new [] one_map"
  by (simp add: caller_rep_def opq.new)

section \<open>get_ready_timers\<close>

definition due :: "('t, 'o) timer_map \<Rightarrow> int \<Rightarrow> 't set" where
  "due A now = {t. \<exists>k os. A t = Some (k, os) \<and> k \<le> now}"

definition time_of :: "('t, 'o) timer_map \<Rightarrow> 't \<Rightarrow> int" where
  "time_of A t = fst (the (A t))"

lemma ready_loop_correct:
  assumes "tq_rep s A" and "caller_rep s ops zs A"
  shows "\<exists>s' ops' rs. ready_loop now s ops = Some (s', ops') \<and>
    distinct rs \<and> set rs = due A now \<and> sorted (map (time_of A) rs) \<and>
    tq_rep s' (A |` (- due A now)) \<and> caller_rep s' ops' (zs @ concat (map (ops_of A) rs)) (A |` (- due A now)) \<and>
    only_touches (set zs \<union> timer_ops A) (tstore s) (tstore s')"
  using assms
proof (induction "card (dom A)" arbitrary: s A ops zs rule: less_induct)
  case less
  obtain ts where act: "active s ts" "set ts = dom A" and h: "heap_rep s A" and o: "ops_rep s A"
    using less.prems(1) by (auto simp: tq_rep_def)
  have fin: "finite (dom A)" using act(2) by (metis List.finite_set)
  show ?case
  proof (cases "heap s \<noteq> [] \<and> time_at s 0 \<le> now")
    case False
    have "due A now = {}"
    proof (rule ccontr)
      assume "due A now \<noteq> {}"
      then obtain t k os where "A t = Some (k, os)" "k \<le> now" by (auto simp: due_def)
      then show False using heap_rep_front [OF h, of k t] False by (auto simp: entries_def)
    qed
    moreover have "A |` UNIV = A" by (simp add: restrict_map_def)
    moreover have "ready_loop now s ops = Some (s, ops)"
      using False by (subst ready_loop.simps) (auto simp: less_than_def)
    ultimately show ?thesis
      using less.prems by (intro exI [of _ s] exI [of _ ops] exI [of _ "[]"]) simp
  next
    case True
    then have "0 < length (heap s)" by simp
    from nth_mem [OF this] have "heap s ! 0 \<in> entries A" using h by (simp add: heap_rep_def)
    then obtain k t os where t: "heap s ! 0 = (k, t)" "A t = Some (k, os)" by (auto simp: entries_def)
    have first: "k \<le> j" if "A u = Some (j, os')" for u j os'
      using heap_rep_front [OF h, of j u] that t(1) by (auto simp: entries_def)
    obtain st ops1 q where pq: "q_push_all (tstore s) ops (tops (tdata s t)) = (st, ops1, q)"
      by (cases "q_push_all (tstore s) ops (tops (tdata s t))")
    define s1 where "s1 = upd_timer t (\<lambda>d. d\<lparr>tops := q\<rparr>) (s\<lparr>tstore := st\<rparr>)"
    define s2 where "s2 = remove_timer t s1"
    have step: "ready_loop now s ops = ready_loop now s2 ops1"
      using True t(1) by (subst ready_loop.simps) (simp add: less_than_def Let_def pq s2_def s1_def)
    have moved: "ops_rep s1 (A(t := None)) \<and> caller_rep s1 ops1 (zs @ ops_of A t) (A(t := None))"
      by (rule push_all_rep [OF o less.prems(2) pq]) (simp_all add: s1_def upd_timer_def)
    have "active s1 ts" using act(1) by (rule active_cong) (simp_all add: s1_def upd_timer_def)
    moreover have "heap_rep s1 A" using h by (rule heap_rep_cong) (simp_all add: s1_def upd_timer_def)
    ultimately have rem: "\<exists>ts'. active s2 ts' \<and> set ts' = dom (A(t := None))" "heap_rep s2 (A(t := None))"
      "tstore s2 = tstore s1" "\<And>u. tops (tdata s2 u) = tops (tdata s1 u)"
      using remove_timer_rep [OF _ act(2) _ t(2), of s1] by (auto simp: s2_def)
    have rep2: "tq_rep s2 (A(t := None))"
      using rem ops_rep_cong [OF conjunct1 [OF moved] rem(3,4)] by (simp add: tq_rep_def)
    have cal2: "caller_rep s2 ops1 (zs @ ops_of A t) (A(t := None))"
      using moved rem(3) by (simp add: caller_rep_def)
    have "card (dom (A(t := None))) < card (dom A)"
      using card_Diff1_less [OF fin, of t] t(2) by (simp add: domI)
    from less.hyps [OF this rep2 cal2] obtain s' ops' rs where
      loop: "ready_loop now s2 ops1 = Some (s', ops')" and
      rs: "distinct rs" "set rs = due (A(t := None)) now" "sorted (map (time_of (A(t := None))) rs)" and
      rep': "tq_rep s' (A(t := None) |` (- due (A(t := None)) now))" and
      cal': "caller_rep s' ops' ((zs @ ops_of A t) @ concat (map (ops_of (A(t := None))) rs))
        (A(t := None) |` (- due (A(t := None)) now))" and
      tch: "only_touches (set (zs @ ops_of A t) \<union> timer_ops (A(t := None))) (tstore s2) (tstore s')"
      by blast
    have "only_touches (set (ops_of A t) \<union> set zs) (tstore s) (tstore s2)"
      using push_all_touches [OF _ _ pq, of zs "ops_of A t"] less.prems(2) o rem(3)
      by (simp add: caller_rep_def ops_rep_def s1_def upd_timer_def)
    then have "only_touches (set zs \<union> timer_ops A) (tstore s) (tstore s2)"
      by (rule only_touches_mono) (use timer_ops_mono(1) [of A t] in auto)
    also have "only_touches (set zs \<union> timer_ops A) (tstore s2) (tstore s')"
      using tch by (rule only_touches_mono) (use timer_ops_mono [of A t] in auto)
    finally have touches: "only_touches (set zs \<union> timer_ops A) (tstore s) (tstore s')" .
    have due: "due A now = insert t (due (A(t := None)) now)" "t \<notin> due (A(t := None)) now"
      using True t by (auto simp: due_def)
    have A': "A(t := None) |` (- due (A(t := None)) now) = A |` (- due A now)"
      using due by (auto simp: restrict_map_def fun_eq_iff)
    have same: "time_of (A(t := None)) u = time_of A u" "ops_of (A(t := None)) u = ops_of A u" if "u \<in> set rs" for u
      using that rs(2) due(2) by (auto simp: time_of_def)
    then have eq: "map (time_of (A(t := None))) rs = map (time_of A) rs" "map (ops_of (A(t := None))) rs = map (ops_of A) rs"
      by simp_all
    note rs(3) [unfolded eq(1)] cal' [unfolded eq(2) A']
    moreover have "time_of A t \<le> time_of A u" if "u \<in> set rs" for u
      using that rs(2) t(2) first by (auto simp: due_def time_of_def split: if_splits)
    ultimately show ?thesis
      using loop rs(1,2) rep' due step touches unfolding A' by (intro exI [of _ s'] exI [of _ ops'] exI [of _ "t # rs"]) simp
  qed
qed

lemma get_ready_timers_loop: "get_ready_timers now s ops = ready_loop now s ops"
proof -
  have "ready_loop now s ops = Some (s, ops)" if "heap s = []"
    using that by (subst ready_loop.simps) simp
  then show ?thesis by (simp add: get_ready_timers_def)
qed

text \<open>
  C5: Taking the timers that are due terminates; it moves the operations of exactly the timers whose
  time is not after \<open>now\<close> to the caller's queue, timer by timer in the order of their times, each
  timer's operations in the order they were added, and deactivates those timers and no other.
\<close>

theorem get_ready_timers_correct:
  assumes "tq_rep s A" and "caller_rep s ops zs A"
  shows "\<exists>s' ops' rs. get_ready_timers now s ops = Some (s', ops') \<and>
    distinct rs \<and> set rs = due A now \<and> sorted (map (time_of A) rs) \<and>
    tq_rep s' (A |` (- due A now)) \<and> queue_rep (tstore s') ops' (zs @ concat (map (ops_of A) rs))"
  using ready_loop_correct [OF assms, of now] by (fastforce simp: caller_rep_def get_ready_timers_loop)

lemma get_ready_timers_correct_witness:
  "\<exists>s' ops' rs. get_ready_timers 9 one_timer q_new = Some (s', ops') \<and>
    distinct rs \<and> set rs = due one_map 9 \<and> sorted (map (time_of one_map) rs) \<and>
    tq_rep s' (one_map |` (- due one_map 9)) \<and>
    queue_rep (tstore s') ops' ([] @ concat (map (ops_of one_map) rs))"
  by (rule get_ready_timers_correct [OF one_timer_rep one_timer_caller])

section \<open>cancel_timer\<close>

lemma tq_rep_set_ops:
  assumes act: "active s ts" "set ts = dom A" and h: "heap_rep s A" and t: "A t = Some (k, os)"
    and s': "timers s' = timers s" "heap s' = heap s"
      "\<And>u. tnext (tdata s' u) = tnext (tdata s u) \<and> tprev (tdata s' u) = tprev (tdata s u) \<and>
            heap_index (tdata s' u) = heap_index (tdata s u)"
  shows "active s' ts \<and> set ts = dom (A(t \<mapsto> (k, os'))) \<and> heap_rep s' (A(t \<mapsto> (k, os')))"
proof (intro conjI)
  show "active s' ts" using act(1) by (rule active_cong) (use s' in simp_all)
  show "set ts = dom (A(t \<mapsto> (k, os')))" using act(2) t by auto
  show "heap_rep s' (A(t \<mapsto> (k, os')))"
    using h by (rule heap_rep_cong) (use s' t in \<open>auto simp: entries_def\<close>)
qed

text \<open>
  The state of the loop: \<open>qs\<close> waits on the timer, \<open>zs\<close> is in the caller's queue, and the other
  timers' queues are those of \<open>A\<close>. A timer may have an empty queue here.
\<close>

definition cancel_inv ::
  "'t \<Rightarrow> ('t, 'o) timer_queue \<Rightarrow> 'o op_queue \<Rightarrow> 'o list \<Rightarrow> 'o list \<Rightarrow> ('t, 'o) timer_map \<Rightarrow> bool" where
  "cancel_inv t s ops zs qs A \<longleftrightarrow>
     queue_rep (tstore s) ops zs \<and> queue_rep (tstore s) (tops (tdata s t)) qs \<and> set zs \<inter> set qs = {} \<and>
     (\<forall>u. u \<noteq> t \<longrightarrow> queue_rep (tstore s) (tops (tdata s u)) (ops_of A u) \<and>
        set zs \<inter> set (ops_of A u) = {} \<and> set qs \<inter> set (ops_of A u) = {})"

lemma cancel_step:
  assumes inv: "cancel_inv t s ops zs (p # qs) A"
    and st: "st = (tstore s)\<lparr>op_ec := (op_ec (tstore s))(p := ec_operation_aborted)\<rparr>"
    and pop: "q_pop st (tops (tdata s t)) = (st1, q)" and push: "q_push st1 ops p = (st2, ops')"
  shows "cancel_inv t (upd_timer t (\<lambda>d. d\<lparr>tops := q\<rparr>) (s\<lparr>tstore := st2\<rparr>)) ops' (zs @ [p]) qs A"
    and "op_ec st2 = (op_ec (tstore s))(p := ec_operation_aborted)"
    and "only_touches (set zs \<union> set (p # qs)) (tstore s) st2"
proof -
  have z: "queue_rep st ops zs" and t: "queue_rep st (tops (tdata s t)) (p # qs)"
    and zt: "set zs \<inter> set (p # qs) = {}"
    using inv by (simp_all add: cancel_inv_def st)
  have u: "queue_rep st (tops (tdata s u)) (ops_of A u)" "set zs \<inter> set (ops_of A u) = {}"
    "set (p # qs) \<inter> set (ops_of A u) = {}" if "u \<noteq> t" for u
    using inv that by (simp_all add: cancel_inv_def st)
  have p: "p \<notin> set qs" using opq.distinct [OF t] by simp
  have q1: "queue_rep st1 q qs" using opq.pop [OF t pop] by simp
  have z1: "queue_rep st1 ops zs" using opq.pop_others [OF t pop z] zt by blast
  have u1: "queue_rep st1 (tops (tdata s u)) (ops_of A u)" if "u \<noteq> t" for u
    using opq.pop_others [OF t pop u(1) u(3)] that by simp
  have z2: "queue_rep st2 ops' (zs @ [p])" using opq.push [OF z1 _ push] zt by simp
  have q2: "queue_rep st2 q qs" using opq.push_others [OF z1 push q1 p] zt by simp
  have u2: "queue_rep st2 (tops (tdata s u)) (ops_of A u)" if "u \<noteq> t" for u
    using opq.push_others [OF z1 push u1 _ u(2)] u(3) that by simp
  show "cancel_inv t (upd_timer t (\<lambda>d. d\<lparr>tops := q\<rparr>) (s\<lparr>tstore := st2\<rparr>)) ops' (zs @ [p]) qs A"
    using z2 q2 u2 u p zt by (auto simp: cancel_inv_def upd_timer_def)
  have "op_ec st2 = op_ec st1" "op_ec st1 = op_ec st"
    using op_ec_frame(1) [of st1 ops p] op_ec_frame(2) [of st "tops (tdata s t)"] push pop by simp_all
  then show ec: "op_ec st2 = (op_ec (tstore s))(p := ec_operation_aborted)" by (simp add: st)
  have "only_touches (set zs \<union> set (p # qs)) (tstore s) st" by (auto simp: only_touches_def st)
  also have "only_touches (set zs \<union> set (p # qs)) st st1"
    by (rule only_touchesI [OF pop_keeps [OF pop]], rule opq.pop_others [OF t pop]) auto
  also have "only_touches (set zs \<union> set (p # qs)) st1 st2"
    using push_touches [OF z1 push] by (rule only_touches_mono) auto
  finally show "only_touches (set zs \<union> set (p # qs)) (tstore s) st2" .
qed

lemma cancel_loop_correct:
  assumes "cancel_inv t s ops zs qs A" and "num \<le> mx"
  defines "n \<equiv> min (mx - num) (length qs)"
  shows "\<exists>s' ops'. cancel_loop num mx t s ops = Some (num + n, s', ops') \<and>
    cancel_inv t s' ops' (zs @ take n qs) (drop n qs) A \<and>
    op_ec (tstore s') = (\<lambda>x. if x \<in> set (take n qs) then ec_operation_aborted else op_ec (tstore s) x) \<and>
    timers s' = timers s \<and> heap s' = heap s \<and>
    (\<forall>u. tnext (tdata s' u) = tnext (tdata s u) \<and> tprev (tdata s' u) = tprev (tdata s u) \<and>
         heap_index (tdata s' u) = heap_index (tdata s u)) \<and>
    only_touches (set zs \<union> set qs) (tstore s) (tstore s')"
  using assms(1,2) unfolding n_def
proof (induction qs arbitrary: num s ops zs)
  case Nil
  then have "q_front (tops (tdata s t)) = None"
    using opq.front [of "tstore s" "tops (tdata s t)" "[]"] by (simp add: cancel_inv_def)
  with Nil show ?case by (subst cancel_loop.simps) simp
next
  case (Cons p qs)
  show ?case
  proof (cases "num = mx")
    case True
    with Cons.prems(1) show ?thesis by (subst cancel_loop.simps) simp
  next
    case False
    define st where "st = (tstore s)\<lparr>op_ec := (op_ec (tstore s))(p := ec_operation_aborted)\<rparr>"
    obtain st1 q where pop: "q_pop st (tops (tdata s t)) = (st1, q)" by (cases "q_pop st (tops (tdata s t))")
    obtain st2 ops1 where push: "q_push st1 ops p = (st2, ops1)" by (cases "q_push st1 ops p")
    define s1 where "s1 = upd_timer t (\<lambda>d. d\<lparr>tops := q\<rparr>) (s\<lparr>tstore := st2\<rparr>)"
    have "q_front (tops (tdata s t)) = Some p"
      using opq.front [of "tstore s" "tops (tdata s t)" "p # qs"] Cons.prems(1) by (simp add: cancel_inv_def)
    then have step: "cancel_loop num mx t s ops = cancel_loop (num + 1) mx t s1 ops1"
      using False pop push by (subst cancel_loop.simps) (simp add: s1_def st_def Let_def)
    note inv1 = cancel_step [OF Cons.prems(1) st_def pop push, folded s1_def]
    have frame1: "tstore s1 = st2" "timers s1 = timers s" "heap s1 = heap s"
      "tnext (tdata s1 u) = tnext (tdata s u)" "tprev (tdata s1 u) = tprev (tdata s u)"
      "heap_index (tdata s1 u) = heap_index (tdata s u)" for u
      by (simp_all add: s1_def upd_timer_def)
    have n: "min (mx - num) (length (p # qs)) = Suc (min (mx - (num + 1)) (length qs))"
      using False Cons.prems(2) by auto
    have "num + 1 \<le> mx" using False Cons.prems(2) by simp
    let ?n = "min (mx - (num + 1)) (length qs)"
    from Cons.IH [OF inv1(1) \<open>num + 1 \<le> mx\<close>] obtain s' ops' where
      r: "cancel_loop (num + 1) mx t s1 ops1 = Some (num + 1 + ?n, s', ops')"
        "cancel_inv t s' ops' ((zs @ [p]) @ take ?n qs) (drop ?n qs) A"
        "op_ec (tstore s') = (\<lambda>x. if x \<in> set (take ?n qs) then ec_operation_aborted else op_ec (tstore s1) x)"
        "timers s' = timers s1 \<and> heap s' = heap s1" and
      f: "\<forall>u. tnext (tdata s' u) = tnext (tdata s1 u) \<and> tprev (tdata s' u) = tprev (tdata s1 u) \<and>
         heap_index (tdata s' u) = heap_index (tdata s1 u)" and
      tch: "only_touches (set (zs @ [p]) \<union> set qs) (tstore s1) (tstore s')" by blast
    have "only_touches (set zs \<union> set (p # qs)) (tstore s1) (tstore s')"
      using tch by (rule only_touches_mono) auto
    with inv1(3) have "only_touches (set zs \<union> set (p # qs)) (tstore s) (tstore s')"
      unfolding frame1(1) by (rule only_touches_trans)
    then show ?thesis
      unfolding n step using r f by (intro exI [of _ s'] exI [of _ ops']) (auto simp: frame1 inv1(2) fun_eq_iff)
  qed
qed

lemma cancel_timer_cases:
  assumes rep: "tq_rep s A" and cal: "caller_rep s ops zs A"
  shows "A t = None \<Longrightarrow> cancel_timer t mx s ops = Some (0, s, ops)"
    and "A t = Some (k, os) \<Longrightarrow> \<exists>s' ops'.
      cancel_timer t mx s ops = Some (min mx (length os), s', ops') \<and>
      tq_rep s' (if length os \<le> mx then A(t := None) else A(t \<mapsto> (k, drop mx os))) \<and>
      queue_rep (tstore s') ops' (zs @ take mx os) \<and>
      op_ec (tstore s') = (\<lambda>x. if x \<in> set (take mx os) then ec_operation_aborted else op_ec (tstore s) x) \<and>
      only_touches (set zs \<union> set os) (tstore s) (tstore s')"
proof -
  obtain ts where act: "active s ts" "set ts = dom A" and h: "heap_rep s A" and o: "ops_rep s A"
    using rep by (auto simp: tq_rep_def)
  have guard: "tprev (tdata s t) \<noteq> None \<or> timers s = Some t \<longleftrightarrow> A t \<noteq> None"
    using active_mem [OF act(1)] act(2) by auto
  show "A t = None \<Longrightarrow> cancel_timer t mx s ops = Some (0, s, ops)"
    using guard by (simp add: cancel_timer_def)
  assume t: "A t = Some (k, os)"
  have os: "ops_of A t = os" "os \<noteq> []" using t o by (auto simp: ops_of_def ops_rep_def)
  define n where "n = min mx (length os)"
  have inv: "cancel_inv t s ops zs os A"
    using o cal by (simp add: cancel_inv_def ops_rep_def caller_rep_def os(1) [symmetric])
  from cancel_loop_correct [OF this, of 0 mx] obtain s' ops' where
    loop: "cancel_loop 0 mx t s ops = Some (n, s', ops')" and
    inv': "cancel_inv t s' ops' (zs @ take n os) (drop n os) A" and
    ec: "op_ec (tstore s') = (\<lambda>x. if x \<in> set (take n os) then ec_operation_aborted else op_ec (tstore s) x)" and
    fr: "timers s' = timers s" "heap s' = heap s"
      "\<And>u. tnext (tdata s' u) = tnext (tdata s u) \<and> tprev (tdata s' u) = tprev (tdata s u) \<and>
         heap_index (tdata s' u) = heap_index (tdata s u)" and
    tch: "only_touches (set zs \<union> set os) (tstore s) (tstore s')"
    by (auto simp: n_def)
  have empty: "q_empty (tops (tdata s' t)) \<longleftrightarrow> length os \<le> mx"
    using inv' opq.empty [of "tstore s'" "tops (tdata s' t)" "drop n os"] by (auto simp: cancel_inv_def n_def)
  define s2 where "s2 = (if length os \<le> mx then remove_timer t s' else s')"
  have call: "cancel_timer t mx s ops = Some (n, s2, ops')"
    using guard t loop empty by (simp add: cancel_timer_def s2_def)
  have take: "take n os = take mx os" by (simp add: n_def min_def)
  have others: "\<forall>u v. u \<noteq> v \<longrightarrow> set (ops_of A u) \<inter> set (ops_of A v) = {}"
    "\<forall>u j os. A u = Some (j, os) \<longrightarrow> os \<noteq> []" using o by (simp_all add: ops_rep_def)
  have "tstore s2 = tstore s' \<and> tq_rep s2 (if length os \<le> mx then A(t := None) else A(t \<mapsto> (k, drop mx os)))"
  proof (cases "length os \<le> mx")
    case True
    have "active s' ts" using act(1) by (rule active_cong) (use fr in simp_all)
    moreover have "heap_rep s' A" using h by (rule heap_rep_cong) (use fr in simp_all)
    ultimately have rem: "\<exists>ts'. active s2 ts' \<and> set ts' = dom (A(t := None))" "heap_rep s2 (A(t := None))"
      "tstore s2 = tstore s'" "\<And>u. tops (tdata s2 u) = tops (tdata s' u)"
      using remove_timer_rep [OF _ act(2) _ t, of s'] True by (auto simp: s2_def)
    have "ops_rep s' (A(t := None))"
      using inv' others True by (auto simp: ops_rep_def cancel_inv_def n_def)
    then have "ops_rep s2 (A(t := None))" by (rule ops_rep_cong) (use rem in simp_all)
    then show ?thesis using rem True by (simp add: tq_rep_def)
  next
    case False
    have "ops_rep s' (A(t \<mapsto> (k, drop mx os)))"
      using inv' others False by (auto simp: ops_rep_def cancel_inv_def n_def min_def Int_commute)
    then show ?thesis
      using tq_rep_set_ops [OF act h t fr, of "drop mx os"] False by (auto simp: tq_rep_def s2_def)
  qed
  then show "\<exists>s' ops'. cancel_timer t mx s ops = Some (min mx (length os), s', ops') \<and>
      tq_rep s' (if length os \<le> mx then A(t := None) else A(t \<mapsto> (k, drop mx os))) \<and>
      queue_rep (tstore s') ops' (zs @ take mx os) \<and>
      op_ec (tstore s') = (\<lambda>x. if x \<in> set (take mx os) then ec_operation_aborted else op_ec (tstore s) x) \<and>
      only_touches (set zs \<union> set os) (tstore s) (tstore s')"
    using call [unfolded n_def] ec [unfolded take] inv' [unfolded cancel_inv_def take] tch
    by (intro exI [of _ s2] exI [of _ ops']) simp
qed

text \<open>
  Cancelling at most \<open>mx\<close> operations of an active timer cancels that many of its first operations,
  or all if it has fewer: they get the error \<open>operation_aborted\<close> and go to the end of the caller's
  queue in order, their number is returned, no other operation's error changes, and the timer is
  deactivated exactly when none of its operations is left. For an inactive timer nothing happens.
\<close>

theorem cancel_timer_correct:
  assumes "tq_rep s A" and "caller_rep s ops zs A"
  shows "(A t = None \<longrightarrow> cancel_timer t mx s ops = Some (0, s, ops)) \<and>
    (\<forall>k os. A t = Some (k, os) \<longrightarrow> (\<exists>s' ops'.
      cancel_timer t mx s ops = Some (min mx (length os), s', ops') \<and>
      tq_rep s' (if length os \<le> mx then A(t := None) else A(t \<mapsto> (k, drop mx os))) \<and>
      queue_rep (tstore s') ops' (zs @ take mx os) \<and>
      op_ec (tstore s') = (\<lambda>x. if x \<in> set (take mx os) then ec_operation_aborted else op_ec (tstore s) x)))"
  using cancel_timer_cases [OF assms] by blast

lemma cancel_timer_correct_witness:
  "\<exists>s' ops'. cancel_timer 1 4 one_timer q_new = Some (min 4 (length [5 :: nat]), s', ops') \<and>
     tq_rep s' (if length [5 :: nat] \<le> 4 then one_map(1 := None) else one_map(1 \<mapsto> (7, drop 4 [5]))) \<and>
     queue_rep (tstore s') ops' ([] @ take 4 [5]) \<and>
     op_ec (tstore s') = (\<lambda>x. if x \<in> set (take 4 [5]) then ec_operation_aborted else op_ec (tstore one_timer) x)"
  by (rule cancel_timer_correct [OF one_timer_rep one_timer_caller, THEN conjunct2, rule_format])
    (simp add: one_map_def)

section \<open>get_all_timers\<close>

lemma all_loop_correct:
  assumes "dseg (tdata s) a (timers s) ts b None" and "distinct ts" and "ops_rep s A"
    and "caller_rep s ops zs A" and "set ts = dom A"
  shows "\<exists>s' ops'. all_loop s ops = Some (s', ops') \<and> timers s' = None \<and>
    (\<forall>u. tnext (tdata s' u) = (if u \<in> set ts then None else tnext (tdata s u)) \<and>
         tprev (tdata s' u) = (if u \<in> set ts then None else tprev (tdata s u))) \<and>
    ops_rep s' Map.empty \<and> queue_rep (tstore s') ops' (zs @ concat (map (ops_of A) ts)) \<and>
    only_touches (set zs \<union> timer_ops A) (tstore s) (tstore s')"
  using assms
proof (induction ts arbitrary: s a ops zs A)
  case Nil
  then have "A = Map.empty" by auto
  with Nil show ?case by (subst all_loop.simps) (simp add: caller_rep_def)
next
  case (Cons t ts)
  define s0 where "s0 = s\<lparr>timers := tnext (tdata s t)\<rparr>"
  obtain st ops1 q where pq: "q_push_all (tstore s) ops (tops (tdata s t)) = (st, ops1, q)"
    by (cases "q_push_all (tstore s) ops (tops (tdata s t))")
  define s1 where "s1 = upd_timer t (\<lambda>d. d\<lparr>tprev := None\<rparr>) (upd_timer t (\<lambda>d. d\<lparr>tnext := None\<rparr>)
    (upd_timer t (\<lambda>d. d\<lparr>tops := q\<rparr>) (s0\<lparr>tstore := st\<rparr>)))"
  have hd: "timers s = Some t" "t \<notin> set ts" "distinct ts"
    and seg: "dseg (tdata s) (Some t) (tnext (tdata s t)) ts b None" using Cons.prems by auto
  have step: "all_loop s ops = all_loop s1 ops1"
    by (subst all_loop.simps) (simp add: hd pq s1_def s0_def Let_def upd_timer_def)
  have f: "timers s1 = tnext (tdata s t)"
    "tnext (tdata s1 u) = (if u = t then None else tnext (tdata s u))"
    "tprev (tdata s1 u) = (if u = t then None else tprev (tdata s u))" for u
    by (auto simp: s1_def s0_def upd_timer_def)
  have moved: "ops_rep s1 (A(t := None)) \<and> caller_rep s1 ops1 (zs @ ops_of A t) (A(t := None))"
    by (rule push_all_rep [OF Cons.prems(3,4) pq]) (auto simp: s1_def s0_def upd_timer_def)
  have "dseg (tdata s1) (Some t) (timers s1) ts b None"
    unfolding f(1) using seg by (rule dseg_cong) (use hd in \<open>auto simp: f\<close>)
  moreover have "set ts = dom (A(t := None))" using Cons.prems(5) hd(2) by auto
  note IH = Cons.IH [OF _ hd(3) conjunct1 [OF moved] conjunct2 [OF moved] this]
  ultimately obtain s' ops' where
    "all_loop s1 ops1 = Some (s', ops')" "timers s' = None"
    "\<forall>u. tnext (tdata s' u) = (if u \<in> set ts then None else tnext (tdata s1 u)) \<and>
       tprev (tdata s' u) = (if u \<in> set ts then None else tprev (tdata s1 u))"
    "ops_rep s' Map.empty"
    "queue_rep (tstore s') ops' ((zs @ ops_of A t) @ concat (map (ops_of (A(t := None))) ts))"
    "only_touches (set (zs @ ops_of A t) \<union> timer_ops (A(t := None))) (tstore s1) (tstore s')"
    using IH by blast
  moreover have "only_touches (set (ops_of A t) \<union> set zs) (tstore s) (tstore s1)"
    using push_all_touches [OF _ _ pq, of zs "ops_of A t"] Cons.prems(3,4)
    by (simp add: caller_rep_def ops_rep_def s1_def upd_timer_def)
  then have "only_touches (set zs \<union> timer_ops A) (tstore s) (tstore s1)"
    by (rule only_touches_mono) (use timer_ops_mono(1) [of A t] in auto)
  moreover have "only_touches (set zs \<union> timer_ops A) (tstore s1) (tstore s')"
    using calculation(6) by (rule only_touches_mono) (use timer_ops_mono [of A t] in auto)
  moreover have "map (ops_of (A(t := None))) ts = map (ops_of A) ts" using hd(2) by auto
  note calculation(5) [unfolded this]
  ultimately show ?case
    using only_touches_trans by (intro exI [of _ s'] exI [of _ ops']) (simp add: step f)
qed

lemma get_all_moves:
  assumes "tq_rep s A" and "caller_rep s ops zs A"
  shows "\<exists>s' ops' ts. get_all_timers s ops = Some (s', ops') \<and> tq_rep s' Map.empty \<and> tq_empty s' \<and>
    distinct ts \<and> set ts = dom A \<and> queue_rep (tstore s') ops' (zs @ concat (map (ops_of A) ts)) \<and>
    only_touches (set zs \<union> timer_ops A) (tstore s) (tstore s')"
proof -
  obtain ts b where ts: "dseg (tdata s) None (timers s) ts b None" "distinct ts" "set ts = dom A"
    and clear: "\<forall>t. t \<notin> set ts \<longrightarrow> tnext (tdata s t) = None \<and> tprev (tdata s t) = None"
    and o: "ops_rep s A"
    using assms(1) by (auto simp: tq_rep_def active_def)
  from all_loop_correct [OF ts(1,2) o assms(2) ts(3)] obtain s1 ops' where
    loop: "all_loop s ops = Some (s1, ops')" "timers s1 = None" and
    links: "\<forall>u. tnext (tdata s1 u) = (if u \<in> set ts then None else tnext (tdata s u)) \<and>
       tprev (tdata s1 u) = (if u \<in> set ts then None else tprev (tdata s u))" and
    rep: "ops_rep s1 Map.empty" "queue_rep (tstore s1) ops' (zs @ concat (map (ops_of A) ts))"
      "only_touches (set zs \<union> timer_ops A) (tstore s) (tstore s1)"
    by blast
  let ?s = "s1\<lparr>heap := []\<rparr>"
  have "active ?s []" using loop(2) links clear by (simp add: active_def)
  moreover have "heap_rep ?s Map.empty"
    by (simp add: heap_rep_def idx_ok_def heap_ord_def heap_keys_def entries_def)
  moreover have "ops_rep ?s Map.empty" using rep(1) by (rule ops_rep_cong) simp_all
  ultimately have "tq_rep ?s Map.empty" by (auto simp: tq_rep_def)
  with loop rep ts show ?thesis
    by (intro exI [of _ ?s] exI [of _ ops'] exI [of _ ts]) (simp add: get_all_timers_def tq_empty_def)
qed

text \<open>
  Taking all timers terminates, moves the operations of every active timer to the caller's
  queue, each timer's operations in the order they were added, and leaves an empty queue of timers.
\<close>

theorem get_all_timers_correct:
  assumes "tq_rep s A" and "caller_rep s ops zs A"
  shows "\<exists>s' ops' ts. get_all_timers s ops = Some (s', ops') \<and> tq_rep s' Map.empty \<and> tq_empty s' \<and>
    distinct ts \<and> set ts = dom A \<and> queue_rep (tstore s') ops' (zs @ concat (map (ops_of A) ts))"
  using get_all_moves [OF assms] by blast

lemma get_all_timers_correct_witness:
  "\<exists>s' ops' ts. get_all_timers one_timer q_new = Some (s', ops') \<and> tq_rep s' Map.empty \<and> tq_empty s' \<and>
    distinct ts \<and> set ts = dom one_map \<and> queue_rep (tstore s') ops' ([] @ concat (map (ops_of one_map) ts))"
  by (rule get_all_timers_correct [OF one_timer_rep one_timer_caller])

end
