(* ===== verification/AsioTimerSet.thy ===== *)
theory AsioTimerSet
  imports AsioTimerProps
begin

text \<open>
  The set of timer queues of detail/timer_queue_set.hpp: a list linked through the queues' \<open>next_\<close>
  fields. The queues' virtual functions are parameters of the loops here; the locale
  \<open>timer_source\<close> states what taking operations from a timer queue promises, and is interpreted on
  \<open>get_ready_timers\<close> and \<open>get_all_timers\<close> of the timer queue.
\<close>

section \<open>The set\<close>

record 'q timer_set =
  ts_first :: "'q option"
  ts_next :: "'q \<Rightarrow> 'q option"

definition ts_new :: "('q \<Rightarrow> 'q option) \<Rightarrow> 'q timer_set" where
  "ts_new nx = \<lparr>ts_first = None, ts_next = nx\<rparr>"

definition ts_insert :: "'q \<Rightarrow> 'q timer_set \<Rightarrow> 'q timer_set" where
  "ts_insert q s =
     (let s = s\<lparr>ts_next := (ts_next s)(q := ts_first s)\<rparr> in s\<lparr>ts_first := Some q\<rparr>)"

partial_function (option) ts_erase_loop :: "'q \<Rightarrow> 'q \<Rightarrow> 'q timer_set \<Rightarrow> 'q timer_set option" where
  "ts_erase_loop q p s =
     (case ts_next s p of
        None \<Rightarrow> Some s
      | Some n \<Rightarrow>
          if n = q then
            let s = s\<lparr>ts_next := (ts_next s)(p := ts_next s q)\<rparr> in Some (s\<lparr>ts_next := (ts_next s)(q := None)\<rparr>)
          else ts_erase_loop q n s)"

definition ts_erase :: "'q \<Rightarrow> 'q timer_set \<Rightarrow> 'q timer_set option" where
  "ts_erase q s =
     (case ts_first s of
        None \<Rightarrow> Some s
      | Some f \<Rightarrow>
          if q = f then
            let s = s\<lparr>ts_first := ts_next s q\<rparr> in Some (s\<lparr>ts_next := (ts_next s)(q := None)\<rparr>)
          else ts_erase_loop q f s)"

partial_function (option) ts_all_empty :: "('q \<Rightarrow> bool) \<Rightarrow> 'q timer_set \<Rightarrow> 'q option \<Rightarrow> bool option" where
  "ts_all_empty emp s p =
     (case p of None \<Rightarrow> Some True
      | Some q \<Rightarrow> if \<not> emp q then Some False else ts_all_empty emp s (ts_next s q))"

text \<open>The loop of \<open>wait_duration_msec\<close> and \<open>wait_duration_usec\<close>, for the queues' function \<open>wait\<close>.\<close>

partial_function (option) ts_wait_duration ::
  "('q \<Rightarrow> int \<Rightarrow> int option) \<Rightarrow> 'q timer_set \<Rightarrow> 'q option \<Rightarrow> int \<Rightarrow> int option" where
  "ts_wait_duration wait s p min_duration =
     (case p of None \<Rightarrow> Some min_duration
      | Some q \<Rightarrow> Option.bind (wait q min_duration) (\<lambda>d. ts_wait_duration wait s (ts_next s q) d))"

text \<open>The loop of \<open>get_ready_timers\<close> and \<open>get_all_timers\<close>, for the queues' function \<open>get\<close>.\<close>

partial_function (option) ts_collect ::
  "('q \<Rightarrow> 'm \<Rightarrow> 'm option) \<Rightarrow> 'q timer_set \<Rightarrow> 'q option \<Rightarrow> 'm \<Rightarrow> 'm option" where
  "ts_collect get s p m =
     (case p of None \<Rightarrow> Some m
      | Some q \<Rightarrow> Option.bind (get q m) (\<lambda>m. ts_collect get s (ts_next s q) m))"

text \<open>The function of one queue, on the store of operations, all queues and the caller's queue.\<close>

definition get_at ::
  "('q \<Rightarrow> 'o opstore \<Rightarrow> 'x \<Rightarrow> 'o op_queue \<Rightarrow> ('o opstore \<times> 'x \<times> 'o op_queue) option) \<Rightarrow>
   'q \<Rightarrow> 'o opstore \<times> ('q \<Rightarrow> 'x) \<times> 'o op_queue \<Rightarrow> ('o opstore \<times> ('q \<Rightarrow> 'x) \<times> 'o op_queue) option" where
  "get_at get q m = (case m of (st, X, ops) \<Rightarrow> map_option (\<lambda>(st, x, ops). (st, X(q := x), ops)) (get q st (X q) ops))"

section \<open>The set as a list\<close>

definition ts_rep :: "'q timer_set \<Rightarrow> 'q list \<Rightarrow> bool" where
  "ts_rep s qs \<longleftrightarrow> linked (ts_next s) (ts_first s) qs \<and> distinct qs"

lemma ts_new_rep: "ts_rep (ts_new nx) []"
  by (simp add: ts_rep_def ts_new_def)

lemma ts_insert_rep: "ts_rep s qs \<Longrightarrow> q \<notin> set qs \<Longrightarrow> ts_rep (ts_insert q s) (q # qs)"
  by (simp add: ts_rep_def ts_insert_def Let_def)

lemma ts_erase_loop_rep:
  assumes "linked (ts_next s) (Some p) (p # qs)" and "distinct (p # qs)" and "q \<noteq> p"
  shows "\<exists>s'. ts_erase_loop q p s = Some s' \<and> ts_first s' = ts_first s \<and>
    linked (ts_next s') (Some p) (p # remove1 q qs) \<and> (\<forall>x. x \<notin> set (p # qs) \<longrightarrow> ts_next s' x = ts_next s x)"
  using assms
proof (induction qs arbitrary: p)
  case Nil
  then show ?case by (subst ts_erase_loop.simps) simp
next
  case (Cons n qs)
  have n: "ts_next s p = Some n" "linked (ts_next s) (Some n) (n # qs)" "distinct (n # qs)" "p \<notin> set (n # qs)"
    using Cons.prems by auto
  show ?case
  proof (cases "n = q")
    case True
    define g where "g = (ts_next s)(p := ts_next s q, q := None)"
    have e: "ts_erase_loop q p s = Some (s\<lparr>ts_next := g\<rparr>)"
      using n(1) True by (subst ts_erase_loop.simps) (simp add: Let_def g_def)
    have "linked g (ts_next s q) qs" unfolding g_def using n True by (subst linked_update; simp)+
    moreover have "g p = ts_next s q" "\<forall>x. x \<notin> set (p # n # qs) \<longrightarrow> g x = ts_next s x"
      using Cons.prems(3) True by (simp_all add: g_def)
    ultimately show ?thesis using e True by (intro exI [of _ "s\<lparr>ts_next := g\<rparr>"]) simp
  next
    case False
    from Cons.IH [OF n(2,3)] False obtain s' where
      s': "ts_erase_loop q n s = Some s'" "ts_first s' = ts_first s" "linked (ts_next s') (Some n) (n # remove1 q qs)"
        "\<forall>x. x \<notin> set (n # qs) \<longrightarrow> ts_next s' x = ts_next s x" by blast
    moreover have "ts_next s' p = Some n" using s'(4) n(1,4) by simp
    moreover have "ts_erase_loop q p s = Some s'" using n(1) False s'(1) by (subst ts_erase_loop.simps) simp
    ultimately show ?thesis using False by (intro exI [of _ s']) simp
  qed
qed

lemma ts_erase_rep:
  assumes "ts_rep s qs"
  shows "\<exists>s'. ts_erase q s = Some s' \<and> ts_rep s' (remove1 q qs)"
proof (cases qs)
  case Nil
  then show ?thesis using assms by (simp add: ts_erase_def ts_rep_def)
next
  case (Cons f rest)
  have l: "ts_first s = Some f" "linked (ts_next s) (Some f) (f # rest)" "distinct (f # rest)"
    using assms Cons by (auto simp: ts_rep_def)
  show ?thesis
  proof (cases "q = f")
    case True
    then show ?thesis using l Cons by (simp add: ts_erase_def ts_rep_def Let_def)
  next
    case False
    from ts_erase_loop_rep [OF l(2,3) this] l(1) show ?thesis
      using False l(3) Cons by (auto simp: ts_erase_def ts_rep_def)
  qed
qed

lemma ts_all_empty_iff:
  "linked (ts_next s) p qs \<Longrightarrow> ts_all_empty emp s p = Some (\<forall>q \<in> set qs. emp q)"
  by (induction qs arbitrary: p) (subst ts_all_empty.simps; simp)+

text \<open>The wait is the shortest of those of the queues, each at most the limit it is given.\<close>

lemma ts_wait_duration_min:
  assumes "linked (ts_next s) p qs" and "\<And>q mx. q \<in> set qs \<Longrightarrow> 0 \<le> mx \<Longrightarrow> wait q mx = Some (min (due_in q) mx)"
    and "\<And>q. q \<in> set qs \<Longrightarrow> 0 \<le> due_in q" and "0 \<le> mx"
  shows "ts_wait_duration wait s p mx = Some (Min (insert mx (due_in ` set qs)))"
  using assms
proof (induction qs arbitrary: p mx)
  case Nil
  then show ?case by (subst ts_wait_duration.simps) simp
next
  case (Cons q qs)
  have "ts_wait_duration wait s (ts_next s q) (min (due_in q) mx) = Some (Min (insert (min (due_in q) mx) (due_in ` set qs)))"
    using Cons by (intro Cons.IH) auto
  moreover have "Min (insert mx (due_in ` set (q # qs))) = Min (insert (min (due_in q) mx) (due_in ` set qs))"
    by (cases "qs = []") (simp_all add: insert_commute min.assoc min.commute min.left_commute)
  ultimately show ?case using Cons.prems by (subst ts_wait_duration.simps) simp
qed

lemma ts_collect_fold:
  "linked (ts_next s) p qs \<Longrightarrow> ts_collect get s p m = fold (\<lambda>q r. Option.bind r (get q)) qs (Some m)"
proof (induction qs arbitrary: p m)
  case Nil
  then show ?case by (subst ts_collect.simps) simp
next
  case (Cons q qs)
  have none: "fold (\<lambda>q r. Option.bind r (get q)) qs None = None" by (induction qs) simp_all
  show ?case
    using Cons none by (subst ts_collect.simps) (cases "get q m"; simp)
qed

section \<open>What a timer queue promises to whoever takes its operations\<close>

text \<open>
  \<open>waits st x W\<close>: the timer queue \<open>x\<close> is well-formed and the operations \<open>W\<close> wait in it. Taking
  operations moves some of them, or all if \<open>full\<close>, to the end of the caller's queue.
\<close>

locale timer_source =
  fixes waits :: "'o opstore \<Rightarrow> 'x \<Rightarrow> 'o set \<Rightarrow> bool"
    and get :: "'q \<Rightarrow> 'o opstore \<Rightarrow> 'x \<Rightarrow> 'o op_queue \<Rightarrow> ('o opstore \<times> 'x \<times> 'o op_queue) option"
    and full :: bool
  assumes frame: "waits st x W \<Longrightarrow> only_touches S st st' \<Longrightarrow> S \<inter> W = {} \<Longrightarrow> waits st' x W"
    and get: "waits st x W \<Longrightarrow> queue_rep st ops zs \<Longrightarrow> set zs \<inter> W = {} \<Longrightarrow>
      \<exists>st' x' ops' xs. get q st x ops = Some (st', x', ops') \<and> queue_rep st' ops' (zs @ xs) \<and> set xs \<subseteq> W \<and>
        (full \<longrightarrow> set xs = W) \<and> waits st' x' (W - set xs) \<and> only_touches (set zs \<union> W) st st'"
begin

text \<open>All queues of the set, as \<open>ts_collect\<close> visits them.\<close>

definition collected ::
  "'q list \<Rightarrow> 'o opstore \<Rightarrow> ('q \<Rightarrow> 'x) \<Rightarrow> ('q \<Rightarrow> 'o set) \<Rightarrow> 'o op_queue \<Rightarrow> 'o list \<Rightarrow>
   ('o opstore \<times> ('q \<Rightarrow> 'x) \<times> 'o op_queue) option \<Rightarrow> bool" where
  "collected qs st X W ops zs r \<longleftrightarrow> (\<exists>st' X' ops' xs V. r = Some (st', X', ops') \<and>
    queue_rep st' ops' (zs @ xs) \<and> set xs = (\<Union>q \<in> set qs. V q) \<and>
    (\<forall>q \<in> set qs. V q \<subseteq> W q \<and> (full \<longrightarrow> V q = W q) \<and> waits st' (X' q) (W q - V q)) \<and>
    (\<forall>q. q \<notin> set qs \<longrightarrow> X' q = X q) \<and> only_touches (set zs \<union> (\<Union>q \<in> set qs. W q)) st st')"

lemma collect_fold:
  assumes "distinct qs" and "\<And>q. q \<in> set qs \<Longrightarrow> waits st (X q) (W q)"
    and "\<And>q r. q \<in> set qs \<Longrightarrow> r \<in> set qs \<Longrightarrow> q \<noteq> r \<Longrightarrow> W q \<inter> W r = {}"
    and "queue_rep st ops zs" and "\<And>q. q \<in> set qs \<Longrightarrow> set zs \<inter> W q = {}"
  shows "collected qs st X W ops zs (fold (\<lambda>q r. Option.bind r (get_at get q)) qs (Some (st, X, ops)))"
  using assms
proof (induction qs arbitrary: st X ops zs)
  case (Cons q qs)
  obtain st1 x1 ops1 xs1 where g: "get q st (X q) ops = Some (st1, x1, ops1)" "queue_rep st1 ops1 (zs @ xs1)"
    "set xs1 \<subseteq> W q" "full \<longrightarrow> set xs1 = W q" "waits st1 x1 (W q - set xs1)"
    "only_touches (set zs \<union> W q) st st1"
    using get [of st "X q" "W q" ops zs q] Cons.prems(2,4,5) by auto
  let ?X = "X(q := x1)"
  have q: "q \<notin> set qs" using Cons.prems(1) by simp
  have w: "waits st1 (?X r) (W r)" if "r \<in> set qs" for r
    using frame [OF Cons.prems(2) [of r] g(6)] Cons.prems(3) [of q r] Cons.prems(5) [of r] that q by auto
  have dj: "set (zs @ xs1) \<inter> W r = {}" if "r \<in> set qs" for r
    using Cons.prems(3) [of q r] Cons.prems(5) [of r] that q g(3) by auto
  have "collected qs st1 ?X W ops1 (zs @ xs1) (fold (\<lambda>q r. Option.bind r (get_at get q)) qs (Some (st1, ?X, ops1)))"
    by (rule Cons.IH [OF _ w _ g(2) dj]) (use Cons.prems(1,3) in simp_all)
  then obtain st' X' ops' xs V where
    r: "fold (\<lambda>q r. Option.bind r (get_at get q)) qs (Some (st1, ?X, ops1)) = Some (st', X', ops')"
      "queue_rep st' ops' ((zs @ xs1) @ xs)" "set xs = (\<Union>r \<in> set qs. V r)"
      "\<forall>r \<in> set qs. V r \<subseteq> W r \<and> (full \<longrightarrow> V r = W r) \<and> waits st' (X' r) (W r - V r)"
      "\<forall>r. r \<notin> set qs \<longrightarrow> X' r = ?X r" "only_touches (set (zs @ xs1) \<union> (\<Union>r \<in> set qs. W r)) st1 st'"
    unfolding collected_def by (elim exE conjE) (rule that)
  have "waits st' x1 (W q - set xs1)"
  proof (rule frame [OF g(5) r(6)])
    show "(set (zs @ xs1) \<union> (\<Union>r \<in> set qs. W r)) \<inter> (W q - set xs1) = {}"
      using Cons.prems(3) [of q] Cons.prems(5) [of q] q by auto
  qed
  moreover have "X' q = x1" using r(5) q by simp
  moreover have "only_touches (set zs \<union> (\<Union>r \<in> set (q # qs). W r)) st st'"
    by (rule only_touches_trans [OF only_touches_mono [OF g(6)] only_touches_mono [OF r(6)]]) (use g(3) in auto)
  moreover have "(\<Union>r \<in> set qs. (V(q := set xs1)) r) = (\<Union>r \<in> set qs. V r)" using q by auto
  moreover have "get_at get q (st, X, ops) = Some (st1, ?X, ops1)" using g(1) by (simp add: get_at_def)
  ultimately show ?case
    unfolding collected_def using r(1-5) g(3,4) q
    by (intro exI [of _ st'] exI [of _ X'] exI [of _ ops'] exI [of _ "xs1 @ xs"] exI [of _ "V(q := set xs1)"]) auto
qed (simp add: collected_def)

lemma collect:
  assumes "ts_rep s qs" and "\<And>q. q \<in> set qs \<Longrightarrow> waits st (X q) (W q)"
    and "\<And>q r. q \<in> set qs \<Longrightarrow> r \<in> set qs \<Longrightarrow> q \<noteq> r \<Longrightarrow> W q \<inter> W r = {}"
    and "queue_rep st ops zs" and "\<And>q. q \<in> set qs \<Longrightarrow> set zs \<inter> W q = {}"
  shows "collected qs st X W ops zs (ts_collect (get_at get) s (ts_first s) (st, X, ops))"
proof -
  have d: "distinct qs" "linked (ts_next s) (ts_first s) qs" using assms(1) by (simp_all add: ts_rep_def)
  have "collected qs st X W ops zs (fold (\<lambda>q r. Option.bind r (get_at get q)) qs (Some (st, X, ops)))"
    by (rule collect_fold [OF d(1)]) (fact assms)+
  then show ?thesis by (simp only: ts_collect_fold [OF d(2)])
qed

end

section \<open>Timer queues over a common store\<close>

text \<open>The store of operations is common to all queues: \<open>tstore\<close> is set before each use.\<close>

definition timers_wait :: "'o opstore \<Rightarrow> ('t, 'o) timer_queue \<Rightarrow> 'o set \<Rightarrow> bool" where
  "timers_wait st x W \<longleftrightarrow> (\<exists>A. tq_rep (x\<lparr>tstore := st\<rparr>) A \<and> W = timer_ops A)"

definition take_ready ::
  "('q \<Rightarrow> int) \<Rightarrow> 'q \<Rightarrow> 'o opstore \<Rightarrow> ('t, 'o) timer_queue \<Rightarrow> 'o op_queue \<Rightarrow>
   ('o opstore \<times> ('t, 'o) timer_queue \<times> 'o op_queue) option" where
  "take_ready now q st x ops = map_option (\<lambda>(x, ops). (tstore x, x, ops)) (get_ready_timers (now q) (x\<lparr>tstore := st\<rparr>) ops)"

definition take_all ::
  "'q \<Rightarrow> 'o opstore \<Rightarrow> ('t, 'o) timer_queue \<Rightarrow> 'o op_queue \<Rightarrow>
   ('o opstore \<times> ('t, 'o) timer_queue \<times> 'o op_queue) option" where
  "take_all q st x ops = map_option (\<lambda>(x, ops). (tstore x, x, ops)) (get_all_timers (x\<lparr>tstore := st\<rparr>) ops)"

lemma timers_wait_frame:
  "timers_wait st x W \<Longrightarrow> only_touches S st st' \<Longrightarrow> S \<inter> W = {} \<Longrightarrow> timers_wait st' x W"
  unfolding timers_wait_def using tq_rep_frame [of "x\<lparr>tstore := st\<rparr>" _ S st'] by auto

lemma timers_waitI: "tq_rep x A \<Longrightarrow> timers_wait (tstore x) x (timer_ops A)"
  unfolding timers_wait_def by auto

lemma new_timers_wait: "timers_wait st (new_timers st') {}"
  using timers_waitI [OF new_timers_rep [of st]] by (simp add: timers_wait_def new_timers_def timer_ops_def)

lemma timers_wait_destroyed: "timers_wait (op_destroy p st) x W = timers_wait st x W"
  by (simp add: timers_wait_def tq_rep_def active_def heap_rep_def ops_rep_def idx_ok_def heap_keys_def)

lemma ops_of_in_dom: "p \<in> set (ops_of A t) \<Longrightarrow> t \<in> dom A"
  by (cases "A t") (auto simp: ops_of_def)

lemma tq_apart: "tq_rep x A \<Longrightarrow> p \<in> set (ops_of A t) \<Longrightarrow> p \<in> set (ops_of A u) \<Longrightarrow> t = u"
  unfolding tq_rep_def ops_rep_def by blast

lemma timer_ops_empty_iff: "tq_rep x A \<Longrightarrow> timer_ops A = {} \<longleftrightarrow> dom A = {}"
proof
  assume x: "tq_rep x A" and e: "timer_ops A = {}"
  have "A t = None" for t
  proof (cases "A t")
    case (Some a)
    then have "ops_of A t \<noteq> []" using x by (cases a) (simp add: ops_of_def tq_rep_def ops_rep_def)
    then show ?thesis using e by (auto simp: timer_ops_def)
  qed
  then show "dom A = {}" by auto
qed (use ops_of_in_dom in \<open>fastforce simp: timer_ops_def\<close>)

lemma timer_ops_taken:
  assumes "tq_rep x A" and "set rs \<subseteq> dom A"
  shows "set (concat (map (ops_of A) rs)) \<subseteq> timer_ops A"
    and "timer_ops (A |` (- set rs)) = timer_ops A - set (concat (map (ops_of A) rs))"
proof -
  have ops: "ops_of (A |` S) t = (if t \<in> S then ops_of A t else [])" for S t
    by (simp add: ops_of_def restrict_map_def)
  have "timer_ops (A |` (- set rs)) = (\<Union>t \<in> - set rs. set (ops_of A t))"
    unfolding timer_ops_def ops by (auto split: if_splits)
  moreover have "set (concat (map (ops_of A) rs)) = (\<Union>t \<in> set rs. set (ops_of A t))" by simp
  moreover have "p \<notin> set (ops_of A u)" if "p \<in> set (ops_of A t)" "t \<notin> set rs" "u \<in> set rs" for p t u
    using tq_apart [OF assms(1) that(1), of u] that(2,3) by auto
  ultimately show "timer_ops (A |` (- set rs)) = timer_ops A - set (concat (map (ops_of A) rs))"
    unfolding timer_ops_def by (auto simp del: set_concat)
  show "set (concat (map (ops_of A) rs)) \<subseteq> timer_ops A" by (auto simp: timer_ops_def)
qed

interpretation ready: timer_source timers_wait "take_ready now" False for now :: "'q \<Rightarrow> int"
proof
  fix st :: "'o opstore" and x :: "('t, 'o) timer_queue" and W ops zs and q :: 'q
  assume w: "timers_wait st x W" and ops: "queue_rep st ops zs" "set zs \<inter> W = {}"
  obtain A where A: "tq_rep (x\<lparr>tstore := st\<rparr>) A" "W = timer_ops A" using w by (auto simp: timers_wait_def)
  have "caller_rep (x\<lparr>tstore := st\<rparr>) ops zs A" using ops A(2) by (simp add: caller_rep_set)
  from ready_loop_correct [OF A(1) this, of "now q"] obtain x' ops' rs where
    r: "ready_loop (now q) (x\<lparr>tstore := st\<rparr>) ops = Some (x', ops')" "set rs = due A (now q)"
      "tq_rep x' (A |` (- due A (now q)))" "caller_rep x' ops' (zs @ concat (map (ops_of A) rs)) (A |` (- due A (now q)))"
      "only_touches (set zs \<union> timer_ops A) st (tstore x')" by auto
  have "set rs \<subseteq> dom A" using r(2) by (auto simp: due_def)
  note t = timer_ops_taken [OF A(1) this]
  show "\<exists>st' x' ops' xs. take_ready now q st x ops = Some (st', x', ops') \<and> queue_rep st' ops' (zs @ xs) \<and> set xs \<subseteq> W \<and>
        (False \<longrightarrow> set xs = W) \<and> timers_wait st' x' (W - set xs) \<and> only_touches (set zs \<union> W) st st'"
    using r timers_waitI [OF r(3)] t A(2)
    by (intro exI [of _ "tstore x'"] exI [of _ x'] exI [of _ ops'] exI [of _ "concat (map (ops_of A) rs)"])
      (simp add: take_ready_def get_ready_timers_loop caller_rep_set r(2) [symmetric])
qed (rule timers_wait_frame)

interpretation all: timer_source timers_wait take_all True
proof
  fix st :: "'o opstore" and x :: "('t, 'o) timer_queue" and W ops zs and q :: 'q
  assume w: "timers_wait st x W" and ops: "queue_rep st ops zs" "set zs \<inter> W = {}"
  obtain A where A: "tq_rep (x\<lparr>tstore := st\<rparr>) A" "W = timer_ops A" using w by (auto simp: timers_wait_def)
  have "caller_rep (x\<lparr>tstore := st\<rparr>) ops zs A" using ops A(2) by (simp add: caller_rep_set)
  from get_all_moves [OF A(1) this] obtain x' ops' ts where
    r: "get_all_timers (x\<lparr>tstore := st\<rparr>) ops = Some (x', ops')" "tq_rep x' Map.empty" "set ts = dom A"
      "queue_rep (tstore x') ops' (zs @ concat (map (ops_of A) ts))" "only_touches (set zs \<union> timer_ops A) st (tstore x')"
    by auto
  have "set (concat (map (ops_of A) ts)) = timer_ops A" using r(3) ops_of_in_dom by (fastforce simp: timer_ops_def)
  moreover have "timer_ops (Map.empty :: ('t, 'o) timer_map) = {}" by (simp add: timer_ops_def)
  ultimately show "\<exists>st' x' ops' xs. take_all q st x ops = Some (st', x', ops') \<and> queue_rep st' ops' (zs @ xs) \<and> set xs \<subseteq> W \<and>
        (True \<longrightarrow> set xs = W) \<and> timers_wait st' x' (W - set xs) \<and> only_touches (set zs \<union> W) st st'"
    using r timers_waitI [OF r(2)] A(2)
    by (intro exI [of _ "tstore x'"] exI [of _ x'] exI [of _ ops'] exI [of _ "concat (map (ops_of A) ts)"])
      (simp add: take_all_def)
qed (rule timers_wait_frame)

text \<open>Adding and cancelling, with the same abstraction.\<close>

lemma enqueue_waits:
  assumes "timers_wait st x W" and "p \<notin> W" and "enqueue_timer time t p (x\<lparr>tstore := st\<rparr>) = (b, x')"
  shows "timers_wait (tstore x') x' (insert p W) \<and> only_touches (insert p W) st (tstore x')"
proof -
  obtain A where A: "tq_rep (x\<lparr>tstore := st\<rparr>) A" "W = timer_ops A" using assms(1) by (auto simp: timers_wait_def)
  have p: "p \<notin> set (ops_of A u)" for u using assms(2) A(2) by (auto simp: timer_ops_def)
  let ?A = "A(t \<mapsto> (case A t of None \<Rightarrow> (time, [p]) | Some (k, os) \<Rightarrow> (k, os @ [p])))"
  have ops: "ops_of ?A u = (if u = t then ops_of A t @ [p] else ops_of A u)" for u
    by (auto simp: ops_of_def split: option.splits)
  have "timer_ops ?A = insert p W" unfolding timer_ops_def A(2) ops by (auto split: if_splits)
  then show ?thesis
    using timers_waitI [OF enqueue_timer_cases(1) [OF A(1) p assms(3)]] enqueue_timer_touches [OF A(1) assms(3)] A(2)
    by simp
qed

lemma part_removed:
  "B = D \<union> R \<Longrightarrow> C = S \<union> R \<Longrightarrow> S \<inter> R = {} \<Longrightarrow> S = T \<union> D \<Longrightarrow> T \<inter> D = {} \<Longrightarrow> B = C - T"
  by blast

lemma cancel_waits:
  assumes "timers_wait st x W" and "queue_rep st ops zs" and "set zs \<inter> W = {}"
  shows "\<exists>n x' ops' xs. cancel_timer t mx (x\<lparr>tstore := st\<rparr>) ops = Some (n, x', ops') \<and> n = length xs \<and>
    queue_rep (tstore x') ops' (zs @ xs) \<and> set xs \<subseteq> W \<and> timers_wait (tstore x') x' (W - set xs) \<and>
    only_touches (set zs \<union> W) st (tstore x')"
proof -
  obtain A where A: "tq_rep (x\<lparr>tstore := st\<rparr>) A" "W = timer_ops A" using assms(1) by (auto simp: timers_wait_def)
  have cal: "caller_rep (x\<lparr>tstore := st\<rparr>) ops zs A" using assms(2,3) A(2) by (simp add: caller_rep_set)
  show ?thesis
  proof (cases "A t")
    case None
    then show ?thesis
      using cancel_timer_cases(1) [OF A(1) cal None] assms(2) timers_waitI [OF A(1)] A(2)
      by (intro exI [of _ 0] exI [of _ "x\<lparr>tstore := st\<rparr>"] exI [of _ ops] exI [of _ "[]"]) simp
  next
    case (Some a)
    obtain k os where a: "A t = Some (k, os)" using Some by (cases a) simp
    obtain x' ops' where c: "cancel_timer t mx (x\<lparr>tstore := st\<rparr>) ops = Some (min mx (length os), x', ops')"
      "tq_rep x' (if length os \<le> mx then A(t := None) else A(t \<mapsto> (k, drop mx os)))"
      "queue_rep (tstore x') ops' (zs @ take mx os)" "only_touches (set zs \<union> set os) st (tstore x')"
      using cancel_timer_cases(2) [OF A(1) cal a, of mx] by auto
    let ?A = "if length os \<le> mx then A(t := None) else A(t \<mapsto> (k, drop mx os))"
    have "queue_rep st (tops (tdata x t)) (ops_of A t)" using A(1) by (simp add: tq_rep_def ops_rep_def)
    from opq.distinct [OF this] have o: "ops_of A t = os" "distinct os" using a by (simp_all add: ops_of_def)
    have dj: "set os \<inter> set (ops_of A u) = {}" if "u \<noteq> t" for u
      using tq_apart [OF A(1)] that o(1) by blast
    have parts: "set os = set (take mx os) \<union> set (drop mx os)" "set (take mx os) \<inter> set (drop mx os) = {}"
      using o(2) by (metis append_take_drop_id set_append) (metis append_take_drop_id distinct_append o(2))
    have ops: "ops_of ?A u = (if u = t then drop mx os else ops_of A u)" for u
      by auto
    have rest: "timer_ops ?A = timer_ops A - set (take mx os)"
    proof -
      have "timer_ops ?A = set (drop mx os) \<union> (\<Union>u \<in> - {t}. set (ops_of A u))"
        unfolding timer_ops_def ops by (auto split: if_splits)
      moreover have "timer_ops A = set os \<union> (\<Union>u \<in> - {t}. set (ops_of A u))"
        unfolding timer_ops_def using o(1) by auto
      moreover have "set os \<inter> (\<Union>u \<in> - {t}. set (ops_of A u)) = {}" using dj by auto
      ultimately show ?thesis by (rule part_removed [OF _ _ _ parts])
    qed
    have sub: "set os \<subseteq> W" using timer_ops_mono(1) [of A t] o(1) A(2) by simp
    have "only_touches (set zs \<union> W) st (tstore x')"
      using c(4) by (rule only_touches_mono) (use sub in auto)
    moreover have "timers_wait (tstore x') x' (W - set (take mx os))"
      using timers_waitI [OF c(2)] unfolding rest A(2) .
    moreover have "set (take mx os) \<subseteq> W" using sub parts(1) by blast
    moreover have "min mx (length os) = length (take mx os)" by simp
    ultimately show ?thesis using c(1,3) by metis
  qed
qed

lemma timers_empty_iff:
  assumes "timers_wait st x W"
  shows "tq_empty x \<longleftrightarrow> W = {}"
proof -
  obtain A where A: "tq_rep (x\<lparr>tstore := st\<rparr>) A" "W = timer_ops A" using assms by (auto simp: timers_wait_def)
  obtain ts where ts: "active (x\<lparr>tstore := st\<rparr>) ts" "set ts = dom A" using A(1) by (auto simp: tq_rep_def)
  have "timers x = None \<longleftrightarrow> ts = []" using ts(1) by (cases ts) (auto simp: active_def)
  then have "tq_empty x \<longleftrightarrow> dom A = {}" unfolding tq_empty_def ts(2) [symmetric] by simp
  then show ?thesis using timer_ops_empty_iff [OF A(1)] A(2) by simp
qed

end
