(* ===== verification/AsioIocp.thy ===== *)
theory AsioIocp
  imports AsioTimerSet
begin

text \<open>
  The event loop of the Windows build, detail/win_iocp_io_context.hpp with impl/win_iocp_io_context.ipp
  and .hpp: operations are posted to a completion port and completed by the threads that call
  \<open>run\<close>. A section of the code under the dispatch mutex is one step here, and so is an interlocked
  exchange together with the call that follows it. \<open>do_one\<close> is a sequence of such steps
  (\<open>do_one_step\<close>), so that it can be run to its end or interleaved with what other threads do. The
  result \<open>None\<close> is a loop that does not end.
\<close>

section \<open>The completion port and the clocks\<close>

text \<open>What \<open>GetQueuedCompletionStatus\<close> gives: its result, the out parameters and \<open>GetLastError\<close>.\<close>

record 'o dequeued =
  g_ok :: bool
  g_bytes :: u32
  g_key :: u32
  g_overlapped :: "'o option"
  g_error :: u32

text \<open>
  \<open>post_status\<close> is \<open>PostQueuedCompletionStatus\<close> with bytes, key and operation, and gives its result and
  \<open>GetLastError\<close>; \<open>get_status\<close> takes the timeout. \<open>set_timer\<close> is \<open>SetWaitableTimer\<close> with the due time in
  units of 100 ns, \<open>create_timer\<close> is \<open>CreateWaitableTimer\<close>, and \<open>associate\<close> is \<open>CreateIoCompletionPort\<close>
  for a handle, with the error, 0 for none; \<open>create_port\<close> makes the port for a number of threads, and
  \<open>version_six\<close> is the version test. Each timer queue has a clock that counts in periods of
  \<open>num / den\<close> seconds.
\<close>

record ('q, 'o, 'w) iocp_api =
  post_status :: "u32 \<Rightarrow> u32 \<Rightarrow> 'o option \<Rightarrow> 'w \<Rightarrow> bool \<times> u32 \<times> 'w"
  get_status :: "u32 \<Rightarrow> 'w \<Rightarrow> 'o dequeued \<times> 'w"
  set_timer :: "int \<Rightarrow> 'w \<Rightarrow> 'w"
  create_timer :: "'w \<Rightarrow> bool \<times> u32 \<times> 'w"
  associate :: "u32 \<Rightarrow> 'w \<Rightarrow> u32 \<times> 'w"
  create_port :: "u32 \<Rightarrow> 'w \<Rightarrow> bool \<times> u32 \<times> 'w"
  version_six :: "'w \<Rightarrow> bool"
  clock :: "'q \<Rightarrow> 'w \<Rightarrow> int"
  period_num :: "'q \<Rightarrow> int"
  period_den :: "'q \<Rightarrow> int"

definition INFINITE :: u32 where "INFINITE = 0xFFFFFFFF"
definition WAIT_TIMEOUT :: u32 where "WAIT_TIMEOUT = 258"

definition default_gqcs_timeout :: u32 where "default_gqcs_timeout = 500"
definition max_timeout_msec :: int where "max_timeout_msec = 5 * 60 * 1000"
definition max_timeout_usec :: int where "max_timeout_usec = max_timeout_msec * 1000"
definition wake_for_dispatch :: u32 where "wake_for_dispatch = 1"
definition overlapped_contains_result :: u32 where "overlapped_contains_result = 2"

section \<open>State\<close>

text \<open>
  The fields of the class, then what is in memory: the links of the operations, the timer queues,
  the operations' \<open>ready_\<close> and the results saved in their \<open>OVERLAPPED\<close> parts, and the rest of the world.
\<close>

record ('q, 't, 'o, 'w) io_context =
  outstanding_work :: int
  stopped :: bool
  stop_event_posted :: bool
  shutdown_set :: bool
  dispatch_required :: bool
  completed_ops :: "'o op_queue"
  timer_queues :: "'q timer_set"
  waitable_timer :: bool
  timer_thread :: bool
  own_thread :: bool
  gqcs_timeout :: u32
  ostore :: "'o opstore"
  tqs :: "'q \<Rightarrow> ('t, 'o) timer_queue"
  ready :: "'o \<Rightarrow> bool"
  saved_ec :: "'o \<Rightarrow> error_code"
  saved_bytes :: "'o \<Rightarrow> u32"
  os :: 'w

definition get_gqcs_timeout :: "('q, 'o, 'w) iocp_api \<Rightarrow> 'w \<Rightarrow> u32" where
  "get_gqcs_timeout A w = (if version_six A w then INFINITE else default_gqcs_timeout)"

text \<open>The constructor, on what is in memory; the result is \<open>Inl\<close> when it throws.\<close>

definition ctx_new ::
  "('q, 'o, 'w) iocp_api \<Rightarrow> int \<Rightarrow> bool \<Rightarrow> ('q, 't, 'o, 'w) io_context \<Rightarrow>
   (thrown + unit) \<times> ('q, 't, 'o, 'w) io_context" where
  "ctx_new A concurrency_hint own s =
     (let s = s\<lparr>outstanding_work := 0, stopped := False, stop_event_posted := False, shutdown_set := False,
            dispatch_required := False, completed_ops := q_new, timer_queues := ts_new (ts_next (timer_queues s)),
            waitable_timer := False, timer_thread := False, own_thread := False,
            gqcs_timeout := get_gqcs_timeout A (os s)\<rparr>;
          (ok, last_error, w) = create_port A (if concurrency_hint \<ge> 0 then of_int concurrency_hint else - 1) (os s);
          s = s\<lparr>os := w\<rparr>
      in if \<not> ok then (throw_error (Ec system_category last_error) (), s)
         else (Inr (), if own then s\<lparr>outstanding_work := outstanding_work s + 1, own_thread := True\<rparr> else s))"

section \<open>Counting work and stopping\<close>

definition work_started :: "('q, 't, 'o, 'w) io_context \<Rightarrow> ('q, 't, 'o, 'w) io_context" where
  "work_started s = s\<lparr>outstanding_work := outstanding_work s + 1\<rparr>"

definition stop ::
  "('q, 'o, 'w) iocp_api \<Rightarrow> ('q, 't, 'o, 'w) io_context \<Rightarrow> (thrown + unit) \<times> ('q, 't, 'o, 'w) io_context" where
  "stop A s =
     (let was = stopped s; s = s\<lparr>stopped := True\<rparr> in
      if \<not> was then
        let was = stop_event_posted s; s = s\<lparr>stop_event_posted := True\<rparr> in
        if \<not> was then
          let (ok, last_error, w) = post_status A 0 0 None (os s); s = s\<lparr>os := w\<rparr> in
          if \<not> ok then (throw_error (Ec system_category last_error) (), s) else (Inr (), s)
        else (Inr (), s)
      else (Inr (), s))"

definition is_stopped :: "('q, 't, 'o, 'w) io_context \<Rightarrow> bool" where
  "is_stopped s = stopped s"

definition restart :: "('q, 't, 'o, 'w) io_context \<Rightarrow> ('q, 't, 'o, 'w) io_context" where
  "restart s = s\<lparr>stopped := False\<rparr>"

definition work_finished ::
  "('q, 'o, 'w) iocp_api \<Rightarrow> ('q, 't, 'o, 'w) io_context \<Rightarrow> (thrown + unit) \<times> ('q, 't, 'o, 'w) io_context" where
  "work_finished A s =
     (let s = s\<lparr>outstanding_work := outstanding_work s - 1\<rparr> in
      if outstanding_work s = 0 then stop A s else (Inr (), s))"

section \<open>Posting operations\<close>

text \<open>Out of resources: the operation is put on the completed queue.\<close>

definition push_completed :: "'o \<Rightarrow> ('q, 't, 'o, 'w) io_context \<Rightarrow> ('q, 't, 'o, 'w) io_context" where
  "push_completed p s =
     (let (st, q) = q_push (ostore s) (completed_ops s) p
      in s\<lparr>ostore := st, completed_ops := q, dispatch_required := True\<rparr>)"

definition post_deferred_completion ::
  "('q, 'o, 'w) iocp_api \<Rightarrow> 'o \<Rightarrow> ('q, 't, 'o, 'w) io_context \<Rightarrow> ('q, 't, 'o, 'w) io_context" where
  "post_deferred_completion A p s =
     (let s = s\<lparr>ready := (ready s)(p := True)\<rparr>;
          (ok, _, w) = post_status A 0 0 (Some p) (os s); s = s\<lparr>os := w\<rparr>
      in if \<not> ok then push_completed p s else s)"

definition post_immediate_completion ::
  "('q, 'o, 'w) iocp_api \<Rightarrow> 'o \<Rightarrow> ('q, 't, 'o, 'w) io_context \<Rightarrow> ('q, 't, 'o, 'w) io_context" where
  "post_immediate_completion A p s = post_deferred_completion A p (work_started s)"

definition post_private_immediate_completion ::
  "('q, 'o, 'w) iocp_api \<Rightarrow> 'o \<Rightarrow> ('q, 't, 'o, 'w) io_context \<Rightarrow> ('q, 't, 'o, 'w) io_context" where
  "post_private_immediate_completion A p s = post_immediate_completion A p s"

definition post_private_deferred_completion ::
  "('q, 'o, 'w) iocp_api \<Rightarrow> 'o \<Rightarrow> ('q, 't, 'o, 'w) io_context \<Rightarrow> ('q, 't, 'o, 'w) io_context" where
  "post_private_deferred_completion A p s = post_deferred_completion A p s"

definition do_dispatch ::
  "('q, 'o, 'w) iocp_api \<Rightarrow> 'o \<Rightarrow> ('q, 't, 'o, 'w) io_context \<Rightarrow> ('q, 't, 'o, 'w) io_context" where
  "do_dispatch A p s = post_immediate_completion A p s"

text \<open>The caller's queue \<open>ops\<close> is emptied.\<close>

partial_function (option) post_deferred_completions ::
  "('q, 'o, 'w) iocp_api \<Rightarrow> 'o op_queue \<Rightarrow> ('q, 't, 'o, 'w) io_context \<Rightarrow>
   ('o op_queue \<times> ('q, 't, 'o, 'w) io_context) option" where
  "post_deferred_completions A ops s =
     (case q_front ops of
        None \<Rightarrow> Some (ops, s)
      | Some p \<Rightarrow>
          let (st, ops) = q_pop (ostore s) ops;
              s = s\<lparr>ostore := st, ready := (ready s)(p := True)\<rparr>;
              (ok, _, w) = post_status A 0 0 (Some p) (os s); s = s\<lparr>os := w\<rparr>
          in if \<not> ok then
               let (st, q) = q_push (ostore s) (completed_ops s) p; (st, q, ops) = q_push_all st q ops
               in post_deferred_completions A ops (s\<lparr>ostore := st, completed_ops := q, dispatch_required := True\<rparr>)
             else post_deferred_completions A ops s)"

partial_function (option) abandon_operations ::
  "'o op_queue \<Rightarrow> ('q, 't, 'o, 'w) io_context \<Rightarrow> ('o op_queue \<times> ('q, 't, 'o, 'w) io_context) option" where
  "abandon_operations ops s =
     (case q_front ops of
        None \<Rightarrow> Some (ops, s)
      | Some p \<Rightarrow>
          let (st, ops) = q_pop (ostore s) ops
          in abandon_operations ops
               (s\<lparr>ostore := op_destroy p st, outstanding_work := outstanding_work s - 1\<rparr>))"

section \<open>Overlapped operations\<close>

text \<open>
  \<open>reset()\<close> of the operation, before the system call that starts it; no error stands for the cleared
  fields of the \<open>OVERLAPPED\<close> part.
\<close>

definition op_reset :: "'o \<Rightarrow> ('q, 't, 'o, 'w) io_context \<Rightarrow> ('q, 't, 'o, 'w) io_context" where
  "op_reset p s = s\<lparr>saved_ec := (saved_ec s)(p := no_error), saved_bytes := (saved_bytes s)(p := 0),
     ready := (ready s)(p := False)\<rparr>"

definition on_pending ::
  "('q, 'o, 'w) iocp_api \<Rightarrow> 'o \<Rightarrow> ('q, 't, 'o, 'w) io_context \<Rightarrow> ('q, 't, 'o, 'w) io_context" where
  "on_pending A p s =
     (let was = ready s p; s = s\<lparr>ready := (ready s)(p := True)\<rparr> in
      if was then
        let (ok, _, w) = post_status A 0 overlapped_contains_result (Some p) (os s); s = s\<lparr>os := w\<rparr>
        in if \<not> ok then push_completed p s else s
      else s)"

definition on_completion_ec ::
  "('q, 'o, 'w) iocp_api \<Rightarrow> 'o \<Rightarrow> error_code \<Rightarrow> u32 \<Rightarrow> ('q, 't, 'o, 'w) io_context \<Rightarrow> ('q, 't, 'o, 'w) io_context"
where
  "on_completion_ec A p ec bytes_transferred s =
     (let s = s\<lparr>ready := (ready s)(p := True)\<rparr>;
          s = s\<lparr>saved_ec := (saved_ec s)(p := ec), saved_bytes := (saved_bytes s)(p := bytes_transferred)\<rparr>;
          (ok, _, w) = post_status A 0 overlapped_contains_result (Some p) (os s); s = s\<lparr>os := w\<rparr>
      in if \<not> ok then push_completed p s else s)"

definition on_completion ::
  "('q, 'o, 'w) iocp_api \<Rightarrow> 'o \<Rightarrow> u32 \<Rightarrow> u32 \<Rightarrow> ('q, 't, 'o, 'w) io_context \<Rightarrow> ('q, 't, 'o, 'w) io_context" where
  "on_completion A p last_error bytes_transferred s =
     on_completion_ec A p (Ec system_category last_error) bytes_transferred s"

definition register_handle ::
  "('q, 'o, 'w) iocp_api \<Rightarrow> u32 \<Rightarrow> ('q, 't, 'o, 'w) io_context \<Rightarrow> error_code \<times> ('q, 't, 'o, 'w) io_context" where
  "register_handle A handle s =
     (let (err, w) = associate A handle (os s)
      in (if err \<noteq> 0 then Ec system_category err else no_error, s\<lparr>os := w\<rparr>))"

section \<open>Timers\<close>

text \<open>The functions of the timer queue \<open>q\<close>; the store of operations is common.\<close>

definition timer_queue_at :: "('q, 't, 'o, 'w) io_context \<Rightarrow> 'q \<Rightarrow> ('t, 'o) timer_queue" where
  "timer_queue_at s q = (tqs s q)\<lparr>tstore := ostore s\<rparr>"

definition set_timer_queue ::
  "'q \<Rightarrow> ('t, 'o) timer_queue \<Rightarrow> ('q, 't, 'o, 'w) io_context \<Rightarrow> ('q, 't, 'o, 'w) io_context" where
  "set_timer_queue q x s = s\<lparr>tqs := (tqs s)(q := x), ostore := tstore x\<rparr>"

definition queue_wait_usec ::
  "('q, 'o, 'w) iocp_api \<Rightarrow> ('q, 't, 'o, 'w) io_context \<Rightarrow> 'q \<Rightarrow> int \<Rightarrow> int option" where
  "queue_wait_usec A s q =
     wait_duration_usec (period_num A q) (period_den A q)
       (case heap (tqs s q) of [] \<Rightarrow> None | x # _ \<Rightarrow> Some (fst x)) (clock A q (os s))"

definition update_timeout ::
  "('q, 'o, 'w) iocp_api \<Rightarrow> ('q, 't, 'o, 'w) io_context \<Rightarrow> ('q, 't, 'o, 'w) io_context option" where
  "update_timeout A s =
     (if timer_thread s then
        map_option (\<lambda>timeout_usec.
          if timeout_usec < max_timeout_usec then s\<lparr>os := set_timer A (- timeout_usec * 10) (os s)\<rparr> else s)
          (ts_wait_duration (queue_wait_usec A s) (timer_queues s) (ts_first (timer_queues s)) max_timeout_usec)
      else Some s)"

definition do_add_timer_queue ::
  "('q, 'o, 'w) iocp_api \<Rightarrow> 'q \<Rightarrow> ('q, 't, 'o, 'w) io_context \<Rightarrow> (thrown + unit) \<times> ('q, 't, 'o, 'w) io_context" where
  "do_add_timer_queue A q s =
     (let s = s\<lparr>timer_queues := ts_insert q (timer_queues s)\<rparr>;
          (r, s) =
            (if \<not> waitable_timer s then
               let (ok, last_error, w) = create_timer A (os s); s = s\<lparr>waitable_timer := ok, os := w\<rparr> in
               if \<not> ok then (throw_error (Ec system_category last_error) (), s)
               else (Inr (), s\<lparr>os := set_timer A (- max_timeout_usec * 10) (os s)\<rparr>)
             else (Inr (), s))
      in case r of Inl e \<Rightarrow> (Inl e, s)
         | Inr _ \<Rightarrow> (Inr (), if \<not> timer_thread s then s\<lparr>timer_thread := True\<rparr> else s))"

definition do_remove_timer_queue :: "'q \<Rightarrow> ('q, 't, 'o, 'w) io_context \<Rightarrow> ('q, 't, 'o, 'w) io_context option" where
  "do_remove_timer_queue q s = map_option (\<lambda>ts. s\<lparr>timer_queues := ts\<rparr>) (ts_erase q (timer_queues s))"

definition schedule_timer ::
  "('q, 'o, 'w) iocp_api \<Rightarrow> 'q \<Rightarrow> int \<Rightarrow> 't \<Rightarrow> 'o \<Rightarrow> ('q, 't, 'o, 'w) io_context \<Rightarrow> ('q, 't, 'o, 'w) io_context option"
where
  "schedule_timer A q time timer p s =
     (if shutdown_set s then Some (post_immediate_completion A p s)
      else
        let (earliest, x) = enqueue_timer time timer p (timer_queue_at s q);
            s = work_started (set_timer_queue q x s)
        in if earliest then update_timeout A s else Some s)"

definition cancel_timer_ops ::
  "('q, 'o, 'w) iocp_api \<Rightarrow> 'q \<Rightarrow> 't \<Rightarrow> nat \<Rightarrow> ('q, 't, 'o, 'w) io_context \<Rightarrow>
   (nat \<times> ('q, 't, 'o, 'w) io_context) option" where
  "cancel_timer_ops A q timer max_cancelled s =
     (if shutdown_set s then Some (0, s)
      else
        Option.bind (cancel_timer timer max_cancelled (timer_queue_at s q) q_new) (\<lambda>(n, x, ops).
          map_option (\<lambda>(ops, s). (n, s)) (post_deferred_completions A ops (set_timer_queue q x s))))"

definition move_timer_ops ::
  "('q, 'o, 'w) iocp_api \<Rightarrow> 'q \<Rightarrow> 't \<Rightarrow> 't \<Rightarrow> ('q, 't, 'o, 'w) io_context \<Rightarrow> ('q, 't, 'o, 'w) io_context option"
where
  "move_timer_ops A q to_timer from_timer s =
     Option.bind (cancel_timer to_timer size_max (timer_queue_at s q) q_new) (\<lambda>(n, x, ops).
       map_option snd (post_deferred_completions A ops (set_timer_queue q (move_timer to_timer from_timer x) s)))"

text \<open>One round of the loop of the timer thread, after the waitable timer has fired.\<close>

definition timer_fired ::
  "('q, 'o, 'w) iocp_api \<Rightarrow> ('q, 't, 'o, 'w) io_context \<Rightarrow> ('q, 't, 'o, 'w) io_context" where
  "timer_fired A s =
     (let s = s\<lparr>dispatch_required := True\<rparr>; (_, _, w) = post_status A 0 wake_for_dispatch None (os s)
      in s\<lparr>os := w\<rparr>)"

section \<open>The loop\<close>

text \<open>
  Where a thread is in \<open>do_one\<close>: before acquiring the responsibility for timers and completed
  operations, before waiting at the port, with what the port gave, after a stop event (two steps),
  about to complete an operation, after that with what the handler threw, and at the end. An exception
  that leaves the destructor of \<open>work_finished_on_block_exit\<close> ends the program.
\<close>

datatype 'o pc = Dispatch | Wait | Dequeued "'o dequeued" | Stop_seen | Stop_again
  | Complete 'o error_code u32 | Finish "thrown option"
  | Returned nat error_code | Raised thrown | Terminated

fun final :: "'o pc \<Rightarrow> bool" where
  "final (Returned n ec) = True"
| "final (Raised e) = True"
| "final Terminated = True"
| "final _ = False"

definition dispatch ::
  "('q, 'o, 'w) iocp_api \<Rightarrow> ('q, 't, 'o, 'w) io_context \<Rightarrow> ('q, 't, 'o, 'w) io_context option" where
  "dispatch A s =
     (let (st, ops, comp) = q_push_all (ostore s) q_new (completed_ops s); s = s\<lparr>ostore := st, completed_ops := comp\<rparr> in
      Option.bind
        (ts_collect (get_at (take_ready (\<lambda>q. clock A q (os s)))) (timer_queues s) (ts_first (timer_queues s))
          (ostore s, tqs s, ops)) (\<lambda>(st, X, ops).
        Option.bind (post_deferred_completions A ops (s\<lparr>ostore := st, tqs := X\<rparr>)) (\<lambda>(ops, s). update_timeout A s)))"

text \<open>
  \<open>h\<close> is \<open>complete()\<close>: the handler of an operation, with its error code and number of bytes, on the
  state; what it throws, if anything.
\<close>

type_synonym ('q, 't, 'o, 'w) handler =
  "'o \<Rightarrow> error_code \<Rightarrow> u32 \<Rightarrow> ('q, 't, 'o, 'w) io_context \<Rightarrow> thrown option \<times> ('q, 't, 'o, 'w) io_context"

definition after_dequeue ::
  "u32 \<Rightarrow> 'o dequeued \<Rightarrow> ('q, 't, 'o, 'w) io_context \<Rightarrow> 'o pc \<times> ('q, 't, 'o, 'w) io_context" where
  "after_dequeue msec g s =
     (case g_overlapped g of
        Some p \<Rightarrow>
          let (ec, bytes, s) =
                (if g_key g = overlapped_contains_result then (saved_ec s p, saved_bytes s p, s)
                 else let ec = Ec system_category (g_error g)
                      in (ec, g_bytes g, s\<lparr>saved_ec := (saved_ec s)(p := ec), saved_bytes := (saved_bytes s)(p := g_bytes g)\<rparr>));
              was = ready s p; s = s\<lparr>ready := (ready s)(p := True)\<rparr>
          in if was then (Complete p ec bytes, s) else (Dispatch, s)
      | None \<Rightarrow>
          if \<not> g_ok g then
            if g_error g \<noteq> WAIT_TIMEOUT then (Returned 0 (Ec system_category (g_error g)), s)
            else if msec = INFINITE then (Dispatch, s)
            else (Returned 0 no_error, s)
          else if g_key g = wake_for_dispatch then (Dispatch, s)
          else (Stop_seen, s\<lparr>stop_event_posted := False\<rparr>))"

definition stop_again ::
  "('q, 'o, 'w) iocp_api \<Rightarrow> ('q, 't, 'o, 'w) io_context \<Rightarrow> 'o pc \<times> ('q, 't, 'o, 'w) io_context" where
  "stop_again A s =
     (let was = stop_event_posted s; s = s\<lparr>stop_event_posted := True\<rparr> in
      if \<not> was then
        let (ok, last_error, w) = post_status A 0 0 None (os s); s = s\<lparr>os := w\<rparr>
        in (Returned 0 (if \<not> ok then Ec system_category last_error else no_error), s)
      else (Returned 0 no_error, s))"

fun do_one_step ::
  "('q, 'o, 'w) iocp_api \<Rightarrow> ('q, 't, 'o, 'w) handler \<Rightarrow> u32 \<Rightarrow> 'o pc \<Rightarrow> ('q, 't, 'o, 'w) io_context \<Rightarrow>
   ('o pc \<times> ('q, 't, 'o, 'w) io_context) option" where
  "do_one_step A h msec Dispatch s =
     (if dispatch_required s then map_option (\<lambda>s. (Wait, s)) (dispatch A (s\<lparr>dispatch_required := False\<rparr>))
      else Some (Wait, s))"
| "do_one_step A h msec Wait s =
     (let (g, w) = get_status A (if msec < gqcs_timeout s then msec else gqcs_timeout s) (os s)
      in Some (Dequeued g, s\<lparr>os := w\<rparr>))"
| "do_one_step A h msec (Dequeued g) s = Some (after_dequeue msec g s)"
| "do_one_step A h msec Stop_seen s = Some (if stopped s then Stop_again else Dispatch, s)"
| "do_one_step A h msec Stop_again s = Some (stop_again A s)"
| "do_one_step A h msec (Complete p ec bytes) s = (case h p ec bytes s of (e, s) \<Rightarrow> Some (Finish e, s))"
| "do_one_step A h msec (Finish e) s =
     (case work_finished A s of
        (Inl _, s) \<Rightarrow> Some (Terminated, s)
      | (Inr _, s) \<Rightarrow> Some (case e of None \<Rightarrow> Returned 1 no_error | Some e \<Rightarrow> Raised e, s))"
| "do_one_step A h msec pc s = Some (pc, s)"

partial_function (option) do_one_from ::
  "('q, 'o, 'w) iocp_api \<Rightarrow> ('q, 't, 'o, 'w) handler \<Rightarrow> u32 \<Rightarrow> 'o pc \<Rightarrow> ('q, 't, 'o, 'w) io_context \<Rightarrow>
   ('o pc \<times> ('q, 't, 'o, 'w) io_context) option" where
  "do_one_from A h msec pc s =
     (if final pc then Some (pc, s)
      else Option.bind (do_one_step A h msec pc s) (\<lambda>(pc, s). do_one_from A h msec pc s))"

definition do_one ::
  "('q, 'o, 'w) iocp_api \<Rightarrow> ('q, 't, 'o, 'w) handler \<Rightarrow> u32 \<Rightarrow> ('q, 't, 'o, 'w) io_context \<Rightarrow>
   ('o pc \<times> ('q, 't, 'o, 'w) io_context) option" where
  "do_one A h msec s = do_one_from A h msec Dispatch s"

text \<open>The loop of \<open>run\<close> and \<open>poll\<close>: it counts the handlers that were run.\<close>

partial_function (option) run_loop ::
  "('q, 'o, 'w) iocp_api \<Rightarrow> ('q, 't, 'o, 'w) handler \<Rightarrow> u32 \<Rightarrow> nat \<Rightarrow> ('q, 't, 'o, 'w) io_context \<Rightarrow>
   ('o pc \<times> ('q, 't, 'o, 'w) io_context) option" where
  "run_loop A h msec n s =
     Option.bind (do_one A h msec s) (\<lambda>(pc, s). case pc of
       Returned k ec \<Rightarrow>
         if k \<noteq> 0 then run_loop A h msec (if n \<noteq> size_max then n + 1 else n) s
         else Some (Returned n ec, s)
     | _ \<Rightarrow> Some (pc, s))"

text \<open>What \<open>run\<close>, \<open>run_one\<close>, \<open>wait_one\<close>, \<open>poll\<close> and \<open>poll_one\<close> do when there is no work.\<close>

definition no_work ::
  "('q, 'o, 'w) iocp_api \<Rightarrow> ('q, 't, 'o, 'w) io_context \<Rightarrow> 'o pc \<times> ('q, 't, 'o, 'w) io_context" where
  "no_work A s = (case stop A s of (Inl e, s) \<Rightarrow> (Raised e, s) | (Inr _, s) \<Rightarrow> (Returned 0 no_error, s))"

definition run_ctx ::
  "('q, 'o, 'w) iocp_api \<Rightarrow> ('q, 't, 'o, 'w) handler \<Rightarrow> ('q, 't, 'o, 'w) io_context \<Rightarrow>
   ('o pc \<times> ('q, 't, 'o, 'w) io_context) option" where
  "run_ctx A h s = (if outstanding_work s = 0 then Some (no_work A s) else run_loop A h INFINITE 0 s)"

definition run_one ::
  "('q, 'o, 'w) iocp_api \<Rightarrow> ('q, 't, 'o, 'w) handler \<Rightarrow> ('q, 't, 'o, 'w) io_context \<Rightarrow>
   ('o pc \<times> ('q, 't, 'o, 'w) io_context) option" where
  "run_one A h s = (if outstanding_work s = 0 then Some (no_work A s) else do_one A h INFINITE s)"

definition wait_one ::
  "('q, 'o, 'w) iocp_api \<Rightarrow> ('q, 't, 'o, 'w) handler \<Rightarrow> int \<Rightarrow> ('q, 't, 'o, 'w) io_context \<Rightarrow>
   ('o pc \<times> ('q, 't, 'o, 'w) io_context) option" where
  "wait_one A h usec s =
     (if outstanding_work s = 0 then Some (no_work A s)
      else do_one A h (if usec < 0 then INFINITE else if usec = 0 then 1 else of_int ((usec - 1) div 1000 + 1)) s)"

definition poll ::
  "('q, 'o, 'w) iocp_api \<Rightarrow> ('q, 't, 'o, 'w) handler \<Rightarrow> ('q, 't, 'o, 'w) io_context \<Rightarrow>
   ('o pc \<times> ('q, 't, 'o, 'w) io_context) option" where
  "poll A h s = (if outstanding_work s = 0 then Some (no_work A s) else run_loop A h 0 0 s)"

definition poll_one ::
  "('q, 'o, 'w) iocp_api \<Rightarrow> ('q, 't, 'o, 'w) handler \<Rightarrow> ('q, 't, 'o, 'w) io_context \<Rightarrow>
   ('o pc \<times> ('q, 't, 'o, 'w) io_context) option" where
  "poll_one A h s = (if outstanding_work s = 0 then Some (no_work A s) else do_one A h 0 s)"

section \<open>Shutting down\<close>

text \<open>The loop that destroys one operation after another; \<open>abandon_operations\<close> has the same body.\<close>

partial_function (option) shutdown_loop ::
  "('q, 'o, 'w) iocp_api \<Rightarrow> ('q, 't, 'o, 'w) io_context \<Rightarrow> ('q, 't, 'o, 'w) io_context option" where
  "shutdown_loop A s =
     (if outstanding_work s > 0 then
        Option.bind
          (ts_collect (get_at take_all) (timer_queues s) (ts_first (timer_queues s)) (ostore s, tqs s, q_new))
          (\<lambda>(st, X, ops).
            let (st, ops, comp) = q_push_all st ops (completed_ops s);
                s = s\<lparr>ostore := st, tqs := X, completed_ops := comp\<rparr>
            in if \<not> q_empty ops then
                 Option.bind (abandon_operations ops s) (\<lambda>(ops, s). shutdown_loop A s)
               else
                 let (g, w) = get_status A (gqcs_timeout s) (os s); s = s\<lparr>os := w\<rparr>
                 in shutdown_loop A
                      (case g_overlapped g of
                         Some p \<Rightarrow> s\<lparr>outstanding_work := outstanding_work s - 1, ostore := op_destroy p (ostore s)\<rparr>
                       | None \<Rightarrow> s))
      else Some s)"

text \<open>It starts when the own thread has ended, if there is one.\<close>

definition shutdown_ctx ::
  "('q, 'o, 'w) iocp_api \<Rightarrow> ('q, 't, 'o, 'w) io_context \<Rightarrow> ('q, 't, 'o, 'w) io_context option" where
  "shutdown_ctx A s =
     (let s = s\<lparr>shutdown_set := True\<rparr>;
          s = (if timer_thread s then s\<lparr>os := set_timer A 1 (os s)\<rparr> else s);
          s = (if own_thread s then s\<lparr>own_thread := False, outstanding_work := outstanding_work s - 1\<rparr> else s)
      in shutdown_loop A s)"

end
