(* ===== verification/AsioIocpOps.thy ===== *)
theory AsioIocpOps
  imports AsioIocp
begin

text \<open>
  What each function of the event loop does with the operations that wait in it: at the completion
  port, in the queue of completed operations, and in the timer queues. No function loses an
  operation or leaves it in two places.
\<close>

section \<open>The port\<close>

text \<open>
  \<open>held w\<close> are the operations that the port has: posted to it, or of I/O that the system has not
  reported yet. Posting adds the operation, unless it fails, and what is dequeued is taken out.
\<close>

definition of_option :: "'o option \<Rightarrow> 'o multiset" where
  "of_option p = (case p of None \<Rightarrow> {#} | Some p \<Rightarrow> {#p#})"

lemma of_option_simps [simp]: "of_option None = {#}" "of_option (Some p) = {#p#}"
  by (simp_all add: of_option_def)

definition port_keeps :: "('q, 'o, 'w) iocp_api \<Rightarrow> ('w \<Rightarrow> 'o multiset) \<Rightarrow> bool" where
  "port_keeps A held \<longleftrightarrow>
     (\<forall>b k p w. held (snd (snd (post_status A b k p w))) =
        held w + (if fst (post_status A b k p w) then of_option p else {#})) \<and>
     (\<forall>m w. held w = held (snd (get_status A m w)) + of_option (g_overlapped (fst (get_status A m w)))) \<and>
     (\<forall>d w. held (set_timer A d w) = held w) \<and> (\<forall>w. held (snd (snd (create_timer A w))) = held w)"

lemma post_keeps:
  "port_keeps A held \<Longrightarrow> post_status A b k p w = (ok, e, w') \<Longrightarrow> held w' = held w + (if ok then of_option p else {#})"
  unfolding port_keeps_def by (metis fst_conv snd_conv)

lemma get_keeps:
  "port_keeps A held \<Longrightarrow> get_status A m w = (g, w') \<Longrightarrow> held w = held w' + of_option (g_overlapped g)"
  unfolding port_keeps_def by (metis fst_conv snd_conv)

lemma set_timer_keeps: "port_keeps A held \<Longrightarrow> held (set_timer A d w) = held w"
  by (simp add: port_keeps_def)

lemma create_timer_keeps: "port_keeps A held \<Longrightarrow> create_timer A w = (ok, e, w') \<Longrightarrow> held w' = held w"
  unfolding port_keeps_def by (metis snd_conv)

section \<open>The operations in a context\<close>

text \<open>Each operation once.\<close>

definition once :: "'o multiset \<Rightarrow> bool" where
  "once M \<longleftrightarrow> (\<forall>p. count M p \<le> 1)"

lemma once_parts: "once (M + N) \<Longrightarrow> once M \<and> once N \<and> set_mset M \<inter> set_mset N = {}"
proof -
  assume o: "once (M + N)"
  have c: "count M p + count N p \<le> 1" for p using o by (simp add: once_def)
  have "count M p \<le> 1" "count N p \<le> 1" for p using c [of p] by linarith+
  moreover have "count M p = 0 \<or> count N p = 0" for p using c [of p] by arith
  ultimately show ?thesis by (auto simp: once_def count_eq_zero_iff)
qed

lemma once_add: "once (add_mset p M) \<longleftrightarrow> once M \<and> p \<notin># M"
proof
  assume "once (add_mset p M)"
  then show "once M \<and> p \<notin># M"
    using once_parts [of "{#p#}" M] by simp
next
  assume "once M \<and> p \<notin># M"
  then show "once (add_mset p M)" by (auto simp: once_def count_eq_zero_iff)
qed

lemma once_mset: "once (mset xs) \<longleftrightarrow> distinct xs"
  by (induction xs) (auto simp: once_add, simp add: once_def)

lemma once_plus: "once (M + mset xs) \<longleftrightarrow> once M \<and> distinct xs \<and> set xs \<inter> set_mset M = {}"
  by (induction xs) (auto simp: once_add)

text \<open>
  \<open>holds held c M I\<close>: the context \<open>c\<close> is well-formed and the operations \<open>M\<close> wait in it, each in one
  place. \<open>I\<close> are the operations whose initiating function has not returned: only those may be at the
  port without being ready.
\<close>

definition waiting :: "'q list \<Rightarrow> ('q \<Rightarrow> 'o set) \<Rightarrow> 'o multiset" where
  "waiting qs W = sum_list (map (\<lambda>q. mset_set (W q)) qs)"

definition parts_of ::
  "('w \<Rightarrow> 'o multiset) \<Rightarrow> ('q, 't, 'o, 'w) io_context \<Rightarrow> 'o list \<Rightarrow> 'q list \<Rightarrow> ('q \<Rightarrow> 'o set) \<Rightarrow> 'o set \<Rightarrow> bool" where
  "parts_of held c cs qs W I \<longleftrightarrow> queue_rep (ostore c) (completed_ops c) cs \<and> ts_rep (timer_queues c) qs \<and>
     (\<forall>q \<in> set qs. timers_wait (ostore c) (tqs c q) (W q) \<and> finite (W q)) \<and>
     once (held (os c) + mset cs + waiting qs W) \<and>
     (set cs \<union> (\<Union>q \<in> set qs. W q)) \<inter> I = {} \<and> (\<forall>p \<in># held (os c). p \<notin> I \<longrightarrow> ready c p)"

definition holds ::
  "('w \<Rightarrow> 'o multiset) \<Rightarrow> ('q, 't, 'o, 'w) io_context \<Rightarrow> 'o multiset \<Rightarrow> 'o set \<Rightarrow> bool" where
  "holds held c M I \<longleftrightarrow> (\<exists>cs qs W. parts_of held c cs qs W I \<and> M = held (os c) + mset cs + waiting qs W)"

lemma holdsI: "parts_of held c cs qs W I \<Longrightarrow> holds held c (held (os c) + mset cs + waiting qs W) I"
  by (auto simp: holds_def)

lemma holds_once: "holds held c M I \<Longrightarrow> once M"
  by (auto simp: holds_def parts_of_def)

lemma set_waiting: "\<forall>q \<in> set qs. finite (W q) \<Longrightarrow> set_mset (waiting qs W) = (\<Union>q \<in> set qs. W q)"
  by (induction qs) (auto simp: waiting_def)

lemma waiting_cong: "(\<And>q. q \<in> set qs \<Longrightarrow> W q = V q) \<Longrightarrow> waiting qs W = waiting qs V"
  by (simp add: waiting_def cong: map_cong)

lemma waiting_simps [simp]: "waiting [] W = {#}" "waiting (q # qs) W = mset_set (W q) + waiting qs W"
  by (simp_all add: waiting_def)

lemma waiting_upd:
  assumes "distinct qs" and "q \<in> set qs" and "\<And>r. r \<noteq> q \<Longrightarrow> U r = W r"
  shows "waiting qs U + mset_set (W q) = waiting qs W + mset_set (U q)"
  using assms(1,2)
proof (induction qs)
  case (Cons r qs)
  show ?case
  proof (cases "r = q")
    case True
    then have "waiting qs U = waiting qs W" using Cons.prems assms(3) by (intro waiting_cong) (metis distinct.simps(2))
    then show ?thesis using True by simp
  next
    case False
    then show ?thesis using Cons assms(3) by simp
  qed
qed simp

lemma waiting_remove: "q \<in> set qs \<Longrightarrow> waiting qs W = mset_set (W q) + waiting (remove1 q qs) W"
  by (induction qs) auto

lemma waiting_empty: "waiting qs (\<lambda>_. {}) = {#}"
  by (induction qs) simp_all

lemma waiting_diff:
  assumes "\<And>q. q \<in> set qs \<Longrightarrow> finite (W q) \<and> V q \<subseteq> W q"
  shows "waiting qs W = waiting qs (\<lambda>q. W q - V q) + waiting qs V"
  using assms
proof (induction qs)
  case (Cons q qs)
  have f: "finite (W q)" "V q \<subseteq> W q" using Cons.prems by auto
  have "mset_set (W q - V q) + mset_set (V q) = mset_set ((W q - V q) \<union> V q)"
    using f by (intro mset_set_Union [symmetric]) (auto intro: finite_subset)
  also have "(W q - V q) \<union> V q = W q" using f by blast
  finally show ?case using Cons by simp
qed simp

text \<open>Parts of the context that the operations do not depend on.\<close>

lemma holds_cong:
  assumes "holds held c M I" and "ostore c' = ostore c" "completed_ops c' = completed_ops c"
    "timer_queues c' = timer_queues c" "tqs c' = tqs c" "held (os c') = held (os c)"
    "\<And>p. ready c p \<Longrightarrow> ready c' p"
  shows "holds held c' M I"
proof -
  obtain cs qs W where p: "parts_of held c cs qs W I" "M = held (os c) + mset cs + waiting qs W"
    using assms(1) by (auto simp: holds_def)
  then have "parts_of held c' cs qs W I" using assms(2-7) by (auto simp: parts_of_def)
  then show ?thesis using p(2) assms(6) by (auto simp: holds_def)
qed

section \<open>Posting\<close>

lemma push_completed_holds:
  assumes "holds held c M I" and "p \<notin># M" and "p \<notin> I"
  shows "holds held (push_completed p c) (add_mset p M) I"
proof -
  obtain cs qs W where p: "parts_of held c cs qs W I" and M: "M = held (os c) + mset cs + waiting qs W"
    using assms(1) by (auto simp: holds_def)
  obtain st q where push: "q_push (ostore c) (completed_ops c) p = (st, q)" by fastforce
  have rep: "queue_rep (ostore c) (completed_ops c) cs" and fin: "\<forall>q \<in> set qs. finite (W q)"
    using p by (simp_all add: parts_of_def)
  have p_new: "p \<notin> set cs" "p \<notin> (\<Union>q \<in> set qs. W q)" using assms(2) set_waiting [OF fin] by (auto simp: M)
  have dj: "set cs \<inter> (\<Union>q \<in> set qs. W q) = {}"
    using p once_parts [of "held (os c) + mset cs" "waiting qs W"] set_waiting [OF fin] by (auto simp: parts_of_def)
  have "timers_wait st (tqs c q) (W q)" if "q \<in> set qs" for q
  proof (rule timers_wait_frame [OF _ push_touches [OF rep push]])
    show "timers_wait (ostore c) (tqs c q) (W q)" using p that by (simp add: parts_of_def)
    show "insert p (set cs) \<inter> W q = {}" using that p_new dj by blast
  qed
  then have "parts_of held (push_completed p c) (cs @ [p]) qs W I"
    using p assms(2,3) opq.push [OF rep p_new(1) push] fin
    by (auto simp: parts_of_def push_completed_def push once_add M)
  from holdsI [OF this] show ?thesis by (simp add: push_completed_def push M)
qed

text \<open>The end of the functions that post one operation.\<close>

definition posted_or_pushed :: "'o \<Rightarrow> bool \<Rightarrow> 'w \<Rightarrow> ('q, 't, 'o, 'w) io_context \<Rightarrow> ('q, 't, 'o, 'w) io_context" where
  "posted_or_pushed p ok w c = (if \<not> ok then push_completed p (c\<lparr>os := w\<rparr>) else c\<lparr>os := w\<rparr>)"

lemma posted_or_pushed_fields [simp]:
  "outstanding_work (posted_or_pushed p ok w c) = outstanding_work c" "ready (posted_or_pushed p ok w c) = ready c"
  "stopped (posted_or_pushed p ok w c) = stopped c" "timer_queues (posted_or_pushed p ok w c) = timer_queues c"
  by (simp_all add: posted_or_pushed_def push_completed_def split: prod.split)

lemma posted_or_pushed_holds:
  assumes A: "port_keeps A held" and "holds held c M I" and "p \<notin># M" and "p \<notin> I" and "ready c p"
    and post: "post_status A b k (Some p) (os c) = (ok, e, w)"
  shows "holds held (posted_or_pushed p ok w c) (add_mset p M) I"
proof (cases ok)
  case False
  then have "holds held (c\<lparr>os := w\<rparr>) M I"
    using post_keeps [OF A post] by (intro holds_cong [OF assms(2)]) simp_all
  from push_completed_holds [OF this assms(3,4)] False show ?thesis by (simp add: posted_or_pushed_def)
next
  case True
  obtain cs qs W where p: "parts_of held c cs qs W I" and M: "M = held (os c) + mset cs + waiting qs W"
    using assms(2) by (auto simp: holds_def)
  have w: "held w = add_mset p (held (os c))" using post_keeps [OF A post] True by simp
  have "parts_of held (c\<lparr>os := w\<rparr>) cs qs W I"
    using p assms(3-5) by (auto simp: parts_of_def w once_add M)
  from holdsI [OF this] True w show ?thesis by (simp add: posted_or_pushed_def M)
qed

lemma set_ready_holds: "holds held c M I \<Longrightarrow> holds held (c\<lparr>ready := (ready c)(p := True)\<rparr>) M I"
  by (erule holds_cong) auto

lemma post_deferred_completion_holds:
  assumes A: "port_keeps A held" and c: "holds held c M I" and "p \<notin># M" and "p \<notin> I"
  shows "holds held (post_deferred_completion A p c) (add_mset p M) I \<and>
    ready (post_deferred_completion A p c) = (ready c)(p := True) \<and>
    outstanding_work (post_deferred_completion A p c) = outstanding_work c"
proof -
  let ?c = "c\<lparr>ready := (ready c)(p := True)\<rparr>"
  obtain ok e w where post: "post_status A 0 0 (Some p) (os ?c) = (ok, e, w)" by (cases "post_status A 0 0 (Some p) (os ?c)")
  have eq: "post_deferred_completion A p c = posted_or_pushed p ok w ?c"
    using post by (simp add: post_deferred_completion_def posted_or_pushed_def Let_def)
  show ?thesis
    unfolding eq using posted_or_pushed_holds [OF A set_ready_holds [OF c] assms(3,4) _ post] by simp
qed

lemma on_pending_holds:
  assumes A: "port_keeps A held" and c: "holds held c M I" and "ready c p \<Longrightarrow> p \<notin># M" 
  shows "holds held (on_pending A p c) (if ready c p then add_mset p M else M) (I - {p}) \<and>
    ready (on_pending A p c) = (ready c)(p := True) \<and> outstanding_work (on_pending A p c) = outstanding_work c"
proof -
  let ?c = "c\<lparr>ready := (ready c)(p := True)\<rparr>"
  obtain cs qs W where "parts_of held ?c cs qs W I" and M: "M = held (os c) + mset cs + waiting qs W"
    using set_ready_holds [OF c, of p] by (auto simp: holds_def)
  then have "parts_of held ?c cs qs W (I - {p})" by (auto simp: parts_of_def)
  from holdsI [OF this] have h: "holds held ?c M (I - {p})" by (simp add: M)
  show ?thesis
  proof (cases "ready c p")
    case False
    then show ?thesis using h by (simp add: on_pending_def Let_def)
  next
    case True
    obtain ok e w where post: "post_status A 0 overlapped_contains_result (Some p) (os ?c) = (ok, e, w)"
      by (cases "post_status A 0 overlapped_contains_result (Some p) (os ?c)")
    have eq: "on_pending A p c = posted_or_pushed p ok w ?c"
      using post True by (simp add: on_pending_def posted_or_pushed_def Let_def)
    show ?thesis
      unfolding eq using posted_or_pushed_holds [OF A h assms(3) [OF True] _ _ post] True by simp
  qed
qed

lemma on_completion_holds:
  assumes A: "port_keeps A held" and c: "holds held c M I" and "p \<notin># M" and "p \<notin> I"
  shows "holds held (on_completion_ec A p ec n c) (add_mset p M) I \<and>
    ready (on_completion_ec A p ec n c) = (ready c)(p := True) \<and>
    outstanding_work (on_completion_ec A p ec n c) = outstanding_work c"
proof -
  let ?c = "c\<lparr>ready := (ready c)(p := True), saved_ec := (saved_ec c)(p := ec), saved_bytes := (saved_bytes c)(p := n)\<rparr>"
  obtain ok e w where post: "post_status A 0 overlapped_contains_result (Some p) (os ?c) = (ok, e, w)"
    by (cases "post_status A 0 overlapped_contains_result (Some p) (os ?c)")
  have eq: "on_completion_ec A p ec n c = posted_or_pushed p ok w ?c"
    using post by (simp add: on_completion_ec_def posted_or_pushed_def Let_def)
  have "holds held ?c M I" using c by (rule holds_cong) auto
  then show ?thesis unfolding eq using posted_or_pushed_holds [OF A _ assms(3,4) _ post] by simp
qed

section \<open>Posting a queue of operations\<close>

lemma holds_parts:
  assumes "parts_of held c cs qs W I"
  shows "set_mset (held (os c) + mset cs + waiting qs W) = set_mset (held (os c)) \<union> set cs \<union> (\<Union>q \<in> set qs. W q)"
    and "set cs \<inter> (\<Union>q \<in> set qs. W q) = {}"
proof -
  have fin: "\<forall>q \<in> set qs. finite (W q)" and o: "once (held (os c) + mset cs + waiting qs W)"
    using assms by (simp_all add: parts_of_def)
  show "set_mset (held (os c) + mset cs + waiting qs W) = set_mset (held (os c)) \<union> set cs \<union> (\<Union>q \<in> set qs. W q)"
    using set_waiting [OF fin] by simp
  show "set cs \<inter> (\<Union>q \<in> set qs. W q) = {}"
    using once_parts [OF o] set_waiting [OF fin] by auto
qed

lemma holds_store:
  assumes "holds held c M I" and "only_touches S (ostore c) st" and "S \<inter> set_mset M = {}"
  shows "holds held (c\<lparr>ostore := st\<rparr>) M I"
proof -
  obtain cs qs W where p: "parts_of held c cs qs W I" and M: "M = held (os c) + mset cs + waiting qs W"
    using assms(1) by (auto simp: holds_def)
  have S: "set cs \<inter> S = {}" "\<And>q. q \<in> set qs \<Longrightarrow> S \<inter> W q = {}"
    using assms(3) unfolding M holds_parts(1) [OF p] by auto
  have w: "timers_wait st (tqs c q) (W q)" if "q \<in> set qs" for q
    by (rule timers_wait_frame [OF _ assms(2) S(2) [OF that]]) (use p that in \<open>simp add: parts_of_def\<close>)
  have "parts_of held (c\<lparr>ostore := st\<rparr>) cs qs W I"
    using p S(1) only_touchesD [OF assms(2)] w by (simp add: parts_of_def)
  from holdsI [OF this] show ?thesis by (simp add: M)
qed

text \<open>Out of resources in the middle: the operation and all that follow go to the completed queue.\<close>

lemma push_rest_holds:
  assumes "holds held c M I" and ops: "queue_rep (ostore c) ops xs" and "p \<notin> set xs"
    and "set (p # xs) \<inter> set_mset M = {}" and "set (p # xs) \<inter> I = {}"
    and push: "q_push (ostore c) (completed_ops c) p = (st, q)" and all: "q_push_all st q ops = (st', q', ops')"
  shows "holds held (c\<lparr>ostore := st', completed_ops := q', dispatch_required := True\<rparr>) (M + mset (p # xs)) I \<and>
    q_front ops' = None"
proof -
  obtain cs qs W where pa: "parts_of held c cs qs W I" and M: "M = held (os c) + mset cs + waiting qs W"
    using assms(1) by (auto simp: holds_def)
  have rep: "queue_rep (ostore c) (completed_ops c) cs" using pa by (simp add: parts_of_def)
  have new: "set (p # xs) \<inter> set cs = {}" "\<And>q. q \<in> set qs \<Longrightarrow> set (p # xs) \<inter> W q = {}"
    using assms(4) unfolding M holds_parts(1) [OF pa] by auto
  have q: "queue_rep st q (cs @ [p])" using opq.push [OF rep _ push] new(1) by auto
  have ops1: "queue_rep st ops xs" using opq.push_others [OF rep push ops] new(1) assms(3) by auto
  have "set (cs @ [p]) \<inter> set xs = {}" using new(1) assms(3) by auto
  from opq.push_all [OF q ops1 this all] have r: "queue_rep st' q' ((cs @ [p]) @ xs)" "queue_rep st' ops' []" by auto
  have t: "only_touches (set cs \<union> set (p # xs)) (ostore c) st'"
    by (rule only_touches_trans [OF only_touches_mono [OF push_touches [OF rep push]]
          only_touches_mono [OF push_all_touches [OF q ops1 all]]]) auto
  let ?c = "c\<lparr>ostore := st', completed_ops := q', dispatch_required := True\<rparr>"
  have w: "timers_wait st' (tqs c q) (W q)" if "q \<in> set qs" for q
  proof (rule timers_wait_frame [OF _ t])
    show "timers_wait (ostore c) (tqs c q) (W q)" using pa that by (simp add: parts_of_def)
    show "(set cs \<union> set (p # xs)) \<inter> W q = {}" using that new(2) [OF that] holds_parts(2) [OF pa] by blast
  qed
  have "distinct (p # xs)" using opq.distinct [OF ops] assms(3) by simp
  then have "once (M + mset (p # xs))"
    using holds_once [OF assms(1)] assms(4) by (simp only: once_plus)
  then have o: "once (held (os c) + mset ((cs @ [p]) @ xs) + waiting qs W)" by (simp add: M ac_simps)
  have "parts_of held ?c ((cs @ [p]) @ xs) qs W I"
    using pa r(1) w o assms(5) by (auto simp: parts_of_def)
  from holdsI [OF this] show ?thesis
    using opq.front [OF r(2)] by (simp add: M ac_simps)
qed

lemma post_all_holds:
  assumes A: "port_keeps A held" and "holds held c M I" and "queue_rep (ostore c) ops xs"
    and "set xs \<inter> set_mset M = {}" and "set xs \<inter> I = {}"
  shows "\<exists>ops' c'. post_deferred_completions A ops c = Some (ops', c') \<and> holds held c' (M + mset xs) I \<and>
    (\<forall>p. (ready c p \<longrightarrow> ready c' p) \<and> (ready c' p \<longrightarrow> ready c p \<or> p \<in> set xs)) \<and>
    outstanding_work c' = outstanding_work c"
  using assms(2-5)
proof (induction xs arbitrary: c M ops)
  case Nil
  then show ?case by (subst post_deferred_completions.simps) (simp add: opq.front)
next
  case (Cons p xs)
  have front: "q_front ops = Some p" using opq.front [OF Cons.prems(2)] by simp
  have p: "p \<notin> set xs" "p \<notin># M" "p \<notin> I" "p \<notin># M + {#}" using opq.distinct [OF Cons.prems(2)] Cons.prems(3,4) by auto
  obtain st1 ops1 where pop: "q_pop (ostore c) ops = (st1, ops1)" by fastforce
  have q1: "queue_rep st1 ops1 xs" using opq.pop [OF Cons.prems(2) pop] by simp
  have t: "only_touches (set (p # xs)) (ostore c) st1"
    by (rule only_touchesI [OF pop_keeps [OF pop]], rule opq.pop_others [OF Cons.prems(2) pop]) auto
  define c1 where "c1 = c\<lparr>ostore := st1, ready := (ready c)(p := True)\<rparr>"
  have h1: "holds held c1 M I"
    using set_ready_holds [OF holds_store [OF Cons.prems(1) t Cons.prems(3)], of p] by (simp add: c1_def)
  obtain ok e w where post: "post_status A 0 0 (Some p) (os c1) = (ok, e, w)" by (cases "post_status A 0 0 (Some p) (os c1)")
  show ?case
  proof (cases ok)
    case True
    have "holds held (c1\<lparr>os := w\<rparr>) (add_mset p M) I"
      using posted_or_pushed_holds [OF A h1 p(2,3) _ post] True by (simp add: posted_or_pushed_def c1_def)
    moreover have "queue_rep (ostore (c1\<lparr>os := w\<rparr>)) ops1 xs" using q1 by (simp add: c1_def)
    ultimately obtain ops' c' where r: "post_deferred_completions A ops1 (c1\<lparr>os := w\<rparr>) = Some (ops', c')"
      "holds held c' (add_mset p M + mset xs) I" "\<forall>x. (ready (c1\<lparr>os := w\<rparr>) x \<longrightarrow> ready c' x) \<and> (ready c' x \<longrightarrow> ready (c1\<lparr>os := w\<rparr>) x \<or> x \<in> set xs)"
      "outstanding_work c' = outstanding_work (c1\<lparr>os := w\<rparr>)"
      using Cons.IH [of "c1\<lparr>os := w\<rparr>" "add_mset p M" ops1] Cons.prems(3,4) p(1) by auto
    have "post_deferred_completions A ops c = Some (ops', c')"
      using r(1) post True by (subst post_deferred_completions.simps) (simp add: front pop c1_def Let_def)
    then show ?thesis using r(2-4) by (intro exI [of _ ops'] exI [of _ c']) (auto simp: c1_def split: if_splits)
  next
    case False
    define c2 where "c2 = c1\<lparr>os := w\<rparr>"
    have h2: "holds held c2 M I"
      using h1 by (rule holds_cong) (use post_keeps [OF A post] False in \<open>simp_all add: c2_def\<close>)
    obtain st2 q where push: "q_push (ostore c2) (completed_ops c2) p = (st2, q)" by fastforce
    obtain st3 q' ops2 where all: "q_push_all st2 q ops1 = (st3, q', ops2)" using prod_cases3 by blast
    let ?c = "c2\<lparr>ostore := st3, completed_ops := q', dispatch_required := True\<rparr>"
    have "queue_rep (ostore c2) ops1 xs" using q1 by (simp add: c2_def c1_def)
    from push_rest_holds [OF h2 this p(1) Cons.prems(3,4) push all]
    have r: "holds held ?c (M + mset (p # xs)) I" "q_front ops2 = None" by auto
    have "post_deferred_completions A ops2 ?c = Some (ops2, ?c)"
      using r(2) by (subst post_deferred_completions.simps) simp
    then have "post_deferred_completions A ops c = Some (ops2, ?c)"
      using post False push all by (subst post_deferred_completions.simps) (simp add: front pop c1_def c2_def Let_def)
    then show ?thesis using r(1) by (intro exI [of _ ops2] exI [of _ ?c]) (simp add: c1_def c2_def)
  qed
qed

section \<open>Timers\<close>

text \<open>What the functions on timers and on the completed queue keep.\<close>

definition same_but_waiting :: "('q, 't, 'o, 'w) io_context \<Rightarrow> ('q, 't, 'o, 'w) io_context \<Rightarrow> 'o set \<Rightarrow> bool" where
  "same_but_waiting c c' I \<longleftrightarrow> outstanding_work c' = outstanding_work c \<and> (\<forall>p. ready c p \<longrightarrow> ready c' p) \<and>
     (\<forall>p \<in> I. ready c' p = ready c p)"

lemma same_but_waiting_trans:
  "same_but_waiting c c1 I \<Longrightarrow> same_but_waiting c1 c' I \<Longrightarrow> same_but_waiting c c' I"
  by (simp add: same_but_waiting_def)

lemma update_timeout_holds:
  assumes "port_keeps A held" and "holds held c M I" and "update_timeout A c = Some c'"
  shows "holds held c' M I \<and> same_but_waiting c c' I"
proof -
  have "c' = c \<or> (\<exists>d. c' = c\<lparr>os := set_timer A d (os c)\<rparr>)"
    using assms(3) by (auto simp: update_timeout_def split: if_splits)
  then show ?thesis
    using assms(2) holds_cong [OF assms(2), of c'] set_timer_keeps [OF assms(1)]
    by (auto simp: same_but_waiting_def)
qed

lemma waiting_union:
  assumes "distinct qs" and "\<forall>q \<in> set qs. finite (V q)"
    and "\<And>q r. q \<in> set qs \<Longrightarrow> r \<in> set qs \<Longrightarrow> q \<noteq> r \<Longrightarrow> V q \<inter> V r = {}"
  shows "waiting qs V = mset_set (\<Union>q \<in> set qs. V q)"
  using assms
proof (induction qs)
  case (Cons q qs)
  have "V q \<inter> (\<Union>r \<in> set qs. V r) = {}" using Cons.prems(1,3) by fastforce
  then have "mset_set (V q \<union> (\<Union>r \<in> set qs. V r)) = mset_set (V q) + mset_set (\<Union>r \<in> set qs. V r)"
    using Cons.prems(2) by (intro mset_set_Union) auto
  moreover have "waiting qs V = mset_set (\<Union>r \<in> set qs. V r)" using Cons by simp
  ultimately show ?case by simp
qed simp

lemma once_waiting:
  assumes "once (waiting qs W)" and "distinct qs" and "\<forall>q \<in> set qs. finite (W q)"
    and "q \<in> set qs" "r \<in> set qs" "q \<noteq> r"
  shows "W q \<inter> W r = {}"
  using assms
proof (induction qs)
  case (Cons x qs)
  have o: "once (waiting qs W)" "set_mset (mset_set (W x)) \<inter> set_mset (waiting qs W) = {}"
    using once_parts [of "mset_set (W x)" "waiting qs W"] Cons.prems(1) by simp_all
  have "W x \<inter> (\<Union>y \<in> set qs. W y) = {}"
    using o(2) set_waiting [of qs W] Cons.prems(3) by simp
  then show ?case using Cons o(1) by auto
qed simp

lemma take_all_parts:
  assumes "parts_of held c cs qs W I" and "q_push_all (ostore c) q_new (completed_ops c) = (st, ops, cq)"
  shows "parts_of held (c\<lparr>ostore := st, completed_ops := cq\<rparr>) [] qs W I \<and> queue_rep st ops cs"
proof -
  have rep: "queue_rep (ostore c) (completed_ops c) cs" using assms(1) by (simp add: parts_of_def)
  have r: "queue_rep st ops cs" "queue_rep st cq []"
    using opq.push_all [OF opq.new rep _ assms(2)] by simp_all
  have t: "only_touches (set cs) (ostore c) st" using push_all_touches [OF opq.new rep assms(2)] by simp
  have w: "timers_wait st (tqs c q) (W q)" if "q \<in> set qs" for q
  proof (rule timers_wait_frame [OF _ t])
    show "timers_wait (ostore c) (tqs c q) (W q)" using assms(1) that by (simp add: parts_of_def)
    show "set cs \<inter> W q = {}" using that holds_parts(2) [OF assms(1)] by blast
  qed
  have "once (held (os c) + waiting qs W)"
    using once_parts [of "held (os c) + waiting qs W" "mset cs"] assms(1) by (simp add: parts_of_def ac_simps)
  then show ?thesis using assms(1) r w by (auto simp: parts_of_def)
qed

lemma dispatch_holds:
  assumes A: "port_keeps A held" and "holds held c M I"
  shows "\<exists>c1. dispatch A c = update_timeout A c1 \<and> holds held c1 M I \<and> same_but_waiting c c1 I"
proof -
  obtain cs qs W where pa: "parts_of held c cs qs W I" and M: "M = held (os c) + mset cs + waiting qs W"
    using assms(2) by (auto simp: holds_def)
  obtain st ops cq where push: "q_push_all (ostore c) q_new (completed_ops c) = (st, ops, cq)"
    using prod_cases3 by blast
  define c1 where "c1 = c\<lparr>ostore := st, completed_ops := cq\<rparr>"
  have p1: "parts_of held c1 [] qs W I" and ops: "queue_rep st ops cs"
    using take_all_parts [OF pa push] by (auto simp: c1_def)
  have ts: "ts_rep (timer_queues c1) qs" "distinct qs" and fin: "\<forall>q \<in> set qs. finite (W q)"
    and wait: "\<And>q. q \<in> set qs \<Longrightarrow> timers_wait st (tqs c1 q) (W q)"
    using p1 by (auto simp: parts_of_def ts_rep_def c1_def)
  have o: "once M" using holds_once [OF assms(2)] .
  have dj: "W q \<inter> W r = {}" if "q \<in> set qs" "r \<in> set qs" "q \<noteq> r" for q r
    using once_waiting [OF _ ts(2) fin that] once_parts [of "held (os c) + mset cs" "waiting qs W"] o by (simp add: M)
  have csW: "set cs \<inter> W q = {}" if "q \<in> set qs" for q using that holds_parts(2) [OF pa] by blast
  let ?now = "\<lambda>q. clock A q (os c1)"
  have "ready.collected qs st (tqs c1) W ops cs
      (ts_collect (get_at (take_ready ?now)) (timer_queues c1) (ts_first (timer_queues c1)) (st, tqs c1, ops))"
    by (rule ready.collect [OF ts(1) wait dj ops csW])
  then obtain st' X' ops' xs V where col:
    "ts_collect (get_at (take_ready ?now)) (timer_queues c1) (ts_first (timer_queues c1)) (st, tqs c1, ops) = Some (st', X', ops')"
    "queue_rep st' ops' (cs @ xs)" "set xs = (\<Union>q \<in> set qs. V q)"
    "\<forall>q \<in> set qs. V q \<subseteq> W q \<and> (False \<longrightarrow> V q = W q) \<and> timers_wait st' (X' q) (W q - V q)"
    "only_touches (set cs \<union> (\<Union>q \<in> set qs. W q)) st st'"
    unfolding ready.collected_def by (elim exE conjE) (rule that)
  define c2 where "c2 = c1\<lparr>ostore := st', tqs := X'\<rparr>"
  let ?M = "held (os c) + waiting qs (\<lambda>q. W q - V q)"
  have sub: "\<And>q. q \<in> set qs \<Longrightarrow> finite (W q) \<and> V q \<subseteq> W q" using fin col(4) by blast
  have "waiting qs V = mset_set (set xs)"
    unfolding col(3)
  proof (rule waiting_union [OF ts(2)])
    show "\<forall>q \<in> set qs. finite (V q)" using sub by (meson finite_subset)
    show "V q \<inter> V r = {}" if "q \<in> set qs" "r \<in> set qs" "q \<noteq> r" for q r
      using dj [OF that] sub [OF that(1)] sub [OF that(2)] by blast
  qed
  also have "\<dots> = mset xs" using opq.distinct [OF col(2)] by (simp add: mset_set_set)
  finally have "waiting qs V = mset xs" .
  moreover have "waiting qs W = waiting qs (\<lambda>q. W q - V q) + waiting qs V" by (rule waiting_diff [OF sub])
  ultimately have parts: "M = ?M + mset (cs @ xs)" by (simp add: M ac_simps)
  then have o2: "once ?M" "set (cs @ xs) \<inter> set_mset ?M = {}" using o once_plus [of ?M "cs @ xs"] by auto
  have "queue_rep st' cq []"
    using only_touchesD [OF col(5), of cq "[]"] p1 by (simp add: parts_of_def c1_def)
  then have "parts_of held c2 [] qs (\<lambda>q. W q - V q) I"
    using p1 col(4) o2(1) by (auto simp: parts_of_def c2_def c1_def)
  from holdsI [OF this] have h2: "holds held c2 ?M I" by (simp add: c2_def c1_def)
  have "(set cs \<union> (\<Union>q \<in> set qs. W q)) \<inter> I = {}" using pa by (simp add: parts_of_def)
  moreover have "(\<Union>q \<in> set qs. V q) \<subseteq> (\<Union>q \<in> set qs. W q)" using sub by blast
  ultimately have I: "set (cs @ xs) \<inter> I = {}" unfolding set_append col(3) by blast
  have "queue_rep (ostore c2) ops' (cs @ xs)" using col(2) by (simp add: c2_def)
  from post_all_holds [OF A h2 this o2(2) I] obtain ops'' c3 where
    r: "post_deferred_completions A ops' c2 = Some (ops'', c3)" "holds held c3 M I"
      "\<forall>p. (ready c2 p \<longrightarrow> ready c3 p) \<and> (ready c3 p \<longrightarrow> ready c2 p \<or> p \<in> set (cs @ xs))"
      "outstanding_work c3 = outstanding_work c2"
    unfolding parts [symmetric] by blast
  have "dispatch A c = update_timeout A c3"
    using col(1) r(1) by (simp add: dispatch_def push c1_def c2_def Let_def)
  moreover have "same_but_waiting c c3 I"
    using r(3,4) I by (auto simp: same_but_waiting_def c2_def c1_def)
  ultimately show ?thesis using r(2) by blast
qed

text \<open>\<open>q\<close> is one of the context's timer queues.\<close>

definition has_queue :: "('q, 't, 'o, 'w) io_context \<Rightarrow> 'q \<Rightarrow> bool" where
  "has_queue c q \<longleftrightarrow> (\<exists>qs. ts_rep (timer_queues c) qs \<and> q \<in> set qs)"

lemma ts_rep_unique: "ts_rep s qs \<Longrightarrow> ts_rep s rs \<Longrightarrow> qs = rs"
  by (auto simp: ts_rep_def dest: linked_unique)

lemma has_queueD: "has_queue c q \<Longrightarrow> parts_of held c cs qs W I \<Longrightarrow> q \<in> set qs"
  unfolding has_queue_def parts_of_def using ts_rep_unique by blast

text \<open>One timer queue has changed, and with it the operations \<open>V\<close> that wait in it.\<close>

lemma timer_queue_changed:
  assumes pa: "parts_of held c cs qs W I" and q: "q \<in> set qs" and x: "timers_wait (tstore x) x V" "finite V"
    and t: "only_touches S (ostore c) (tstore x)" and S: "S \<inter> set cs = {}" "\<And>r. r \<in> set qs \<Longrightarrow> r \<noteq> q \<Longrightarrow> S \<inter> W r = {}"
    and o: "once (held (os c) + mset cs + waiting qs (W(q := V)))" and I: "V \<inter> I = {}"
  shows "parts_of held (set_timer_queue q x c) cs qs (W(q := V)) I"
proof -
  have r: "queue_rep (tstore x) (completed_ops c) cs"
    using only_touchesD [OF t] pa S(1) by (simp add: parts_of_def Int_commute)
  have "timers_wait (tstore x) (tqs c r) (W r)" if "r \<in> set qs" "r \<noteq> q" for r
    by (rule timers_wait_frame [OF _ t S(2) [OF that]]) (use pa that in \<open>simp add: parts_of_def\<close>)
  then have "\<forall>r \<in> set qs. timers_wait (tstore x) (((tqs c)(q := x)) r) ((W(q := V)) r)"
    using x(1) by simp
  moreover have "\<forall>r \<in> set qs. finite ((W(q := V)) r)" using pa x(2) by (simp add: parts_of_def)
  moreover have "(set cs \<union> (\<Union>r \<in> set qs. (W(q := V)) r)) \<inter> I = {}"
    using pa I unfolding parts_of_def by (auto split: if_splits)
  ultimately show ?thesis
    using pa o r unfolding parts_of_def set_timer_queue_def by simp
qed

lemma schedule_holds:
  assumes A: "port_keeps A held" and h: "holds held c M I" and "has_queue c q" and p: "p \<notin># M" "p \<notin> I"
    and s: "schedule_timer A q time t p c = Some c'"
  shows "holds held c' (add_mset p M) I \<and> outstanding_work c' = outstanding_work c + 1 \<and>
    (\<forall>x. x \<noteq> p \<longrightarrow> ready c x \<longrightarrow> ready c' x) \<and> (\<forall>x \<in> I. ready c' x = ready c x)"
proof (cases "shutdown_set c")
  case True
  have "holds held (work_started c) M I" using h by (rule holds_cong) (simp_all add: work_started_def)
  from post_deferred_completion_holds [OF A this p] True s p(2) show ?thesis
    by (auto simp: schedule_timer_def post_immediate_completion_def work_started_def)
next
  case False
  obtain cs qs W where pa: "parts_of held c cs qs W I" and M: "M = held (os c) + mset cs + waiting qs W"
    using h by (auto simp: holds_def)
  have q: "q \<in> set qs" using has_queueD [OF assms(3) pa] .
  obtain earliest x where e: "enqueue_timer time t p (timer_queue_at c q) = (earliest, x)" by fastforce
  have w: "timers_wait (ostore c) (tqs c q) (W q)" "finite (W q)" and ts: "distinct qs" and fin: "\<forall>q \<in> set qs. finite (W q)"
    using pa q by (auto simp: parts_of_def ts_rep_def)
  have pW: "p \<notin> set cs" "\<And>r. r \<in> set qs \<Longrightarrow> p \<notin> W r"
    using p(1) unfolding M holds_parts(1) [OF pa] by auto
  note x = enqueue_waits [OF w(1) pW(2) [OF q] e [unfolded timer_queue_at_def]]
  have ins: "waiting qs (W(q := insert p (W q))) = add_mset p (waiting qs W)"
    using waiting_upd [OF ts q, of "W(q := insert p (W q))" W] w(2) pW(2) [OF q] by simp
  have o: "once (held (os c) + mset cs + waiting qs (W(q := insert p (W q))))"
    using holds_once [OF h] p(1) unfolding ins by (simp add: once_add M)
  have S: "insert p (W q) \<inter> set cs = {}" "\<And>r. r \<in> set qs \<Longrightarrow> r \<noteq> q \<Longrightarrow> insert p (W q) \<inter> W r = {}"
  proof -
    show "insert p (W q) \<inter> set cs = {}" using pW(1) holds_parts(2) [OF pa] q by blast
    have ow: "once (waiting qs W)" using holds_once [OF h] once_parts [of "held (os c) + mset cs" "waiting qs W"] by (simp add: M)
    show "insert p (W q) \<inter> W r = {}" if "r \<in> set qs" "r \<noteq> q" for r
      using once_waiting [OF ow ts fin q that(1)] that pW(2) [OF that(1)] by auto
  qed
  let ?c = "work_started (set_timer_queue q x c)"
  have "insert p (W q) \<inter> I = {}" using pa q p(2) unfolding parts_of_def by blast
  from timer_queue_changed [OF pa q conjunct1 [OF x] _ conjunct2 [OF x] S o this] w(2)
  have "parts_of held (set_timer_queue q x c) cs qs (W(q := insert p (W q))) I" by simp
  from holdsI [OF this] have "holds held (set_timer_queue q x c) (add_mset p M) I"
    by (simp add: ins M set_timer_queue_def)
  then have h': "holds held ?c (add_mset p M) I" by (rule holds_cong) (simp_all add: work_started_def)
  have f: "outstanding_work ?c = outstanding_work c + 1" "ready ?c = ready c"
    by (simp_all add: work_started_def set_timer_queue_def)
  show ?thesis
  proof (cases earliest)
    case True
    then have "update_timeout A ?c = Some c'" using s False e by (simp add: schedule_timer_def)
    from update_timeout_holds [OF A h' this] f show ?thesis by (auto simp: same_but_waiting_def)
  next
    case False
    then have "c' = ?c" using s \<open>\<not> shutdown_set c\<close> e by (simp add: schedule_timer_def)
    then show ?thesis using h' f by simp
  qed
qed

end
