(* ===== verification/AsioIocpLife.thy ===== *)
theory AsioIocpLife
  imports AsioIocpOps
begin

text \<open>
  The rest of the event loop's functions and the operations that wait in it: cancelling timers,
  adding and removing timer queues, stopping, and \<open>shutdown\<close>, which destroys every operation once.
\<close>

section \<open>Cancelling\<close>

lemma same_but_waiting_refl [simp]: "same_but_waiting c c I"
  by (simp add: same_but_waiting_def)

lemma dispatch_keeps:
  assumes A: "port_keeps A held" and "holds held c M I" and "dispatch A c = Some c'"
  shows "holds held c' M I \<and> same_but_waiting c c' I"
proof -
  obtain c1 where c1: "dispatch A c = update_timeout A c1" "holds held c1 M I" "same_but_waiting c c1 I"
    using dispatch_holds [OF A assms(2)] by blast
  with update_timeout_holds [OF A c1(2), of c'] assms(3) show ?thesis using same_but_waiting_trans by auto
qed

lemma cancel_holds:
  assumes A: "port_keeps A held" and h: "holds held c M I" and "has_queue c q"
  shows "\<exists>n c'. cancel_timer_ops A q t mx c = Some (n, c') \<and> holds held c' M I \<and> same_but_waiting c c' I"
proof (cases "shutdown_set c")
  case True
  then show ?thesis using h by (simp add: cancel_timer_ops_def)
next
  case False
  obtain cs qs W where pa: "parts_of held c cs qs W I" and M: "M = held (os c) + mset cs + waiting qs W"
    using h by (auto simp: holds_def)
  have q: "q \<in> set qs" using has_queueD [OF assms(3) pa] .
  have w: "timers_wait (ostore c) (tqs c q) (W q)" "finite (W q)" "distinct qs" "\<forall>q \<in> set qs. finite (W q)"
    and I: "(set cs \<union> (\<Union>q \<in> set qs. W q)) \<inter> I = {}"
    using pa q by (auto simp: parts_of_def ts_rep_def)
  obtain n x ops xs where ca: "cancel_timer t mx (timer_queue_at c q) q_new = Some (n, x, ops)"
    "queue_rep (tstore x) ops xs" "set xs \<subseteq> W q" "timers_wait (tstore x) x (W q - set xs)"
    "only_touches (W q) (ostore c) (tstore x)"
    using cancel_waits [OF w(1) opq.new, of t mx] by (auto simp: timer_queue_at_def)
  let ?V = "W q - set xs"
  let ?M = "held (os c) + mset cs + waiting qs (W(q := ?V))"
  have "waiting qs (W(q := ?V)) + mset_set (W q) = waiting qs W + mset_set ?V"
    using waiting_upd [OF w(3) q, of "W(q := ?V)" W] by simp
  moreover have "mset_set (W q) = mset_set ?V + mset xs"
  proof -
    have "mset_set (?V \<union> set xs) = mset_set ?V + mset_set (set xs)" using w(2) by (intro mset_set_Union) auto
    moreover have "?V \<union> set xs = W q" using ca(3) by blast
    ultimately show ?thesis using opq.distinct [OF ca(2)] by (simp add: mset_set_set)
  qed
  ultimately have "waiting qs W = waiting qs (W(q := ?V)) + mset xs" by simp
  then have parts: "M = ?M + mset xs" by (simp add: M ac_simps)
  then have o: "once ?M" "set xs \<inter> set_mset ?M = {}" using holds_once [OF h] once_plus [of ?M xs] by auto
  have S: "W q \<inter> set cs = {}" "\<And>r. r \<in> set qs \<Longrightarrow> r \<noteq> q \<Longrightarrow> W q \<inter> W r = {}"
  proof -
    show "W q \<inter> set cs = {}" using holds_parts(2) [OF pa] q by blast
    have "once (waiting qs W)" using holds_once [OF h] once_parts [of "held (os c) + mset cs" "waiting qs W"] by (simp add: M)
    then show "W q \<inter> W r = {}" if "r \<in> set qs" "r \<noteq> q" for r
      using once_waiting [OF _ w(3,4) q that(1)] that(2) by simp
  qed
  have VI: "?V \<inter> I = {}" "set xs \<inter> I = {}" using I q ca(3) by blast+
  have "parts_of held (set_timer_queue q x c) cs qs (W(q := ?V)) I"
    by (rule timer_queue_changed [OF pa q ca(4) _ ca(5) S o(1) VI(1)]) (simp add: w(2))
  from holdsI [OF this] have h1: "holds held (set_timer_queue q x c) ?M I" by (simp add: set_timer_queue_def)
  have "queue_rep (ostore (set_timer_queue q x c)) ops xs" using ca(2) by (simp add: set_timer_queue_def)
  from post_all_holds [OF A h1 this o(2) VI(2)] obtain ops' c' where
    r: "post_deferred_completions A ops (set_timer_queue q x c) = Some (ops', c')" "holds held c' M I"
      "\<forall>p. (ready (set_timer_queue q x c) p \<longrightarrow> ready c' p) \<and> (ready c' p \<longrightarrow> ready (set_timer_queue q x c) p \<or> p \<in> set xs)"
      "outstanding_work c' = outstanding_work (set_timer_queue q x c)"
    unfolding parts [symmetric] by blast
  have "cancel_timer_ops A q t mx c = Some (n, c')" using False ca(1) r(1) by (simp add: cancel_timer_ops_def)
  moreover have "same_but_waiting c c' I"
    using r(3,4) VI(2) by (auto simp: same_but_waiting_def set_timer_queue_def)
  ultimately show ?thesis using r(2) by blast
qed

section \<open>Timer queues come and go\<close>

lemma add_queue_holds:
  assumes A: "port_keeps A held" and h: "holds held c M I" and "\<not> has_queue c q" and w: "timers_wait (ostore c) (tqs c q) {}"
    and "do_add_timer_queue A q c = (r, c')"
  shows "holds held c' M I \<and> same_but_waiting c c' I \<and> has_queue c' q"
proof -
  obtain cs qs W where pa: "parts_of held c cs qs W I" and M: "M = held (os c) + mset cs + waiting qs W"
    using h by (auto simp: holds_def)
  have ts: "ts_rep (timer_queues c) qs" "q \<notin> set qs" using pa assms(3) by (auto simp: parts_of_def has_queue_def)
  let ?W = "W(q := {})" and ?c = "c\<lparr>timer_queues := ts_insert q (timer_queues c)\<rparr>"
  have "waiting qs ?W = waiting qs W" by (rule waiting_cong) (use ts(2) in auto)
  then have eq: "waiting (q # qs) ?W = waiting qs W" by simp
  have rep: "ts_rep (timer_queues ?c) (q # qs)" using ts_insert_rep [OF ts] by simp
  have "(\<Union>r \<in> set (q # qs). ?W r) = (\<Union>r \<in> set qs. W r)" using ts(2) by auto
  moreover have "timers_wait (ostore c) (tqs c r) (?W r) \<and> finite (?W r)" if "r \<in> set (q # qs)" for r
    using that pa w by (auto simp: parts_of_def)
  ultimately have "parts_of held ?c cs (q # qs) ?W I"
    using pa rep eq unfolding parts_of_def by simp
  from holdsI [OF this] have hc: "holds held ?c M I" using eq by (simp add: M)
  have os: "held (os c') = held (os c)" and same: "ostore c' = ostore c" "completed_ops c' = completed_ops c"
    "timer_queues c' = timer_queues ?c" "tqs c' = tqs c" "ready c' = ready c" "outstanding_work c' = outstanding_work c"
    using assms(5) create_timer_keeps [OF A] set_timer_keeps [OF A]
    by (auto simp: do_add_timer_queue_def Let_def throw_error_def split: prod.splits if_splits sum.splits)
  show ?thesis
    using holds_cong [OF hc, of c'] os same rep by (auto simp: same_but_waiting_def has_queue_def)
qed

lemma other_timers_holds:
  assumes "holds held c M I" and "\<not> has_queue c q"
  shows "holds held (c\<lparr>tqs := (tqs c)(q := x)\<rparr>) M I"
proof -
  obtain cs qs W where pa: "parts_of held c cs qs W I" and M: "M = held (os c) + mset cs + waiting qs W"
    using assms(1) by (auto simp: holds_def)
  have "q \<notin> set qs" using pa assms(2) by (auto simp: parts_of_def has_queue_def)
  then have "\<forall>r \<in> set qs. ((tqs c)(q := x)) r = tqs c r" by auto
  then have "parts_of held (c\<lparr>tqs := (tqs c)(q := x)\<rparr>) cs qs W I" using pa unfolding parts_of_def by simp
  from holdsI [OF this] show ?thesis by (simp add: M)
qed

lemma remove_queue_holds:
  assumes h: "holds held c M I" and "tq_empty (tqs c q)"
  shows "\<exists>c'. do_remove_timer_queue q c = Some c' \<and> holds held c' M I \<and> same_but_waiting c c' I \<and> \<not> has_queue c' q"
proof -
  obtain cs qs W where pa: "parts_of held c cs qs W I" and M: "M = held (os c) + mset cs + waiting qs W"
    using h by (auto simp: holds_def)
  have ts: "ts_rep (timer_queues c) qs" "distinct qs" using pa by (auto simp: parts_of_def ts_rep_def)
  obtain s where s: "ts_erase q (timer_queues c) = Some s" "ts_rep s (remove1 q qs)"
    using ts_erase_rep [OF ts(1)] by blast
  have empty: "W q = {}" if "q \<in> set qs"
    using that pa assms(2) timers_empty_iff [of "ostore c" "tqs c q" "W q"] by (simp add: parts_of_def)
  have "waiting qs W = waiting (remove1 q qs) W"
    using empty by (cases "q \<in> set qs") (simp_all add: waiting_remove remove1_idem)
  moreover have "(\<Union>r \<in> set (remove1 q qs). W r) \<subseteq> (\<Union>r \<in> set qs. W r)"
    using set_remove1_subset by fastforce
  ultimately have "parts_of held (c\<lparr>timer_queues := s\<rparr>) cs (remove1 q qs) W I"
    using pa s(2) ts(2) unfolding parts_of_def by auto
  from holdsI [OF this] have "holds held (c\<lparr>timer_queues := s\<rparr>) M I"
    using \<open>waiting qs W = _\<close> by (simp add: M)
  moreover have "\<not> has_queue (c\<lparr>timer_queues := s\<rparr>) q"
    using s(2) ts(2) ts_rep_unique [of s] by (fastforce simp: has_queue_def)
  ultimately show ?thesis using s(1) by (simp add: do_remove_timer_queue_def same_but_waiting_def)
qed

section \<open>Work and stopping\<close>

lemma stop_holds:
  assumes A: "port_keeps A held" and h: "holds held c M I" and "stop A c = (r, c')"
  shows "holds held c' M I \<and> same_but_waiting c c' I"
proof -
  have "held (os c') = held (os c)" "ostore c' = ostore c" "completed_ops c' = completed_ops c"
    "timer_queues c' = timer_queues c" "tqs c' = tqs c" "ready c' = ready c" "outstanding_work c' = outstanding_work c"
    using assms(3) post_keeps [OF A]
    by (auto simp: stop_def Let_def throw_error_def split: prod.splits if_splits)
  then show ?thesis using holds_cong [OF h, of c'] by (simp add: same_but_waiting_def)
qed

lemma work_finished_holds:
  assumes A: "port_keeps A held" and h: "holds held c M I" and "work_finished A c = (r, c')"
  shows "holds held c' M I \<and> outstanding_work c' = outstanding_work c - 1 \<and>
    (\<forall>p. ready c p \<longrightarrow> ready c' p) \<and> (\<forall>p \<in> I. ready c' p = ready c p)"
proof -
  let ?c = "c\<lparr>outstanding_work := outstanding_work c - 1\<rparr>"
  have "holds held ?c M I" using h by (rule holds_cong) simp_all
  with stop_holds [OF A this, of r c'] assms(3) show ?thesis
    by (auto simp: work_finished_def Let_def same_but_waiting_def split: if_splits)
qed

lemma timer_fired_holds:
  assumes A: "port_keeps A held" and h: "holds held c M I"
  shows "holds held (timer_fired A c) M I \<and> same_but_waiting c (timer_fired A c) I"
proof -
  obtain ok e w where post: "post_status A 0 wake_for_dispatch None (os c) = (ok, e, w)"
    by (cases "post_status A 0 wake_for_dispatch None (os c)")
  have "holds held (timer_fired A c) M I"
    using h by (rule holds_cong) (use post post_keeps [OF A post] in \<open>simp_all add: timer_fired_def\<close>)
  then show ?thesis by (simp add: same_but_waiting_def timer_fired_def split: prod.split)
qed

section \<open>Shutting down\<close>

lemma parts_of_destroyed:
  "parts_of held (c\<lparr>ostore := op_destroy p (ostore c)\<rparr>) cs qs W I = parts_of held c cs qs W I"
  by (simp add: parts_of_def timers_wait_destroyed)

lemma holds_destroyed: "holds held (c\<lparr>ostore := op_destroy p (ostore c)\<rparr>) M I = holds held c M I"
  by (simp add: holds_def parts_of_destroyed)

lemma abandon_holds:
  assumes "holds held c M I" and "queue_rep (ostore c) ops xs" and "set xs \<inter> set_mset M = {}"
  shows "\<exists>ops' c'. abandon_operations ops c = Some (ops', c') \<and> holds held c' M I \<and>
    destroyed (ostore c') = destroyed (ostore c) @ xs \<and> outstanding_work c' = outstanding_work c - int (length xs)"
  using assms
proof (induction xs arbitrary: c ops)
  case Nil
  then show ?case by (subst abandon_operations.simps) (simp add: opq.front)
next
  case (Cons p xs)
  obtain st ops1 where pop: "q_pop (ostore c) ops = (st, ops1)" by fastforce
  have q1: "queue_rep st ops1 xs" using opq.pop [OF Cons.prems(2) pop] by simp
  have t: "only_touches (set (p # xs)) (ostore c) st"
    by (rule only_touchesI [OF pop_keeps [OF pop]], rule opq.pop_others [OF Cons.prems(2) pop]) auto
  let ?s = "c\<lparr>ostore := st\<rparr>"
  let ?c = "c\<lparr>ostore := op_destroy p st, outstanding_work := outstanding_work c - 1\<rparr>"
  have "holds held (?s\<lparr>ostore := op_destroy p (ostore ?s)\<rparr>) M I"
    using holds_store [OF Cons.prems(1) t Cons.prems(3)] by (simp only: holds_destroyed)
  then have "holds held ?c M I" by (rule holds_cong) simp_all
  moreover have "queue_rep (ostore ?c) ops1 xs" using q1 by simp
  ultimately obtain ops' c' where r: "abandon_operations ops1 ?c = Some (ops', c')" "holds held c' M I"
    "destroyed (ostore c') = destroyed (ostore ?c) @ xs" "outstanding_work c' = outstanding_work ?c - int (length xs)"
    using Cons.IH [of ?c ops1] Cons.prems(3) by auto
  have "abandon_operations ops c = Some (ops', c')"
    using r(1) opq.front [OF Cons.prems(2)] by (subst abandon_operations.simps) (simp add: pop)
  moreover have "destroyed st = destroyed (ostore c)" using pop_keeps [OF pop] by simp
  ultimately show ?case using r(2-4) by (simp add: op_destroy_def)
qed

text \<open>The port gives its operations in the end: other packets do not come for ever.\<close>

definition port_delivers ::
  "('q, 'o, 'w) iocp_api \<Rightarrow> ('w \<Rightarrow> 'o multiset) \<Rightarrow> ('w \<Rightarrow> nat) \<Rightarrow> bool" where
  "port_delivers A held rank \<longleftrightarrow> (\<forall>m w. held w \<noteq> {#} \<longrightarrow>
     g_overlapped (fst (get_status A m w)) \<noteq> None \<or> rank (snd (get_status A m w)) < rank w)"

text \<open>All that waits in timers and in the completed queue is collected at the start of a round.\<close>

lemma shutdown_collects:
  assumes "holds held c M {}"
  shows "\<exists>st X ops st1 ops1 cq xs.
    ts_collect (get_at take_all) (timer_queues c) (ts_first (timer_queues c)) (ostore c, tqs c, q_new) = Some (st, X, ops) \<and>
    q_push_all st ops (completed_ops c) = (st1, ops1, cq) \<and> queue_rep st1 ops1 xs \<and> M = held (os c) + mset xs \<and>
    destroyed st1 = destroyed (ostore c) \<and>
    holds held (c\<lparr>ostore := st1, tqs := X, completed_ops := cq\<rparr>) (held (os c)) {}"
proof -
  obtain cs qs W where pa: "parts_of held c cs qs W {}" and M: "M = held (os c) + mset cs + waiting qs W"
    using assms by (auto simp: holds_def)
  have ts: "ts_rep (timer_queues c) qs" "distinct qs" and fin: "\<forall>q \<in> set qs. finite (W q)"
    and wait: "\<And>q. q \<in> set qs \<Longrightarrow> timers_wait (ostore c) (tqs c q) (W q)" and rep: "queue_rep (ostore c) (completed_ops c) cs"
    and o: "once (held (os c) + mset cs + waiting qs W)"
    using pa by (auto simp: parts_of_def ts_rep_def)
  have dj: "W q \<inter> W r = {}" if "q \<in> set qs" "r \<in> set qs" "q \<noteq> r" for q r
    using once_waiting [OF _ ts(2) fin that] once_parts [OF o] by simp
  have "all.collected qs (ostore c) (tqs c) W q_new []
      (ts_collect (get_at take_all) (timer_queues c) (ts_first (timer_queues c)) (ostore c, tqs c, q_new))"
    by (rule all.collect [OF ts(1) wait dj opq.new]) simp_all
  then obtain st X ops xs V where col:
    "ts_collect (get_at take_all) (timer_queues c) (ts_first (timer_queues c)) (ostore c, tqs c, q_new) = Some (st, X, ops)"
    "queue_rep st ops ([] @ xs)" "set xs = (\<Union>q \<in> set qs. V q)"
    "\<forall>q \<in> set qs. V q \<subseteq> W q \<and> (True \<longrightarrow> V q = W q) \<and> timers_wait st (X q) (W q - V q)"
    "only_touches (set [] \<union> (\<Union>q \<in> set qs. W q)) (ostore c) st"
    unfolding all.collected_def by (elim exE conjE) (rule that)
  have V: "V q = W q" if "q \<in> set qs" for q using col(4) that by blast
  have xs: "set xs = (\<Union>q \<in> set qs. W q)" using col(3) V by simp
  have "waiting qs W = mset_set (set xs)" unfolding xs by (rule waiting_union [OF ts(2) fin dj])
  also have "\<dots> = mset xs" using opq.distinct [OF col(2)] by (simp add: mset_set_set)
  finally have wx: "waiting qs W = mset xs" .
  have dcx: "set cs \<inter> set xs = {}" using holds_parts(2) [OF pa] xs by simp
  have rep': "queue_rep st (completed_ops c) cs"
    using only_touchesD [OF col(5) rep] dcx xs by simp
  obtain st1 ops1 cq where push: "q_push_all st ops (completed_ops c) = (st1, ops1, cq)" using prod_cases3 by blast
  have r: "queue_rep st1 ops1 (xs @ cs)" "queue_rep st1 cq []"
    using opq.push_all [OF _ rep' _ push, of xs] col(2) dcx by auto
  have t: "only_touches (set cs \<union> set xs) st st1" using push_all_touches [OF _ rep' push, of xs] col(2) by simp
  have w: "timers_wait st1 (X q) {}" if "q \<in> set qs" for q
    by (rule timers_wait_frame [OF _ t]) (use col(4) V that in \<open>simp_all\<close>)
  have "parts_of held (c\<lparr>ostore := st1, tqs := X, completed_ops := cq\<rparr>) [] qs (\<lambda>_. {}) {}"
    using pa r(2) w once_parts [of "held (os c)" "mset cs + waiting qs W"] o
    by (simp add: parts_of_def waiting_empty ac_simps)
  from holdsI [OF this] have "holds held (c\<lparr>ostore := st1, tqs := X, completed_ops := cq\<rparr>) (held (os c)) {}"
    by (simp add: waiting_empty)
  moreover have "destroyed st1 = destroyed (ostore c)"
    using t col(5) by (simp add: only_touches_def)
  moreover have "M = held (os c) + mset (xs @ cs)" by (simp add: M wx ac_simps)
  ultimately show ?thesis using col(1) push r(1) by blast
qed

lemma shutdown_loop_ends:
  assumes A: "port_keeps A held" and d: "port_delivers A held rank"
    and "holds held c M {}" and "outstanding_work c = int (size M)"
  shows "\<exists>c'. shutdown_loop A c = Some c' \<and> holds held c' {#} {} \<and> outstanding_work c' = 0 \<and>
    mset (destroyed (ostore c')) = mset (destroyed (ostore c)) + M"
  using assms(3,4)
proof (induction "(size M, rank (os c))" arbitrary: c M rule: wf_induct_rule [OF wf_lex_prod [OF wf_less_than wf_less_than]])
  case 1
  note h = 1(2) and work = 1(3)
  show ?case
  proof (cases "M = {#}")
    case True
    then show ?thesis using h work by (subst shutdown_loop.simps) simp
  next
    case False
    then have pos: "outstanding_work c > 0" using work by (simp add: nonempty_has_size)
    from shutdown_collects [OF h] obtain st X ops st1 ops1 cq xs where
      r: "ts_collect (get_at take_all) (timer_queues c) (ts_first (timer_queues c)) (ostore c, tqs c, q_new) = Some (st, X, ops)"
        "q_push_all st ops (completed_ops c) = (st1, ops1, cq)" "queue_rep st1 ops1 xs" "M = held (os c) + mset xs"
        "destroyed st1 = destroyed (ostore c)"
        "holds held (c\<lparr>ostore := st1, tqs := X, completed_ops := cq\<rparr>) (held (os c)) {}" by blast
    let ?c = "c\<lparr>ostore := st1, tqs := X, completed_ops := cq\<rparr>"
    show ?thesis
    proof (cases "xs = []")
      case False
      have "once M" using holds_once [OF h] .
      then have "set xs \<inter> set_mset (held (os c)) = {}" using once_plus [of "held (os c)" xs] r(4) by simp
      from abandon_holds [OF r(6) _ this, of ops1] r(3) obtain ops' c1 where
        a: "abandon_operations ops1 ?c = Some (ops', c1)" "holds held c1 (held (os c)) {}"
          "destroyed (ostore c1) = destroyed st1 @ xs" "outstanding_work c1 = outstanding_work c - int (length xs)" by auto
      have "size (held (os c)) < size M" using False r(4) by simp
      with 1(1) [OF _ a(2)] a(4) work r(4) obtain c' where
        c': "shutdown_loop A c1 = Some c'" "holds held c' {#} {}" "outstanding_work c' = 0"
          "mset (destroyed (ostore c')) = mset (destroyed (ostore c1)) + held (os c)" by auto
      have "\<not> q_empty ops1" using False r(3) by (cases xs) (auto simp: q_empty_def queue_rep_def)
      then have "shutdown_loop A c = Some c'"
        using pos r(1,2) a(1) c'(1) by (subst shutdown_loop.simps) simp
      then show ?thesis using c'(2-4) a(3) r(4,5) by simp
    next
      case True
      then have empty: "q_empty ops1" and M: "M = held (os c)" using r(3,4) by (auto simp: q_empty_def queue_rep_def)
      obtain g w where get: "get_status A (gqcs_timeout c) (os c) = (g, w)" by fastforce
      note k = get_keeps [OF A get]
      show ?thesis
      proof (cases "g_overlapped g")
        case None
        let ?n = "?c\<lparr>os := w\<rparr>"
        have "holds held ?n M {}" using r(6) unfolding M by (rule holds_cong) (use k None in simp_all)
        moreover have "rank w < rank (os c)" using d False get None unfolding port_delivers_def M by (metis fst_conv snd_conv)
        ultimately obtain c' where c': "shutdown_loop A ?n = Some c'" "holds held c' {#} {}" "outstanding_work c' = 0"
          "mset (destroyed (ostore c')) = mset (destroyed (ostore ?n)) + M"
          using 1(1) [of M ?n] work by auto
        have "shutdown_loop A c = Some c'"
          using pos r(1,2) empty get None c'(1) by (subst shutdown_loop.simps) simp
        then show ?thesis using c'(2-4) r(5) by simp
      next
        case (Some p)
        let ?n = "?c\<lparr>os := w, outstanding_work := outstanding_work c - 1, ostore := op_destroy p st1\<rparr>"
        have Mw: "M = add_mset p (held w)" using k Some M by simp
        have "holds held (?c\<lparr>os := w\<rparr>) (held w) {}"
        proof -
          obtain cs qs W where pa: "parts_of held ?c cs qs W {}" "held (os c) = held (os ?c) + mset cs + waiting qs W"
            using r(6) unfolding holds_def by blast
          then have e: "cs = []" "waiting qs W = {#}" by simp_all
          have "once (held w)" using holds_once [OF r(6)] Mw M by (simp add: once_add)
          then have "parts_of held (?c\<lparr>os := w\<rparr>) cs qs W {}" using pa(1) Mw M e by (auto simp: parts_of_def)
          from holdsI [OF this] show ?thesis using e by simp
        qed
        then have "holds held (?c\<lparr>os := w, ostore := op_destroy p (ostore (?c\<lparr>os := w\<rparr>))\<rparr>) (held w) {}"
          by (simp only: holds_destroyed)
        then have "holds held ?n (held w) {}" by (rule holds_cong) simp_all
        moreover have "size (held w) < size M" "outstanding_work ?n = int (size (held w))" using Mw work by simp_all
        ultimately obtain c' where c': "shutdown_loop A ?n = Some c'" "holds held c' {#} {}" "outstanding_work c' = 0"
          "mset (destroyed (ostore c')) = mset (destroyed (ostore ?n)) + held w"
          using 1(1) [of "held w" ?n] by auto
        have "shutdown_loop A c = Some c'"
          using pos r(1,2) empty get Some c'(1) by (subst shutdown_loop.simps) simp
        then show ?thesis using c'(2-4) r(5) Mw by (simp add: op_destroy_def)
      qed
    qed
  qed
qed


end
