(* ===== verification/AsioIocpRun.thy ===== *)
theory AsioIocpRun
  imports AsioIocp
begin

text \<open>
  What \<open>run\<close> does for one thread and a completion port that does not run out of resources: the
  operations are completed in the order in which they were posted, those posted by handlers after
  all that were there before, until no work is left; \<open>stop\<close> takes effect behind what is queued.
\<close>

section \<open>A port without failures\<close>

type_synonym 'o packet = "u32 \<times> u32 \<times> 'o option"

text \<open>Packets are queued in order; \<open>log\<close> is the record of completed operations that handlers keep.\<close>

definition port_documented ::
  "('q, 'o, 'w) iocp_api \<Rightarrow> ('w \<Rightarrow> 'o packet list) \<Rightarrow> ('w \<Rightarrow> ('o \<times> error_code \<times> u32) list) \<Rightarrow> bool" where
  "port_documented A queued log \<longleftrightarrow>
     (\<forall>b k p w. case post_status A b k p w of
        (ok, e, w') \<Rightarrow> ok \<and> queued w' = queued w @ [(b, k, p)] \<and> log w' = log w) \<and>
     (\<forall>m w b k p r. queued w = (b, k, p) # r \<longrightarrow>
        (case get_status A m w of (g, w') \<Rightarrow>
           g = \<lparr>g_ok = True, g_bytes = b, g_key = k, g_overlapped = p, g_error = 0\<rparr> \<and> queued w' = r \<and> log w' = log w))"

datatype 'o action = Post 'o | Stop_loop

fun act :: "('q, 'o, 'w) iocp_api \<Rightarrow> 'o action \<Rightarrow> ('q, 't, 'o, 'w) io_context \<Rightarrow> ('q, 't, 'o, 'w) io_context" where
  "act A (Post p) s = post_immediate_completion A p s"
| "act A Stop_loop s = snd (stop A s)"

text \<open>A handler that records its call and then posts operations and stops the loop as \<open>acts\<close> says.\<close>

definition acting ::
  "('q, 'o, 'w) iocp_api \<Rightarrow> ('o \<times> error_code \<times> u32 \<Rightarrow> 'w \<Rightarrow> 'w) \<Rightarrow> ('o \<Rightarrow> 'o action list) \<Rightarrow> ('q, 't, 'o, 'w) handler" where
  "acting A mark acts p ec n s = (None, fold (act A) (acts p) (s\<lparr>os := mark (p, ec, n) (os s)\<rparr>))"

definition keeps_log :: "('w \<Rightarrow> 'o packet list) \<Rightarrow> ('w \<Rightarrow> ('o \<times> error_code \<times> u32) list) \<Rightarrow>
    ('o \<times> error_code \<times> u32 \<Rightarrow> 'w \<Rightarrow> 'w) \<Rightarrow> bool" where
  "keeps_log queued log mark \<longleftrightarrow> (\<forall>x w. queued (mark x w) = queued w \<and> log (mark x w) = log w @ [x])"

definition posted :: "'o action list \<Rightarrow> 'o list" where
  "posted as = concat (map (\<lambda>a. case a of Post p \<Rightarrow> [p] | Stop_loop \<Rightarrow> []) as)"

lemma posted_simps [simp]:
  "posted [] = []" "posted (Post p # as) = p # posted as" "posted (Stop_loop # as) = posted as"
  by (simp_all add: posted_def)

text \<open>The reference: operations are completed in order, new ones go to the end.\<close>

partial_function (option) breadth_first :: "('o \<Rightarrow> 'o list) \<Rightarrow> 'o list \<Rightarrow> 'o list option" where
  "breadth_first next_ops xs =
     (case xs of [] \<Rightarrow> Some []
      | p # ps \<Rightarrow> Option.bind (breadth_first next_ops (ps @ next_ops p)) (\<lambda>ys. Some (p # ys)))"

section \<open>The queue of packets\<close>

definition op_packet :: "'o \<Rightarrow> 'o packet" where "op_packet p = (0, 0, Some p)"
definition stop_packet :: "'o packet" where "stop_packet = (0, 0, None)"

definition packet_ops :: "'o packet list \<Rightarrow> 'o list" where
  "packet_ops ps = concat (map (\<lambda>(_, _, p). case p of None \<Rightarrow> [] | Some p \<Rightarrow> [p]) ps)"

lemma packet_ops_simps [simp]:
  "packet_ops [] = []" "packet_ops (ps @ qs) = packet_ops ps @ packet_ops qs"
  "packet_ops (op_packet p # ps) = p # packet_ops ps" "packet_ops (stop_packet # ps) = packet_ops ps"
  "packet_ops (map op_packet xs) = xs"
  by (simp_all add: packet_ops_def op_packet_def stop_packet_def) (induction xs, simp_all add: op_packet_def)

text \<open>Stop events in the port are counted by \<open>stop_event_posted_\<close>.\<close>

definition queue_inv :: "('w \<Rightarrow> 'o packet list) \<Rightarrow> ('q, 't, 'o, 'w) io_context \<Rightarrow> 'o packet list \<Rightarrow> bool" where
  "queue_inv queued s ps \<longleftrightarrow> queued (os s) = ps \<and> set ps \<subseteq> range op_packet \<union> {stop_packet} \<and>
     (\<forall>p \<in> set (packet_ops ps). ready s p) \<and>
     count_list ps stop_packet = (if stop_event_posted s then 1 else 0) \<and> \<not> dispatch_required s"

lemma packet_simps [simp]: "op_packet p \<noteq> stop_packet" "stop_packet \<noteq> op_packet p"
  by (simp_all add: op_packet_def stop_packet_def)

lemma count_stop [simp]: "count_list (map op_packet xs) stop_packet = 0"
  by (induction xs) simp_all

lemma post_works:
  assumes "port_documented A queued log"
  shows "\<exists>e w'. post_status A b k p w = (True, e, w') \<and> queued w' = queued w @ [(b, k, p)] \<and> log w' = log w"
proof -
  have "case post_status A b k p w of (ok, e, w') \<Rightarrow> ok \<and> queued w' = queued w @ [(b, k, p)] \<and> log w' = log w"
    using conjunct1 [OF assms [unfolded port_documented_def], rule_format] .
  then show ?thesis by (cases "post_status A b k p w") simp
qed

lemma get_works:
  assumes "port_documented A queued log" and "queued w = (b, k, p) # r"
  shows "\<exists>w'. get_status A m w = (\<lparr>g_ok = True, g_bytes = b, g_key = k, g_overlapped = p, g_error = 0\<rparr>, w') \<and>
    queued w' = r \<and> log w' = log w"
proof -
  have "case get_status A m w of (g, w') \<Rightarrow>
      g = \<lparr>g_ok = True, g_bytes = b, g_key = k, g_overlapped = p, g_error = 0\<rparr> \<and> queued w' = r \<and> log w' = log w"
    using conjunct2 [OF assms(1) [unfolded port_documented_def], rule_format, OF assms(2)] .
  then show ?thesis by (cases "get_status A m w") simp
qed

lemma stop_works:
  assumes A: "port_documented A queued log" and inv: "queue_inv queued s ps"
  shows "\<exists>s'. stop A s = (Inr (), s') \<and> stopped s' \<and> outstanding_work s' = outstanding_work s \<and>
    log (os s') = log (os s) \<and>
    queue_inv queued s' (if stopped s \<or> stop_event_posted s then ps else ps @ [stop_packet])"
proof -
  obtain e w' where "post_status A 0 0 None (os s) = (True, e, w')" "queued w' = queued (os s) @ [stop_packet]"
    "log w' = log (os s)"
    using post_works [OF A, of 0 0 None "os s"] by (auto simp: stop_packet_def)
  then show ?thesis
    using inv by (auto simp: stop_def queue_inv_def Let_def)
qed

lemma post_immediate_works:
  fixes p :: 'o
  assumes A: "port_documented A queued log" and inv: "queue_inv queued s ps"
  defines "s' \<equiv> post_immediate_completion A p s"
  shows "queue_inv queued s' (ps @ [op_packet p]) \<and> outstanding_work s' = outstanding_work s + 1 \<and>
    stopped s' = stopped s \<and> stop_event_posted s' = stop_event_posted s \<and> log (os s') = log (os s)"
proof -
  obtain e w' where "post_status A 0 0 (Some p) (os s) = (True, e, w')" "queued w' = queued (os s) @ [op_packet p]"
    "log w' = log (os s)"
    using post_works [OF A, of 0 0 "Some p" "os s"] by (auto simp: op_packet_def)
  then show ?thesis
    using inv
    by (auto simp: s'_def post_immediate_completion_def post_deferred_completion_def work_started_def queue_inv_def
        Let_def)
qed

lemma acts_work:
  assumes A: "port_documented A queued log" and "queue_inv queued s ps"
    and "stopped s \<longrightarrow> stop_event_posted s" and "stopped s \<or> Stop_loop \<notin> set as"
  defines "s' \<equiv> fold (act A) as s"
  shows "queue_inv queued s' (ps @ map op_packet (posted as)) \<and>
    outstanding_work s' = outstanding_work s + int (length (posted as)) \<and>
    stopped s' = stopped s \<and> stop_event_posted s' = stop_event_posted s \<and> log (os s') = log (os s)"
  using assms(2-4) unfolding s'_def
proof (induction as arbitrary: s ps)
  case (Cons a as)
  show ?case
  proof (cases a)
    case (Post p)
    note p = post_immediate_works [OF A Cons.prems(1), of p]
    from Cons.IH [OF conjunct1 [OF p]] p Cons.prems(2,3) Post show ?thesis by auto
  next
    case Stop_loop
    then have st: "stopped s" "stop_event_posted s" using Cons.prems by auto
    then have "act A a s = s" by (simp add: Stop_loop stop_def Let_def)
    with Cons.IH [OF Cons.prems(1)] st Cons.prems(3) Stop_loop show ?thesis by simp
  qed
qed simp

section \<open>One round of the loop\<close>

lemma work_finished_works:
  assumes A: "port_documented A queued log" and inv: "queue_inv queued s ps"
  shows "\<exists>s'. work_finished A s = (Inr (), s') \<and> outstanding_work s' = outstanding_work s - 1 \<and>
    stopped s' = (stopped s \<or> outstanding_work s = 1) \<and> log (os s') = log (os s) \<and>
    queue_inv queued s'
      (if outstanding_work s = 1 \<and> \<not> stopped s \<and> \<not> stop_event_posted s then ps @ [stop_packet] else ps)"
proof -
  let ?s = "s\<lparr>outstanding_work := outstanding_work s - 1\<rparr>"
  have "queue_inv queued ?s ps" using inv by (simp add: queue_inv_def)
  from stop_works [OF A this] this show ?thesis
    by (auto simp: work_finished_def Let_def)
qed

lemma do_one_op:
  assumes A: "port_documented A queued log" and N: "keeps_log queued log mark"
    and inv: "queue_inv queued s (op_packet p # ps)"
    and st: "stopped s \<longrightarrow> stop_event_posted s" "stopped s \<or> Stop_loop \<notin> set (acts p)"
  defines "ps' \<equiv> ps @ map op_packet (posted (acts p))"
    and "k \<equiv> outstanding_work s + int (length (posted (acts p)))"
  shows "\<exists>s'. do_one A (acting A mark acts) msec s = Some (Returned 1 no_error, s') \<and>
    outstanding_work s' = k - 1 \<and> stopped s' = (stopped s \<or> k = 1) \<and>
    log (os s') = log (os s) @ [(p, Ec system_category 0, 0)] \<and>
    queue_inv queued s' (if k = 1 \<and> \<not> stopped s \<and> \<not> stop_event_posted s then ps' @ [stop_packet] else ps')"
proof -
  let ?h = "acting A mark acts"
  obtain w1 where g: "get_status A (if msec < gqcs_timeout s then msec else gqcs_timeout s) (os s) =
      (\<lparr>g_ok = True, g_bytes = 0, g_key = 0, g_overlapped = Some p, g_error = 0\<rparr>, w1)"
    "queued w1 = ps" "log w1 = log (os s)"
    using get_works [OF A, of "os s" 0 0 "Some p" ps] inv by (fastforce simp: queue_inv_def op_packet_def)
  define s1 where "s1 = s\<lparr>os := w1, saved_ec := (saved_ec s)(p := Ec system_category 0),
    saved_bytes := (saved_bytes s)(p := 0), ready := (ready s)(p := True)\<rparr>"
  define s2 where "s2 = s1\<lparr>os := mark (p, Ec system_category 0, 0) w1\<rparr>"
  have r: "ready s p" "\<not> dispatch_required s" using inv by (auto simp: queue_inv_def)
  have i2: "queue_inv queued s2 ps" "log (os s2) = log (os s) @ [(p, Ec system_category 0, 0)]"
    using inv N g(2,3) by (auto simp: queue_inv_def s2_def s1_def keeps_log_def)
  have f2: "stopped s2 = stopped s" "stop_event_posted s2 = stop_event_posted s" "outstanding_work s2 = outstanding_work s"
    by (simp_all add: s2_def s1_def)
  define s3 where "s3 = fold (act A) (acts p) s2"
  have i3: "queue_inv queued s3 ps'" "outstanding_work s3 = k" "stopped s3 = stopped s"
    "stop_event_posted s3 = stop_event_posted s" "log (os s3) = log (os s2)"
    using acts_work [OF A i2(1), of "acts p"] st f2 by (simp_all add: s3_def ps'_def k_def)
  obtain s' where s': "work_finished A s3 = (Inr (), s')" "outstanding_work s' = k - 1"
    "stopped s' = (stopped s \<or> k = 1)" "log (os s') = log (os s2)"
    "queue_inv queued s' (if k = 1 \<and> \<not> stopped s \<and> \<not> stop_event_posted s then ps' @ [stop_packet] else ps')"
    using work_finished_works [OF A i3(1)] i3 by auto
  have "do_one A ?h msec s = do_one_from A ?h msec (Complete p (Ec system_category 0) 0) s1"
    unfolding do_one_def using r g(1)
    by (subst do_one_from.simps, simp, subst do_one_from.simps, simp, subst do_one_from.simps)
      (simp add: after_dequeue_def overlapped_contains_result_def s1_def Let_def)
  also have "\<dots> = Some (Returned 1 no_error, s')"
    using s'(1) by (subst do_one_from.simps, simp add: acting_def, subst do_one_from.simps)
      (simp add: do_one_from.simps s3_def s2_def s1_def)
  finally show ?thesis using s' i2(2) by auto
qed

lemma do_one_stop:
  assumes A: "port_documented A queued log" and inv: "queue_inv queued s (stop_packet # ps)"
  shows "\<exists>s'. do_one A h msec s = (if stopped s then Some (Returned 0 no_error, s') else do_one A h msec s') \<and>
    outstanding_work s' = outstanding_work s \<and> stopped s' = stopped s \<and> log (os s') = log (os s) \<and>
    stop_event_posted s' = stopped s \<and>
    queue_inv queued s' (if stopped s then ps @ [stop_packet] else ps)"
proof -
  obtain w1 where g: "get_status A (if msec < gqcs_timeout s then msec else gqcs_timeout s) (os s) =
      (\<lparr>g_ok = True, g_bytes = 0, g_key = 0, g_overlapped = None, g_error = 0\<rparr>, w1)"
    "queued w1 = ps" "log w1 = log (os s)"
    using get_works [OF A, of "os s" 0 0 None ps] inv by (fastforce simp: queue_inv_def stop_packet_def)
  define s1 where "s1 = s\<lparr>os := w1, stop_event_posted := False\<rparr>"
  have r: "\<not> dispatch_required s" using inv by (auto simp: queue_inv_def)
  have i1: "queue_inv queued s1 ps" using inv g(2) by (auto simp: queue_inv_def s1_def split: if_splits)
  have one: "do_one A h msec s = do_one_from A h msec Stop_seen s1"
    unfolding do_one_def using r g(1)
    by (subst do_one_from.simps, simp, subst do_one_from.simps, simp, subst do_one_from.simps)
      (simp add: after_dequeue_def wake_for_dispatch_def s1_def Let_def)
  show ?thesis
  proof (cases "stopped s")
    case False
    then have "do_one_from A h msec Stop_seen s1 = do_one A h msec s1"
      unfolding do_one_def by (subst do_one_from.simps) (simp add: s1_def)
    with one have "do_one A h msec s = do_one A h msec s1" by simp
    then show ?thesis using i1 g(3) False by (intro exI [of _ s1]) (simp add: s1_def)
  next
    case True
    obtain e w2 where p: "post_status A 0 0 None w1 = (True, e, w2)" "queued w2 = ps @ [stop_packet]" "log w2 = log w1"
      using post_works [OF A, of 0 0 None w1] g(2) by (auto simp: stop_packet_def)
    let ?s = "s1\<lparr>os := w2, stop_event_posted := True\<rparr>"
    have "do_one A h msec s = Some (Returned 0 no_error, ?s)"
      unfolding one using True p(1)
      by (subst do_one_from.simps, simp add: s1_def, subst do_one_from.simps)
        (simp add: stop_again_def Let_def do_one_from.simps)
    moreover have "queue_inv queued ?s (ps @ [stop_packet])" using i1 p(2) by (auto simp: queue_inv_def s1_def)
    ultimately show ?thesis using True g(3) p(3) by (intro exI [of _ ?s]) (simp add: s1_def)
  qed
qed

text \<open>A stop event that is left over from an earlier run is skipped.\<close>

lemma head_cases:
  assumes "queue_inv queued s ps" and "packet_ops ps = p # xs"
  obtains qs where "packet_ops qs = xs" "ps = op_packet p # qs"
    | qs where "packet_ops qs = xs" "ps = stop_packet # op_packet p # qs"
proof -
  have el: "set ps \<subseteq> range op_packet \<union> {stop_packet}" and cnt: "count_list ps stop_packet \<le> 1"
    using assms(1) by (simp_all add: queue_inv_def)
  obtain x qs where x: "ps = x # qs" using assms(2) by (cases ps) auto
  show ?thesis
  proof (cases "x = stop_packet")
    case False
    then obtain y where "x = op_packet y" using el x by auto
    then show ?thesis using that(1) assms(2) x by simp
  next
    case True
    then obtain y rs where y: "qs = y # rs" using assms(2) x by (cases qs) auto
    moreover have "y \<noteq> stop_packet" using cnt x y True by auto
    then obtain z where "y = op_packet z" using el x y by auto
    ultimately show ?thesis using that(2) assms(2) x True by simp
  qed
qed

lemma no_ops_left:
  assumes "queue_inv queued s ps" and "packet_ops ps = []" and "stop_event_posted s"
  shows "ps = [stop_packet]"
proof -
  have el: "set ps \<subseteq> range op_packet \<union> {stop_packet}" and cnt: "count_list ps stop_packet = 1"
    using assms(1,3) by (simp_all add: queue_inv_def)
  have "x = stop_packet" if "x \<in> set ps" for x
    using that el assms(2) by (fastforce simp: packet_ops_def op_packet_def stop_packet_def)
  then have "ps = replicate (length ps) stop_packet" by (metis replicate_eqI)
  moreover have "count_list (replicate k y) y = k" for k and y :: "'o packet" by (induction k) simp_all
  ultimately show ?thesis using cnt by (metis One_nat_def replicate_0 replicate_Suc)
qed

lemma do_one_next:
  assumes A: "port_documented A queued log" and N: "keeps_log queued log mark"
    and inv: "queue_inv queued s ps" and ops: "packet_ops ps = p # xs" and st: "\<not> stopped s" "Stop_loop \<notin> set (acts p)"
  defines "k \<equiv> outstanding_work s + int (length (posted (acts p)))"
  shows "\<exists>s' ps'. do_one A (acting A mark acts) msec s = Some (Returned 1 no_error, s') \<and>
    outstanding_work s' = k - 1 \<and> stopped s' = (k = 1) \<and>
    log (os s') = log (os s) @ [(p, Ec system_category 0, 0)] \<and>
    queue_inv queued s' ps' \<and> packet_ops ps' = xs @ posted (acts p) \<and> (k = 1 \<longrightarrow> stop_event_posted s')"
proof -
  have "\<exists>s0 qs. do_one A (acting A mark acts) msec s = do_one A (acting A mark acts) msec s0 \<and>
      queue_inv queued s0 (op_packet p # qs) \<and> packet_ops qs = xs \<and> \<not> stopped s0 \<and>
      outstanding_work s0 = outstanding_work s \<and> log (os s0) = log (os s)"
    using inv ops
  proof (cases rule: head_cases)
    case (2 qs)
    then show ?thesis
      using do_one_stop [OF A, of s "op_packet p # qs" "acting A mark acts" msec] inv st(1) by auto
  qed (use inv st(1) in blast)
  then obtain s0 qs where s0: "do_one A (acting A mark acts) msec s = do_one A (acting A mark acts) msec s0"
    "queue_inv queued s0 (op_packet p # qs)" "packet_ops qs = xs" "\<not> stopped s0"
    "outstanding_work s0 = outstanding_work s" "log (os s0) = log (os s)" by blast
  obtain s' where s': "do_one A (acting A mark acts) msec s0 = Some (Returned 1 no_error, s')"
    "outstanding_work s' = k - 1" "stopped s' = (k = 1)" "log (os s') = log (os s) @ [(p, Ec system_category 0, 0)]"
    "queue_inv queued s' (if k = 1 \<and> \<not> stop_event_posted s0
       then (qs @ map op_packet (posted (acts p))) @ [stop_packet] else qs @ map op_packet (posted (acts p)))"
    using do_one_op [OF A N s0(2), of acts msec] s0(4-6) st(2) by (auto simp: k_def)
  have "stop_event_posted s'" if "k = 1"
    using s'(5) s0(2) that by (auto simp: queue_inv_def split: if_splits)
  with s' s0(1,3) show ?thesis
    by (intro exI [of _ s'] exI conjI) (assumption | auto)+
qed

section \<open>Running to the end\<close>

text \<open>The work is that of the operations \<open>xs\<close>, which are at the port.\<close>

definition loop_ready :: "('w \<Rightarrow> 'o packet list) \<Rightarrow> ('q, 't, 'o, 'w) io_context \<Rightarrow> 'o list \<Rightarrow> bool" where
  "loop_ready queued s xs \<longleftrightarrow> (\<exists>ps. queue_inv queued s ps \<and> packet_ops ps = xs) \<and>
     outstanding_work s = int (length xs) \<and> \<not> stopped s"

definition no_stops :: "('o \<Rightarrow> 'o action list) \<Rightarrow> bool" where
  "no_stops acts \<longleftrightarrow> (\<forall>p. Stop_loop \<notin> set (acts p))"

lemma run_loop_all:
  fixes A :: "('q, 'o, 'w) iocp_api"
  assumes A: "port_documented A queued log" and N: "keeps_log queued log mark" and acts: "no_stops acts"
    and "breadth_first next_ops xs = Some ys"
  shows "next_ops = (\<lambda>p. posted (acts p)) \<longrightarrow> (xs = [] \<longrightarrow> ys = []) \<and>
    (\<forall>(s :: ('q, 't, 'o, 'w) io_context) n. xs \<noteq> [] \<longrightarrow> loop_ready queued s xs \<longrightarrow> n \<le> size_max \<longrightarrow>
      (\<exists>s'. run_loop A (acting A mark acts) msec n s = Some (Returned (min size_max (n + length ys)) no_error, s') \<and>
        log (os s') = log (os s) @ map (\<lambda>p. (p, Ec system_category 0, 0)) ys \<and>
        queue_inv queued s' [stop_packet] \<and> outstanding_work s' = 0 \<and> stopped s'))"
  using assms(4)
proof (induction next_ops xs ys rule: breadth_first.raw_induct [rotated, consumes 1, case_names 1])
  case (1 bf next_ops xs ys)
  let ?h = "acting A mark acts" and ?e = "\<lambda>p. (p, Ec system_category 0, 0 :: u32)"
  note IH = 1(1) and body = 1(2)
  show ?case
  proof (intro impI conjI allI)
    assume "xs = []"
    then show "ys = []" using body by simp
  next
    fix s :: "('q, 't, 'o, 'w) io_context" and n :: nat
    assume nx: "next_ops = (\<lambda>p. posted (acts p))" and ne: "xs \<noteq> []" and rdy: "loop_ready queued s xs"
      and n: "n \<le> size_max"
    obtain p ps where xs: "xs = p # ps" using ne by (cases xs) auto
    let ?ps = "ps @ posted (acts p)" and ?n = "if n \<noteq> size_max then n + 1 else n"
    obtain zs where zs: "bf next_ops ?ps = Some zs" "ys = p # zs"
      using body nx xs by (auto split: bind_splits)
    note IH' = IH [OF zs(1), THEN mp, OF nx]
    obtain qs where q: "queue_inv queued s qs" "packet_ops qs = p # ps" "outstanding_work s = int (length xs)" "\<not> stopped s"
      using rdy xs by (auto simp: loop_ready_def)
    have k: "outstanding_work s + int (length (posted (acts p))) = int (length ?ps) + 1" "(int (length ?ps) + 1 = 1) = (?ps = [])"
      using q(3) xs by (simp, metis add_cancel_left_left length_0_conv of_nat_eq_0_iff)
    have st: "Stop_loop \<notin> set (acts p)" using acts by (simp add: no_stops_def)
    obtain s1 qs1 where s1: "do_one A ?h msec s = Some (Returned 1 no_error, s1)"
      "outstanding_work s1 = int (length ?ps)" "stopped s1 = (?ps = [])" "log (os s1) = log (os s) @ [?e p]"
      "queue_inv queued s1 qs1" "packet_ops qs1 = ?ps" "?ps = [] \<longrightarrow> stop_event_posted s1"
      using do_one_next [where acts = acts and msec = msec, OF A N q(1,2,4) st] unfolding k add_diff_cancel_right'
      by (elim exE conjE) (rule that)
    have step: "run_loop A ?h msec n s = run_loop A ?h msec ?n s1"
      by (subst run_loop.simps) (simp add: s1(1))
    show "\<exists>s'. run_loop A ?h msec n s = Some (Returned (min size_max (n + length ys)) no_error, s') \<and>
        log (os s') = log (os s) @ map ?e ys \<and> queue_inv queued s' [stop_packet] \<and> outstanding_work s' = 0 \<and> stopped s'"
    proof (cases "?ps = []")
      case False
      then have "loop_ready queued s1 ?ps" using s1 by (auto simp: loop_ready_def)
      moreover have "?n \<le> size_max" using n by simp
      ultimately obtain s' where s': "run_loop A ?h msec ?n s1 = Some (Returned (min size_max (?n + length zs)) no_error, s')"
        "log (os s') = log (os s1) @ map ?e zs" "queue_inv queued s' [stop_packet]" "outstanding_work s' = 0" "stopped s'"
        using IH' False by blast
      then show ?thesis using step zs(2) s1(4) n by (intro exI [of _ s']) (auto simp: min_def)
    next
      case True
      then have "qs1 = [stop_packet]" "stopped s1" using no_ops_left [OF s1(5)] s1(3,6,7) by auto
      with do_one_stop [OF A, of s1 "[]" ?h msec] s1(5) obtain s' where
        s': "do_one A ?h msec s1 = Some (Returned 0 no_error, s')" "outstanding_work s' = outstanding_work s1" "stopped s'"
          "log (os s') = log (os s1)" "queue_inv queued s' [stop_packet]" by auto
      have "run_loop A ?h msec ?n s1 = Some (Returned ?n no_error, s')"
        by (subst run_loop.simps) (simp add: s'(1))
      moreover have "zs = []" using IH' True by blast
      ultimately show ?thesis using step s' s1(2,4) zs(2) True n by (intro exI [of _ s']) (auto simp: min_def)
    qed
  qed
qed

text \<open>
  C21: For one thread and a port that does not run out of resources, \<open>run\<close> completes the posted
  operations and all that their handlers post, breadth first: in the order of posting, each exactly
  once. It returns their number (at most the largest size) when no work is left, whether or not a
  stop event of an earlier run is still in the port, and after \<open>restart\<close> the loop is ready again.
\<close>

theorem run_completes_breadth_first:
  assumes "port_documented A queued log" and "keeps_log queued log mark" and "no_stops acts"
    and "loop_ready queued s xs" and "breadth_first (\<lambda>p. posted (acts p)) xs = Some ys"
  shows "\<exists>s'. run_ctx A (acting A mark acts) s = Some (Returned (min size_max (length ys)) no_error, s') \<and>
    log (os s') = log (os s) @ map (\<lambda>p. (p, Ec system_category 0, 0)) ys \<and>
    outstanding_work s' = 0 \<and> stopped s' \<and> loop_ready queued (restart s') []"
proof (cases "xs = []")
  case True
  note all = run_loop_all [OF assms(1-3,5), THEN mp, OF refl]
  obtain ps where ps: "queue_inv queued s ps" "packet_ops ps = []" using assms(4) True by (auto simp: loop_ready_def)
  obtain s' where s': "stop A s = (Inr (), s')" "stopped s'" "outstanding_work s' = outstanding_work s"
    "log (os s') = log (os s)"
    "queue_inv queued s' (if stopped s \<or> stop_event_posted s then ps else ps @ [stop_packet])"
    using stop_works [OF assms(1) ps(1)] by blast
  have "\<exists>qs. queue_inv queued (restart s') qs \<and> packet_ops qs = []"
    using s'(5) ps(2) by (intro exI [of _ "if stopped s \<or> stop_event_posted s then ps else ps @ [stop_packet]"])
      (auto simp: queue_inv_def restart_def packet_ops_def stop_packet_def)
  then show ?thesis
    using all True s' assms(4) by (intro exI [of _ s']) (auto simp: run_ctx_def no_work_def loop_ready_def restart_def)
next
  case False
  then have "outstanding_work s \<noteq> 0" using assms(4) by (simp add: loop_ready_def)
  moreover obtain s' where "run_loop A (acting A mark acts) INFINITE 0 s = Some (Returned (min size_max (length ys)) no_error, s')"
    "log (os s') = log (os s) @ map (\<lambda>p. (p, Ec system_category 0, 0)) ys" "queue_inv queued s' [stop_packet]"
    "outstanding_work s' = 0" "stopped s'"
    using run_loop_all [OF assms(1-3,5), of INFINITE] assms(4) False by fastforce
  moreover from this have "queue_inv queued (restart s') [stop_packet]" by (simp add: queue_inv_def restart_def)
  ultimately show ?thesis
    by (intro exI [of _ s']) (auto simp: run_ctx_def loop_ready_def restart_def intro!: exI [of _ "[stop_packet]"])
qed

lemma post_ready:
  assumes "port_documented A queued log" and "loop_ready queued s xs"
  shows "loop_ready queued (post_immediate_completion A p s) (xs @ [p])"
proof -
  obtain ps where ps: "queue_inv queued s ps" "packet_ops ps = xs" using assms(2) by (auto simp: loop_ready_def)
  note w = post_immediate_works [OF assms(1) ps(1), of p]
  then show ?thesis using assms(2) ps(2) by (auto simp: loop_ready_def intro!: exI [of _ "ps @ [op_packet p]"])
qed

text \<open>A port in memory: the packets, and the record of completed operations.\<close>

type_synonym 'o mem_port = "'o packet list \<times> ('o \<times> error_code \<times> u32) list"

definition mem_api :: "('q, 'o, 'o mem_port) iocp_api" where
  "mem_api = \<lparr>post_status = (\<lambda>b k p (ps, l). (True, 0, (ps @ [(b, k, p)], l))),
     get_status = (\<lambda>m (ps, l). case ps of
       [] \<Rightarrow> (\<lparr>g_ok = False, g_bytes = 0, g_key = 0, g_overlapped = None, g_error = WAIT_TIMEOUT\<rparr>, (ps, l))
     | (b, k, p) # ps \<Rightarrow> (\<lparr>g_ok = True, g_bytes = b, g_key = k, g_overlapped = p, g_error = 0\<rparr>, (ps, l))),
     set_timer = (\<lambda>_ w. w), create_timer = (\<lambda>w. (True, 0, w)), associate = (\<lambda>_ w. (0, w)),
     create_port = (\<lambda>_ w. (True, 0, w)), version_six = (\<lambda>_. True), clock = (\<lambda>_ _. 0), period_num = (\<lambda>_. 1), period_den = (\<lambda>_. 1000000000)\<rparr>"

definition mem_mark :: "'o \<times> error_code \<times> u32 \<Rightarrow> 'o mem_port \<Rightarrow> 'o mem_port" where
  "mem_mark x w = (fst w, snd w @ [x])"

lemma mem_port_documented: "port_documented mem_api fst snd"
  by (auto simp: port_documented_def mem_api_def split: prod.splits)

lemma mem_keeps_log: "keeps_log fst snd mem_mark"
  by (simp add: keeps_log_def mem_mark_def)

definition new_context :: "(nat, nat, nat, nat mem_port) io_context" where
  "new_context = \<lparr>outstanding_work = 0, stopped = False, stop_event_posted = False, shutdown_set = False,
     dispatch_required = False, completed_ops = q_new, timer_queues = ts_new (\<lambda>_. None), waitable_timer = False,
     timer_thread = False, own_thread = False, gqcs_timeout = INFINITE, ostore = sample_store,
     tqs = (\<lambda>_. empty_timers), ready = (\<lambda>_. False), saved_ec = (\<lambda>_. no_error), saved_bytes = (\<lambda>_. 0), os = ([], [])\<rparr>"

lemma new_context_ready: "loop_ready fst new_context []"
  by (auto simp: loop_ready_def queue_inv_def new_context_def intro!: exI [of _ "[]"])

text \<open>Operation 1 posts the operations 2 and 3, and 2 posts 4.\<close>

definition sample_acts :: "nat \<Rightarrow> nat action list" where
  "sample_acts p = (if p = 1 then [Post 2, Post 3] else if p = 2 then [Post 4] else [])"

lemma sample_breadth_first: "breadth_first (\<lambda>p. posted (sample_acts p)) [1, 5] = Some [1, 5, 2, 3, 4]"
  by (simp add: breadth_first.simps sample_acts_def)

lemma run_completes_breadth_first_witness:
  "\<exists>s'. run_ctx mem_api (acting mem_api mem_mark sample_acts)
      (post_immediate_completion mem_api 5 (post_immediate_completion mem_api 1 new_context)) =
        Some (Returned 5 no_error, s') \<and>
    map fst (snd (os s')) = [1, 5, 2, 3, 4] \<and> outstanding_work s' = 0"
proof -
  let ?s = "post_immediate_completion mem_api 5 (post_immediate_completion mem_api 1 new_context)"
  have r: "loop_ready fst ?s [1, 5]"
    using post_ready [OF mem_port_documented post_ready [OF mem_port_documented new_context_ready], of 5 1] by simp
  have "no_stops sample_acts" by (simp add: no_stops_def sample_acts_def)
  moreover have "snd (os ?s) = []"
    by (simp add: post_immediate_completion_def post_deferred_completion_def work_started_def mem_api_def new_context_def)
  ultimately show ?thesis
    using run_completes_breadth_first [OF mem_port_documented mem_keeps_log _ r sample_breadth_first]
    by (auto simp: size_max_def)
qed

section \<open>Stopping\<close>

lemma run_stopped:
  assumes A: "port_documented A queued log" and N: "keeps_log queued log mark"
    and "queue_inv queued s (map op_packet xs @ stop_packet # map op_packet ys)" and "stopped s" and "n \<le> size_max"
  shows "\<exists>s'. run_loop A (acting A mark acts) msec n s = Some (Returned (min size_max (n + length xs)) no_error, s') \<and>
    log (os s') = log (os s) @ map (\<lambda>p. (p, Ec system_category 0, 0)) xs \<and> stopped s' \<and>
    outstanding_work s' = outstanding_work s - int (length xs) + int (length (concat (map (\<lambda>p. posted (acts p)) xs))) \<and>
    queue_inv queued s' (map op_packet (ys @ concat (map (\<lambda>p. posted (acts p)) xs)) @ [stop_packet])"
  using assms(3-5)
proof (induction xs arbitrary: s ys n)
  case Nil
  then obtain s' where s': "do_one A (acting A mark acts) msec s = Some (Returned 0 no_error, s')"
    "outstanding_work s' = outstanding_work s" "stopped s'" "log (os s') = log (os s)"
    "queue_inv queued s' (map op_packet ys @ [stop_packet])"
    using do_one_stop [OF A, of s "map op_packet ys" "acting A mark acts" msec] by auto
  then show ?case using Nil(3) by (subst run_loop.simps) (simp add: min_def)
next
  case (Cons p xs)
  let ?h = "acting A mark acts" and ?n = "if n \<noteq> size_max then n + 1 else n" and ?qs = "posted (acts p)"
  have st: "stop_event_posted s" using Cons.prems(1) by (auto simp: queue_inv_def split: if_splits)
  have q: "queue_inv queued s (op_packet p # map op_packet xs @ stop_packet # map op_packet ys)"
    using Cons.prems(1) by simp
  obtain s1 where s1: "do_one A ?h msec s = Some (Returned 1 no_error, s1)"
    "outstanding_work s1 = outstanding_work s + int (length ?qs) - 1" "stopped s1"
    "log (os s1) = log (os s) @ [(p, Ec system_category 0, 0)]"
    "queue_inv queued s1 (map op_packet xs @ stop_packet # map op_packet (ys @ ?qs))"
    using do_one_op [where acts = acts and msec = msec, OF A N q] Cons.prems(2) st by auto
  have "?n \<le> size_max" using Cons.prems(3) by simp
  from Cons.IH [OF s1(5,3) this] obtain s' where
    s': "run_loop A ?h msec ?n s1 = Some (Returned (min size_max (?n + length xs)) no_error, s')"
      "log (os s') = log (os s1) @ map (\<lambda>p. (p, Ec system_category 0, 0)) xs" "stopped s'"
      "outstanding_work s' = outstanding_work s1 - int (length xs) + int (length (concat (map (\<lambda>p. posted (acts p)) xs)))"
      "queue_inv queued s' (map op_packet ((ys @ ?qs) @ concat (map (\<lambda>p. posted (acts p)) xs)) @ [stop_packet])"
    by blast
  have "min size_max (?n + length xs) = min size_max (n + length (p # xs))" using Cons.prems(3) by (auto simp: min_def)
  moreover have "run_loop A ?h msec n s = run_loop A ?h msec ?n s1" by (subst run_loop.simps) (simp add: s1(1))
  ultimately show ?case using s' s1(2,4) by (intro exI [of _ s']) simp
qed

text \<open>
  \<open>stop\<close> takes effect behind what is queued: a following \<open>run\<close> of one thread still completes the
  operations that were in the port, in order and each exactly once, and returns their number. What
  their handlers post stays in the port, with its work counted, followed by a new stop event.
\<close>

theorem stop_takes_effect_behind_queue:
  assumes "port_documented A queued log" and "keeps_log queued log mark"
    and "queue_inv queued s (map op_packet xs)" and "\<not> stopped s" and "outstanding_work s \<noteq> 0"
  shows "case stop A s of (r, s1) \<Rightarrow> r = Inr () \<and>
    (\<exists>s'. run_ctx A (acting A mark acts) s1 = Some (Returned (min size_max (length xs)) no_error, s') \<and>
      log (os s') = log (os s) @ map (\<lambda>p. (p, Ec system_category 0, 0)) xs \<and> stopped s' \<and>
      (let new = concat (map (\<lambda>p. posted (acts p)) xs) in
        outstanding_work s' = outstanding_work s - int (length xs) + int (length new) \<and>
        queued (os s') = map op_packet new @ [stop_packet]))"
proof -
  have "\<not> stop_event_posted s" using assms(3) by (auto simp: queue_inv_def split: if_splits)
  then obtain s1 where s1: "stop A s = (Inr (), s1)" "stopped s1" "outstanding_work s1 = outstanding_work s"
    "log (os s1) = log (os s)" "queue_inv queued s1 (map op_packet xs @ stop_packet # map op_packet [])"
    using stop_works [OF assms(1,3)] assms(4) by auto
  from run_stopped [OF assms(1,2) s1(5,2), of 0 acts INFINITE] assms(5) s1 show ?thesis
    by (auto simp: run_ctx_def Let_def queue_inv_def)
qed

lemma stop_takes_effect_behind_queue_witness:
  "case stop mem_api (post_immediate_completion mem_api 5 (post_immediate_completion mem_api 1 new_context)) of
     (r, s1) \<Rightarrow> r = Inr () \<and> (\<exists>s'. run_ctx mem_api (acting mem_api mem_mark sample_acts) s1 =
       Some (Returned 2 no_error, s') \<and> fst (os s') = [op_packet 2, op_packet 3, stop_packet])"
proof -
  let ?s = "post_immediate_completion mem_api 5 (post_immediate_completion mem_api 1 new_context)"
  have i0: "queue_inv fst new_context []" by (simp add: queue_inv_def new_context_def)
  note i1 = post_immediate_works [OF mem_port_documented i0, of 1]
  note i2 = post_immediate_works [OF mem_port_documented conjunct1 [OF i1], of 5]
  have "queue_inv fst ?s (map op_packet [1, 5])" "\<not> stopped ?s" "outstanding_work ?s \<noteq> 0"
    using i1 i2 by (simp_all add: new_context_def)
  from stop_takes_effect_behind_queue [OF mem_port_documented mem_keeps_log this, of sample_acts] show ?thesis
    by (auto simp: size_max_def sample_acts_def Let_def split: prod.splits)
qed

text \<open>
  When the port is out of resources, \<open>stop\<close> throws but leaves its event marked as posted: after a
  restart the next \<open>stop\<close> returns normally without posting anything, so that no waiting thread wakes
  up. If it is the end of the last operation that stops the loop, the exception leaves a destructor
  and the program ends.
\<close>

theorem failed_stop_is_not_repeated:
  assumes "post_status A 0 0 None (os s) = (False, e, w)" and "e \<noteq> 0" and "\<not> stopped s" and "\<not> stop_event_posted s"
  shows "(case stop A s of (r, s1) \<Rightarrow> r = Inl (system_error (Ec system_category e)) \<and>
      stop A (restart s1) = (Inr (), s1) \<and> os s1 = w) \<and>
    (outstanding_work s = 1 \<longrightarrow> (\<exists>s'. do_one_step A h msec (Finish None) s = Some (Terminated, s')))"
  using assms by (auto simp: stop_def restart_def throw_error_def do_one_step.simps work_finished_def Let_def)

definition full_api :: "(nat, nat, nat mem_port) iocp_api" where
  "full_api = mem_api\<lparr>post_status := (\<lambda>_ _ _ w. (False, 8, w))\<rparr>"

lemma failed_stop_is_not_repeated_witness:
  "(case stop full_api new_context of (r, s1) \<Rightarrow> r = Inl (system_error (Ec system_category 8)) \<and>
     stop full_api (restart s1) = (Inr (), s1) \<and> os s1 = ([], []))"
  using failed_stop_is_not_repeated [of full_api new_context 8 "([], [])", THEN conjunct1]
  by (simp add: full_api_def new_context_def)

end
