(* ===== verification/AsioIocpSteps.thy ===== *)
theory AsioIocpSteps
  imports AsioIocpLife AsioIocpRun
begin

text \<open>
  The event loop with several threads. A step is one thread's next step in \<open>do_one\<close>, a call of one of
  the other functions, or something that the system does; what a handler does is a sequence of such
  steps too. In every reachable state each operation that was started has been completed once or
  waits in exactly one place, and the work is counted.
\<close>

section \<open>Operations in a thread's hands\<close>

fun in_hand :: "'o pc \<Rightarrow> 'o multiset" where
  "in_hand (Dequeued g) = of_option (g_overlapped g)"
| "in_hand (Complete p ec n) = {#p#}"
| "in_hand _ = {#}"

fun finishing :: "'o pc \<Rightarrow> nat" where
  "finishing (Finish e) = 1"
| "finishing _ = 0"

fun completes :: "'o pc \<Rightarrow> 'o list" where
  "completes (Complete p ec n) = [p]"
| "completes _ = []"

text \<open>
  Dequeued before its initiating function has returned: \<open>on_pending\<close> will post it again.
\<close>

definition to_repost :: "('q, 't, 'o, 'w) io_context \<Rightarrow> 'o set \<Rightarrow> 'o multiset" where
  "to_repost c I = mset_set {p \<in> I. ready c p}"

definition hand_ready :: "('q, 't, 'o, 'w) io_context \<Rightarrow> 'o set \<Rightarrow> 'o multiset \<Rightarrow> bool" where
  "hand_ready c I H \<longleftrightarrow> (\<forall>p \<in># H. p \<notin> I \<longrightarrow> ready c p)"

lemma to_repost_cong: "\<forall>p \<in> I. ready c' p = ready c p \<Longrightarrow> to_repost c' I = to_repost c I"
  unfolding to_repost_def by (rule arg_cong [where f = mset_set]) auto

lemma get_holds:
  assumes A: "port_keeps A held" and h: "holds held c M I" and get: "get_status A m (os c) = (g, w)"
  shows "\<exists>N. holds held (c\<lparr>os := w\<rparr>) N I \<and> M = N + of_option (g_overlapped g) \<and>
    hand_ready c I (of_option (g_overlapped g))"
proof -
  obtain cs qs W where pa: "parts_of held c cs qs W I" and M: "M = held (os c) + mset cs + waiting qs W"
    using h by (auto simp: holds_def)
  note k = get_keeps [OF A get]
  let ?N = "held w + mset cs + waiting qs W"
  have e: "M = ?N + of_option (g_overlapped g)" using k by (simp add: M ac_simps)
  have "once ?N" using holds_once [OF h] once_parts unfolding e by blast
  then have "parts_of held (c\<lparr>os := w\<rparr>) cs qs W I" using pa k by (auto simp: parts_of_def)
  from holdsI [OF this] have "holds held (c\<lparr>os := w\<rparr>) ?N I" by simp
  moreover have "hand_ready c I (of_option (g_overlapped g))" using pa k by (auto simp: parts_of_def hand_ready_def)
  ultimately show ?thesis using e by blast
qed

section \<open>One thread\<close>

text \<open>
  The operations in the context and in the thread's hands are the same before and after a step, but
  for the one it completes; and the work changes only when the step after a handler is taken.
\<close>

definition step_keeps ::
  "('w \<Rightarrow> 'o multiset) \<Rightarrow> ('q, 't, 'o, 'w) io_context \<Rightarrow> 'o multiset \<Rightarrow> 'o set \<Rightarrow> 'o pc \<Rightarrow>
   ('q, 't, 'o, 'w) io_context \<Rightarrow> 'o pc \<Rightarrow> bool" where
  "step_keeps held c M I pc c' pc' \<longleftrightarrow> (\<exists>N. holds held c' N I \<and>
     N + to_repost c' I + in_hand pc' + mset (completes pc) = M + to_repost c I + in_hand pc \<and>
     outstanding_work c' - int (finishing pc') + int (length (completes pc)) = outstanding_work c - int (finishing pc) \<and>
     hand_ready c' I (in_hand pc') \<and> (\<forall>p. ready c p \<longrightarrow> ready c' p))"

lemma step_keepsI:
  assumes "holds held c' M I" and "same_but_waiting c c' I"
    and "in_hand pc = {#}" "in_hand pc' = {#}" "completes pc = []" "finishing pc = 0" "finishing pc' = 0"
  shows "step_keeps held c M I pc c' pc'"
  using assms to_repost_cong [of I c' c]
  by (auto simp: step_keeps_def same_but_waiting_def hand_ready_def)

lemma after_dequeue_keeps:
  assumes h: "holds held c M I" and "finite I" and o: "once (M + to_repost c I + of_option (g_overlapped g))"
    and r: "hand_ready c I (of_option (g_overlapped g))" and s: "after_dequeue msec g c = (pc', c')"
  shows "step_keeps held c M I (Dequeued g) c' pc'"
proof (cases "g_overlapped g")
  case None
  let ?c = "c\<lparr>stop_event_posted := False\<rparr>"
  have "holds held ?c M I" using h by (rule holds_cong) simp_all
  moreover have "to_repost ?c I = to_repost c I" by (rule to_repost_cong) simp
  moreover have "c' = c \<or> c' = ?c" "in_hand pc' = {#}" "finishing pc' = 0"
    using s None by (auto simp: after_dequeue_def split: if_splits)
  ultimately show ?thesis using h None by (auto simp: step_keeps_def hand_ready_def)
next
  case (Some p)
  define c1 where "c1 = c\<lparr>ready := (ready c)(p := True)\<rparr>"
  have c': "ostore c' = ostore c1" "completed_ops c' = completed_ops c1" "timer_queues c' = timer_queues c1"
      "tqs c' = tqs c1" "os c' = os c1" "ready c' = ready c1" "outstanding_work c' = outstanding_work c"
    and pc': "if ready c p then \<exists>ec n. pc' = Complete p ec n else pc' = Dispatch"
    using s Some by (auto simp: after_dequeue_def c1_def Let_def split: if_splits prod.splits)
  have h1: "holds held c' M I" using set_ready_holds [OF h, of p] by (rule holds_cong) (simp_all add: c' c1_def)
  show ?thesis
  proof (cases "ready c p")
    case True
    have "to_repost c' I = to_repost c I" by (rule to_repost_cong) (use True in \<open>simp add: c' c1_def\<close>)
    then show ?thesis using h1 pc' True Some c' by (auto simp: step_keeps_def hand_ready_def c1_def)
  next
    case False
    then have "p \<in> I" using r Some by (simp add: hand_ready_def)
    then have "{x \<in> I. ready c' x} = insert p {x \<in> I. ready c x}" by (auto simp: c' c1_def)
    then have "to_repost c' I = add_mset p (to_repost c I)" using False \<open>finite I\<close> by (simp add: to_repost_def)
    then show ?thesis using h1 pc' False Some c' by (auto simp: step_keeps_def hand_ready_def c1_def)
  qed
qed

lemma stop_again_keeps:
  assumes A: "port_keeps A held" and h: "holds held c M I" and s: "stop_again A c = (pc', c')"
  shows "step_keeps held c M I Stop_again c' pc'"
proof (rule step_keepsI)
  show "holds held c' M I"
    using h by (rule holds_cong) (use s post_keeps [OF A] in \<open>auto simp: stop_again_def Let_def split: prod.splits if_splits\<close>)
  show "same_but_waiting c c' I" "in_hand pc' = {#}" "finishing pc' = 0"
    using s by (auto simp: stop_again_def Let_def same_but_waiting_def split: prod.splits if_splits)
qed simp_all

lemma finish_keeps:
  assumes A: "port_keeps A held" and h: "holds held c M I" and s: "do_one_step A hnd msec (Finish e) c = Some (pc', c')"
  shows "step_keeps held c M I (Finish e) c' pc'"
proof -
  obtain r where r: "work_finished A c = (r, c')" "in_hand pc' = {#}" "finishing pc' = 0"
    using s by (auto split: prod.splits sum.splits option.splits)
  from work_finished_holds [OF A h r(1)] have
    w: "holds held c' M I" "outstanding_work c' = outstanding_work c - 1" "\<forall>p. ready c p \<longrightarrow> ready c' p"
      "\<forall>p \<in> I. ready c' p = ready c p" by auto
  then show ?thesis using r(2,3) to_repost_cong [OF w(4)] by (auto simp: step_keeps_def hand_ready_def)
qed

lemma do_one_step_keeps:
  assumes A: "port_keeps A held" and h: "holds held c M I" and "finite I"
    and o: "once (M + to_repost c I + in_hand pc)" and r: "hand_ready c I (in_hand pc)"
    and s: "do_one_step A (\<lambda>p ec n s. (thrown, s)) msec pc c = Some (pc', c')"
  shows "step_keeps held c M I pc c' pc'"
proof (cases pc)
  case Dispatch
  show ?thesis
  proof (cases "dispatch_required c")
    case True
    let ?c = "c\<lparr>dispatch_required := False\<rparr>"
    have "holds held ?c M I" using h by (rule holds_cong) simp_all
    moreover have d: "dispatch A ?c = Some c'" "pc' = Wait" using s Dispatch True by auto
    ultimately have "holds held c' M I" "same_but_waiting ?c c' I" using dispatch_keeps [OF A, of ?c] by auto
    then show ?thesis unfolding Dispatch d(2) by (intro step_keepsI) (simp_all add: same_but_waiting_def)
  next
    case False
    then show ?thesis using s h unfolding Dispatch by (intro step_keepsI) auto
  qed
next
  case Wait
  let ?m = "if msec < gqcs_timeout c then msec else gqcs_timeout c"
  obtain g w where get: "get_status A ?m (os c) = (g, w)" by fastforce
  then have e: "pc' = Dequeued g" "c' = c\<lparr>os := w\<rparr>" using s Wait by (auto simp: Let_def)
  from get_holds [OF A h get] obtain N where
    N: "holds held c' N I" "M = N + of_option (g_overlapped g)" "hand_ready c I (of_option (g_overlapped g))"
    unfolding e by blast
  have "to_repost c' I = to_repost c I" by (rule to_repost_cong) (simp add: e)
  then show ?thesis using N e unfolding Wait step_keeps_def by (intro exI [of _ N]) (auto simp: hand_ready_def)
next
  case (Dequeued g)
  then show ?thesis using after_dequeue_keeps [OF h \<open>finite I\<close>, of g msec pc' c'] o r s by simp
next
  case Stop_seen
  then show ?thesis using s h unfolding Stop_seen by (intro step_keepsI) (auto split: if_splits)
next
  case Stop_again
  then show ?thesis using stop_again_keeps [OF A h] s by simp
next
  case (Complete p ec n)
  then show ?thesis using s h by (auto simp: step_keeps_def hand_ready_def)
next
  case (Finish e)
  then show ?thesis using finish_keeps [OF A h] s by simp
qed (use s h in \<open>auto intro: step_keepsI\<close>)

section \<open>The system\<close>

text \<open>
  The context, the threads in \<open>do_one\<close> with their timeouts, the operations whose initiating function
  has been accepted by the system but has not called \<open>on_pending\<close> yet, the operations started and
  completed so far, and the work that is counted without an operation (work guards, the own thread).
\<close>

record ('q, 't, 'o, 'w) system =
  ctx :: "('q, 't, 'o, 'w) io_context"
  threads :: "('o pc \<times> u32) list"
  initiating :: "'o set"
  begun :: "'o list"
  ended :: "'o list"
  guards :: nat

text \<open>An operation object that is not in use, or not any more.\<close>

definition fresh :: "('q, 't, 'o, 'w) system \<Rightarrow> 'o \<Rightarrow> bool" where
  "fresh s p \<longleftrightarrow> p \<notin> initiating s \<and> count_list (begun s) p = count_list (ended s) p"

inductive iocp_step ::
  "('q, 'o, 'w) iocp_api \<Rightarrow> ('w \<Rightarrow> 'o multiset) \<Rightarrow> ('q, 't, 'o, 'w) system \<Rightarrow> ('q, 't, 'o, 'w) system \<Rightarrow> bool"
  for A held where
  Enter: "iocp_step A held s (s\<lparr>threads := threads s @ [(Dispatch, msec)]\<rparr>)"
| Thread: "i < length (threads s) \<Longrightarrow> threads s ! i = (pc, msec) \<Longrightarrow>
    do_one_step A (\<lambda>p ec n c. (thrown, c)) msec pc (ctx s) = Some (pc', c) \<Longrightarrow>
    iocp_step A held s (s\<lparr>ctx := c, threads := (threads s)[i := (pc', msec)], ended := ended s @ completes pc\<rparr>)"
| Post: "fresh s p \<Longrightarrow>
    iocp_step A held s (s\<lparr>ctx := post_immediate_completion A p (ctx s), begun := begun s @ [p]\<rparr>)"
| Accepted: "fresh s p \<Longrightarrow> held w = add_mset p (held (os (ctx s))) \<Longrightarrow>
    iocp_step A held s (s\<lparr>ctx := (op_reset p (work_started (ctx s)))\<lparr>os := w\<rparr>,
      initiating := insert p (initiating s), begun := begun s @ [p]\<rparr>)"
| Refused: "fresh s p \<Longrightarrow>
    iocp_step A held s (s\<lparr>ctx := on_completion A p e n (op_reset p (work_started (ctx s))), begun := begun s @ [p]\<rparr>)"
| Pending: "p \<in> initiating s \<Longrightarrow>
    iocp_step A held s (s\<lparr>ctx := on_pending A p (ctx s), initiating := initiating s - {p}\<rparr>)"
| Timer: "fresh s p \<Longrightarrow> has_queue (ctx s) q \<Longrightarrow> schedule_timer A q time t p (ctx s) = Some c \<Longrightarrow>
    iocp_step A held s (s\<lparr>ctx := c, begun := begun s @ [p]\<rparr>)"
| Cancel: "has_queue (ctx s) q \<Longrightarrow> cancel_timer_ops A q t mx (ctx s) = Some (k, c) \<Longrightarrow>
    iocp_step A held s (s\<lparr>ctx := c\<rparr>)"
| Stop: "stop A (ctx s) = (r, c) \<Longrightarrow> iocp_step A held s (s\<lparr>ctx := c\<rparr>)"
| Restart: "iocp_step A held s (s\<lparr>ctx := restart (ctx s)\<rparr>)"
| Guard: "iocp_step A held s (s\<lparr>ctx := work_started (ctx s), guards := guards s + 1\<rparr>)"
| Unguard: "guards s > 0 \<Longrightarrow> work_finished A (ctx s) = (r, c) \<Longrightarrow>
    iocp_step A held s (s\<lparr>ctx := c, guards := guards s - 1\<rparr>)"
| Fired: "iocp_step A held s (s\<lparr>ctx := timer_fired A (ctx s)\<rparr>)"
| Add: "\<not> has_queue (ctx s) q \<Longrightarrow>
    do_add_timer_queue A q ((ctx s)\<lparr>tqs := (tqs (ctx s))(q := new_timers (ostore (ctx s)))\<rparr>) = (r, c) \<Longrightarrow>
    iocp_step A held s (s\<lparr>ctx := c\<rparr>)"
| Remove: "tq_empty (tqs (ctx s) q) \<Longrightarrow> do_remove_timer_queue q (ctx s) = Some c \<Longrightarrow>
    iocp_step A held s (s\<lparr>ctx := c\<rparr>)"
| World: "held w = held (os (ctx s)) \<Longrightarrow> iocp_step A held s (s\<lparr>ctx := (ctx s)\<lparr>os := w\<rparr>\<rparr>)"

inductive_cases iocp_stepE: "iocp_step A held s s'"

definition iocp_reaches ::
  "('q, 'o, 'w) iocp_api \<Rightarrow> ('w \<Rightarrow> 'o multiset) \<Rightarrow> ('q, 't, 'o, 'w) system \<Rightarrow> ('q, 't, 'o, 'w) system \<Rightarrow> bool" where
  "iocp_reaches A held = (iocp_step A held)\<^sup>*\<^sup>*"

definition just_created :: "('q, 't, 'o, 'w) io_context \<Rightarrow> ('q, 't, 'o, 'w) system" where
  "just_created c = \<lparr>ctx = c, threads = [], initiating = {}, begun = [], ended = [],
     guards = (if own_thread c then 1 else 0)\<rparr>"

section \<open>The invariant\<close>

definition hands :: "('o pc \<times> u32) list \<Rightarrow> 'o multiset" where
  "hands ts = sum_list (map (\<lambda>t. in_hand (fst t)) ts)"

definition all_finishing :: "('o pc \<times> u32) list \<Rightarrow> nat" where
  "all_finishing ts = sum_list (map (\<lambda>t. finishing (fst t)) ts)"

definition stock :: "('q, 't, 'o, 'w) system \<Rightarrow> 'o multiset \<Rightarrow> 'o multiset" where
  "stock s M = M + to_repost (ctx s) (initiating s) + hands (threads s)"

definition accounted :: "('w \<Rightarrow> 'o multiset) \<Rightarrow> ('q, 't, 'o, 'w) system \<Rightarrow> 'o multiset \<Rightarrow> bool" where
  "accounted held s M \<longleftrightarrow> holds held (ctx s) M (initiating s) \<and> finite (initiating s) \<and>
     hand_ready (ctx s) (initiating s) (hands (threads s)) \<and> once (stock s M) \<and>
     mset (begun s) = mset (ended s) + stock s M \<and>
     outstanding_work (ctx s) = int (size (stock s M)) + int (all_finishing (threads s)) + int (guards s)"

lemma hands_update:
  "i < length ts \<Longrightarrow> hands (ts[i := t]) + in_hand (fst (ts ! i)) = hands ts + in_hand (fst t)"
  "i < length ts \<Longrightarrow> all_finishing (ts[i := t]) + finishing (fst (ts ! i)) = all_finishing ts + finishing (fst t)"
  by (induction ts arbitrary: i) (auto simp: hands_def all_finishing_def split: nat.splits)

lemma hands_split: "i < length ts \<Longrightarrow> \<exists>H. hands ts = in_hand (fst (ts ! i)) + H"
proof (induction ts arbitrary: i)
  case (Cons t ts)
  show ?case
  proof (cases i)
    case (Suc j)
    then obtain H where "hands ts = in_hand (fst (ts ! j)) + H" using Cons by auto
    then have "hands (t # ts) = in_hand (fst ((t # ts) ! i)) + (in_hand (fst t) + H)"
      by (simp add: hands_def Suc ac_simps)
    then show ?thesis by blast
  qed (simp add: hands_def)
qed simp

text \<open>Steps that leave every operation where it is, or move it within the context.\<close>

lemma accounted_moves:
  assumes "accounted held s M" and "holds held c M (initiating s)"
    and "\<forall>p. ready (ctx s) p \<longrightarrow> ready c p" and "\<forall>p \<in> initiating s. ready c p = ready (ctx s) p"
    and "outstanding_work c - int g = outstanding_work (ctx s) - int (guards s)"
  shows "accounted held (s\<lparr>ctx := c, guards := g\<rparr>) M"
proof -
  let ?s = "s\<lparr>ctx := c, guards := g\<rparr>"
  have "stock ?s M = stock s M" using to_repost_cong [OF assms(4)] by (simp add: stock_def)
  then show ?thesis using assms by (auto simp: accounted_def hand_ready_def)
qed

text \<open>Steps that start an operation.\<close>

lemma accounted_begins:
  assumes a: "accounted held s M" and "holds held c (add_mset p M) J" and "finite J" and "initiating s \<subseteq> J"
    and "to_repost c J = to_repost (ctx s) (initiating s)" and "p \<notin># stock s M"
    and "\<forall>x. x \<noteq> p \<longrightarrow> ready (ctx s) x \<longrightarrow> ready c x" and "outstanding_work c = outstanding_work (ctx s) + 1"
  shows "accounted held (s\<lparr>ctx := c, initiating := J, begun := begun s @ [p]\<rparr>) (add_mset p M)"
proof -
  let ?s = "s\<lparr>ctx := c, initiating := J, begun := begun s @ [p]\<rparr>"
  have st: "stock ?s (add_mset p M) = add_mset p (stock s M)" using assms(5) by (simp add: stock_def)
  have "hand_ready c J (hands (threads s))"
    using a assms(4,6,7) unfolding accounted_def hand_ready_def by (auto simp: stock_def)
  then show ?thesis using a assms(2,3,6,8) unfolding accounted_def st by (simp add: once_add)
qed

lemma fresh_not_in_stock: "accounted held s M \<Longrightarrow> fresh s p \<Longrightarrow> p \<notin># stock s M \<and> p \<notin> initiating s"
proof -
  assume a: "accounted held s M" and f: "fresh s p"
  have "count (mset (begun s)) p = count (mset (ended s)) p + count (stock s M) p"
    using a by (simp add: accounted_def)
  then show ?thesis using f by (simp add: fresh_def count_mset not_in_iff)
qed

lemma reset_holds:
  assumes "holds held c M I" and "p \<notin># M"
  shows "holds held (op_reset p (work_started c)) M I"
proof -
  obtain cs qs W where pa: "parts_of held c cs qs W I" and M: "M = held (os c) + mset cs + waiting qs W"
    using assms(1) by (auto simp: holds_def)
  have "parts_of held (op_reset p (work_started c)) cs qs W I"
    using pa assms(2) by (auto simp: parts_of_def op_reset_def work_started_def M)
  from holdsI [OF this] show ?thesis by (simp add: M op_reset_def work_started_def)
qed

lemma thread_accounted:
  assumes A: "port_keeps A held" and a: "accounted held s M" and i: "i < length (threads s)" "threads s ! i = (pc, msec)"
    and s: "do_one_step A (\<lambda>p ec n c. (thrown, c)) msec pc (ctx s) = Some (pc', c)"
  shows "\<exists>N. accounted held (s\<lparr>ctx := c, threads := (threads s)[i := (pc', msec)], ended := ended s @ completes pc\<rparr>) N"
proof -
  let ?I = "initiating s" and ?s = "s\<lparr>ctx := c, threads := (threads s)[i := (pc', msec)], ended := ended s @ completes pc\<rparr>"
  obtain H where H: "hands (threads s) = in_hand pc + H" using hands_split [OF i(1)] i(2) by auto
  have o: "once (stock s M)" and h: "holds held (ctx s) M ?I" and f: "finite ?I"
    and r: "hand_ready (ctx s) ?I (in_hand pc + H)" using a H by (simp_all add: accounted_def)
  have sM: "stock s M = (M + to_repost (ctx s) ?I + in_hand pc) + H" by (simp add: stock_def H ac_simps)
  then have "once (M + to_repost (ctx s) ?I + in_hand pc)" using once_parts o by metis
  moreover have "hand_ready (ctx s) ?I (in_hand pc)" using r by (simp add: hand_ready_def)
  ultimately obtain N where N: "holds held c N ?I"
    "N + to_repost c ?I + in_hand pc' + mset (completes pc) = M + to_repost (ctx s) ?I + in_hand pc"
    "outstanding_work c - int (finishing pc') + int (length (completes pc)) = outstanding_work (ctx s) - int (finishing pc)"
    "hand_ready c ?I (in_hand pc')" "\<forall>p. ready (ctx s) p \<longrightarrow> ready c p"
    using do_one_step_keeps [OF A h f _ _ s] unfolding step_keeps_def by blast
  have H': "hands (threads ?s) = in_hand pc' + H" using hands_update(1) [OF i(1), of "(pc', msec)"] H i(2) by simp
  have F: "all_finishing (threads ?s) + finishing pc = all_finishing (threads s) + finishing pc'"
    using hands_update(2) [OF i(1), of "(pc', msec)"] i(2) by simp
  have "stock s M = (N + to_repost c ?I + in_hand pc' + mset (completes pc)) + H" by (simp only: sM N(2))
  also have "\<dots> = stock ?s N + mset (completes pc)" unfolding stock_def H' by (simp add: ac_simps)
  finally have st: "stock s M = stock ?s N + mset (completes pc)" .
  have "once (stock ?s N)" using o once_parts unfolding st by blast
  moreover have "hand_ready c ?I (hands (threads ?s))"
    using r N(4,5) unfolding H' by (auto simp: hand_ready_def)
  moreover have "mset (begun s) = mset (ended s) + stock s M"
    "outstanding_work (ctx s) = int (size (stock s M)) + int (all_finishing (threads s)) + int (guards s)"
    using a by (simp_all add: accounted_def)
  moreover have "size (stock s M) = size (stock ?s N) + length (completes pc)" unfolding st by simp
  ultimately have "accounted held ?s N"
    using N(1,3) f F st by (simp add: accounted_def ac_simps)
  then show ?thesis by blast
qed

text \<open>The same, with the initiating operations or the guards as they were.\<close>

lemma accounted_kept:
  assumes "accounted held s M" and "holds held c M (initiating s) \<and> same_but_waiting (ctx s) c (initiating s)"
  shows "accounted held (s\<lparr>ctx := c\<rparr>) M"
  using accounted_moves [OF assms(1), of c "guards s"] assms(2)
  by (simp add: same_but_waiting_def accounted_def stock_def)

lemma accounted_started:
  assumes "accounted held s M" and f: "fresh s p"
    and c: "holds held c (add_mset p M) (initiating s) \<and> outstanding_work c = outstanding_work (ctx s) + 1 \<and>
      (\<forall>x. x \<noteq> p \<longrightarrow> ready (ctx s) x \<longrightarrow> ready c x) \<and> (\<forall>x \<in> initiating s. ready c x = ready (ctx s) x)"
  shows "accounted held (s\<lparr>ctx := c, begun := begun s @ [p]\<rparr>) (add_mset p M)"
proof -
  have "to_repost c (initiating s) = to_repost (ctx s) (initiating s)" using c by (simp add: to_repost_cong)
  with accounted_begins [OF assms(1), of c p "initiating s"] c fresh_not_in_stock [OF assms(1) f] assms(1) show ?thesis
    by (simp add: accounted_def stock_def)
qed

lemma accounted_accepted:
  assumes a: "accounted held s M" and f: "fresh s p" and w: "held w = add_mset p (held (os (ctx s)))"
  shows "accounted held (s\<lparr>ctx := (op_reset p (work_started (ctx s)))\<lparr>os := w\<rparr>,
      initiating := insert p (initiating s), begun := begun s @ [p]\<rparr>) (add_mset p M)"
proof (rule accounted_begins [OF a])
  let ?c = "(op_reset p (work_started (ctx s)))\<lparr>os := w\<rparr>" and ?I = "initiating s"
  have p: "p \<notin># stock s M" "p \<notin> ?I" using fresh_not_in_stock [OF a f] by auto
  then have pM: "p \<notin># M" by (simp add: stock_def)
  have "holds held (op_reset p (work_started (ctx s))) M ?I" using a pM by (simp add: accounted_def reset_holds)
  then obtain cs qs W where pa: "parts_of held (op_reset p (work_started (ctx s))) cs qs W ?I"
    and M: "M = held (os (ctx s)) + mset cs + waiting qs W" by (auto simp: holds_def op_reset_def work_started_def)
  have o: "once (held w + mset cs + waiting qs W)" using a pM by (simp add: w accounted_def once_add M holds_once [of held "ctx s" _ ?I])
  have "(set cs \<union> (\<Union>q \<in> set qs. W q)) \<inter> insert p ?I = {}"
    using pa pM holds_parts(1) [OF pa] by (auto simp: parts_of_def M op_reset_def work_started_def)
  then have "parts_of held ?c cs qs W (insert p ?I)"
    using pa o by (auto simp: parts_of_def w op_reset_def work_started_def)
  from holdsI [OF this] show "holds held ?c (add_mset p M) (insert p ?I)" by (simp add: w M)
  have "{x \<in> insert p ?I. ready ?c x} = {x \<in> ?I. ready (ctx s) x}"
    using p(2) by (auto simp: op_reset_def work_started_def)
  then show "to_repost ?c (insert p ?I) = to_repost (ctx s) ?I" by (simp add: to_repost_def)
  show "p \<notin># stock s M" by (fact p)
  show "finite (insert p ?I)" using a by (simp add: accounted_def)
qed (auto simp: op_reset_def work_started_def)

lemma accounted_pending:
  assumes A: "port_keeps A held" and a: "accounted held s M" and p: "p \<in> initiating s"
  shows "\<exists>N. accounted held (s\<lparr>ctx := on_pending A p (ctx s), initiating := initiating s - {p}\<rparr>) N"
proof -
  let ?I = "initiating s" and ?c = "on_pending A p (ctx s)"
  let ?s = "s\<lparr>ctx := ?c, initiating := ?I - {p}\<rparr>" and ?N = "if ready (ctx s) p then add_mset p M else M"
  have h: "holds held (ctx s) M ?I" and fin: "finite ?I" and o: "once (stock s M)" using a by (simp_all add: accounted_def)
  have "p \<notin># M" if "ready (ctx s) p"
  proof -
    have "p \<in># to_repost (ctx s) ?I" using p that fin by (simp add: to_repost_def)
    moreover have "once (to_repost (ctx s) ?I + M)"
      using once_parts [of "M + to_repost (ctx s) ?I" "hands (threads s)"] o by (simp add: stock_def add.commute)
    ultimately show ?thesis using once_parts by blast
  qed
  from on_pending_holds [OF A h this] have c: "holds held ?c ?N (?I - {p})" "ready ?c = (ready (ctx s))(p := True)"
    "outstanding_work ?c = outstanding_work (ctx s)" by auto
  have "{x \<in> ?I - {p}. ready ?c x} = {x \<in> ?I. ready (ctx s) x} - {p}" by (auto simp: c(2))
  then have "to_repost ?c (?I - {p}) + (if ready (ctx s) p then {#p#} else {#}) = to_repost (ctx s) ?I"
    using p fin by (simp add: to_repost_def mset_set_Diff)
  then have "?N + to_repost ?c (?I - {p}) = M + to_repost (ctx s) ?I" by (simp split: if_splits)
  then have "stock ?s ?N = stock s M" by (simp add: stock_def)
  moreover have "hand_ready ?c (?I - {p}) (hands (threads s))"
    using a by (auto simp: accounted_def hand_ready_def c(2))
  ultimately have "accounted held ?s ?N" using a c(1,3) by (simp add: accounted_def)
  then show ?thesis by blast
qed

lemma accounted_unguard:
  assumes A: "port_keeps A held" and a: "accounted held s M" and "guards s > 0" and "work_finished A (ctx s) = (r, c)"
  shows "accounted held (s\<lparr>ctx := c, guards := guards s - 1\<rparr>) M"
proof -
  from a have "holds held (ctx s) M (initiating s)" by (simp add: accounted_def)
  from work_finished_holds [OF A this assms(4)] show ?thesis
    using assms(3) by (intro accounted_moves [OF a]) auto
qed

lemma step_accounted:
  assumes "iocp_step A held s s'" and A: "port_keeps A held" and a: "accounted held s M"
  shows "\<exists>N. accounted held s' N"
  using assms(1)
proof (cases rule: iocp_step.cases)
  case (Enter msec)
  have "accounted held s' M"
    using a unfolding Enter by (simp add: accounted_def stock_def hands_def all_finishing_def)
  then show ?thesis by blast
next
  case (Thread i pc msec thrown pc' c)
  from thread_accounted [OF A a Thread(2-4)] show ?thesis unfolding Thread(1) .
next
  case (Post p)
  have h: "holds held (work_started (ctx s)) M (initiating s)"
    by (rule holds_cong [of held "ctx s"]) (use a in \<open>simp_all add: accounted_def work_started_def\<close>)
  have p: "p \<notin># M" "p \<notin> initiating s" using fresh_not_in_stock [OF a Post(2)] by (auto simp: stock_def)
  from post_deferred_completion_holds [OF A h p] have "accounted held s' (add_mset p M)"
    unfolding Post(1) using p(2)
    by (intro accounted_started [OF a Post(2)]) (auto simp: post_immediate_completion_def work_started_def)
  then show ?thesis by blast
next
  case (Accepted p w)
  from accounted_accepted [OF a Accepted(2,3)] show ?thesis unfolding Accepted(1) by blast
next
  case (Refused p e n)
  have p: "p \<notin># M" "p \<notin> initiating s" using fresh_not_in_stock [OF a Refused(2)] by (auto simp: stock_def)
  have "holds held (op_reset p (work_started (ctx s))) M (initiating s)"
    using a p(1) by (simp add: accounted_def reset_holds)
  from on_completion_holds [OF A this p] have "accounted held s' (add_mset p M)"
    unfolding Refused(1) using p(2)
    by (intro accounted_started [OF a Refused(2)]) (auto simp: on_completion_def op_reset_def work_started_def)
  then show ?thesis by blast
next
  case (Pending p)
  from accounted_pending [OF A a Pending(2)] show ?thesis unfolding Pending(1) .
next
  case (Timer p q time t c)
  have h: "holds held (ctx s) M (initiating s)" using a by (simp add: accounted_def)
  have p: "p \<notin># M" "p \<notin> initiating s" using fresh_not_in_stock [OF a Timer(2)] by (auto simp: stock_def)
  from schedule_holds [OF A h Timer(3) p Timer(4)] have "accounted held s' (add_mset p M)"
    unfolding Timer(1) by (intro accounted_started [OF a Timer(2)]) auto
  then show ?thesis by blast
next
  case (Cancel q t mx k c)
  have h: "holds held (ctx s) M (initiating s)" using a by (simp add: accounted_def)
  from cancel_holds [OF A h Cancel(2), of t mx] Cancel(3) have "accounted held s' M"
    unfolding Cancel(1) by (intro accounted_kept [OF a]) auto
  then show ?thesis by blast
next
  case (Stop r c)
  have "holds held (ctx s) M (initiating s)" using a by (simp add: accounted_def)
  from accounted_kept [OF a stop_holds [OF A this Stop(2)]] show ?thesis unfolding Stop(1) by blast
next
  case Restart
  have "holds held (restart (ctx s)) M (initiating s)"
    by (rule holds_cong [of held "ctx s"]) (use a in \<open>simp_all add: accounted_def restart_def\<close>)
  then have "accounted held s' M"
    unfolding Restart by (intro accounted_kept [OF a]) (simp add: same_but_waiting_def restart_def)
  then show ?thesis by blast
next
  case Guard
  have "holds held (work_started (ctx s)) M (initiating s)"
    by (rule holds_cong [of held "ctx s"]) (use a in \<open>simp_all add: accounted_def work_started_def\<close>)
  then have "accounted held s' M"
    unfolding Guard by (intro accounted_moves [OF a]) (simp_all add: work_started_def)
  then show ?thesis by blast
next
  case (Unguard r c)
  from accounted_unguard [OF A a Unguard(2,3)] show ?thesis unfolding Unguard(1) by blast
next
  case Fired
  have "holds held (ctx s) M (initiating s)" using a by (simp add: accounted_def)
  from accounted_kept [OF a timer_fired_holds [OF A this]] show ?thesis unfolding Fired by blast
next
  case (Add q r c)
  let ?c = "(ctx s)\<lparr>tqs := (tqs (ctx s))(q := new_timers (ostore (ctx s)))\<rparr>"
  have h: "holds held (ctx s) M (initiating s)" using a by (simp add: accounted_def)
  have "holds held ?c M (initiating s)" using h Add(2) by (rule other_timers_holds)
  moreover have "\<not> has_queue ?c q" using Add(2) by (simp add: has_queue_def)
  moreover have "timers_wait (ostore ?c) (tqs ?c q) {}" by (simp add: new_timers_wait)
  ultimately have "holds held c M (initiating s) \<and> same_but_waiting ?c c (initiating s)"
    using add_queue_holds [OF A _ _ _ Add(3)] by blast
  then have "accounted held s' M" unfolding Add(1) by (intro accounted_kept [OF a]) (simp add: same_but_waiting_def)
  then show ?thesis by blast
next
  case (Remove q c)
  have h: "holds held (ctx s) M (initiating s)" using a by (simp add: accounted_def)
  from remove_queue_holds [OF h Remove(2)] Remove(3) have "accounted held s' M"
    unfolding Remove(1) by (intro accounted_kept [OF a]) auto
  then show ?thesis by blast
next
  case (World w)
  have "holds held ((ctx s)\<lparr>os := w\<rparr>) M (initiating s)"
    by (rule holds_cong [of held "ctx s"]) (use a World(2) in \<open>simp_all add: accounted_def\<close>)
  then have "accounted held s' M" unfolding World(1) by (intro accounted_kept [OF a]) (simp add: same_but_waiting_def)
  then show ?thesis by blast
qed

lemma reaches_accounted:
  assumes "iocp_reaches A held s s'" and A: "port_keeps A held" and "\<exists>M. accounted held s M"
  shows "\<exists>M. accounted held s' M"
  using assms(1,3) unfolding iocp_reaches_def
  by (induction rule: rtranclp_induct) (use step_accounted [OF _ A] in blast)+

lemma just_created_accounted:
  assumes "ctx_new A hint own s = (Inr (), c)" and "held (os c) = {#}"
  shows "accounted held (just_created c) {#}"
proof -
  have c: "outstanding_work c = (if own_thread c then 1 else 0)" "completed_ops c = q_new" "ts_first (timer_queues c) = None"
    using assms(1) by (auto simp: ctx_new_def ts_new_def Let_def throw_error_def split: prod.splits if_splits)
  then have "ts_rep (timer_queues c) []" by (simp add: ts_rep_def)
  then have "parts_of held c [] [] (\<lambda>_. {}) {}"
    using c(2) assms(2) by (simp add: parts_of_def opq.new once_def)
  from holdsI [OF this] assms(2) have "holds held c {#} {}" by simp
  then show ?thesis using c(1)
    by (simp add: accounted_def just_created_def stock_def hands_def all_finishing_def to_repost_def hand_ready_def once_def)
qed

text \<open>
  C4: From a newly constructed event loop, whatever threads run it, start operations, schedule and
  cancel timers, stop and restart it, in any interleaving: every operation that was started has been completed, exactly once, or waits in exactly one place: at
  the port, in the completed queue, in a timer queue, in a thread's hands, or, dequeued before its
  initiating function returned, for \<open>on_pending\<close> to post it again. The outstanding work is the
  number of those that wait, of handlers just returned and of work guards, so that when it is 0 all
  operations have been completed.
\<close>

theorem operations_complete_once:
  assumes "port_keeps A held" and "ctx_new A hint own c0 = (Inr (), c)" and "held (os c) = {#}"
    and "iocp_reaches A held (just_created c) s"
  shows "(\<exists>M. holds held (ctx s) M (initiating s) \<and> once (stock s M) \<and>
      mset (begun s) = mset (ended s) + stock s M \<and>
      outstanding_work (ctx s) = int (size (stock s M)) + int (all_finishing (threads s)) + int (guards s)) \<and>
    (outstanding_work (ctx s) = 0 \<longrightarrow> mset (begun s) = mset (ended s))"
proof -
  obtain M where "accounted held s M"
    using reaches_accounted [OF assms(4,1)] just_created_accounted [where held = held, OF assms(2,3)] by blast
  then have a: "holds held (ctx s) M (initiating s)" "once (stock s M)" "mset (begun s) = mset (ended s) + stock s M"
    "outstanding_work (ctx s) = int (size (stock s M)) + int (all_finishing (threads s)) + int (guards s)"
    by (simp_all add: accounted_def)
  moreover have "mset (begun s) = mset (ended s)" if "outstanding_work (ctx s) = 0"
  proof -
    have "int (size (stock s M)) = 0" using a(4) that by linarith
    then show ?thesis using a(3) by simp
  qed
  ultimately show ?thesis by blast
qed

text \<open>
  A witness: the packet of operation 7 is dequeued before the function that started it has returned;
  \<open>on_pending\<close> posts it again, and it is completed once.
\<close>

definition mem_held :: "'o mem_port \<Rightarrow> 'o multiset" where
  "mem_held w = mset (packet_ops (fst w))"

lemma mem_port_keeps: "port_keeps mem_api mem_held"
  by (auto simp: port_keeps_def mem_api_def mem_held_def packet_ops_def of_option_def split: list.splits option.splits prod.splits)

lemma new_context_holds: "holds mem_held new_context {#} {}"
proof -
  have "parts_of mem_held new_context [] [] (\<lambda>_. {}) {}"
    by (simp add: parts_of_def new_context_def opq.new ts_new_rep mem_held_def packet_ops_def once_def)
  from holdsI [OF this] show ?thesis by (simp add: mem_held_def packet_ops_def new_context_def)
qed

definition turn ::
  "('q, 'o, 'w) iocp_api \<Rightarrow> nat \<Rightarrow> ('q, 't, 'o, 'w) system \<Rightarrow> ('q, 't, 'o, 'w) system" where
  "turn A i s = (if i < length (threads s) then case threads s ! i of (pc, msec) \<Rightarrow>
       (case do_one_step A (\<lambda>p ec n c. (None, c)) msec pc (ctx s) of None \<Rightarrow> s
        | Some (pc', c) \<Rightarrow> s\<lparr>ctx := c, threads := (threads s)[i := (pc', msec)], ended := ended s @ completes pc\<rparr>)
     else s)"

lemma reaches_step: "iocp_reaches A held s t \<Longrightarrow> iocp_step A held t u \<Longrightarrow> iocp_reaches A held s u"
  unfolding iocp_reaches_def by (rule rtranclp.rtrancl_into_rtrancl)

lemma reaches_turn: "iocp_reaches A held s t \<Longrightarrow> iocp_reaches A held s (turn A i t)"
  by (auto simp: turn_def split: option.split prod.split intro: reaches_step Thread)

definition accept7 :: "(nat, nat, nat, nat mem_port) system" where
  "accept7 = (let s = just_created new_context in s\<lparr>ctx := (op_reset 7 (work_started (ctx s)))\<lparr>os := ([op_packet 7], [])\<rparr>,
      initiating := insert 7 (initiating s), begun := begun s @ [7]\<rparr>)"

definition early7 :: "(nat, nat, nat, nat mem_port) system" where
  "early7 = (turn mem_api 0 ^^ 3) (accept7\<lparr>threads := threads accept7 @ [(Dispatch, INFINITE)]\<rparr>)"

definition done7 :: "(nat, nat, nat, nat mem_port) system" where
  "done7 = (turn mem_api 0 ^^ 5) (early7\<lparr>ctx := on_pending mem_api 7 (ctx early7), initiating := initiating early7 - {7}\<rparr>)"

lemma early7_state:
  "threads early7 = [(Dispatch, INFINITE)] \<and> initiating early7 = {7} \<and> ready (ctx early7) 7 \<and> fst (os (ctx early7)) = []"
  by (simp add: early7_def accept7_def turn_def just_created_def new_context_def Let_def numeral_eq_Suc
      op_reset_def work_started_def mem_api_def op_packet_def after_dequeue_def)

lemma done7_state:
  "ended done7 = [7] \<and> begun done7 = [7] \<and> outstanding_work (ctx done7) = 0 \<and> stopped (ctx done7)"
  by (simp add: done7_def early7_def accept7_def turn_def just_created_def new_context_def Let_def numeral_eq_Suc
      op_reset_def work_started_def mem_api_def op_packet_def after_dequeue_def on_pending_def
      overlapped_contains_result_def work_finished_def stop_def)

lemma done7_reached: "iocp_reaches mem_api mem_held (just_created new_context) done7"
proof -
  have turns: "iocp_reaches mem_api mem_held s t \<Longrightarrow> iocp_reaches mem_api mem_held s ((turn mem_api i ^^ n) t)"
    for s t :: "(nat, nat, nat, nat mem_port) system" and i n
    by (induction n) (simp_all add: reaches_turn)
  let ?s = "just_created new_context"
  have "iocp_reaches mem_api mem_held ?s ?s" by (simp add: iocp_reaches_def)
  moreover have "iocp_step mem_api mem_held ?s accept7"
    unfolding accept7_def Let_def
    by (rule Accepted) (simp_all add: fresh_def just_created_def mem_held_def packet_ops_def new_context_def op_packet_def)
  ultimately have "iocp_reaches mem_api mem_held ?s accept7" by (rule reaches_step)
  from reaches_step [OF this Enter] have "iocp_reaches mem_api mem_held ?s early7"
    unfolding early7_def by (rule turns)
  from reaches_step [OF this Pending [of 7]] have
    "iocp_reaches mem_api mem_held ?s (early7\<lparr>ctx := on_pending mem_api 7 (ctx early7), initiating := initiating early7 - {7}\<rparr>)"
    by (simp add: early7_state)
  then show ?thesis unfolding done7_def by (rule turns)
qed

lemma operations_complete_once_witness:
  "iocp_reaches mem_api mem_held (just_created new_context) done7 \<and> ended done7 = [7] \<and>
    outstanding_work (ctx done7) = 0 \<and> mset (begun done7) = mset (ended done7) \<and>
    (\<exists>M. holds mem_held (ctx done7) M (initiating done7) \<and> once (stock done7 M))"
proof -
  have n: "ctx_new mem_api 1 False new_context = (Inr (), new_context)" "mem_held (os new_context) = {#}"
    by (simp_all add: ctx_new_def new_context_def mem_api_def ts_new_def get_gqcs_timeout_def Let_def mem_held_def packet_ops_def)
  from operations_complete_once [where held = mem_held, OF mem_port_keeps n done7_reached] show ?thesis
    using done7_state done7_reached by blast
qed

text \<open>Two operations, one at the port and one in the completed queue, are destroyed.\<close>

lemma mem_port_delivers: "port_delivers mem_api mem_held (\<lambda>w. length (fst w))"
  by (auto simp: port_delivers_def mem_api_def mem_held_def packet_ops_def split: list.split prod.split)

definition two_waiting :: "(nat, nat, nat, nat mem_port) io_context" where
  "two_waiting = (push_completed 3 (post_deferred_completion mem_api 1 new_context))\<lparr>outstanding_work := 2\<rparr>"

lemma two_waiting_holds: "holds mem_held two_waiting {#3, 1#} {}"
proof -
  from post_deferred_completion_holds [OF mem_port_keeps new_context_holds, of 1]
  have "holds mem_held (post_deferred_completion mem_api 1 new_context) {#1#} {}" by simp
  from push_completed_holds [OF this, of 3]
  have "holds mem_held (push_completed 3 (post_deferred_completion mem_api 1 new_context)) {#3, 1#} {}" by simp
  then show ?thesis unfolding two_waiting_def by (rule holds_cong) simp_all
qed


end
