(* ===== verification/AsioBuffers.thy ===== *)
theory AsioBuffers
  imports AsioBase
begin

text \<open>
  Buffers and buffer sequences: \<open>mutable_buffer\<close> and \<open>const_buffer\<close> (buffer.hpp) and the proxy for
  the part of a sequence that is not transferred yet (detail/consuming_buffers.hpp). A buffer is a
  region of memory; \<open>addrs\<close> lists the addresses of a sequence in the order of a transfer. Sizes
  are natural numbers: the buffers of a program fit into its address space.
\<close>

section \<open>Buffers\<close>

record buf =
  buf_data :: nat
  buf_size :: nat

definition buf_empty :: buf where
  "buf_empty = \<lparr>buf_data = 0, buf_size = 0\<rparr>"

definition buf_make :: "nat \<Rightarrow> nat \<Rightarrow> buf" where
  "buf_make data sz = \<lparr>buf_data = data, buf_size = sz\<rparr>"

text \<open>\<open>operator+=\<close> of the member and \<open>operator+\<close>.\<close>

definition buf_advance :: "buf \<Rightarrow> nat \<Rightarrow> buf" where
  "buf_advance b n =
     (let offset = (if n < buf_size b then n else buf_size b)
      in \<lparr>buf_data = buf_data b + offset, buf_size = buf_size b - offset\<rparr>)"

definition buf_plus :: "buf \<Rightarrow> nat \<Rightarrow> buf" where
  "buf_plus b n =
     (let offset = (if n < buf_size b then n else buf_size b)
      in \<lparr>buf_data = buf_data b + offset, buf_size = buf_size b - offset\<rparr>)"

text \<open>\<open>asio::buffer(b, max_size_in_bytes)\<close>.\<close>

definition buf_limit :: "buf \<Rightarrow> nat \<Rightarrow> buf" where
  "buf_limit b max_size_in_bytes =
     \<lparr>buf_data = buf_data b,
      buf_size = (if buf_size b < max_size_in_bytes then buf_size b else max_size_in_bytes)\<rparr>"

fun buffer_size :: "buf list \<Rightarrow> nat" where
  "buffer_size [] = 0"
| "buffer_size (b # bs) = buf_size b + buffer_size bs"

text \<open>The addresses of a buffer and of a sequence.\<close>

definition buf_addrs :: "buf \<Rightarrow> nat list" where
  "buf_addrs b = [buf_data b ..< buf_data b + buf_size b]"

definition addrs :: "buf list \<Rightarrow> nat list" where
  "addrs bs = concat (map buf_addrs bs)"

lemma length_buf_addrs [simp]: "length (buf_addrs b) = buf_size b"
  by (simp add: buf_addrs_def)

lemma buf_addrs_plus [simp]: "buf_addrs (buf_plus b n) = drop n (buf_addrs b)"
  by (simp add: buf_addrs_def buf_plus_def)

lemma buf_addrs_limit [simp]: "buf_addrs (buf_limit b n) = take n (buf_addrs b)"
  by (simp add: buf_addrs_def buf_limit_def take_upt min_def)

lemma buf_size_plus [simp]: "buf_size (buf_plus b n) = buf_size b - n"
  by (simp add: buf_plus_def)

lemma buf_size_limit [simp]: "buf_size (buf_limit b n) = min (buf_size b) n"
  by (simp add: buf_limit_def)

lemma addrs_simps [simp]:
  "addrs [] = []" "addrs (b # bs) = buf_addrs b @ addrs bs" "addrs (bs @ cs) = addrs bs @ addrs cs"
  by (simp_all add: addrs_def)

lemma length_addrs [simp]: "length (addrs bs) = buffer_size bs"
  by (induction bs) auto

lemma buffer_size_append [simp]: "buffer_size (bs @ cs) = buffer_size bs + buffer_size cs"
  by (induction bs) auto

section \<open>The proxy for a sequence of buffers\<close>

record consuming =
  c_buffers :: "buf list"
  total_size :: nat
  total_consumed :: nat
  next_elem :: nat
  next_elem_offset :: nat

definition max_buffers :: nat where
  "max_buffers = 16"

definition c_new :: "buf list \<Rightarrow> consuming" where
  "c_new bs = \<lparr>c_buffers = bs, total_size = buffer_size bs, total_consumed = 0, next_elem = 0,
     next_elem_offset = 0\<rparr>"

definition c_empty :: "consuming \<Rightarrow> bool" where
  "c_empty c \<longleftrightarrow> total_consumed c \<ge> total_size c"

text \<open>The loop of \<open>prepare\<close> over the buffers from \<open>next\<close> on; the accumulator is the result so far.\<close>

fun prepare_loop :: "buf list \<Rightarrow> nat \<Rightarrow> nat \<Rightarrow> buf list \<Rightarrow> buf list" where
  "prepare_loop [] elem_offset max_size result = result"
| "prepare_loop (b # bs) elem_offset max_size result =
     (if max_size > 0 \<and> length result < max_buffers then
        let next_buf = buf_plus b elem_offset;
            e = buf_limit next_buf max_size
        in prepare_loop bs 0 (max_size - buf_size e) (if buf_size e > 0 then result @ [e] else result)
      else result)"

definition c_prepare :: "consuming \<Rightarrow> nat \<Rightarrow> buf list" where
  "c_prepare c max_size =
     prepare_loop (drop (next_elem c) (c_buffers c)) (next_elem_offset c) max_size []"

fun consume_loop :: "buf list \<Rightarrow> nat \<Rightarrow> nat \<Rightarrow> nat \<Rightarrow> nat \<times> nat" where
  "consume_loop [] sz elem offset = (elem, offset)"
| "consume_loop (b # bs) sz elem offset =
     (if sz > 0 then
        let next_buf = buf_plus b offset
        in if sz < buf_size next_buf then (elem, offset + sz)
           else consume_loop bs (sz - buf_size next_buf) (elem + 1) 0
      else (elem, offset))"

definition c_consume :: "consuming \<Rightarrow> nat \<Rightarrow> consuming" where
  "c_consume c sz =
     (let (elem, offset) = consume_loop (drop (next_elem c) (c_buffers c)) sz (next_elem c) (next_elem_offset c)
      in c\<lparr>total_consumed := total_consumed c + sz, next_elem := elem, next_elem_offset := offset\<rparr>)"

section \<open>The specialisations for one buffer, for two and for null buffers\<close>

record consuming1 =
  c1_buffer :: buf
  c1_total_consumed :: nat

definition c1_new :: "buf \<Rightarrow> consuming1" where
  "c1_new b = \<lparr>c1_buffer = b, c1_total_consumed = 0\<rparr>"

definition c1_empty :: "consuming1 \<Rightarrow> bool" where
  "c1_empty c \<longleftrightarrow> c1_total_consumed c \<ge> buf_size (c1_buffer c)"

definition c1_prepare :: "consuming1 \<Rightarrow> nat \<Rightarrow> buf" where
  "c1_prepare c max_size = buf_limit (buf_plus (c1_buffer c) (c1_total_consumed c)) max_size"

definition c1_consume :: "consuming1 \<Rightarrow> nat \<Rightarrow> consuming1" where
  "c1_consume c sz = c\<lparr>c1_total_consumed := c1_total_consumed c + sz\<rparr>"

record consuming2 =
  c2_buffer0 :: buf
  c2_buffer1 :: buf
  c2_total_consumed :: nat

definition c2_new :: "buf \<Rightarrow> buf \<Rightarrow> consuming2" where
  "c2_new b0 b1 = \<lparr>c2_buffer0 = b0, c2_buffer1 = b1, c2_total_consumed = 0\<rparr>"

definition c2_empty :: "consuming2 \<Rightarrow> bool" where
  "c2_empty c \<longleftrightarrow> c2_total_consumed c \<ge> buf_size (c2_buffer0 c) + buf_size (c2_buffer1 c)"

definition c2_prepare :: "consuming2 \<Rightarrow> nat \<Rightarrow> buf list" where
  "c2_prepare c max_size =
     (let buffer0_size = buf_size (c2_buffer0 c);
          r0 = buf_limit (buf_plus (c2_buffer0 c) (c2_total_consumed c)) max_size;
          r1 = buf_limit (buf_plus (c2_buffer1 c)
                 (if c2_total_consumed c < buffer0_size then 0 else c2_total_consumed c - buffer0_size))
                 (max_size - buf_size r0)
      in [r0, r1])"

definition c2_consume :: "consuming2 \<Rightarrow> nat \<Rightarrow> consuming2" where
  "c2_consume c sz = c\<lparr>c2_total_consumed := c2_total_consumed c + sz\<rparr>"

section \<open>What is left to transfer\<close>

definition c_rest :: "consuming \<Rightarrow> nat list" where
  "c_rest c = drop (next_elem_offset c) (addrs (drop (next_elem c) (c_buffers c)))"

text \<open>
  The invariant: the position of the next byte agrees with the number of bytes consumed, and the
  offset lies inside its buffer.
\<close>

definition c_inv :: "consuming \<Rightarrow> bool" where
  "c_inv c \<longleftrightarrow> total_size c = buffer_size (c_buffers c) \<and> total_consumed c \<le> total_size c \<and>
     c_rest c = drop (total_consumed c) (addrs (c_buffers c)) \<and>
     (next_elem_offset c > 0 \<longrightarrow> next_elem c < length (c_buffers c) \<and>
        next_elem_offset c < buf_size (c_buffers c ! next_elem c))"

lemma c_inv_new: "c_inv (c_new bs)"
  by (simp add: c_inv_def c_new_def c_rest_def)

lemma c_empty_iff: "c_inv c \<Longrightarrow> c_empty c \<longleftrightarrow> c_rest c = []"
  by (auto simp: c_inv_def c_empty_def)

text \<open>\<open>prepare\<close> gives a prefix of the rest, of the wanted length unless there are too many buffers.\<close>

lemma prepare_loop_prefix:
  assumes "off > 0 \<longrightarrow> (case bs of [] \<Rightarrow> False | b # _ \<Rightarrow> off < buf_size b)" and "length acc \<le> max_buffers"
  shows "\<exists>es. prepare_loop bs off m acc = acc @ es \<and>
    addrs es = take (buffer_size es) (drop off (addrs bs)) \<and> buffer_size es \<le> m \<and>
    (\<forall>e \<in> set es. 0 < buf_size e) \<and> length (acc @ es) \<le> max_buffers \<and>
    (length (acc @ es) < max_buffers \<longrightarrow> buffer_size es = min m (buffer_size bs - off))"
  using assms
proof (induction bs arbitrary: off m acc)
  case Nil
  then show ?case by simp
next
  case (Cons b bs)
  show ?case
  proof (cases "m > 0 \<and> length acc < max_buffers")
    case False
    then show ?thesis using Cons.prems by (intro exI [of _ "[]"]) auto
  next
    case True
    let ?e = "buf_limit (buf_plus b off) m"
    let ?acc = "if buf_size ?e > 0 then acc @ [?e] else acc"
    have off: "off \<le> buf_size b" using Cons.prems(1) by auto
    have "length ?acc \<le> max_buffers" using True by simp
    from Cons.IH [of 0 ?acc "m - buf_size ?e", OF _ this] obtain es where
      es: "prepare_loop bs 0 (m - buf_size ?e) ?acc = ?acc @ es"
        "addrs es = take (buffer_size es) (addrs bs)" "buffer_size es \<le> m - buf_size ?e"
        "\<forall>e \<in> set es. 0 < buf_size e" "length (?acc @ es) \<le> max_buffers"
        "length (?acc @ es) < max_buffers \<longrightarrow> buffer_size es = min (m - buf_size ?e) (buffer_size bs)"
      by auto
    define fs where "fs = (if buf_size ?e > 0 then ?e # es else es)"
    have app: "?acc @ es = acc @ fs" by (simp add: fs_def)
    have size_fs: "buffer_size fs = buf_size ?e + buffer_size es" by (simp add: fs_def del: buf_size_limit)
    have "addrs fs = take m (drop off (buf_addrs b)) @ addrs es"
      by (auto simp: fs_def not_less)
    also have "\<dots> = take (buffer_size fs) (drop off (addrs (b # bs)))"
    proof (cases "m < buf_size b - off")
      case True
      then have "buffer_size es = 0" using es(3) by simp
      then show ?thesis using True off es(2) by (simp add: size_fs)
    next
      case False
      then have "buf_size ?e = buf_size b - off" by simp
      then show ?thesis using False off es(2) by (simp add: size_fs min_def)
    qed
    finally have "addrs fs = take (buffer_size fs) (drop off (addrs (b # bs)))" .
    moreover have "prepare_loop (b # bs) off m acc = acc @ fs"
      using True es(1) app by (simp add: Let_def)
    moreover have "buffer_size fs \<le> m" using es(3) size_fs by simp
    moreover have "\<forall>e \<in> set fs. 0 < buf_size e" using es(4) by (simp add: fs_def)
    moreover have "length (acc @ fs) < max_buffers \<longrightarrow> buffer_size fs = min m (buffer_size (b # bs) - off)"
      using es(6) off unfolding app size_fs by (auto simp: min_def)
    ultimately show ?thesis using es(5) unfolding app by blast
  qed
qed

lemma c_prepare_prefix:
  assumes "c_inv c"
  shows "addrs (c_prepare c m) = take (buffer_size (c_prepare c m)) (c_rest c)"
    and "buffer_size (c_prepare c m) \<le> m"
    and "length (c_prepare c m) \<le> max_buffers"
    and "length (c_prepare c m) < max_buffers \<Longrightarrow> buffer_size (c_prepare c m) = min m (length (c_rest c))"
    and "m > 0 \<Longrightarrow> \<not> c_empty c \<Longrightarrow> c_prepare c m \<noteq> [] \<and> buffer_size (c_prepare c m) > 0"
proof -
  have "next_elem_offset c > 0 \<longrightarrow>
      (case drop (next_elem c) (c_buffers c) of [] \<Rightarrow> False | b # _ \<Rightarrow> next_elem_offset c < buf_size b)"
    using assms by (auto simp: c_inv_def Cons_nth_drop_Suc [symmetric] split: list.splits)
  from prepare_loop_prefix [OF this, of "[]" m]
  have p: "addrs (c_prepare c m) = take (buffer_size (c_prepare c m)) (c_rest c)"
      "buffer_size (c_prepare c m) \<le> m" "length (c_prepare c m) \<le> max_buffers"
      "\<forall>e \<in> set (c_prepare c m). 0 < buf_size e"
      "length (c_prepare c m) < max_buffers \<longrightarrow> buffer_size (c_prepare c m) = min m (length (c_rest c))"
    by (auto simp: c_prepare_def c_rest_def)
  then show "addrs (c_prepare c m) = take (buffer_size (c_prepare c m)) (c_rest c)"
    "buffer_size (c_prepare c m) \<le> m" "length (c_prepare c m) \<le> max_buffers"
    "length (c_prepare c m) < max_buffers \<Longrightarrow> buffer_size (c_prepare c m) = min m (length (c_rest c))"
    by blast+
  assume m: "m > 0" "\<not> c_empty c"
  then have "0 < length (c_rest c)" using c_empty_iff [OF assms] by simp
  with m(1) p(5) have ne: "c_prepare c m \<noteq> []" by (auto simp: max_buffers_def min_def split: if_splits)
  then show "c_prepare c m \<noteq> [] \<and> buffer_size (c_prepare c m) > 0"
    using p(4) by (cases "c_prepare c m") auto
qed

text \<open>\<open>consume\<close> removes a prefix of the rest.\<close>

lemma consume_loop_pos:
  assumes "off > 0 \<longrightarrow> (case bs of [] \<Rightarrow> False | b # _ \<Rightarrow> off < buf_size b)"
    and "n \<le> buffer_size bs - off" and "consume_loop bs n el off = (el', off')"
  shows "el \<le> el' \<and> drop off' (addrs (drop (el' - el) bs)) = drop n (drop off (addrs bs)) \<and>
    (off' > 0 \<longrightarrow> el' - el < length bs \<and> off' < buf_size (bs ! (el' - el)))"
  using assms
proof (induction bs arbitrary: n el off)
  case Nil
  then show ?case by simp
next
  case (Cons b bs)
  consider "n = 0" | "0 < n" "n < buf_size b - off" | "0 < n" "\<not> n < buf_size b - off" by blast
  then show ?case
  proof cases
    case 1
    with Cons.prems show ?thesis by auto
  next
    case 2
    with Cons.prems show ?thesis by (auto simp: add.commute)
  next
    case 3
    have off: "off \<le> buf_size b" using Cons.prems(1) by auto
    have "consume_loop bs (n - (buf_size b - off)) (el + 1) 0 = (el', off')"
      using Cons.prems(3) 3 by (simp add: Let_def)
    moreover have "n - (buf_size b - off) \<le> buffer_size bs - 0" using Cons.prems(2) off by simp
    ultimately have IH: "el + 1 \<le> el'" "drop off' (addrs (drop (el' - (el + 1)) bs)) = drop (n - (buf_size b - off)) (addrs bs)"
      "off' > 0 \<longrightarrow> el' - (el + 1) < length bs \<and> off' < buf_size (bs ! (el' - (el + 1)))"
      using Cons.IH [of 0 "n - (buf_size b - off)" "el + 1"] by auto
    have "el' - el = Suc (el' - (el + 1))" using IH(1) by simp
    then show ?thesis using IH 3 off by (auto simp: add.commute)
  qed
qed

lemma c_consume_rest:
  assumes "c_inv c" and "n \<le> length (c_rest c)"
  shows "c_inv (c_consume c n) \<and> c_rest (c_consume c n) = drop n (c_rest c) \<and>
    total_consumed (c_consume c n) = total_consumed c + n \<and> total_size (c_consume c n) = total_size c \<and>
    c_buffers (c_consume c n) = c_buffers c"
proof -
  let ?bs = "drop (next_elem c) (c_buffers c)"
  obtain el off where l: "consume_loop ?bs n (next_elem c) (next_elem_offset c) = (el, off)"
    by (cases "consume_loop ?bs n (next_elem c) (next_elem_offset c)")
  have "next_elem_offset c > 0 \<longrightarrow> (case ?bs of [] \<Rightarrow> False | b # _ \<Rightarrow> next_elem_offset c < buf_size b)"
    using assms(1) by (auto simp: c_inv_def Cons_nth_drop_Suc [symmetric] split: list.splits)
  moreover have "n \<le> buffer_size ?bs - next_elem_offset c" using assms(2) by (simp add: c_rest_def)
  ultimately have pos: "next_elem c \<le> el" "drop off (addrs (drop (el - next_elem c) ?bs)) = drop n (c_rest c)"
    "off > 0 \<longrightarrow> el - next_elem c < length ?bs \<and> off < buf_size (?bs ! (el - next_elem c))"
    using consume_loop_pos [OF _ _ l] by (auto simp: c_rest_def)
  then have new: "drop off (addrs (drop el (c_buffers c))) = drop n (c_rest c)"
    "off > 0 \<longrightarrow> el < length (c_buffers c) \<and> off < buf_size (c_buffers c ! el)"
    by auto
  have eq: "c_consume c n = c\<lparr>total_consumed := total_consumed c + n, next_elem := el, next_elem_offset := off\<rparr>"
    by (simp add: c_consume_def l)
  have "c_rest (c_consume c n) = drop off (addrs (drop el (c_buffers c)))" by (simp add: c_rest_def eq)
  with new(1) have rest: "c_rest (c_consume c n) = drop n (c_rest c)" by simp
  moreover have "drop n (c_rest c) = drop (total_consumed c + n) (addrs (c_buffers c))"
    using assms(1) by (simp add: c_inv_def add.commute)
  moreover have "total_consumed c + n \<le> total_size c"
    using assms by (auto simp: c_inv_def)
  ultimately show ?thesis using assms(1) new(2) by (simp add: c_inv_def eq)
qed

end
