(* ===== verification/AsioSockets.thy ===== *)
theory AsioSockets
  imports AsioBase
begin

text \<open>
  The synchronous socket operations of detail/impl/socket_ops.ipp that the echo server reaches:
  sending, receiving, accepting, waiting for readiness and asking for the peer, with their retry
  loops, over the WinSock calls as parameters. \<open>None\<close> is a loop that does not return.
\<close>

section \<open>Error codes and socket states\<close>

definition sys :: "u32 \<Rightarrow> error_code" where
  "sys v = Ec system_category v"

definition bad_descriptor :: error_code where "bad_descriptor = sys 10009"
definition would_block :: error_code where "would_block = sys 10035"
definition try_again :: error_code where "try_again = sys 1237"
definition connection_aborted :: error_code where "connection_aborted = sys 10053"
definition connection_reset :: error_code where "connection_reset = sys 10054"
definition connection_refused :: error_code where "connection_refused = sys 10061"
definition not_connected :: error_code where "not_connected = sys 10057"

definition ERROR_NETNAME_DELETED :: u32 where "ERROR_NETNAME_DELETED = 64"
definition ERROR_PORT_UNREACHABLE :: u32 where "ERROR_PORT_UNREACHABLE = 1234"
definition WSAEMSGSIZE :: u32 where "WSAEMSGSIZE = 10040"
definition ERROR_MORE_DATA :: u32 where "ERROR_MORE_DATA = 234"

definition invalid_socket :: u32 where "invalid_socket = 0xFFFFFFFF"

text \<open>The bits of \<open>state_type\<close>, an \<open>unsigned char\<close>.\<close>

definition user_set_non_blocking :: u8 where "user_set_non_blocking = 1"
definition internal_non_blocking :: u8 where "internal_non_blocking = 2"
definition non_blocking :: u8 where "non_blocking = user_set_non_blocking OR internal_non_blocking"
definition user_set_linger :: u8 where "user_set_linger = 8"
definition enable_connection_aborted :: u8 where "enable_connection_aborted = 4"
definition stream_oriented :: u8 where "stream_oriented = 16"

definition has_state :: "u8 \<Rightarrow> u8 \<Rightarrow> bool" where
  "has_state st b \<longleftrightarrow> st AND b \<noteq> 0"

section \<open>The system calls\<close>

text \<open>
  Each call gives its results, what \<open>WSAGetLastError\<close> returns after it and the new state of the
  world. \<open>WSASend\<close>: the result (0 for success) and the number of bytes it took. \<open>WSARecv\<close> into
  buffers of a given total size: the result and the bytes it stored. \<open>select\<close> for reading or
  writing: its result; the timeout is in milliseconds, \<open>None\<close> for no timeout. \<open>getpeername\<close>: the
  peer as text, \<open>None\<close> for a failure. \<open>getsockopt\<close> for the connect time: the time, \<open>None\<close> for a failure.
  \<open>sys_register\<close>: the error of associating a handle with the completion port, 0 for none. Then
  \<open>closesocket\<close>, \<open>ioctlsocket\<close> with \<open>FIONBIO\<close> and 0, and \<open>setsockopt\<close> with lingering switched off.
\<close>

record 'w net =
  WSASend :: "u32 \<Rightarrow> bytes \<Rightarrow> 'w \<Rightarrow> int \<times> nat \<times> u32 \<times> 'w"
  WSARecv :: "u32 \<Rightarrow> nat \<Rightarrow> 'w \<Rightarrow> int \<times> bytes \<times> u32 \<times> 'w"
  select_read :: "u32 \<Rightarrow> nat option \<Rightarrow> 'w \<Rightarrow> int \<times> u32 \<times> 'w"
  select_write :: "u32 \<Rightarrow> nat option \<Rightarrow> 'w \<Rightarrow> int \<times> u32 \<times> 'w"
  sys_accept :: "u32 \<Rightarrow> 'w \<Rightarrow> u32 \<times> u32 \<times> 'w"
  sys_getpeername :: "u32 \<Rightarrow> 'w \<Rightarrow> string option \<times> u32 \<times> 'w"
  sys_connect_time :: "u32 \<Rightarrow> 'w \<Rightarrow> u32 option \<times> u32 \<times> 'w"
  sys_register :: "u32 \<Rightarrow> 'w \<Rightarrow> u32 \<times> 'w"
  sys_closesocket :: "u32 \<Rightarrow> 'w \<Rightarrow> int \<times> u32 \<times> 'w"
  sys_set_blocking :: "u32 \<Rightarrow> 'w \<Rightarrow> 'w"
  sys_linger_off :: "u32 \<Rightarrow> 'w \<Rightarrow> 'w"

section \<open>Waiting\<close>

definition poll_timeout :: "u8 \<Rightarrow> int \<Rightarrow> nat option" where
  "poll_timeout st msec =
     (if has_state st user_set_non_blocking then Some 0 else if msec \<ge> 0 then Some (nat msec) else None)"

definition poll_ec :: "u8 \<Rightarrow> int \<Rightarrow> u32 \<Rightarrow> error_code" where
  "poll_ec st result err =
     (if result = 0 then (if has_state st user_set_non_blocking then would_block else no_error)
      else if result > 0 then no_error else sys err)"

definition poll_read :: "'w net \<Rightarrow> u32 \<Rightarrow> u8 \<Rightarrow> int \<Rightarrow> 'w \<Rightarrow> int \<times> error_code \<times> 'w" where
  "poll_read N s st msec w =
     (if s = invalid_socket then (- 1, bad_descriptor, w)
      else let (result, err, w) = select_read N s (poll_timeout st msec) w
           in (result, poll_ec st result err, w))"

definition poll_write :: "'w net \<Rightarrow> u32 \<Rightarrow> u8 \<Rightarrow> int \<Rightarrow> 'w \<Rightarrow> int \<times> error_code \<times> 'w" where
  "poll_write N s st msec w =
     (if s = invalid_socket then (- 1, bad_descriptor, w)
      else let (result, err, w) = select_write N s (poll_timeout st msec) w
           in (result, poll_ec st result err, w))"

section \<open>Sending\<close>

definition sock_send :: "'w net \<Rightarrow> u32 \<Rightarrow> bytes \<Rightarrow> 'w \<Rightarrow> int \<times> error_code \<times> 'w" where
  "sock_send N s bs w =
     (let (result, bytes_transferred, err, w) = WSASend N s bs w;
          ec = (if err = ERROR_NETNAME_DELETED then connection_reset
                else if err = ERROR_PORT_UNREACHABLE then connection_refused else sys err)
      in if result \<noteq> 0 then (- 1, ec, w) else (int bytes_transferred, no_error, w))"

partial_function (option) send_loop ::
  "'w net \<Rightarrow> u32 \<Rightarrow> u8 \<Rightarrow> bytes \<Rightarrow> 'w \<Rightarrow> (nat \<times> error_code \<times> 'w) option" where
  "send_loop N s st bs w =
     (let (bytes, ec, w) = sock_send N s bs w
      in if bytes \<ge> 0 then Some (nat bytes, ec, w)
      else if has_state st user_set_non_blocking \<or> (ec \<noteq> would_block \<and> ec \<noteq> try_again) then Some (0, ec, w)
      else let (r, ec, w) = poll_write N s 0 (- 1) w
           in if r < 0 then Some (0, ec, w) else send_loop N s st bs w)"

definition sync_send ::
  "'w net \<Rightarrow> u32 \<Rightarrow> u8 \<Rightarrow> bytes \<Rightarrow> bool \<Rightarrow> 'w \<Rightarrow> (nat \<times> error_code \<times> 'w) option" where
  "sync_send N s st bs all_empty w =
     (if s = invalid_socket then Some (0, bad_descriptor, w)
      else if all_empty \<and> has_state st stream_oriented then Some (0, no_error, w)
      else send_loop N s st bs w)"

section \<open>Receiving\<close>

text \<open>On a message that is too long for the buffers the received part counts as a success.\<close>

definition sock_recv :: "'w net \<Rightarrow> u32 \<Rightarrow> nat \<Rightarrow> 'w \<Rightarrow> bytes option \<times> error_code \<times> 'w" where
  "sock_recv N s sz w =
     (let (result, got, err, w) = WSARecv N s sz w;
          (result, ec) =
            (if err = ERROR_NETNAME_DELETED then (result, connection_reset)
             else if err = ERROR_PORT_UNREACHABLE then (result, connection_refused)
             else if err = WSAEMSGSIZE \<or> err = ERROR_MORE_DATA then (0, sys err)
             else (result, sys err))
      in if result \<noteq> 0 then (None, ec, w) else (Some got, no_error, w))"

partial_function (option) recv_loop ::
  "'w net \<Rightarrow> u32 \<Rightarrow> u8 \<Rightarrow> nat \<Rightarrow> 'w \<Rightarrow> (bytes \<times> error_code \<times> 'w) option" where
  "recv_loop N s st sz w =
     (let (got, ec, w) = sock_recv N s sz w
      in if got \<noteq> None \<and> got \<noteq> Some [] then Some (the got, ec, w)
      else if has_state st stream_oriented \<and> got = Some [] then Some ([], ec_eof, w)
      else if has_state st user_set_non_blocking \<or> (ec \<noteq> would_block \<and> ec \<noteq> try_again) then Some ([], ec, w)
      else let (r, ec, w) = poll_read N s 0 (- 1) w
           in if r < 0 then Some ([], ec, w) else recv_loop N s st sz w)"

definition sync_recv ::
  "'w net \<Rightarrow> u32 \<Rightarrow> u8 \<Rightarrow> nat \<Rightarrow> bool \<Rightarrow> 'w \<Rightarrow> (bytes \<times> error_code \<times> 'w) option" where
  "sync_recv N s st sz all_empty w =
     (if s = invalid_socket then Some ([], bad_descriptor, w)
      else if all_empty \<and> has_state st stream_oriented then Some ([], no_error, w)
      else recv_loop N s st sz w)"

section \<open>Accepting\<close>

definition sock_accept :: "'w net \<Rightarrow> u32 \<Rightarrow> 'w \<Rightarrow> u32 \<times> error_code \<times> 'w" where
  "sock_accept N s w =
     (if s = invalid_socket then (invalid_socket, bad_descriptor, w)
      else let (new_s, err, w) = sys_accept N s w
           in if new_s = invalid_socket then (new_s, sys err, w) else (new_s, no_error, w))"

partial_function (option) sync_accept :: "'w net \<Rightarrow> u32 \<Rightarrow> u8 \<Rightarrow> 'w \<Rightarrow> (u32 \<times> error_code \<times> 'w) option" where
  "sync_accept N s st w =
     (let (new_socket, ec, w) = sock_accept N s w
      in if new_socket \<noteq> invalid_socket then Some (new_socket, ec, w)
      else if (ec = would_block \<or> ec = try_again) \<and> has_state st user_set_non_blocking
      then Some (invalid_socket, ec, w)
      else if ec = connection_aborted \<and> has_state st enable_connection_aborted
      then Some (invalid_socket, ec, w)
      else if ec \<noteq> would_block \<and> ec \<noteq> try_again \<and> ec \<noteq> connection_aborted then Some (invalid_socket, ec, w)
      else let (r, ec, w) = poll_read N s 0 (- 1) w
           in if r < 0 then Some (invalid_socket, ec, w) else sync_accept N s st w)"

text \<open>
  Closing a socket, and the service's \<open>accept\<close> into a closed socket object, which gives the handle
  and its new state. A new handle that cannot be registered is closed again.
\<close>

definition close_socket :: "'w net \<Rightarrow> u32 \<Rightarrow> u8 \<Rightarrow> bool \<Rightarrow> 'w \<Rightarrow> int \<times> error_code \<times> u8 \<times> 'w" where
  "close_socket N s st destruction w =
     (if s = invalid_socket then (0, no_error, st, w)
      else
        let w = (if destruction \<and> has_state st user_set_linger then sys_linger_off N s w else w);
            (result, err, w) = sys_closesocket N s w
        in if result \<noteq> 0 \<and> (sys err = would_block \<or> sys err = try_again) then
             let (result, err, w) = sys_closesocket N s (sys_set_blocking N s w)
             in (result, if result = 0 then no_error else sys err, st AND NOT non_blocking, w)
           else (result, if result = 0 then no_error else sys err, st, w))"

definition do_assign :: "'w net \<Rightarrow> u32 \<Rightarrow> 'w \<Rightarrow> error_code \<times> u8 \<times> 'w" where
  "do_assign N native_socket w =
     (let (err, w) = sys_register N native_socket w
      in if err \<noteq> 0 then (sys err, 0, w) else (no_error, stream_oriented, w))"

definition service_accept :: "'w net \<Rightarrow> u32 \<Rightarrow> u8 \<Rightarrow> 'w \<Rightarrow> (u32 \<times> u8 \<times> error_code \<times> 'w) option" where
  "service_accept N s st w =
     map_option (\<lambda>(new_socket, ec, w).
       if new_socket = invalid_socket then (invalid_socket, 0, ec, w)
       else case do_assign N new_socket w of (ec, new_st, w) \<Rightarrow>
         if ec_set ec then
           (case close_socket N new_socket 0 True w of (_, _, _, w) \<Rightarrow> (invalid_socket, 0, ec, w))
         else (new_socket, new_st, ec, w)) (sync_accept N s st w)"

section \<open>The peer\<close>

text \<open>\<open>cached\<close> holds the endpoint the socket object knows from its accept, if it does.\<close>

definition getpeername :: "'w net \<Rightarrow> u32 \<Rightarrow> string option \<Rightarrow> 'w \<Rightarrow> string option \<times> error_code \<times> 'w" where
  "getpeername N s cached w =
     (if s = invalid_socket then (None, bad_descriptor, w)
      else case cached of
        Some addr \<Rightarrow>
          (case sys_connect_time N s w of
             (None, err, w) \<Rightarrow> (None, sys err, w)
           | (Some connect_time, err, w) \<Rightarrow>
               if connect_time = 0xFFFFFFFF then (None, not_connected, w) else (Some addr, no_error, w))
      | None \<Rightarrow>
          (case sys_getpeername N s w of
             (None, err, w) \<Rightarrow> (None, sys err, w)
           | (Some addr, err, w) \<Rightarrow> (Some addr, no_error, w)))"

section \<open>Documented behaviour of the calls\<close>

text \<open>
  What WinSock documents of a connected, blocking stream socket \<open>s\<close>: \<open>WSASend\<close> takes at most the
  bytes it is given and, when it succeeds, at least one of them, and does not fail because it would
  block; a failure sets an error. \<open>WSARecv\<close> stores at most as many bytes as there is room for.
  \<open>wire\<close> is what has been sent on the socket, \<open>input\<close> what is still to be received from it.
\<close>

definition send_documented :: "'w net \<Rightarrow> u32 \<Rightarrow> ('w \<Rightarrow> bytes) \<Rightarrow> bool" where
  "send_documented N s wire \<longleftrightarrow> s \<noteq> invalid_socket \<and>
     (\<forall>bs w r n err w'. WSASend N s bs w = (r, n, err, w') \<longrightarrow>
        (r = 0 \<longrightarrow> n \<le> length bs \<and> (bs \<noteq> [] \<longrightarrow> 0 < n) \<and> wire w' = wire w @ take n bs) \<and>
        (r \<noteq> 0 \<longrightarrow> err \<notin> {0, 10035, 1237} \<and> wire w' = wire w))"

definition recv_documented :: "'w net \<Rightarrow> u32 \<Rightarrow> ('w \<Rightarrow> bytes) \<Rightarrow> bool" where
  "recv_documented N s input \<longleftrightarrow> s \<noteq> invalid_socket \<and>
     (\<forall>sz w r got err w'. WSARecv N s sz w = (r, got, err, w') \<longrightarrow>
        (r = 0 \<longrightarrow> length got \<le> sz \<and> input w = got @ input w') \<and>
        (r \<noteq> 0 \<longrightarrow> err \<notin> {0, 10035, 1237, 10040, 234} \<and> input w' = input w))"

lemma sys_inject [simp]: "sys a = sys b \<longleftrightarrow> a = b"
  by (simp add: sys_def)

lemma ec_set_sys [simp]: "ec_set (sys a) \<longleftrightarrow> a \<noteq> 0"
  by (simp add: sys_def)

lemma sync_send_documented:
  assumes "send_documented N s wire" and "has_state st stream_oriented"
  shows "\<exists>n ec w'. sync_send N s st bs (bs = []) w = Some (n, ec, w') \<and> n \<le> length bs \<and>
    wire w' = wire w @ take n bs \<and> (\<not> ec_set ec \<longrightarrow> bs \<noteq> [] \<longrightarrow> 0 < n) \<and> (ec_set ec \<longrightarrow> n = 0) \<and>
    w' \<in> {w, snd (snd (snd (WSASend N s bs w)))}"
proof (cases "bs = []")
  case True
  then show ?thesis using assms by (simp add: sync_send_def send_documented_def)
next
  case False
  obtain r n err w' where c: "WSASend N s bs w = (r, n, err, w')" by (cases "WSASend N s bs w") auto
  have doc: "s \<noteq> invalid_socket" "r = 0 \<longrightarrow> n \<le> length bs \<and> 0 < n \<and> wire w' = wire w @ take n bs"
    "r \<noteq> 0 \<longrightarrow> err \<notin> {0, 10035, 1237} \<and> wire w' = wire w"
    using assms(1) c False unfolding send_documented_def by blast+
  show ?thesis
  proof (cases "r = 0")
    case True
    then have "send_loop N s st bs w = Some (n, no_error, w')"
      by (subst send_loop.simps) (simp add: sock_send_def c)
    then show ?thesis using doc True False by (simp add: sync_send_def c)
  next
    case fail: False
    define ec where "ec = (if err = ERROR_NETNAME_DELETED then connection_reset
      else if err = ERROR_PORT_UNREACHABLE then connection_refused else sys err)"
    have ec: "ec_set ec" "ec \<noteq> would_block" "ec \<noteq> try_again"
      using doc(3) fail by (auto simp: ec_def connection_reset_def connection_refused_def would_block_def try_again_def)
    have "send_loop N s st bs w = Some (0, ec, w')"
      using fail ec by (subst send_loop.simps) (simp add: sock_send_def c ec_def)
    then show ?thesis using doc fail False ec by (simp add: sync_send_def c)
  qed
qed

lemma sync_recv_documented:
  assumes "recv_documented N s input" and "has_state st stream_oriented"
  shows "\<exists>got ec w'. sync_recv N s st sz (sz = 0) w = Some (got, ec, w') \<and> length got \<le> sz \<and>
    input w = got @ input w' \<and> (\<not> ec_set ec \<longrightarrow> 0 < sz \<longrightarrow> got \<noteq> []) \<and> (ec_set ec \<longrightarrow> got = []) \<and>
    w' \<in> {w, snd (snd (snd (WSARecv N s sz w)))}"
proof (cases "sz = 0")
  case True
  then show ?thesis using assms by (simp add: sync_recv_def recv_documented_def)
next
  case False
  obtain r got err w' where c: "WSARecv N s sz w = (r, got, err, w')" by (cases "WSARecv N s sz w") auto
  have doc: "s \<noteq> invalid_socket" "r = 0 \<longrightarrow> length got \<le> sz \<and> input w = got @ input w'"
    "r \<noteq> 0 \<longrightarrow> err \<notin> {0, 10035, 1237, 10040, 234} \<and> input w' = input w"
    using assms(1) c unfolding recv_documented_def by blast+
  show ?thesis
  proof (cases "r = 0")
    case True
    then have "sock_recv N s sz w = (Some got, no_error, w')" by (simp add: sock_recv_def c)
    then have "recv_loop N s st sz w = Some (got, if got = [] then ec_eof else no_error, w')"
      using assms(2) by (subst recv_loop.simps) simp
    then show ?thesis using doc True False by (simp add: sync_recv_def c)
  next
    case fail: False
    define ec where "ec = (if err = ERROR_NETNAME_DELETED then connection_reset
      else if err = ERROR_PORT_UNREACHABLE then connection_refused else sys err)"
    have ec: "ec_set ec" "ec \<noteq> would_block" "ec \<noteq> try_again"
      using doc(3) fail by (auto simp: ec_def connection_reset_def connection_refused_def would_block_def try_again_def)
    have "sock_recv N s sz w = (None, ec, w')"
      using fail doc(3) by (simp add: sock_recv_def c ec_def WSAEMSGSIZE_def ERROR_MORE_DATA_def)
    then have "recv_loop N s st sz w = Some ([], ec, w')"
      using ec by (subst recv_loop.simps) simp
    then show ?thesis using doc fail False ec by (simp add: sync_recv_def c)
  qed
qed

end
