(* ===== verification/AsioTransfer.thy ===== *)
theory AsioTransfer
  imports AsioBuffers AsioSockets
begin

text \<open>
  The composed operations \<open>asio::write\<close> and \<open>asio::read\<close> (impl/write.hpp, impl/read.hpp) with the
  completion conditions (completion_condition.hpp). The loops are generic in the proxy for the
  untransferred part of the buffers and in the stream, as the templates are. The locale
  \<open>transfer_proxy\<close> is what the loops rely on of the proxy, \<open>write_stream\<close> and \<open>read_stream\<close> what they
  rely on of the stream.
\<close>

section \<open>Completion conditions\<close>

definition default_max_transfer_size :: nat where
  "default_max_transfer_size = 65536"

definition adapt_completion_condition_result_bool :: "bool \<Rightarrow> nat" where
  "adapt_completion_condition_result_bool result = (if result then 0 else default_max_transfer_size)"

definition adapt_completion_condition_result :: "nat \<Rightarrow> nat" where
  "adapt_completion_condition_result result = result"

definition transfer_all :: "error_code \<Rightarrow> nat \<Rightarrow> nat" where
  "transfer_all err bytes_transferred = (if ec_set err then 0 else default_max_transfer_size)"

definition transfer_at_least :: "nat \<Rightarrow> error_code \<Rightarrow> nat \<Rightarrow> nat" where
  "transfer_at_least minimum err bytes_transferred =
     (if ec_set err \<or> bytes_transferred \<ge> minimum then 0 else default_max_transfer_size)"

definition transfer_exactly :: "nat \<Rightarrow> error_code \<Rightarrow> nat \<Rightarrow> nat" where
  "transfer_exactly sz err bytes_transferred =
     (if ec_set err \<or> bytes_transferred \<ge> sz then 0
      else if sz - bytes_transferred < default_max_transfer_size then sz - bytes_transferred
      else default_max_transfer_size)"

section \<open>The loops\<close>

type_synonym mem = "nat \<Rightarrow> u8"

record 'c proxy =
  p_empty :: "'c \<Rightarrow> bool"
  p_prepare :: "'c \<Rightarrow> nat \<Rightarrow> buf list"
  p_consume :: "'c \<Rightarrow> nat \<Rightarrow> 'c"
  p_consumed :: "'c \<Rightarrow> nat"

text \<open>
  \<open>write_some\<close> is given the bytes of the prepared buffers; \<open>read_some\<close> gives at most as many bytes as
  the prepared buffers have room for, which are stored in the buffers in order.
\<close>

partial_function (option) write_loop ::
  "'c proxy \<Rightarrow> (bytes \<Rightarrow> 'w \<Rightarrow> (nat \<times> error_code \<times> 'w) option) \<Rightarrow> (error_code \<Rightarrow> nat \<Rightarrow> nat) \<Rightarrow>
   mem \<Rightarrow> 'c \<Rightarrow> error_code \<Rightarrow> 'w \<Rightarrow> (nat \<times> error_code \<times> 'w) option" where
  "write_loop P write_some completion_condition M tmp ec w =
     (if \<not> p_empty P tmp then
        (let max_size = adapt_completion_condition_result (completion_condition ec (p_consumed P tmp))
         in if max_size \<noteq> 0 then
              Option.bind (write_some (map M (addrs (p_prepare P tmp max_size))) w) (\<lambda>(n, ec, w).
                write_loop P write_some completion_condition M (p_consume P tmp n) ec w)
            else Some (p_consumed P tmp, ec, w))
      else Some (p_consumed P tmp, ec, w))"

fun store :: "nat list \<Rightarrow> bytes \<Rightarrow> mem \<Rightarrow> mem" where
  "store (a # as) (b # bs) M = store as bs (M(a := b))"
| "store _ _ M = M"

lemma store_Nil [simp]: "store as [] M = M"
  by (cases as) simp_all

lemma store_take: "length bs \<le> j \<Longrightarrow> store (take j as) bs M = store as bs M"
proof (induction as arbitrary: bs j M)
  case (Cons a as)
  then show ?case by (cases bs; cases j) (simp_all add: fun_upd_def)
qed simp

lemma store_append:
  "length bs \<le> length as \<Longrightarrow> store (drop (length bs) as) cs (store as bs M) = store as (bs @ cs) M"
proof (induction as arbitrary: bs M)
  case (Cons a as)
  then show ?case by (cases bs) (simp_all add: fun_upd_def)
qed simp

lemma store_other: "a \<notin> set as \<Longrightarrow> store as bs M a = M a"
  by (induction as bs M rule: store.induct) auto

lemma store_read: "distinct as \<Longrightarrow> length bs \<le> length as \<Longrightarrow> map (store as bs M) (take (length bs) as) = bs"
  by (induction as bs M rule: store.induct) (auto simp: store_other)

partial_function (option) read_loop ::
  "'c proxy \<Rightarrow> (nat \<Rightarrow> 'w \<Rightarrow> (bytes \<times> error_code \<times> 'w) option) \<Rightarrow> (error_code \<Rightarrow> nat \<Rightarrow> nat) \<Rightarrow>
   mem \<Rightarrow> 'c \<Rightarrow> error_code \<Rightarrow> 'w \<Rightarrow> (nat \<times> error_code \<times> mem \<times> 'w) option" where
  "read_loop P read_some completion_condition M tmp ec w =
     (if \<not> p_empty P tmp then
        (let max_size = adapt_completion_condition_result (completion_condition ec (p_consumed P tmp));
             bufs = p_prepare P tmp max_size
         in if max_size \<noteq> 0 then
              Option.bind (read_some (buffer_size bufs) w) (\<lambda>(got, ec, w).
                read_loop P read_some completion_condition (store (addrs bufs) got M)
                  (p_consume P tmp (length got)) ec w)
            else Some (p_consumed P tmp, ec, M, w))
      else Some (p_consumed P tmp, ec, M, w))"

text \<open>The proxies of detail/consuming_buffers.hpp: for a sequence, one buffer and two.\<close>

definition seq_proxy :: "consuming proxy" where
  "seq_proxy = \<lparr>p_empty = c_empty, p_prepare = c_prepare, p_consume = c_consume, p_consumed = total_consumed\<rparr>"

definition single_proxy :: "consuming1 proxy" where
  "single_proxy = \<lparr>p_empty = c1_empty, p_prepare = (\<lambda>c m. [c1_prepare c m]), p_consume = c1_consume,
     p_consumed = c1_total_consumed\<rparr>"

definition pair_proxy :: "consuming2 proxy" where
  "pair_proxy = \<lparr>p_empty = c2_empty, p_prepare = c2_prepare, p_consume = c2_consume, p_consumed = c2_total_consumed\<rparr>"

definition write_ec where
  "write_ec P write_some M tmp completion_condition w = write_loop P write_some completion_condition M tmp no_error w"

definition write_throw where
  "write_throw P write_some M tmp completion_condition w =
     map_option (\<lambda>(n, ec, w). (throw_error ec n, w)) (write_ec P write_some M tmp completion_condition w)"

definition read_ec where
  "read_ec P read_some M tmp completion_condition w = read_loop P read_some completion_condition M tmp no_error w"

definition read_throw where
  "read_throw P read_some M tmp completion_condition w =
     map_option (\<lambda>(n, ec, M, w). (throw_error ec n, M, w)) (read_ec P read_some M tmp completion_condition w)"

section \<open>The proxy's contract\<close>

text \<open>\<open>rest c\<close> lists the addresses of the bytes that are left.\<close>

locale transfer_proxy =
  fixes P :: "'c proxy" and inv :: "'c \<Rightarrow> bool" and rest :: "'c \<Rightarrow> nat list"
  assumes empty: "inv c \<Longrightarrow> p_empty P c \<longleftrightarrow> rest c = []"
    and prepare: "inv c \<Longrightarrow> addrs (p_prepare P c m) = take (buffer_size (p_prepare P c m)) (rest c)"
    and prepare_max: "inv c \<Longrightarrow> buffer_size (p_prepare P c m) \<le> m"
    and prepare_pos: "inv c \<Longrightarrow> 0 < m \<Longrightarrow> rest c \<noteq> [] \<Longrightarrow> 0 < buffer_size (p_prepare P c m)"
    and consume: "inv c \<Longrightarrow> n \<le> length (rest c) \<Longrightarrow> inv (p_consume P c n) \<and>
      rest (p_consume P c n) = drop n (rest c) \<and> p_consumed P (p_consume P c n) = p_consumed P c + n"

locale write_stream =
  fixes write_some :: "bytes \<Rightarrow> 'w \<Rightarrow> (nat \<times> error_code \<times> 'w) option" and wire :: "'w \<Rightarrow> bytes"
  assumes write_some: "\<exists>n ec w'. write_some bs w = Some (n, ec, w') \<and> n \<le> length bs \<and>
    wire w' = wire w @ take n bs \<and> (\<not> ec_set ec \<longrightarrow> bs \<noteq> [] \<longrightarrow> 0 < n)"

locale read_stream =
  fixes read_some :: "nat \<Rightarrow> 'w \<Rightarrow> (bytes \<times> error_code \<times> 'w) option" and input :: "'w \<Rightarrow> bytes"
  assumes read_some: "\<exists>got ec w'. read_some sz w = Some (got, ec, w') \<and> length got \<le> sz \<and>
    input w = got @ input w' \<and> (\<not> ec_set ec \<longrightarrow> 0 < sz \<longrightarrow> got \<noteq> [])"

text \<open>A completion condition that stops at errors, and where it stops otherwise.\<close>

definition stops_at_errors :: "(error_code \<Rightarrow> nat \<Rightarrow> nat) \<Rightarrow> bool" where
  "stops_at_errors cc \<longleftrightarrow> (\<forall>e k. ec_set e \<longrightarrow> cc e k = 0)"

lemma conditions_stop [simp]:
  "stops_at_errors transfer_all" "stops_at_errors (transfer_at_least m)" "stops_at_errors (transfer_exactly m)"
  by (simp_all add: stops_at_errors_def transfer_all_def transfer_at_least_def transfer_exactly_def)

locale writer = transfer_proxy P inv rest + write_stream write_some wire
  for P :: "'c proxy" and inv rest and write_some :: "bytes \<Rightarrow> 'w \<Rightarrow> (nat \<times> error_code \<times> 'w) option" and wire
begin

lemma write_loop_transfers:
  assumes "inv c" and "stops_at_errors cc"
  shows "\<exists>n ec' w'. write_loop P write_some cc M c ec w = Some (p_consumed P c + n, ec', w') \<and>
    n \<le> length (rest c) \<and> wire w' = wire w @ take n (map M (rest c)) \<and>
    (\<not> ec_set ec' \<longrightarrow> n = length (rest c) \<or> cc ec' (p_consumed P c + n) = 0) \<and>
    (\<forall>K. (\<forall>e j. cc e j \<le> K - j) \<longrightarrow> p_consumed P c \<le> K \<longrightarrow> p_consumed P c + n \<le> K)"
  using assms(1)
proof (induction "length (rest c) + (if ec_set ec then 0 else 1)" arbitrary: c ec w rule: less_induct)
  case less
  show ?case
  proof (cases "rest c = [] \<or> cc ec (p_consumed P c) = 0")
    case True
    then have "write_loop P write_some cc M c ec w = Some (p_consumed P c, ec, w)"
      using empty [OF less.prems] by (subst write_loop.simps) (auto simp: adapt_completion_condition_result_def)
    then show ?thesis using True by auto
  next
    case False
    let ?m = "cc ec (p_consumed P c)"
    let ?bs = "map M (addrs (p_prepare P c ?m))"
    have err: "\<not> ec_set ec" using False assms(2) by (auto simp: stops_at_errors_def)
    have bs: "?bs = take (buffer_size (p_prepare P c ?m)) (map M (rest c))"
      using prepare [OF less.prems, of ?m] by (simp add: take_map)
    have ne: "?bs \<noteq> []" using prepare_pos [OF less.prems, of ?m] False bs by auto
    from write_some [of ?bs w] obtain n ec1 w1 where
      ws: "write_some ?bs w = Some (n, ec1, w1)" "n \<le> length ?bs"
      "wire w1 = wire w @ take n ?bs" "\<not> ec_set ec1 \<longrightarrow> ?bs \<noteq> [] \<longrightarrow> 0 < n"
      by (elim exE conjE) (rule that)
    have le: "n \<le> length (rest c)" "n \<le> buffer_size (p_prepare P c ?m)"
      using ws(2) unfolding bs by auto
    note co = consume [OF less.prems le(1)]
    have step: "write_loop P write_some cc M c ec w = write_loop P write_some cc M (p_consume P c n) ec1 w1"
      using False empty [OF less.prems] ws(1)
      by (subst write_loop.simps) (simp add: adapt_completion_condition_result_def)
    have "length (rest (p_consume P c n)) + (if ec_set ec1 then 0 else 1) < length (rest c) + (if ec_set ec then 0 else 1)"
      using co err ws(4) ne le(1) by auto
    from less.hyps [OF this conjunct1 [OF co], of w1] obtain k ec' w' where
      k: "write_loop P write_some cc M (p_consume P c n) ec1 w1 = Some (p_consumed P (p_consume P c n) + k, ec', w')"
        "k \<le> length (rest (p_consume P c n))" "wire w' = wire w1 @ take k (map M (rest (p_consume P c n)))"
        "\<not> ec_set ec' \<longrightarrow> k = length (rest (p_consume P c n)) \<or> cc ec' (p_consumed P (p_consume P c n) + k) = 0"
        "\<forall>K. (\<forall>e j. cc e j \<le> K - j) \<longrightarrow> p_consumed P (p_consume P c n) \<le> K \<longrightarrow>
           p_consumed P (p_consume P c n) + k \<le> K"
      by (elim exE conjE) (rule that)
    have "p_consumed P c + (n + k) \<le> K" if K: "\<forall>e j. cc e j \<le> K - j" "p_consumed P c \<le> K" for K
    proof -
      have "n \<le> ?m" using le(2) prepare_max [OF less.prems, of ?m] by simp
      also have "\<dots> \<le> K - p_consumed P c" using K(1) by simp
      finally show ?thesis using k(5) K co by (auto simp: add.assoc)
    qed
    note bound = this
    have "take n ?bs = take n (map M (rest c))" unfolding bs using le(2) by (simp add: min_def)
    then have "wire w' = wire w @ take (n + k) (map M (rest c))"
      using k(3) ws(3) co by (simp add: take_add drop_map)
    with k(1,2,4) co le step bound show ?thesis
      by (intro exI [of _ "n + k"] exI [of _ ec'] exI [of _ w']) (auto simp: add.assoc)
  qed
qed

end

locale reader = transfer_proxy P inv rest + read_stream read_some input
  for P :: "'c proxy" and inv rest and read_some :: "nat \<Rightarrow> 'w \<Rightarrow> (bytes \<times> error_code \<times> 'w) option" and input
begin

lemma read_loop_transfers:
  assumes "inv c" and "stops_at_errors cc"
  shows "\<exists>got ec' w'. read_loop P read_some cc M c ec w = Some (p_consumed P c + length got, ec', store (rest c) got M, w') \<and>
    length got \<le> length (rest c) \<and> input w = got @ input w' \<and>
    (\<not> ec_set ec' \<longrightarrow> length got = length (rest c) \<or> cc ec' (p_consumed P c + length got) = 0) \<and>
    (\<forall>K. (\<forall>e j. cc e j \<le> K - j) \<longrightarrow> p_consumed P c \<le> K \<longrightarrow> p_consumed P c + length got \<le> K)"
  using assms(1)
proof (induction "length (rest c) + (if ec_set ec then 0 else 1)" arbitrary: c ec w M rule: less_induct)
  case less
  show ?case
  proof (cases "rest c = [] \<or> cc ec (p_consumed P c) = 0")
    case True
    then have "read_loop P read_some cc M c ec w = Some (p_consumed P c, ec, M, w)"
      using empty [OF less.prems] by (subst read_loop.simps) (auto simp: adapt_completion_condition_result_def Let_def)
    moreover have "store (rest c) [] M = M" by (cases "rest c") simp_all
    ultimately show ?thesis using True by (intro exI [of _ "[]"] exI [of _ ec] exI [of _ w]) auto
  next
    case False
    let ?bufs = "p_prepare P c (cc ec (p_consumed P c))"
    have err: "\<not> ec_set ec" using False assms(2) by (auto simp: stops_at_errors_def)
    have pos: "0 < buffer_size ?bufs" using prepare_pos [OF less.prems] False by auto
    from read_some [of "buffer_size ?bufs" w] obtain got ec1 w1 where
      rs: "read_some (buffer_size ?bufs) w = Some (got, ec1, w1)" "length got \<le> buffer_size ?bufs"
      "input w = got @ input w1" "\<not> ec_set ec1 \<longrightarrow> 0 < buffer_size ?bufs \<longrightarrow> got \<noteq> []"
      by (elim exE conjE) (rule that)
    have pre: "addrs ?bufs = take (buffer_size ?bufs) (rest c)" using prepare [OF less.prems] .
    have "buffer_size ?bufs \<le> length (rest c)" using arg_cong [OF pre, of length] by simp
    with rs(2) have le: "length got \<le> length (rest c)" by simp
    note co = consume [OF less.prems le]
    let ?M = "store (addrs ?bufs) got M"
    have M: "?M = store (rest c) got M" using pre store_take [OF rs(2), of "rest c" M] by simp
    have step: "read_loop P read_some cc M c ec w = read_loop P read_some cc ?M (p_consume P c (length got)) ec1 w1"
      using False empty [OF less.prems] rs(1)
      by (subst read_loop.simps) (simp add: adapt_completion_condition_result_def Let_def)
    have "length (rest (p_consume P c (length got))) + (if ec_set ec1 then 0 else 1)
        < length (rest c) + (if ec_set ec then 0 else 1)"
      using co err rs(4) pos le by (cases got) auto
    from less.hyps [OF this conjunct1 [OF co], of ?M w1] obtain more ec' w' where
      k: "read_loop P read_some cc ?M (p_consume P c (length got)) ec1 w1
        = Some (p_consumed P (p_consume P c (length got)) + length more, ec',
            store (rest (p_consume P c (length got))) more ?M, w')"
        "length more \<le> length (rest (p_consume P c (length got)))" "input w1 = more @ input w'"
        "\<not> ec_set ec' \<longrightarrow> length more = length (rest (p_consume P c (length got))) \<or>
           cc ec' (p_consumed P (p_consume P c (length got)) + length more) = 0"
        "\<forall>K. (\<forall>e j. cc e j \<le> K - j) \<longrightarrow> p_consumed P (p_consume P c (length got)) \<le> K \<longrightarrow>
           p_consumed P (p_consume P c (length got)) + length more \<le> K"
      by (elim exE conjE) (rule that)
    have bound: "p_consumed P c + length (got @ more) \<le> K" if K: "\<forall>e j. cc e j \<le> K - j" "p_consumed P c \<le> K" for K
    proof -
      have "length got \<le> cc ec (p_consumed P c)" using rs(2) prepare_max [OF less.prems] le_trans by blast
      also have "\<dots> \<le> K - p_consumed P c" using K(1) by simp
      finally show ?thesis using k(5) K co by (auto simp: add.assoc)
    qed
    have "store (rest (p_consume P c (length got))) more ?M = store (rest c) (got @ more) M"
      using co store_append [OF le] by (simp add: M)
    with k(1-4) co le step rs(3) bound show ?thesis
      by (intro exI [of _ "got @ more"] exI [of _ ec'] exI [of _ w']) (auto simp: add.assoc)
  qed
qed

end

section \<open>What a write does to the rest of the world\<close>

lemma write_loop_rel:
  assumes "write_loop P write_some cc M c ec w = Some (n, ec', w')"
    and some: "\<And>bs w n ec w'. write_some bs w = Some (n, ec, w') \<Longrightarrow> R w w'"
    and refl: "\<And>w. R w w" and trans: "\<And>u v w. R u v \<Longrightarrow> R v w \<Longrightarrow> R u w"
  shows "R w w'"
proof -
  have "\<forall>c ec w n ec' w'. write_loop P write_some cc M c ec w = Some (n, ec', w') \<longrightarrow> R w w'"
  proof (rule write_loop.fixp_induct [of "\<lambda>f. \<forall>c ec w n ec' w'. f P write_some cc M c ec w = Some (n, ec', w') \<longrightarrow> R w w'"])
    show "option.admissible (\<lambda>f. \<forall>c ec w n ec' w'. (curry (curry (curry (curry (curry (curry f)))))) P write_some cc M c ec w = Some (n, ec', w') \<longrightarrow> R w w')"
      unfolding curry_def by (intro admissible_all option_admissible_at)
  qed (auto simp: refl Let_def split: if_splits bind_splits intro: trans some)
  then show ?thesis using assms(1) by blast
qed

section \<open>The three proxies\<close>

interpretation seq: transfer_proxy seq_proxy c_inv c_rest
proof unfold_locales
  fix c m n assume inv: "c_inv c"
  show "p_empty seq_proxy c \<longleftrightarrow> c_rest c = []" using c_empty_iff [OF inv] by (simp add: seq_proxy_def)
  show "addrs (p_prepare seq_proxy c m) = take (buffer_size (p_prepare seq_proxy c m)) (c_rest c)"
    and "buffer_size (p_prepare seq_proxy c m) \<le> m"
    using c_prepare_prefix(1,2) [OF inv] by (simp_all add: seq_proxy_def)
  show "0 < buffer_size (p_prepare seq_proxy c m)" if "0 < m" "c_rest c \<noteq> []"
    using c_prepare_prefix(5) [OF inv that(1)] c_empty_iff [OF inv] that(2) by (simp add: seq_proxy_def)
  show "c_inv (p_consume seq_proxy c n) \<and> c_rest (p_consume seq_proxy c n) = drop n (c_rest c) \<and>
      p_consumed seq_proxy (p_consume seq_proxy c n) = p_consumed seq_proxy c + n" if "n \<le> length (c_rest c)"
    using c_consume_rest [OF inv that] by (simp add: seq_proxy_def)
qed

definition c1_rest :: "consuming1 \<Rightarrow> nat list" where
  "c1_rest c = drop (c1_total_consumed c) (buf_addrs (c1_buffer c))"

interpretation single: transfer_proxy single_proxy "\<lambda>_. True" c1_rest
  by unfold_locales (auto simp: single_proxy_def c1_empty_def c1_prepare_def c1_consume_def c1_rest_def min_def add.commute)

definition c2_rest :: "consuming2 \<Rightarrow> nat list" where
  "c2_rest c = drop (c2_total_consumed c) (buf_addrs (c2_buffer0 c) @ buf_addrs (c2_buffer1 c))"

interpretation pair: transfer_proxy pair_proxy "\<lambda>_. True" c2_rest
proof unfold_locales
  fix c :: consuming2 and n m
  show "True \<and> c2_rest (p_consume pair_proxy c n) = drop n (c2_rest c) \<and>
      p_consumed pair_proxy (p_consume pair_proxy c n) = p_consumed pair_proxy c + n"
    by (simp add: pair_proxy_def c2_consume_def c2_rest_def add.commute del: drop_append)
qed (auto simp: pair_proxy_def c2_empty_def c2_prepare_def c2_rest_def Let_def min_def)

end
