(* ===== verification/AsioEcho.thy ===== *)
theory AsioEcho
  imports AsioTransfer
begin

text \<open>
  Stream sockets over the operations of AsioSockets, what \<open>asio::write\<close> and \<open>asio::read\<close> transfer on
  them, and the echo server of src/ServerAsio/main.cpp. A session runs in a detached thread, so an
  exception it does not catch ends the whole program.
\<close>

section \<open>Sockets as streams\<close>

definition socket_write_some ::
  "'w net \<Rightarrow> u32 \<Rightarrow> u8 \<Rightarrow> bytes \<Rightarrow> 'w \<Rightarrow> (nat \<times> error_code \<times> 'w) option" where
  "socket_write_some N s st bs w = sync_send N s st bs (bs = []) w"

definition socket_read_some ::
  "'w net \<Rightarrow> u32 \<Rightarrow> u8 \<Rightarrow> nat \<Rightarrow> 'w \<Rightarrow> (bytes \<times> error_code \<times> 'w) option" where
  "socket_read_some N s st sz w = sync_recv N s st sz (sz = 0) w"

text \<open>\<open>remote_endpoint\<close> of an accepted socket asks the system every time and throws if that fails.\<close>

definition remote_endpoint :: "'w net \<Rightarrow> u32 \<Rightarrow> 'w \<Rightarrow> (thrown + string) \<times> 'w" where
  "remote_endpoint N s w =
     (let (addr, ec, w) = getpeername N s None w in (throw_error ec (case addr of None \<Rightarrow> [] | Some a \<Rightarrow> a), w))"

lemma socket_write_stream:
  assumes "send_documented N s wire" and "has_state st stream_oriented"
  shows "write_stream (socket_write_some N s st) wire"
  using sync_send_documented [OF assms] unfolding write_stream_def socket_write_some_def by blast

lemma socket_read_stream:
  assumes "recv_documented N s input" and "has_state st stream_oriented"
  shows "read_stream (socket_read_some N s st) input"
  using sync_recv_documented [OF assms] unfolding read_stream_def socket_read_some_def by blast

text \<open>A loopback system that sends at most three and receives at most two bytes at a time.\<close>

type_synonym loop_world = "bytes \<times> bytes"

definition loop_net :: "loop_world net" where
  "loop_net = \<lparr>WSASend = (\<lambda>s bs (out, inp). (0, min 3 (length bs), 0, (out @ take (min 3 (length bs)) bs, inp))),
     WSARecv = (\<lambda>s sz (out, inp). (0, take (min 2 sz) inp, 0, (out, drop (min 2 sz) inp))),
     select_read = (\<lambda>s t w. (1, 0, w)), select_write = (\<lambda>s t w. (1, 0, w)),
     sys_accept = (\<lambda>s w. (7, 0, w)), sys_getpeername = (\<lambda>s w. (Some ''peer'', 0, w)),
     sys_connect_time = (\<lambda>s w. (Some 1, 0, w)),
     sys_register = (\<lambda>s w. (0, w)), sys_closesocket = (\<lambda>s w. (0, 0, w)),
     sys_set_blocking = (\<lambda>s w. w), sys_linger_off = (\<lambda>s w. w)\<rparr>"

lemma loop_net_documented: "send_documented loop_net 7 fst" "recv_documented loop_net 7 snd"
  by (auto simp: send_documented_def recv_documented_def loop_net_def invalid_socket_def)

lemma stream_state: "has_state stream_oriented stream_oriented"
  by (simp add: has_state_def stream_oriented_def)

interpretation loop_writer: writer seq_proxy c_inv c_rest "socket_write_some loop_net 7 stream_oriented" fst
  by (intro writer.intro seq.transfer_proxy_axioms socket_write_stream loop_net_documented stream_state)

interpretation loop_reader: reader seq_proxy c_inv c_rest "socket_read_some loop_net 7 stream_oriented" snd
  by (intro reader.intro seq.transfer_proxy_axioms socket_read_stream loop_net_documented stream_state)

section \<open>What write and read transfer\<close>

text \<open>The number of bytes a completion condition asks for.\<close>

lemma condition_ends:
  "\<not> ec_set ec \<Longrightarrow> transfer_all ec n \<noteq> 0"
  "\<not> ec_set ec \<Longrightarrow> transfer_at_least k ec n = 0 \<longleftrightarrow> k \<le> n"
  "\<not> ec_set ec \<Longrightarrow> transfer_exactly k ec n = 0 \<longleftrightarrow> k \<le> n"
  "transfer_exactly k ec n \<le> k - n"
  by (simp_all add: transfer_all_def transfer_at_least_def transfer_exactly_def default_max_transfer_size_def)

text \<open>
  C12: Writing a sequence of buffers to a connected stream socket returns, whatever the system does
  within its documented behaviour, and puts exactly the first \<open>n\<close> bytes of the buffers on the wire,
  in order, where \<open>n\<close> is the number returned. Without an error \<open>n\<close> is the total size under
  \<open>transfer_all\<close>, at least the wanted number of bytes under \<open>transfer_at_least\<close> (if the buffers have
  that many), and exactly that number under \<open>transfer_exactly\<close>.
\<close>

theorem write_transfers:
  assumes "send_documented N s wire" and "has_state st stream_oriented"
    and "cc = transfer_all \<or> cc = transfer_at_least k \<or> cc = transfer_exactly k"
  shows "\<exists>n ec w'. write_ec seq_proxy (socket_write_some N s st) M (c_new bs) cc w = Some (n, ec, w') \<and>
    n \<le> buffer_size bs \<and> wire w' = wire w @ take n (map M (addrs bs)) \<and>
    (\<not> ec_set ec \<longrightarrow> (cc = transfer_all \<longrightarrow> n = buffer_size bs) \<and>
       (cc = transfer_at_least k \<longrightarrow> min k (buffer_size bs) \<le> n) \<and>
       (cc = transfer_exactly k \<longrightarrow> n = min k (buffer_size bs)))"
proof -
  have "writer seq_proxy c_inv c_rest (socket_write_some N s st) wire"
    using socket_write_stream [OF assms(1,2)] seq.transfer_proxy_axioms by (rule writer.intro [rotated])
  from writer.write_loop_transfers [OF this c_inv_new [of bs], of cc M no_error w]
  obtain n ec w' where r: "write_loop seq_proxy (socket_write_some N s st) cc M (c_new bs) no_error w = Some (n, ec, w')"
    "n \<le> buffer_size bs" "wire w' = wire w @ take n (map M (addrs bs))"
    "\<not> ec_set ec \<longrightarrow> n = buffer_size bs \<or> cc ec n = 0" "\<forall>K. (\<forall>e j. cc e j \<le> K - j) \<longrightarrow> n \<le> K"
    using assms(3) by (auto simp: c_rest_def c_new_def seq_proxy_def)
  have "n \<le> k" if "cc = transfer_exactly k" using r(5) that condition_ends(4) by blast
  then have "\<not> ec_set ec \<longrightarrow> (cc = transfer_all \<longrightarrow> n = buffer_size bs) \<and>
       (cc = transfer_at_least k \<longrightarrow> min k (buffer_size bs) \<le> n) \<and>
       (cc = transfer_exactly k \<longrightarrow> n = min k (buffer_size bs))"
    using r(2,4) condition_ends(1-3) [of ec n] condition_ends(2,3) [of ec k n] by fastforce
  with r show ?thesis by (auto simp: write_ec_def)
qed

text \<open>Two buffers of four and five bytes, and a memory that holds at each address its number.\<close>

definition sample_bufs :: "buf list" where
  "sample_bufs = [buf_make 10 4, buf_make 20 5]"

definition sample_mem :: mem where
  "sample_mem a = of_nat a"

lemma sample_bufs_simps [simp]:
  "buffer_size sample_bufs = 9" "addrs sample_bufs = [10, 11, 12, 13, 20, 21, 22, 23, 24]"
  by (simp_all add: sample_bufs_def buf_make_def buf_addrs_def upt_rec)

lemma write_transfers_witness:
  "\<exists>n ec w'. write_ec seq_proxy (socket_write_some loop_net 7 stream_oriented) sample_mem
      (c_new sample_bufs) (transfer_exactly 5) ([], []) = Some (n, ec, w') \<and>
    fst w' = take n (map sample_mem (addrs sample_bufs)) \<and> (\<not> ec_set ec \<longrightarrow> n = 5)"
  using write_transfers [OF loop_net_documented(1) stream_state, of "transfer_exactly 5" 5 sample_mem sample_bufs "([], [])"]
  by auto

text \<open>
  C13: Reading into buffers that do not overlap returns and stores the first \<open>n\<close> bytes of the
  input in the buffers in order, \<open>n\<close> being the number returned; it takes no more from the input and
  changes no memory outside the buffers. Without an error \<open>n\<close> is as for \<open>write\<close>; with
  \<open>transfer_all\<close> the only way to return early is an error, the end of the stream included.
\<close>

theorem read_transfers:
  assumes "recv_documented N s input" and "has_state st stream_oriented" and "distinct (addrs bs)"
    and "cc = transfer_all \<or> cc = transfer_at_least k \<or> cc = transfer_exactly k"
  shows "\<exists>n ec M' w'. read_ec seq_proxy (socket_read_some N s st) M (c_new bs) cc w = Some (n, ec, M', w') \<and>
    n \<le> buffer_size bs \<and> input w = map M' (take n (addrs bs)) @ input w' \<and>
    (\<forall>a. a \<notin> set (addrs bs) \<longrightarrow> M' a = M a) \<and>
    (\<not> ec_set ec \<longrightarrow> (cc = transfer_all \<longrightarrow> n = buffer_size bs) \<and>
       (cc = transfer_at_least k \<longrightarrow> min k (buffer_size bs) \<le> n) \<and>
       (cc = transfer_exactly k \<longrightarrow> n = min k (buffer_size bs)))"
proof -
  have rd: "reader seq_proxy c_inv c_rest (socket_read_some N s st) input"
    using socket_read_stream [OF assms(1,2)] seq.transfer_proxy_axioms by (rule reader.intro [rotated])
  have cc: "stops_at_errors cc" using assms(4) by auto
  have p: "p_consumed seq_proxy (c_new bs) = 0" "c_rest (c_new bs) = addrs bs"
    by (simp_all add: seq_proxy_def c_new_def c_rest_def)
  obtain got ec w' where r: "read_loop seq_proxy (socket_read_some N s st) cc M (c_new bs) no_error w
      = Some (length got, ec, store (addrs bs) got M, w')"
    "length got \<le> length (addrs bs)" "input w = got @ input w'"
    "\<not> ec_set ec \<longrightarrow> length got = length (addrs bs) \<or> cc ec (length got) = 0"
    "\<forall>K. (\<forall>e j. cc e j \<le> K - j) \<longrightarrow> 0 \<le> K \<longrightarrow> length got \<le> K"
    using reader.read_loop_transfers [OF rd c_inv_new [of bs] cc, of M no_error w]
    unfolding p add_0 by (elim exE conjE) (rule that)
  have "length got \<le> k" if "cc = transfer_exactly k" using r(5) that condition_ends(4) by blast
  then have "\<not> ec_set ec \<longrightarrow> (cc = transfer_all \<longrightarrow> length got = buffer_size bs) \<and>
       (cc = transfer_at_least k \<longrightarrow> min k (buffer_size bs) \<le> length got) \<and>
       (cc = transfer_exactly k \<longrightarrow> length got = min k (buffer_size bs))"
    using r(2,4) condition_ends(1) [of ec "length got"] condition_ends(2,3) [of ec k "length got"] by fastforce
  moreover have "map (store (addrs bs) got M) (take (length got) (addrs bs)) = got"
    using store_read [OF assms(3)] r(2) by simp
  ultimately show ?thesis using r store_other by (auto simp: read_ec_def)
qed

lemma read_transfers_witness:
  "\<exists>n ec M' w'. read_ec seq_proxy (socket_read_some loop_net 7 stream_oriented) sample_mem
      (c_new sample_bufs) (transfer_exactly 3) ([], [1, 2, 3, 4]) = Some (n, ec, M', w') \<and>
    [1, 2, 3, 4] = map M' (take n (addrs sample_bufs)) @ snd w' \<and> M' 30 = 30 \<and> (\<not> ec_set ec \<longrightarrow> n = 3)"
  using read_transfers [OF loop_net_documented(2) stream_state, of sample_bufs "transfer_exactly 3" 3 sample_mem "([], [1, 2, 3, 4])"]
  by (force simp: sample_mem_def)

end
