(* ===== verification/EchoServer.thy ===== *)
theory EchoServer
  imports AsioEcho "HOL-Library.Sublist"
begin

text \<open>
  The echo server of src/ServerAsio/main.cpp. \<open>session_step\<close> is one statement of a session,
  \<open>echo_step\<close> one step of the program: the listening thread accepts a client and starts a detached
  thread for it, or one of the sessions takes a step. Nothing catches the exceptions of a session, so
  they end the whole program. The set-up of the listening socket \<open>l\<close> is not modelled.
\<close>

section \<open>The session\<close>

definition PORT :: u16 where
  "PORT = 27010"

definition MAX_LEN :: nat where
  "MAX_LEN = 1024"

datatype session_pc = At_start | At_read | At_eof | At_error | At_message bytes | At_write bytes | At_end

text \<open>Streaming a text, the peer's address and another text to \<open>std::cout\<close>, as C++17 orders it.\<close>

definition say_endpoint :: "'w net \<Rightarrow> u32 \<Rightarrow> string \<Rightarrow> string \<Rightarrow> 'w \<Rightarrow> (thrown + unit) \<times> string \<times> 'w" where
  "say_endpoint N s before after w =
     (case remote_endpoint N s w of
        (Inl e, w) \<Rightarrow> (Inl e, before, w)
      | (Inr addr, w) \<Rightarrow> (Inr (), before @ addr @ after @ ''\<newline>'', w))"

definition after_say :: "session_pc \<Rightarrow> (thrown + unit) \<times> string \<times> 'w \<Rightarrow> (thrown + session_pc) \<times> string \<times> 'w" where
  "after_say pc r = (case r of (x, out, w) \<Rightarrow> (map_sum id (\<lambda>_. pc) x, out, w))"

definition bytes_text :: "bytes \<Rightarrow> string" where
  "bytes_text bs = map (\<lambda>b. char_of (unat b)) bs"

fun session_step ::
  "'w net \<Rightarrow> u8 \<Rightarrow> u32 \<Rightarrow> session_pc \<Rightarrow> 'w \<Rightarrow> ((thrown + session_pc) \<times> string \<times> 'w) option" where
  "session_step N st s At_start w = Some (after_say At_read (say_endpoint N s ''Client connected '' [] w))"
| "session_step N st s At_read w =
     map_option (\<lambda>(got, ec, w).
       (Inr (if ec = ec_eof then At_eof else if ec_set ec then At_error else At_message got), [], w))
       (socket_read_some N s st MAX_LEN w)"
| "session_step N st s At_eof w =
     Some (after_say At_end (say_endpoint N s ''Connection closed cleanly by peer '' [] w))"
| "session_step N st s At_error w = Some (after_say At_end (say_endpoint N s ''Error with client '' [] w))"
| "session_step N st s (At_message bs) w =
     Some (after_say (At_write bs)
       (say_endpoint N s ''Incoming message from client '' ('': '' @ bytes_text bs) w))"
| "session_step N st s (At_write bs) w =
     map_option (\<lambda>(r, w). (map_sum id (\<lambda>_. At_read) r, [], w))
       (write_throw single_proxy (socket_write_some N s st) (store [0..<length bs] bs (\<lambda>_. 0))
          (c1_new (buf_make 0 (length bs))) transfer_all w)"
| "session_step N st s At_end w = Some (Inr At_end, [], w)"

text \<open>A session that runs alone; at its end the socket object is destroyed.\<close>

partial_function (option) session ::
  "'w net \<Rightarrow> u8 \<Rightarrow> u32 \<Rightarrow> session_pc \<Rightarrow> string \<Rightarrow> 'w \<Rightarrow> ((thrown + unit) \<times> string \<times> 'w) option" where
  "session N st s pc out w =
     (if pc = At_end then (case close_socket N s st True w of (_, _, _, w) \<Rightarrow> Some (Inr (), out, w))
      else Option.bind (session_step N st s pc w) (\<lambda>(r, shown, w).
        case r of Inl e \<Rightarrow> Some (Inl e, out @ shown, w)
        | Inr pc \<Rightarrow> session N st s pc (out @ shown) w))"

section \<open>The program\<close>

record 'w echo =
  world :: 'w
  sessions :: "(u32 \<times> u8 \<times> session_pc) list"
  echo_out :: string
  ended :: "thrown option"

inductive echo_step :: "'w net \<Rightarrow> u32 \<Rightarrow> u8 \<Rightarrow> 'w echo \<Rightarrow> 'w echo \<Rightarrow> bool"
  for N :: "'w net" and l :: u32 and lst :: u8 where
  accepted: "ended p = None \<Longrightarrow> service_accept N l lst (world p) = Some (s, st, ec, w) \<Longrightarrow> \<not> ec_set ec \<Longrightarrow>
    echo_step N l lst p (p\<lparr>world := w, sessions := sessions p @ [(s, st, At_start)]\<rparr>)"
| accept_throws: "ended p = None \<Longrightarrow> service_accept N l lst (world p) = Some (s, st, ec, w) \<Longrightarrow> ec_set ec \<Longrightarrow>
    echo_step N l lst p (p\<lparr>world := w, ended := Some (system_error ec)\<rparr>)"
| session_goes_on: "ended p = None \<Longrightarrow> i < length (sessions p) \<Longrightarrow> sessions p ! i = (s, st, pc) \<Longrightarrow> pc \<noteq> At_end \<Longrightarrow>
    session_step N st s pc (world p) = Some (Inr pc', shown, w) \<Longrightarrow>
    echo_step N l lst p (p\<lparr>world := w, sessions := (sessions p)[i := (s, st, pc')], echo_out := echo_out p @ shown\<rparr>)"
| session_throws: "ended p = None \<Longrightarrow> i < length (sessions p) \<Longrightarrow> sessions p ! i = (s, st, pc) \<Longrightarrow> pc \<noteq> At_end \<Longrightarrow>
    session_step N st s pc (world p) = Some (Inl e, shown, w) \<Longrightarrow>
    echo_step N l lst p (p\<lparr>world := w, echo_out := echo_out p @ shown, ended := Some e\<rparr>)"
| session_ends: "ended p = None \<Longrightarrow> i < length (sessions p) \<Longrightarrow> sessions p ! i = (s, st, At_end) \<Longrightarrow>
    close_socket N s st True (world p) = (r, ec, st', w) \<Longrightarrow>
    echo_step N l lst p (p\<lparr>world := w, sessions := take i (sessions p) @ drop (Suc i) (sessions p)\<rparr>)"

inductive_cases echo_stepE: "echo_step N l lst p q"

definition echo_start :: "'w \<Rightarrow> 'w echo" where
  "echo_start w = \<lparr>world = w, sessions = [], echo_out = ''Wait for first client...\<newline>'', ended = None\<rparr>"

lemma ended_is_final: "ended p \<noteq> None \<Longrightarrow> \<not> echo_step N l lst p q"
  by (auto elim: echo_stepE)

section \<open>One failing client ends the program\<close>

definition prints_endpoint :: "session_pc \<Rightarrow> bool" where
  "prints_endpoint pc \<longleftrightarrow> (\<exists>bs. pc \<in> {At_start, At_eof, At_error, At_message bs})"

text \<open>
  C35: In whatever state the program is, a client whose address the system no longer knows at one of
  the places where its session prints it, for example because it has reset the connection, ends the
  program for all clients: the session's exception is not caught and no step is possible after it.
\<close>

theorem failing_client_ends_program:
  assumes "ended p = None" and "i < length (sessions p)" and "sessions p ! i = (s, st, pc)"
    and "prints_endpoint pc" and "s \<noteq> invalid_socket"
    and "sys_getpeername N s (world p) = (None, err, w)" and "err \<noteq> 0"
  shows "\<exists>q. echo_step N l lst p q \<and> ended q = Some (system_error (sys err)) \<and>
    sessions q = sessions p \<and> (\<forall>r. \<not> echo_step N l lst q r)"
proof -
  have "\<exists>shown. session_step N st s pc (world p) = Some (Inl (system_error (sys err)), shown, w)"
    using assms(4-7)
    by (auto simp: prints_endpoint_def say_endpoint_def after_say_def remote_endpoint_def getpeername_def throw_error_def)
  moreover have "pc \<noteq> At_end" using assms(4) by (auto simp: prints_endpoint_def)
  ultimately obtain shown where
    "echo_step N l lst p (p\<lparr>world := w, echo_out := echo_out p @ shown, ended := Some (system_error (sys err))\<rparr>)"
    using session_throws [OF assms(1-3)] by blast
  then show ?thesis
    by (intro exI conjI, assumption) (simp_all add: ended_is_final)
qed

section \<open>What the system documents\<close>

text \<open>
  \<open>sent s\<close> and \<open>recvd s\<close> are the bytes sent and received on socket \<open>s\<close> since it was accepted, \<open>live\<close>
  the open handles. The calls behave as documented on their socket and change nothing on the others;
  a new handle is none of the open ones, and closing a handle leaves the others open.
\<close>

definition same_but :: "u32 set \<Rightarrow> (u32 \<Rightarrow> 'w \<Rightarrow> bytes) \<Rightarrow> (u32 \<Rightarrow> 'w \<Rightarrow> bytes) \<Rightarrow> ('w \<Rightarrow> u32 set) \<Rightarrow> 'w \<Rightarrow> 'w \<Rightarrow> bool" where
  "same_but T sent recvd live w w' \<longleftrightarrow>
     (\<forall>t. t \<in> live w \<longrightarrow> t \<notin> T \<longrightarrow> sent t w' = sent t w \<and> recvd t w' = recvd t w \<and> t \<in> live w')"

lemma same_but_refl [simp]: "same_but T sent recvd live w w"
  by (simp add: same_but_def)

lemma same_but_trans:
  "same_but T sent recvd live u v \<Longrightarrow> same_but T sent recvd live v w \<Longrightarrow> same_but T sent recvd live u w"
  by (auto simp: same_but_def)

lemma same_but_mono:
  "same_but T sent recvd live v w \<Longrightarrow> T \<subseteq> U \<Longrightarrow> same_but U sent recvd live v w"
  by (auto simp: same_but_def)

definition echo_documented ::
  "'w net \<Rightarrow> (u32 \<Rightarrow> 'w \<Rightarrow> bytes) \<Rightarrow> (u32 \<Rightarrow> 'w \<Rightarrow> bytes) \<Rightarrow> ('w \<Rightarrow> u32 set) \<Rightarrow> bool" where
  "echo_documented N sent recvd live \<longleftrightarrow>
     (\<forall>s. s \<noteq> invalid_socket \<longrightarrow> send_documented N s (sent s)) \<and>
     (\<forall>s sz w r got err w'. s \<noteq> invalid_socket \<longrightarrow> WSARecv N s sz w = (r, got, err, w') \<longrightarrow>
        (r = 0 \<longrightarrow> length got \<le> sz \<and> recvd s w' = recvd s w @ got) \<and>
        (r \<noteq> 0 \<longrightarrow> err \<notin> {0, 10035, 1237, 10040, 234} \<and> recvd s w' = recvd s w)) \<and>
     (\<forall>s bs w r n err w'. WSASend N s bs w = (r, n, err, w') \<longrightarrow>
        same_but {s} sent recvd live w w' \<and> recvd s w' = recvd s w \<and> live w' = live w) \<and>
     (\<forall>s sz w r got err w'. WSARecv N s sz w = (r, got, err, w') \<longrightarrow>
        same_but {s} sent recvd live w w' \<and> sent s w' = sent s w \<and> live w' = live w) \<and>
     (\<forall>s w addr err w'. sys_getpeername N s w = (addr, err, w') \<longrightarrow> same_but {} sent recvd live w w') \<and>
     (\<forall>s timeout w r err w'. select_read N s timeout w = (r, err, w') \<longrightarrow>
        same_but {} sent recvd live w w' \<and> (r < 0 \<longrightarrow> err \<noteq> 0)) \<and>
     (\<forall>s w new err w'. sys_accept N s w = (new, err, w') \<longrightarrow>
        (if new = invalid_socket then err \<noteq> 0 \<and> same_but {} sent recvd live w w'
         else new \<notin> live w \<and> new \<in> live w' \<and> sent new w' = [] \<and> recvd new w' = [] \<and>
           same_but {new} sent recvd live w w')) \<and>
     (\<forall>s w err w'. sys_register N s w = (err, w') \<longrightarrow> same_but {} sent recvd live w w') \<and>
     (\<forall>s w r err w'. sys_closesocket N s w = (r, err, w') \<longrightarrow> same_but {s} sent recvd live w w') \<and>
     (\<forall>s w. same_but {} sent recvd live w (sys_set_blocking N s w) \<and> same_but {} sent recvd live w (sys_linger_off N s w))"

lemma echo_documentedD:
  assumes "echo_documented N sent recvd live"
  shows "s \<noteq> invalid_socket \<Longrightarrow> send_documented N s (sent s)"
    and "s \<noteq> invalid_socket \<Longrightarrow> WSARecv N s sz w = (r, got, err, w') \<Longrightarrow>
      (r = 0 \<longrightarrow> length got \<le> sz \<and> recvd s w' = recvd s w @ got) \<and>
      (r \<noteq> 0 \<longrightarrow> err \<notin> {0, 10035, 1237, 10040, 234} \<and> recvd s w' = recvd s w)"
    and "WSASend N s bs w = (r, n, err, w') \<Longrightarrow>
      same_but {s} sent recvd live w w' \<and> recvd s w' = recvd s w \<and> live w' = live w"
    and "WSARecv N s sz w = (r, got, err, w') \<Longrightarrow>
      same_but {s} sent recvd live w w' \<and> sent s w' = sent s w \<and> live w' = live w"
    and "sys_getpeername N s w = (addr, err, w') \<Longrightarrow> same_but {} sent recvd live w w'"
    and "select_read N s timeout w = (r, err, w') \<Longrightarrow> same_but {} sent recvd live w w' \<and> (r < 0 \<longrightarrow> err \<noteq> 0)"
    and "sys_accept N s w = (new, err, w') \<Longrightarrow>
      if new = invalid_socket then err \<noteq> 0 \<and> same_but {} sent recvd live w w'
      else new \<notin> live w \<and> new \<in> live w' \<and> sent new w' = [] \<and> recvd new w' = [] \<and>
        same_but {new} sent recvd live w w'"
    and "sys_register N s w = (err, w') \<Longrightarrow> same_but {} sent recvd live w w'"
    and "sys_closesocket N s w = (r, err, w') \<Longrightarrow> same_but {s} sent recvd live w w'"
    and "same_but {} sent recvd live w (sys_set_blocking N s w)"
    and "same_but {} sent recvd live w (sys_linger_off N s w)"
  using assms unfolding echo_documented_def by (metis+)

lemma close_socket_same:
  assumes doc: "echo_documented N sent recvd live" and "close_socket N s st d w = (r, ec, st', w')"
  shows "same_but {s} sent recvd live w w'"
proof (cases "s = invalid_socket")
  case False
  define w1 where "w1 = (if d \<and> has_state st user_set_linger then sys_linger_off N s w else w)"
  obtain r1 e1 w2 where c1: "sys_closesocket N s w1 = (r1, e1, w2)" by (cases "sys_closesocket N s w1") auto
  obtain r2 e2 w3 where c2: "sys_closesocket N s (sys_set_blocking N s w2) = (r2, e2, w3)"
    by (cases "sys_closesocket N s (sys_set_blocking N s w2)") auto
  have 1: "same_but {s} sent recvd live w w1"
    using same_but_mono [OF echo_documentedD(11) [OF doc]] by (simp add: w1_def)
  have 2: "same_but {s} sent recvd live w w2" using same_but_trans [OF 1] echo_documentedD(9) [OF doc c1] by blast
  have 3: "same_but {s} sent recvd live w (sys_set_blocking N s w2)"
    using same_but_trans [OF 2] same_but_mono [OF echo_documentedD(10) [OF doc]] by blast
  have 4: "same_but {s} sent recvd live w w3" using same_but_trans [OF 3] echo_documentedD(9) [OF doc c2] by blast
  show ?thesis using assms(2) False 2 4
    by (auto simp: close_socket_def w1_def [symmetric] c1 c2 Let_def split: if_splits)
qed (use assms(2) in \<open>simp add: close_socket_def\<close>)

text \<open>What an accept may do to the world.\<close>

definition accept_effect where
  "accept_effect sent recvd live new ec w w' \<longleftrightarrow>
     (if new = invalid_socket then ec_set ec \<and> same_but {} sent recvd live w w'
      else new \<notin> live w \<and> new \<in> live w' \<and> sent new w' = [] \<and> recvd new w' = [] \<and>
        same_but {new} sent recvd live w w')"

lemma accept_effect_after:
  "same_but {} sent recvd live u v \<Longrightarrow> accept_effect sent recvd live new ec v w \<Longrightarrow>
   accept_effect sent recvd live new ec u w"
  by (auto simp: accept_effect_def same_but_def split: if_splits)

lemma sock_accept_effect:
  assumes "echo_documented N sent recvd live" and "sock_accept N l w = (new, ec, w')"
  shows "accept_effect sent recvd live new ec w w'"
  using assms(2) echo_documentedD(7) [OF assms(1), of l w]
  by (cases "sys_accept N l w")
    (auto simp: sock_accept_def accept_effect_def bad_descriptor_def split: if_splits)

lemma sync_accept_effect:
  assumes doc: "echo_documented N sent recvd live" and "sync_accept N l st w = Some (new, ec, w')"
  shows "accept_effect sent recvd live new ec w w'"
proof -
  have "\<forall>w new ec w'. sync_accept N l st w = Some (new, ec, w') \<longrightarrow> accept_effect sent recvd live new ec w w'"
  proof (rule sync_accept.fixp_induct [of "\<lambda>f. \<forall>w new ec w'. f N l st w = Some (new, ec, w') \<longrightarrow>
      accept_effect sent recvd live new ec w w'"])
    show "option.admissible (\<lambda>f. \<forall>w new ec w'. (curry (curry (curry f))) N l st w = Some (new, ec, w') \<longrightarrow>
        accept_effect sent recvd live new ec w w')"
      unfolding curry_def by (intro admissible_all option_admissible_at)
  next
    fix f assume IH: "\<forall>w new ec w'. f N l st w = Some (new, ec, w') \<longrightarrow> accept_effect sent recvd live new ec w w'"
    show "\<forall>w new ec w'. (let (new_socket, ec, w) = sock_accept N l w
      in if new_socket \<noteq> invalid_socket then Some (new_socket, ec, w)
      else if (ec = would_block \<or> ec = try_again) \<and> has_state st user_set_non_blocking
      then Some (invalid_socket, ec, w)
      else if ec = connection_aborted \<and> has_state st enable_connection_aborted
      then Some (invalid_socket, ec, w)
      else if ec \<noteq> would_block \<and> ec \<noteq> try_again \<and> ec \<noteq> connection_aborted then Some (invalid_socket, ec, w)
      else let (r, ec, w) = poll_read N l 0 (- 1) w
           in if r < 0 then Some (invalid_socket, ec, w) else f N l st w) = Some (new, ec, w') \<longrightarrow>
        accept_effect sent recvd live new ec w w'"
    proof (intro allI impI)
      fix w new ec w'
      obtain s1 e1 w1 where a: "sock_accept N l w = (s1, e1, w1)" by (cases "sock_accept N l w") auto
      obtain r e2 w2 where p: "poll_read N l 0 (- 1) w1 = (r, e2, w2)" by (cases "poll_read N l 0 (- 1) w1") auto
      have eff: "accept_effect sent recvd live s1 e1 w w1" using sock_accept_effect [OF doc a] .
      have poll: "same_but {} sent recvd live w1 w2 \<and> (r < 0 \<longrightarrow> ec_set e2)"
        using p echo_documentedD(6) [OF doc, of l "poll_timeout 0 (- 1)" w1]
        by (cases "select_read N l (poll_timeout 0 (- 1)) w1")
          (auto simp: poll_read_def poll_ec_def bad_descriptor_def split: if_splits)
      have "accept_effect sent recvd live new ec w w'"
        if s1: "s1 = invalid_socket" and res: "(if r < 0 then Some (invalid_socket, e2, w2) else f N l st w2) = Some (new, ec, w')"
      proof -
        have "same_but {} sent recvd live w w2"
          using eff poll s1 same_but_trans by (auto simp: accept_effect_def)
        moreover have "accept_effect sent recvd live new ec w2 w'"
          using res poll IH by (auto simp: accept_effect_def split: if_splits)
        ultimately show ?thesis by (rule accept_effect_after)
      qed
      then show "accept_effect sent recvd live new ec w w'"
        if "(let (new_socket, ec, w) = sock_accept N l w
      in if new_socket \<noteq> invalid_socket then Some (new_socket, ec, w)
      else if (ec = would_block \<or> ec = try_again) \<and> has_state st user_set_non_blocking
      then Some (invalid_socket, ec, w)
      else if ec = connection_aborted \<and> has_state st enable_connection_aborted
      then Some (invalid_socket, ec, w)
      else if ec \<noteq> would_block \<and> ec \<noteq> try_again \<and> ec \<noteq> connection_aborted then Some (invalid_socket, ec, w)
      else let (r, ec, w) = poll_read N l 0 (- 1) w
           in if r < 0 then Some (invalid_socket, ec, w) else f N l st w) = Some (new, ec, w')"
        using that eff by (simp add: a p Let_def split: if_splits)
    qed
  qed simp
  then show ?thesis using assms(2) by blast
qed

lemma service_accept_effect:
  assumes doc: "echo_documented N sent recvd live" and "service_accept N l lst w = Some (new, st, ec, w')"
  shows "if ec_set ec then same_but {} sent recvd live w w'
    else new \<noteq> invalid_socket \<and> st = stream_oriented \<and> accept_effect sent recvd live new ec w w'"
proof -
  obtain s1 e1 w1 where a: "sync_accept N l lst w = Some (s1, e1, w1)"
    using assms(2) by (auto simp: service_accept_def)
  note eff = sync_accept_effect [OF doc a]
  show ?thesis
  proof (cases "s1 = invalid_socket")
    case True
    then show ?thesis using assms(2) eff by (auto simp: service_accept_def a accept_effect_def)
  next
    case False
    obtain e2 w2 where r: "sys_register N s1 w1 = (e2, w2)" by (cases "sys_register N s1 w1") auto
    have 1: "same_but {} sent recvd live w1 w2" using echo_documentedD(8) [OF doc r] .
    obtain x y z w3 where c: "close_socket N s1 0 True w2 = (x, y, z, w3)" by (cases "close_socket N s1 0 True w2") auto
    have res: "(new, st, ec, w') =
        (if e2 = 0 then (s1, stream_oriented, no_error, w2) else (invalid_socket, 0, sys e2, w3))"
      using assms(2) False by (auto simp: service_accept_def a do_assign_def r c split: if_splits)
    show ?thesis
    proof (cases "e2 = 0")
      case True
      then show ?thesis using res eff 1 False by (auto simp: accept_effect_def same_but_def)
    next
      case fail: False
      have "same_but {s1} sent recvd live w w2"
        using eff False 1 by (auto simp: accept_effect_def same_but_def)
      then have "same_but {s1} sent recvd live w w3"
        by (rule same_but_trans [OF _ close_socket_same [OF doc c]])
      moreover have "s1 \<notin> live w" using eff False by (simp add: accept_effect_def)
      ultimately show ?thesis using res fail by (auto simp: same_but_def)
    qed
  qed
qed

section \<open>A session's step\<close>

fun pending :: "session_pc \<Rightarrow> bytes" where
  "pending (At_message bs) = bs"
| "pending (At_write bs) = bs"
| "pending _ = []"

lemma stored_bytes: "map (store [0..<length bs] bs M) [0..<length bs] = bs"
  using store_read [of "[0..<length bs]" bs M] by simp

lemma write_buffer:
  assumes "send_documented N s wire" and "has_state st stream_oriented"
  shows "\<exists>n ec w'. write_throw single_proxy (socket_write_some N s st) (store [0..<length bs] bs M)
      (c1_new (buf_make 0 (length bs))) transfer_all w = Some (throw_error ec n, w') \<and>
    n \<le> length bs \<and> wire w' = wire w @ take n bs \<and> (\<not> ec_set ec \<longrightarrow> n = length bs)"
proof -
  have wr: "writer single_proxy (\<lambda>_. True) c1_rest (socket_write_some N s st) wire"
    using socket_write_stream [OF assms] single.transfer_proxy_axioms by (rule writer.intro [rotated])
  have p: "p_consumed single_proxy (c1_new (buf_make 0 (length bs))) = 0"
    "c1_rest (c1_new (buf_make 0 (length bs))) = [0..<length bs]"
    by (simp_all add: single_proxy_def c1_new_def c1_rest_def buf_make_def buf_addrs_def)
  obtain n ec w' where
    "write_loop single_proxy (socket_write_some N s st) transfer_all (store [0..<length bs] bs M)
      (c1_new (buf_make 0 (length bs))) no_error w = Some (n, ec, w')"
    "n \<le> length [0..<length bs]" "wire w' = wire w @ take n (map (store [0..<length bs] bs M) [0..<length bs])"
    "\<not> ec_set ec \<longrightarrow> n = length [0..<length bs] \<or> transfer_all ec n = 0"
    using writer.write_loop_transfers [OF wr TrueI conditions_stop(1), of "store [0..<length bs] bs M"
      "c1_new (buf_make 0 (length bs))" no_error w]
    unfolding p add_0 by (elim exE conjE) (rule that)
  then show ?thesis
    using condition_ends(1) [of ec n] unfolding stored_bytes write_throw_def write_ec_def
    by (intro exI [of _ n] exI [of _ ec] exI [of _ w']) auto
qed

lemma socket_read_documented:
  assumes doc: "echo_documented N sent recvd live" and s: "s \<noteq> invalid_socket"
    and r: "socket_read_some N s stream_oriented sz w = Some (got, ec, w')"
  shows "recvd s w' = recvd s w @ got \<and> sent s w' = sent s w \<and> (ec_set ec \<longrightarrow> got = []) \<and>
    live w' = live w \<and> same_but {s} sent recvd live w w'"
proof (cases "sz = 0")
  case True
  then show ?thesis using r s by (simp add: socket_read_some_def sync_recv_def stream_state)
next
  case False
  obtain c g e w1 where c: "WSARecv N s sz w = (c, g, e, w1)" by (cases "WSARecv N s sz w") auto
  have d: "(c = 0 \<longrightarrow> recvd s w1 = recvd s w @ g) \<and> (c \<noteq> 0 \<longrightarrow> e \<notin> {0, 10035, 1237, 10040, 234} \<and> recvd s w1 = recvd s w)"
    "same_but {s} sent recvd live w w1 \<and> sent s w1 = sent s w \<and> live w1 = live w"
    using echo_documentedD(2,4) [OF doc] s c by blast+
  define e1 where "e1 = (if e = ERROR_NETNAME_DELETED then connection_reset
      else if e = ERROR_PORT_UNREACHABLE then connection_refused else sys e)"
  have "(got, ec, w') = (if c = 0 then (g, if g = [] then ec_eof else no_error, w1) else ([], e1, w1)) \<and> (c \<noteq> 0 \<longrightarrow> ec_set e1)"
  proof (cases "c = 0")
    case True
    then have "recv_loop N s stream_oriented sz w = Some (g, if g = [] then ec_eof else no_error, w1)"
      by (subst recv_loop.simps) (simp add: sock_recv_def c stream_state)
    then show ?thesis using r s False True by (auto simp: socket_read_some_def sync_recv_def)
  next
    case fail: False
    have e1: "ec_set e1" "e1 \<noteq> would_block" "e1 \<noteq> try_again"
      using d(1) fail by (auto simp: e1_def connection_reset_def connection_refused_def would_block_def try_again_def)
    have "sock_recv N s sz w = (None, e1, w1)"
      using fail d(1) by (simp add: sock_recv_def c e1_def WSAEMSGSIZE_def ERROR_MORE_DATA_def)
    then have "recv_loop N s stream_oriented sz w = Some ([], e1, w1)"
      using e1 by (subst recv_loop.simps) simp
    then show ?thesis using r s False fail e1 by (simp add: socket_read_some_def sync_recv_def)
  qed
  with d show ?thesis by (auto split: if_splits)
qed

lemma socket_write_same:
  assumes doc: "echo_documented N sent recvd live"
    and "socket_write_some N s st bs w = Some (n, ec, w')"
    and "s \<noteq> invalid_socket" and "has_state st stream_oriented"
  shows "same_but {s} sent recvd live w w' \<and> recvd s w' = recvd s w \<and> live w' = live w"
proof -
  have "w' \<in> {w, snd (snd (snd (WSASend N s bs w)))}"
    using sync_send_documented [OF echo_documentedD(1) [OF doc assms(3)] assms(4), of bs w] assms(2)
    by (auto simp: socket_write_some_def)
  then show ?thesis using echo_documentedD(3) [OF doc, of s bs w] by (cases "WSASend N s bs w") auto
qed

lemma say_endpoint_same:
  assumes "echo_documented N sent recvd live" and "say_endpoint N s before after w = (x, shown, w')"
  shows "same_but {} sent recvd live w w'"
  using assms(2) echo_documentedD(5) [OF assms(1), of s w]
  by (cases "sys_getpeername N s w")
    (auto simp: say_endpoint_def remote_endpoint_def getpeername_def split: option.splits sum.splits if_splits prod.splits)

lemma session_say_effect:
  assumes doc: "echo_documented N sent recvd live" and "s \<in> live w"
    and "after_say pc' (say_endpoint N s before after w) = (r, shown, w')"
  shows "same_but {s} sent recvd live w w' \<and> s \<in> live w' \<and> recvd s w' = recvd s w \<and> sent s w' = sent s w \<and>
    (\<forall>pc. r = Inr pc \<longrightarrow> pc = pc')"
proof -
  obtain x shown1 w1 where say: "say_endpoint N s before after w = (x, shown1, w1)"
    by (cases "say_endpoint N s before after w") auto
  then have "same_but {} sent recvd live w w1" by (rule say_endpoint_same [OF doc])
  with assms(2,3) say show ?thesis by (cases x) (auto simp: after_say_def same_but_def)
qed

text \<open>One step keeps what was received equal to what was sent and what is pending.\<close>

definition in_step where
  "in_step sent recvd s pc w \<longleftrightarrow> recvd s w = sent s w @ pending pc"

lemma session_step_effect:
  assumes doc: "echo_documented N sent recvd live" and s: "s \<in> live w" "s \<noteq> invalid_socket"
    and inv: "in_step sent recvd s pc w"
    and run: "session_step N stream_oriented s pc w = Some (r, shown, w')"
  shows "same_but {s} sent recvd live w w' \<and> s \<in> live w' \<and>
    (case r of Inl _ \<Rightarrow> prefix (sent s w') (recvd s w') | Inr pc' \<Rightarrow> in_step sent recvd s pc' w')"
proof -
  have say: ?thesis if "session_step N stream_oriented s pc w = Some (after_say pc' (say_endpoint N s before after w))"
    "pending pc = pending pc'" for before after pc'
  proof -
    have "after_say pc' (say_endpoint N s before after w) = (r, shown, w')" using run that(1) by simp
    from session_say_effect [OF doc s(1) this] show ?thesis
      using inv that(2) by (auto simp: in_step_def split: sum.splits)
  qed
  show ?thesis
  proof (cases pc)
    case At_read
    then obtain got ec where rd: "socket_read_some N s stream_oriented MAX_LEN w = Some (got, ec, w')"
      and r: "r = Inr (if ec = ec_eof then At_eof else if ec_set ec then At_error else At_message got)"
      using run by auto
    show ?thesis using socket_read_documented [OF doc s(2) rd] inv At_read r s(1)
      by (auto simp: in_step_def)
  next
    case (At_write bs)
    obtain n ec w1 where wr: "write_throw single_proxy (socket_write_some N s stream_oriented)
        (store [0..<length bs] bs (\<lambda>_. 0)) (c1_new (buf_make 0 (length bs))) transfer_all w = Some (throw_error ec n, w1)"
      "n \<le> length bs" "sent s w1 = sent s w @ take n bs" "\<not> ec_set ec \<longrightarrow> n = length bs"
      using write_buffer [OF echo_documentedD(1) [OF doc s(2)] stream_state] by blast
    have same: "same_but {s} sent recvd live w w1 \<and> recvd s w1 = recvd s w \<and> live w1 = live w"
    proof -
      from wr(1) obtain m e where "write_loop single_proxy (socket_write_some N s stream_oriented) transfer_all
          (store [0..<length bs] bs (\<lambda>_. 0)) (c1_new (buf_make 0 (length bs))) no_error w = Some (m, e, w1)"
        by (auto simp: write_throw_def write_ec_def)
      from this socket_write_same [OF doc _ s(2) stream_state]
      show ?thesis
        by (rule write_loop_rel [where R = "\<lambda>w w1. same_but {s} sent recvd live w w1 \<and> recvd s w1 = recvd s w \<and> live w1 = live w"])
          (auto intro: same_but_trans)
    qed
    have "w' = w1" "r = map_sum id (\<lambda>_. At_read) (throw_error ec n)" using run wr(1) At_write by auto
    then show ?thesis using same wr(2-4) inv At_write s(1)
      by (auto simp: in_step_def throw_error_def take_is_prefix)
  next
    case At_end
    then show ?thesis using run inv s by auto
  next
    case At_start
    then show ?thesis using say [of At_read "''Client connected ''" "[]"] by simp
  next
    case At_eof
    then show ?thesis using say [of At_end "''Connection closed cleanly by peer ''" "[]"] by simp
  next
    case At_error
    then show ?thesis using say [of At_end "''Error with client ''" "[]"] by simp
  next
    case (At_message bs)
    then show ?thesis
      using say [of "At_write bs" "''Incoming message from client ''" "'': '' @ bytes_text bs"] by simp
  qed
qed

text \<open>The invariant of the program.\<close>

definition echo_inv where
  "echo_inv sent recvd live p \<longleftrightarrow> distinct (map fst (sessions p)) \<and>
     (\<forall>(s, st, pc) \<in> set (sessions p). s \<noteq> invalid_socket \<and> st = stream_oriented \<and> s \<in> live (world p) \<and>
        prefix (sent s (world p)) (recvd s (world p)) \<and>
        (ended p = None \<longrightarrow> in_step sent recvd s pc (world p)))"

lemma echo_inv_session:
  "echo_inv sent recvd live p \<Longrightarrow> i < length (sessions p) \<Longrightarrow> sessions p ! i = (s, st, pc) \<Longrightarrow>
   s \<noteq> invalid_socket \<and> st = stream_oriented \<and> s \<in> live (world p) \<and>
   prefix (sent s (world p)) (recvd s (world p)) \<and> (ended p = None \<longrightarrow> in_step sent recvd s pc (world p))"
  unfolding echo_inv_def using nth_mem by fastforce

text \<open>The other sessions are not affected by a change on one socket.\<close>

lemma others_kept:
  assumes "echo_inv sent recvd live p" and "same_but {s} sent recvd live (world p) w"
    and "(t, st, pc) \<in> set (sessions p)" and "t \<noteq> s"
  shows "t \<noteq> invalid_socket \<and> st = stream_oriented \<and> t \<in> live w \<and> prefix (sent t w) (recvd t w) \<and>
    (ended p = None \<longrightarrow> in_step sent recvd t pc w)"
  using assms by (fastforce simp: echo_inv_def same_but_def in_step_def)

lemma in_update: "x \<in> set (xs[i := y]) \<Longrightarrow> i < length xs \<Longrightarrow> x = y \<or> (\<exists>j < length xs. j \<noteq> i \<and> x = xs ! j)"
  by (auto simp: in_set_conv_nth nth_list_update split: if_splits)

lemma distinct_keys_nth:
  "distinct (map fst xs) \<Longrightarrow> i < length xs \<Longrightarrow> j < length xs \<Longrightarrow> fst (xs ! i) = fst (xs ! j) \<longleftrightarrow> i = j"
  by (metis length_map nth_eq_iff_index_eq nth_map)

lemma echo_inv_step:
  assumes doc: "echo_documented N sent recvd live" and inv: "echo_inv sent recvd live p"
    and step: "echo_step N l lst p q"
  shows "echo_inv sent recvd live q"
  using step
proof cases
  case (accepted s st ec w)
  have eff: "s \<noteq> invalid_socket" "st = stream_oriented" "s \<notin> live (world p)" "s \<in> live w" "sent s w = []"
    "recvd s w = []" "same_but {s} sent recvd live (world p) w"
    using service_accept_effect [OF doc accepted(3)] accepted(4) by (auto simp: accept_effect_def)
  have fresh: "s \<notin> fst ` set (sessions p)" using inv eff(3) by (auto simp: echo_inv_def)
  then have "\<forall>(t, st, pc) \<in> set (sessions p). t \<noteq> s" by force
  then show ?thesis using others_kept [OF inv eff(7)] eff inv fresh accepted(1,2)
    by (auto simp: echo_inv_def in_step_def)
next
  case (accept_throws s st ec w)
  have "same_but {} sent recvd live (world p) w"
    using service_accept_effect [OF doc accept_throws(3)] accept_throws(4) by simp
  then show ?thesis using inv accept_throws(1) by (fastforce simp: echo_inv_def same_but_def)
next
  case (session_goes_on i s st pc pc' shown w)
  note at = echo_inv_session [OF inv session_goes_on(3,4)]
  have eff: "same_but {s} sent recvd live (world p) w" "s \<in> live w" "in_step sent recvd s pc' w"
    using session_step_effect [OF doc _ _ _ session_goes_on(6) [unfolded conjunct1 [OF conjunct2 [OF at]]]] at session_goes_on(2)
    by auto
  have dist: "distinct (map fst (sessions p))" using inv by (simp add: echo_inv_def)
  have "map fst ((sessions p)[i := (s, st, pc')]) = map fst (sessions p)"
    using session_goes_on(3,4) by (metis fst_conv list_update_id map_update)
  moreover have "t \<noteq> invalid_socket \<and> st' = stream_oriented \<and> t \<in> live w \<and> prefix (sent t w) (recvd t w) \<and>
      in_step sent recvd t c w" if mem: "(t, st', c) \<in> set ((sessions p)[i := (s, st, pc')])" for t st' c
    using in_update [OF mem session_goes_on(3)]
  proof
    assume "(t, st', c) = (s, st, pc')"
    then show ?thesis using at eff by (auto simp: in_step_def)
  next
    assume "\<exists>j < length (sessions p). j \<noteq> i \<and> (t, st', c) = sessions p ! j"
    then obtain j where j: "j < length (sessions p)" "j \<noteq> i" "(t, st', c) = sessions p ! j" by blast
    have "t \<noteq> s" using distinct_keys_nth [OF dist j(1) session_goes_on(3)] j session_goes_on(4) by (metis fst_conv)
    then show ?thesis using others_kept [OF inv eff(1), of t st' c] j session_goes_on(2) nth_mem by metis
  qed
  ultimately show ?thesis using dist session_goes_on(1) by (auto simp: echo_inv_def)
next
  case (session_throws i s st pc e shown w)
  note at = echo_inv_session [OF inv session_throws(3,4)]
  have eff: "same_but {s} sent recvd live (world p) w" "s \<in> live w" "prefix (sent s w) (recvd s w)"
    using session_step_effect [OF doc _ _ _ session_throws(6) [unfolded conjunct1 [OF conjunct2 [OF at]]]] at session_throws(2)
    by auto
  have "t \<noteq> invalid_socket \<and> st' = stream_oriented \<and> t \<in> live w \<and> prefix (sent t w) (recvd t w)"
    if "(t, st', c) \<in> set (sessions p)" for t st' c
  proof (cases "t = s")
    case True
    then show ?thesis using eff that inv by (auto simp: echo_inv_def)
  qed (use others_kept [OF inv eff(1) that] in blast)
  then show ?thesis using inv session_throws(1) by (auto simp: echo_inv_def)
next
  case (session_ends i s st r ec st' w)
  have same: "same_but {s} sent recvd live (world p) w" using close_socket_same [OF doc session_ends(5)] .
  have split: "sessions p = take i (sessions p) @ (s, st, At_end) # drop (Suc i) (sessions p)"
    using session_ends(3,4) by (metis id_take_nth_drop)
  have dist: "distinct (map fst (take i (sessions p) @ (s, st, At_end) # drop (Suc i) (sessions p)))"
    using inv split unfolding echo_inv_def by metis
  have mem: "x \<in> set (sessions p) \<and> fst x \<noteq> s" if "x \<in> set (take i (sessions p) @ drop (Suc i) (sessions p))" for x
    using that dist by (auto dest: in_set_takeD in_set_dropD)
  have "t \<noteq> invalid_socket \<and> st = stream_oriented \<and> t \<in> live w \<and> prefix (sent t w) (recvd t w) \<and> in_step sent recvd t c w"
    if "(t, st, c) \<in> set (take i (sessions p) @ drop (Suc i) (sessions p))" for t st c
    using mem [OF that] others_kept [OF inv same] session_ends(2) by auto
  moreover have "distinct (map fst (take i (sessions p) @ drop (Suc i) (sessions p)))" using dist by auto
  ultimately show ?thesis using session_ends(1) unfolding echo_inv_def by auto
qed

lemma echo_inv_start: "echo_inv sent recvd live (echo_start w)"
  by (simp add: echo_inv_def echo_start_def)

text \<open>
  C3: However the sessions are interleaved with each other and with new connections, what the server
  has sent back to a client is at any time what it has received from it, except for the bytes of a
  message that is being printed or written, and it is a prefix of it even when an exception has
  ended the program; no two sessions use the same socket.
\<close>

theorem echo_sends_what_it_received:
  assumes "echo_documented N sent recvd live" and "(echo_step N l lst)\<^sup>*\<^sup>* (echo_start w) p"
  shows "distinct (map fst (sessions p)) \<and> (\<forall>(s, st, pc) \<in> set (sessions p).
    prefix (sent s (world p)) (recvd s (world p)) \<and>
    (ended p = None \<longrightarrow> recvd s (world p) = sent s (world p) @ pending pc))"
proof -
  have "echo_inv sent recvd live p"
    using assms(2) by (induction rule: rtranclp_induct) (auto intro: echo_inv_start echo_inv_step [OF assms(1)])
  then show ?thesis by (auto simp: echo_inv_def in_step_def)
qed

text \<open>A system with at most one client, on handle 7, which sends the bytes of the last component.\<close>

type_synonym demo_world = "(u32 \<Rightarrow> bytes) \<times> (u32 \<Rightarrow> bytes) \<times> u32 set \<times> bytes"

definition demo_sent :: "u32 \<Rightarrow> demo_world \<Rightarrow> bytes" where "demo_sent s w = fst w s"
definition demo_recvd :: "u32 \<Rightarrow> demo_world \<Rightarrow> bytes" where "demo_recvd s w = fst (snd w) s"
definition demo_live :: "demo_world \<Rightarrow> u32 set" where "demo_live w = fst (snd (snd w))"

definition demo_net :: "demo_world net" where
  "demo_net = \<lparr>WSASend = (\<lambda>s bs (out, inp, live, script). (0, length bs, 0, (out(s := out s @ bs), inp, live, script))),
     WSARecv = (\<lambda>s sz (out, inp, live, script).
       (0, take sz script, 0, (out, inp(s := inp s @ take sz script), live, drop sz script))),
     select_read = (\<lambda>s t w. (1, 0, w)), select_write = (\<lambda>s t w. (1, 0, w)),
     sys_accept = (\<lambda>s (out, inp, live, script).
       if 7 \<in> live then (invalid_socket, 10024, (out, inp, live, script))
       else (7, 0, (out(7 := []), inp(7 := []), insert 7 live, script))),
     sys_getpeername = (\<lambda>s w. if snd (snd (snd w)) = [9] then (None, 10057, w) else (Some ''peer'', 0, w)),
     sys_connect_time = (\<lambda>s w. (Some 1, 0, w)), sys_register = (\<lambda>s w. (0, w)),
     sys_closesocket = (\<lambda>s (out, inp, live, script). (0, 0, (out, inp, live - {s}, script))),
     sys_set_blocking = (\<lambda>s w. w), sys_linger_off = (\<lambda>s w. w)\<rparr>"

lemma demo_documented: "echo_documented demo_net demo_sent demo_recvd demo_live"
  unfolding echo_documented_def
  by (auto simp: send_documented_def demo_net_def demo_sent_def demo_recvd_def demo_live_def same_but_def invalid_socket_def
      split: if_splits)

definition demo_start :: demo_world where
  "demo_start = (\<lambda>_. [], \<lambda>_. [], {}, [1, 2])"

lemma demo_accept:
  "service_accept demo_net 3 stream_oriented demo_start =
     Some (7, stream_oriented, no_error, (\<lambda>_. [], \<lambda>_. [], {7}, [1, 2]))"
proof -
  have "sync_accept demo_net 3 stream_oriented demo_start = Some (7, no_error, ((\<lambda>_. [])(7 := []), (\<lambda>_. [])(7 := []), {7}, [1, 2]))"
    by (subst sync_accept.simps) (simp add: sock_accept_def demo_net_def demo_start_def invalid_socket_def)
  then show ?thesis
    by (simp add: service_accept_def do_assign_def invalid_socket_def) (simp add: demo_net_def fun_upd_idem)
qed

lemma demo_say:
  "say_endpoint demo_net 7 before after (out, inp, live, [1, 2]) =
     (Inr (), before @ ''peer'' @ after @ ''\<newline>'', (out, inp, live, [1, 2]))"
  by (simp add: say_endpoint_def remote_endpoint_def getpeername_def demo_net_def invalid_socket_def throw_error_def)

lemma demo_read:
  "socket_read_some demo_net 7 stream_oriented MAX_LEN (\<lambda>_. [], \<lambda>_. [], {7}, [1, 2]) =
     Some ([1, 2], no_error, (\<lambda>_. [], (\<lambda>_. [])(7 := [1, 2]), {7}, []))"
  unfolding socket_read_some_def sync_recv_def
  by (subst recv_loop.simps) (simp add: sock_recv_def demo_net_def invalid_socket_def MAX_LEN_def)

lemma demo_run:
  "\<exists>shown. (echo_step demo_net 3 stream_oriented)\<^sup>*\<^sup>* (echo_start demo_start)
     \<lparr>world = (\<lambda>_. [], (\<lambda>_. [])(7 := [1, 2]), {7}, []), sessions = [(7, stream_oriented, At_message [1, 2])],
      echo_out = shown, ended = None\<rparr>"
proof -
  let ?step = "echo_step demo_net 3 stream_oriented"
  let ?w = "(\<lambda>_. [], \<lambda>_. [], {7}, [1, 2]) :: demo_world"
  define p1 where "p1 = \<lparr>world = ?w, sessions = [(7, stream_oriented, At_start)],
    echo_out = ''Wait for first client...\<newline>'', ended = None\<rparr>"
  define p2 where "p2 = p1\<lparr>sessions := [(7, stream_oriented, At_read)],
    echo_out := echo_out p1 @ ''Client connected '' @ ''peer'' @ [] @ ''\<newline>''\<rparr>"
  have 1: "?step (echo_start demo_start) p1"
    using echo_step.accepted [of "echo_start demo_start" demo_net 3 stream_oriented, unfolded echo_start_def, simplified, OF demo_accept]
    by (simp add: p1_def echo_start_def)
  have 2: "?step p1 p2"
    using echo_step.session_goes_on [of p1 0 7 stream_oriented At_start demo_net At_read
      "''Client connected '' @ ''peer'' @ [] @ ''\<newline>''" ?w 3 stream_oriented]
    by (simp add: p1_def p2_def demo_say after_say_def)
  have 3: "?step p2 (p2\<lparr>world := (\<lambda>_. [], (\<lambda>_. [])(7 := [1, 2]), {7}, []),
      sessions := [(7, stream_oriented, At_message [1, 2])], echo_out := echo_out p2 @ []\<rparr>)"
    using echo_step.session_goes_on [of p2 0 7 stream_oriented At_read demo_net "At_message [1, 2]" "[]"
      "(\<lambda>_. [], (\<lambda>_. [])(7 := [1, 2]), {7}, [])" 3 stream_oriented]
    by (simp add: p1_def p2_def demo_read no_error_def ec_eof_def)
  from 1 2 3 have "?step\<^sup>*\<^sup>* (echo_start demo_start) (p2\<lparr>world := (\<lambda>_. [], (\<lambda>_. [])(7 := [1, 2]), {7}, []),
      sessions := [(7, stream_oriented, At_message [1, 2])], echo_out := echo_out p2 @ []\<rparr>)"
    by (meson r_into_rtranclp rtranclp.rtrancl_into_rtrancl)
  then show ?thesis by (intro exI) (simp add: p2_def p1_def)
qed

lemma echo_sends_what_it_received_witness:
  "demo_recvd 7 (\<lambda>_. [], (\<lambda>_. [])(7 := [1, 2]), {7}, []) = demo_sent 7 (\<lambda>_. [], (\<lambda>_. [])(7 := [1, 2]), {7}, []) @ [1, 2]"
proof -
  from demo_run obtain shown where "(echo_step demo_net 3 stream_oriented)\<^sup>*\<^sup>* (echo_start demo_start)
     \<lparr>world = (\<lambda>_. [], (\<lambda>_. [])(7 := [1, 2]), {7}, []), sessions = [(7, stream_oriented, At_message [1, 2])],
      echo_out = shown, ended = None\<rparr>" ..
  from echo_sends_what_it_received [OF demo_documented this] show ?thesis by simp
qed

lemma failing_client_ends_program_witness:
  "\<exists>q. echo_step demo_net 3 stream_oriented
      \<lparr>world = (\<lambda>_. [], \<lambda>_. [], {7, 8}, [9]), sessions = [(7, stream_oriented, At_start), (8, stream_oriented, At_read)],
        echo_out = [], ended = None\<rparr> q \<and>
    ended q = Some (system_error (sys 10057)) \<and>
    sessions q = [(7, stream_oriented, At_start), (8, stream_oriented, At_read)] \<and>
    (\<forall>r. \<not> echo_step demo_net 3 stream_oriented q r)"
proof -
  let ?p = "\<lparr>world = (\<lambda>_. [], \<lambda>_. [], {7, 8}, [9]),
    sessions = [(7, stream_oriented, At_start), (8, stream_oriented, At_read)], echo_out = [], ended = None\<rparr> :: demo_world echo"
  have "sys_getpeername demo_net 7 (world ?p) = (None, 10057, world ?p)"
    by (simp add: demo_net_def)
  from failing_client_ends_program [of ?p 0 7 stream_oriented At_start demo_net 10057 "world ?p" 3 stream_oriented, OF _ _ _ _ _ this]
  show ?thesis by (simp add: prints_endpoint_def invalid_socket_def)
qed

section \<open>A session by itself\<close>

text \<open>
  For one session \<open>wire\<close> is what has been sent on its socket and \<open>input\<close> what the client has still
  to send; the other calls on the socket do not change them.
\<close>

definition session_documented :: "'w net \<Rightarrow> u32 \<Rightarrow> ('w \<Rightarrow> bytes) \<Rightarrow> ('w \<Rightarrow> bytes) \<Rightarrow> bool" where
  "session_documented N s wire input \<longleftrightarrow> send_documented N s wire \<and> recv_documented N s input \<and>
     (\<forall>bs w. input (snd (snd (snd (WSASend N s bs w)))) = input w) \<and>
     (\<forall>sz w. wire (snd (snd (snd (WSARecv N s sz w)))) = wire w) \<and>
     (\<forall>f \<in> {\<lambda>w. snd (snd (sys_getpeername N s w)), \<lambda>w. snd (snd (sys_closesocket N s w)), sys_set_blocking N s, sys_linger_off N s}.
        \<forall>w. wire (f w) = wire w \<and> input (f w) = input w)"

lemma session_say:
  assumes "session_documented N s wire input" and "say_endpoint N s before after w = (x, shown, w')"
  shows "wire w' = wire w \<and> input w' = input w"
  using assms
  by (cases "sys_getpeername N s w")
    (auto simp: session_documented_def say_endpoint_def remote_endpoint_def getpeername_def throw_error_def
      dest!: spec [of _ w] split: option.splits sum.splits if_splits prod.splits)

lemma session_close:
  assumes "session_documented N s wire input" and "close_socket N s st d w = (r, ec, st', w')"
  shows "wire w' = wire w \<and> input w' = input w"
proof -
  have k: "wire (snd (snd (sys_closesocket N s v))) = wire v" "input (snd (snd (sys_closesocket N s v))) = input v"
    "wire (sys_set_blocking N s v) = wire v" "input (sys_set_blocking N s v) = input v"
    "wire (sys_linger_off N s v) = wire v" "input (sys_linger_off N s v) = input v" for v
    using assms(1) by (auto simp: session_documented_def)
  show ?thesis
    using assms(2) k
    by (auto simp: close_socket_def Let_def case_prod_beta prod_eq_iff split: if_splits)
qed

fun session_rank :: "session_pc \<Rightarrow> nat" where
  "session_rank At_end = 0"
| "session_rank At_eof = 1"
| "session_rank At_error = 1"
| "session_rank At_read = 2"
| "session_rank (At_write bs) = 3"
| "session_rank At_start = 3"
| "session_rank (At_message bs) = 4"

text \<open>What one step does: the bytes taken from the input and the bytes put on the wire.\<close>

lemma session_step_runs:
  assumes doc: "session_documented N s wire input" and "pc \<noteq> At_end"
  shows "\<exists>r shown w' got k. session_step N stream_oriented s pc w = Some (r, shown, w') \<and>
    input w = got @ input w' \<and> wire w' = wire w @ take k (pending pc) \<and>
    (\<forall>pc'. r = Inr pc' \<longrightarrow> wire w' @ pending pc' = wire w @ pending pc @ got \<and>
       5 * length (input w') + session_rank pc' < 5 * length (input w) + session_rank pc)"
proof -
  have say: ?thesis if "session_step N stream_oriented s pc w = Some (after_say pc' (say_endpoint N s before after w))"
    "pending pc = pending pc'" "session_rank pc' < session_rank pc" for before after pc'
  proof -
    obtain x shown w' where say: "say_endpoint N s before after w = (x, shown, w')"
      by (cases "say_endpoint N s before after w") auto
    with session_say [OF doc say] that show ?thesis
      by (intro exI [of _ "map_sum id (\<lambda>_. pc') x"] exI [of _ shown] exI [of _ w'] exI [of _ "[]"] exI [of _ 0])
        (cases x; auto simp: after_say_def)
  qed
  show ?thesis
  proof (cases pc)
    case At_read
    obtain got ec w' where rd: "socket_read_some N s stream_oriented MAX_LEN w = Some (got, ec, w')"
      "input w = got @ input w'" "\<not> ec_set ec \<longrightarrow> got \<noteq> []" "ec_set ec \<longrightarrow> got = []"
      "w' \<in> {w, snd (snd (snd (WSARecv N s MAX_LEN w)))}"
      using sync_recv_documented [of N s input stream_oriented MAX_LEN w] doc stream_state
      by (auto simp: session_documented_def socket_read_some_def MAX_LEN_def)
    have "wire w' = wire w" using rd(5) doc by (auto simp: session_documented_def)
    moreover have "5 * length (input w') + 4 < 5 * length (input w) + 2" if "got \<noteq> []"
      using rd(2) that by (cases got) auto
    ultimately show ?thesis using At_read rd
      by (intro exI [of _ "Inr (if ec = ec_eof then At_eof else if ec_set ec then At_error else At_message got)"]
          exI [of _ "[]"] exI [of _ w'] exI [of _ got] exI [of _ 0]) auto
  next
    case (At_write bs)
    obtain n ec w1 where wr: "write_throw single_proxy (socket_write_some N s stream_oriented)
        (store [0..<length bs] bs (\<lambda>_. 0)) (c1_new (buf_make 0 (length bs))) transfer_all w = Some (throw_error ec n, w1)"
      "n \<le> length bs" "wire w1 = wire w @ take n bs" "\<not> ec_set ec \<longrightarrow> n = length bs"
      using write_buffer [OF conjunct1 [OF doc [unfolded session_documented_def]] stream_state] by blast
    have inp: "input w1 = input w"
    proof -
      from wr(1) obtain m e where "write_loop single_proxy (socket_write_some N s stream_oriented) transfer_all
          (store [0..<length bs] bs (\<lambda>_. 0)) (c1_new (buf_make 0 (length bs))) no_error w = Some (m, e, w1)"
        by (auto simp: write_throw_def write_ec_def)
      then show ?thesis
      proof (rule write_loop_rel [where R = "\<lambda>w w1. input w1 = input w"])
        fix bs w n ec w' assume "socket_write_some N s stream_oriented bs w = Some (n, ec, w')"
        then have "w' \<in> {w, snd (snd (snd (WSASend N s bs w)))}"
          using sync_send_documented [of N s wire stream_oriented bs w] doc stream_state
          by (auto simp: socket_write_some_def session_documented_def)
        then show "input w' = input w" using doc by (auto simp: session_documented_def)
      qed simp_all
    qed
    show ?thesis using At_write wr inp
      by (intro exI [of _ "map_sum id (\<lambda>_. At_read) (throw_error ec n)"] exI [of _ "[]"] exI [of _ w1]
          exI [of _ "[]"] exI [of _ n]) (auto simp: throw_error_def)
  next
    case At_start
    then show ?thesis using say [of At_read "''Client connected ''" "[]"] by simp
  next
    case At_eof
    then show ?thesis using say [of At_end "''Connection closed cleanly by peer ''" "[]"] by simp
  next
    case At_error
    then show ?thesis using say [of At_end "''Error with client ''" "[]"] by simp
  next
    case (At_message bs)
    then show ?thesis
      using say [of "At_write bs" "''Incoming message from client ''" "'': '' @ bytes_text bs"] by simp
  qed (use assms(2) in simp)
qed

text \<open>Two steps' outputs joined.\<close>

lemma take_joined:
  assumes eq: "v @ p' = u @ p @ g" and "length u \<le> length v"
  shows "\<exists>j. v @ take k (p' @ h) = u @ take j (p @ g @ h) \<and>
    (take k (p' @ h) = p' @ h \<longrightarrow> take j (p @ g @ h) = p @ g @ h)"
proof -
  define j where "j = length v + k - length u"
  have all: "v @ p' @ h = u @ p @ g @ h" using eq by (metis append_assoc)
  have "v @ take k (p' @ h) = take (length v + k) (v @ p' @ h)" by simp
  also have "\<dots> = u @ take j (p @ g @ h)" using assms(2) by (simp add: all j_def)
  finally show ?thesis using all by (metis same_append_eq)
qed


lemma loop_session_documented: "session_documented loop_net 7 fst snd"
  using loop_net_documented by (auto simp: session_documented_def) (auto simp: loop_net_def split: prod.split)


end
