(* ===== verification/AsioDynamic.thy ===== *)
theory AsioDynamic
  imports AsioBuffers
begin

text \<open>
  Dynamic buffers: \<open>dynamic_string_buffer\<close> and \<open>dynamic_vector_buffer\<close> of buffer.hpp and
  \<open>basic_streambuf\<close> of basic_streambuf.hpp. They share two interfaces, that of version 1 with
  \<open>prepare\<close> and \<open>commit\<close>, and that of version 2 with \<open>grow\<close> and \<open>shrink\<close>; the locales \<open>dynamic_v1\<close>
  and \<open>dynamic_v2\<close> state what whoever reads into them relies on, and are interpreted on the code's
  three implementations.
\<close>

section \<open>Strings and vectors of bytes\<close>

text \<open>
  The standard library's containers: the contents and the capacity. Growing beyond the capacity
  reserves \<open>spare\<close> more than is needed, a choice of the library. A \<open>buf\<close> into the contents has its
  position instead of an address.
\<close>

record vec =
  v_bytes :: bytes
  v_cap :: nat

abbreviation v_size :: "vec \<Rightarrow> nat" where
  "v_size v \<equiv> length (v_bytes v)"

definition v_resize :: "(nat \<Rightarrow> nat \<Rightarrow> nat) \<Rightarrow> nat \<Rightarrow> vec \<Rightarrow> vec" where
  "v_resize spare n v =
     \<lparr>v_bytes = take n (v_bytes v) @ replicate (n - v_size v) 0,
      v_cap = (if n \<le> v_cap v then v_cap v else n + spare (v_cap v) n)\<rparr>"

definition v_erase :: "nat \<Rightarrow> vec \<Rightarrow> vec" where
  "v_erase n v = v\<lparr>v_bytes := drop n (v_bytes v)\<rparr>"

text \<open>\<open>asio::buffer\<close> of a string or vector, with a limit and without.\<close>

definition v_buffer :: "vec \<Rightarrow> buf" where
  "v_buffer v = buf_make 0 (v_size v)"

definition v_buffer_max :: "vec \<Rightarrow> nat \<Rightarrow> buf" where
  "v_buffer_max v max_size_in_bytes =
     buf_make 0 (if v_size v < max_size_in_bytes then v_size v else max_size_in_bytes)"

text \<open>Reading and writing memory through a buffer into the contents.\<close>

definition v_read :: "buf \<Rightarrow> vec \<Rightarrow> bytes" where
  "v_read u v = take (buf_size u) (drop (buf_data u) (v_bytes v))"

definition v_write :: "buf \<Rightarrow> bytes \<Rightarrow> vec \<Rightarrow> vec" where
  "v_write u bs v =
     v\<lparr>v_bytes := take (buf_data u) (v_bytes v) @ bs @ drop (buf_data u + length bs) (v_bytes v)\<rparr>"

lemma v_resize_cap: "v_size v \<le> v_cap v \<Longrightarrow> v_size (v_resize spare n v) \<le> v_cap (v_resize spare n v)"
  by (auto simp: v_resize_def)

lemma v_size_simps [simp]:
  "v_size (v_resize spare n v) = n" "v_size (v_erase n v) = v_size v - n" "v_cap (v_erase n v) = v_cap v"
  "v_cap (v_write u bs v) = v_cap v"
  by (simp_all add: v_resize_def v_erase_def v_write_def)

lemma v_size_write: "buf_data u + length bs \<le> v_size v \<Longrightarrow> v_size (v_write u bs v) = v_size v"
  by (simp add: v_write_def)

lemma v_buffer_simps [simp]:
  "buf_data (v_buffer v) = 0" "buf_size (v_buffer v) = v_size v"
  "buf_data (v_buffer_max v m) = 0" "buf_size (v_buffer_max v m) = min (v_size v) m"
  by (simp_all add: v_buffer_def v_buffer_max_def buf_make_def)

lemma buf_data_parts:
  "buf_data (buf_plus u n) = buf_data u + min n (buf_size u)" "buf_data (buf_limit u n) = buf_data u"
  by (simp_all add: buf_plus_def buf_limit_def)

text \<open>Growing at the end, writing there, and cutting off what was not written.\<close>

lemma v_appended:
  assumes "length bs \<le> n"
  shows "v_bytes (v_resize sp (v_size v + length bs) (v_write (buf_make (v_size v) n) bs (v_resize sp (v_size v + n) v))) =
    v_bytes v @ bs"
  using assms by (simp add: v_resize_def v_write_def buf_make_def)

lemma v_appended_cap:
  assumes "length bs \<le> n" and "v_size v \<le> v_cap v"
  shows "v_size v + length bs \<le>
    v_cap (v_resize sp (v_size v + length bs) (v_write (buf_make (v_size v) n) bs (v_resize sp (v_size v + n) v)))"
  using assms by (auto simp: v_resize_def v_write_def)

section \<open>The interfaces\<close>

record 'b dyn1 =
  d_size :: "'b \<Rightarrow> nat"
  d_max :: "'b \<Rightarrow> nat"
  d_cap :: "'b \<Rightarrow> nat"
  d_data :: "'b \<Rightarrow> bytes"
  d_prepare :: "nat \<Rightarrow> 'b \<Rightarrow> (thrown + buf) \<times> 'b"
  d_write :: "buf \<Rightarrow> bytes \<Rightarrow> 'b \<Rightarrow> 'b"
  d_commit :: "nat \<Rightarrow> 'b \<Rightarrow> 'b"

record 'b dyn2 =
  g_size :: "'b \<Rightarrow> nat"
  g_max :: "'b \<Rightarrow> nat"
  g_cap :: "'b \<Rightarrow> nat"
  g_read :: "buf \<Rightarrow> 'b \<Rightarrow> bytes"
  g_data :: "nat \<Rightarrow> nat \<Rightarrow> 'b \<Rightarrow> buf"
  g_grow :: "nat \<Rightarrow> 'b \<Rightarrow> (thrown + unit) \<times> 'b"
  g_write :: "buf \<Rightarrow> bytes \<Rightarrow> 'b \<Rightarrow> 'b"
  g_shrink :: "nat \<Rightarrow> 'b \<Rightarrow> 'b"

text \<open>
  Room for \<open>n\<close> bytes is made, fewer may arrive, and they are the end of the contents. Version 1
  is told how many have arrived, version 2 how many have not.
\<close>

locale dynamic_v1 =
  fixes D :: "'b dyn1" and inv :: "'b \<Rightarrow> bool"
  assumes size1: "inv b \<Longrightarrow> d_size D b = length (d_data D b) \<and> d_size D b \<le> d_max D b \<and> d_size D b \<le> d_cap D b"
    and extend1: "inv b \<Longrightarrow> n \<le> d_max D b - d_size D b \<Longrightarrow>
      \<exists>u b1. d_prepare D n b = (Inr u, b1) \<and> buf_size u = n \<and>
        (\<forall>bs. length bs \<le> n \<longrightarrow> (let b' = d_commit D (length bs) (d_write D u bs b1) in
           inv b' \<and> d_data D b' = d_data D b @ bs \<and> d_max D b' = d_max D b))"

locale dynamic_v2 =
  fixes G :: "'b dyn2" and inv :: "'b \<Rightarrow> bool" and contents :: "'b \<Rightarrow> bytes"
  assumes size2: "inv b \<Longrightarrow> g_size G b = length (contents b) \<and> g_size G b \<le> g_max G b \<and> g_size G b \<le> g_cap G b"
    and read2: "inv b \<Longrightarrow> g_read G (g_data G 0 (g_size G b) b) b = contents b"
    and extend2: "inv b \<Longrightarrow> n \<le> g_max G b - g_size G b \<Longrightarrow>
      \<exists>b1. g_grow G n b = (Inr (), b1) \<and> buf_size (g_data G (g_size G b) n b1) = n \<and>
        (\<forall>bs. length bs \<le> n \<longrightarrow> (let b' = g_shrink G (n - length bs) (g_write G (g_data G (g_size G b) n b1) bs b1) in
           inv b' \<and> contents b' = contents b @ bs \<and> g_max G b' = g_max G b))"

section \<open>The buffer over a string\<close>

text \<open>\<open>dyn_size\<close> is \<open>size_\<close>, the largest \<open>size_t\<close> until the first \<open>prepare\<close>.\<close>

record dyn =
  dyn_vec :: vec
  dyn_size :: nat
  dyn_max :: nat

definition dsb_new :: "vec \<Rightarrow> nat \<Rightarrow> dyn" where
  "dsb_new s maximum_size = \<lparr>dyn_vec = s, dyn_size = size_max, dyn_max = maximum_size\<rparr>"

definition dsb_max_size :: "dyn \<Rightarrow> nat" where
  "dsb_max_size b = dyn_max b"

definition dsb_size :: "dyn \<Rightarrow> nat" where
  "dsb_size b = (if dyn_size b \<noteq> size_max then dyn_size b else min (v_size (dyn_vec b)) (dsb_max_size b))"

definition dsb_capacity :: "dyn \<Rightarrow> nat" where
  "dsb_capacity b = min (v_cap (dyn_vec b)) (dsb_max_size b)"

definition dsb_data :: "dyn \<Rightarrow> buf" where
  "dsb_data b = v_buffer_max (dyn_vec b) (dyn_size b)"

definition dsb_data_at :: "nat \<Rightarrow> nat \<Rightarrow> dyn \<Rightarrow> buf" where
  "dsb_data_at pos n b = buf_limit (buf_plus (v_buffer_max (dyn_vec b) (dyn_max b)) pos) n"

definition dsb_prepare :: "(nat \<Rightarrow> nat \<Rightarrow> nat) \<Rightarrow> nat \<Rightarrow> dyn \<Rightarrow> (thrown + buf) \<times> dyn" where
  "dsb_prepare spare n b =
     (if dsb_size b > dsb_max_size b \<or> size_diff (dsb_max_size b) (dsb_size b) < n then
        (Inl (length_error ''dynamic_string_buffer too long''), b)
      else
        let b = (if dyn_size b = size_max then b\<lparr>dyn_size := v_size (dyn_vec b)\<rparr> else b);
            b = b\<lparr>dyn_vec := v_resize spare (dyn_size b + n) (dyn_vec b)\<rparr>
        in (Inr (buf_limit (buf_plus (v_buffer (dyn_vec b)) (dyn_size b)) n), b))"

definition dsb_commit :: "(nat \<Rightarrow> nat \<Rightarrow> nat) \<Rightarrow> nat \<Rightarrow> dyn \<Rightarrow> dyn" where
  "dsb_commit spare n b =
     (let b = b\<lparr>dyn_size := (dyn_size b + min n (size_diff (v_size (dyn_vec b)) (dyn_size b))) mod 2 ^ 32\<rparr>
      in b\<lparr>dyn_vec := v_resize spare (dyn_size b) (dyn_vec b)\<rparr>)"

definition dsb_grow :: "(nat \<Rightarrow> nat \<Rightarrow> nat) \<Rightarrow> nat \<Rightarrow> dyn \<Rightarrow> (thrown + unit) \<times> dyn" where
  "dsb_grow spare n b =
     (if dsb_size b > dsb_max_size b \<or> size_diff (dsb_max_size b) (dsb_size b) < n then
        (Inl (length_error ''dynamic_string_buffer too long''), b)
      else (Inr (), b\<lparr>dyn_vec := v_resize spare (dsb_size b + n) (dyn_vec b)\<rparr>))"

definition dsb_shrink :: "(nat \<Rightarrow> nat \<Rightarrow> nat) \<Rightarrow> nat \<Rightarrow> dyn \<Rightarrow> dyn" where
  "dsb_shrink spare n b =
     b\<lparr>dyn_vec := v_resize spare (if n > dsb_size b then 0 else size_diff (dsb_size b) n) (dyn_vec b)\<rparr>"

text \<open>\<open>erase(0, n)\<close> of a string erases what there is when \<open>n\<close> is more.\<close>

definition dsb_consume :: "nat \<Rightarrow> dyn \<Rightarrow> dyn" where
  "dsb_consume n b =
     (if dyn_size b \<noteq> size_max then
        let consume_length = min n (dyn_size b);
            b = b\<lparr>dyn_vec := v_erase consume_length (dyn_vec b)\<rparr>
        in b\<lparr>dyn_size := dyn_size b - consume_length\<rparr>
      else b\<lparr>dyn_vec := v_erase n (dyn_vec b)\<rparr>)"

definition string_v1 :: "(nat \<Rightarrow> nat \<Rightarrow> nat) \<Rightarrow> dyn dyn1" where
  "string_v1 spare = \<lparr>d_size = dsb_size, d_max = dsb_max_size, d_cap = dsb_capacity,
     d_data = (\<lambda>b. v_read (dsb_data b) (dyn_vec b)), d_prepare = dsb_prepare spare,
     d_write = (\<lambda>u bs b. b\<lparr>dyn_vec := v_write u bs (dyn_vec b)\<rparr>), d_commit = dsb_commit spare\<rparr>"

definition string_v2 :: "(nat \<Rightarrow> nat \<Rightarrow> nat) \<Rightarrow> dyn dyn2" where
  "string_v2 spare = \<lparr>g_size = dsb_size, g_max = dsb_max_size, g_cap = dsb_capacity,
     g_read = (\<lambda>u b. v_read u (dyn_vec b)), g_data = dsb_data_at, g_grow = dsb_grow spare,
     g_write = (\<lambda>u bs b. b\<lparr>dyn_vec := v_write u bs (dyn_vec b)\<rparr>), g_shrink = dsb_shrink spare\<rparr>"

text \<open>Contents beyond the maximum, which version 2 hides, are left out.\<close>

definition dsb_inv :: "dyn \<Rightarrow> bool" where
  "dsb_inv b \<longleftrightarrow> v_size (dyn_vec b) \<le> dyn_max b \<and> dyn_max b \<le> size_max \<and> v_size (dyn_vec b) \<le> v_cap (dyn_vec b) \<and>
     (dyn_size b = size_max \<or> dyn_size b = v_size (dyn_vec b))"

definition dsb_contents :: "dyn \<Rightarrow> bytes" where
  "dsb_contents b = v_bytes (dyn_vec b)"

lemma dsb_inv_size:
  assumes "dsb_inv b"
  shows "dsb_size b = v_size (dyn_vec b)" "v_read (dsb_data b) (dyn_vec b) = v_bytes (dyn_vec b)"
  using assms by (auto simp: dsb_inv_def dsb_size_def dsb_max_size_def dsb_data_def v_read_def)

lemma dsb_extend1:
  assumes "dsb_inv b" and "n \<le> dsb_max_size b - dsb_size b"
  shows "\<exists>u b1. dsb_prepare spare n b = (Inr u, b1) \<and> buf_size u = n \<and>
    (\<forall>bs. length bs \<le> n \<longrightarrow> (let b' = dsb_commit spare (length bs) (b1\<lparr>dyn_vec := v_write u bs (dyn_vec b1)\<rparr>) in
       dsb_inv b' \<and> v_read (dsb_data b') (dyn_vec b') = v_bytes (dyn_vec b) @ bs \<and> dyn_max b' = dyn_max b))"
proof -
  let ?k = "v_size (dyn_vec b)" and ?v = "v_resize spare (v_size (dyn_vec b) + n) (dyn_vec b)"
  note sz = dsb_inv_size [OF assms(1)]
  have le: "?k \<le> dyn_max b" "dyn_max b \<le> size_max" "?k \<le> v_cap (dyn_vec b)" "n \<le> dyn_max b - ?k"
    using assms sz(1) by (auto simp: dsb_inv_def dsb_max_size_def)
  define u where "u = buf_limit (buf_plus (v_buffer ?v) ?k) n"
  have u: "buf_data u = ?k" "buf_size u = n" "u = buf_make ?k n"
    by (simp_all add: u_def buf_data_parts buf_plus_def buf_limit_def v_buffer_def buf_make_def)
  let ?b1 = "b\<lparr>dyn_size := ?k, dyn_vec := ?v\<rparr>"
  have p: "dsb_prepare spare n b = (Inr u, ?b1)"
    using assms(1) le sz(1) by (auto simp: dsb_prepare_def dsb_inv_def dsb_max_size_def u_def Let_def)
  have "dsb_inv b' \<and> v_read (dsb_data b') (dyn_vec b') = v_bytes (dyn_vec b) @ bs \<and> dyn_max b' = dyn_max b"
    if "length bs \<le> n" and b': "b' = dsb_commit spare (length bs) (?b1\<lparr>dyn_vec := v_write u bs ?v\<rparr>)" for bs b'
  proof -
    have w: "v_size (v_write u bs ?v) = ?k + n" using that(1) u by (simp add: v_size_write)
    have s: "?k + length bs < 2 ^ 32" using that(1) le by (simp add: size_max_def)
    then have e: "b' = b\<lparr>dyn_size := ?k + length bs, dyn_vec := v_resize spare (?k + length bs) (v_write u bs ?v)\<rparr>"
      using that(1) by (simp add: b' dsb_commit_def w Let_def)
    have v: "v_bytes (dyn_vec b') = v_bytes (dyn_vec b) @ bs" using v_appended [OF that(1)] by (simp add: e u(3))
    have "v_size (dyn_vec b') \<le> v_cap (dyn_vec b')"
      using v_appended_cap [OF that(1) le(3), of spare] by (simp add: e u(3))
    then have i: "dsb_inv b'" using that(1) le by (simp add: dsb_inv_def e)
    then show ?thesis using dsb_inv_size(2) [OF i] v by (simp add: e)
  qed
  note written = this
  have "\<forall>bs. length bs \<le> n \<longrightarrow> (let b' = dsb_commit spare (length bs) (?b1\<lparr>dyn_vec := v_write u bs (dyn_vec ?b1)\<rparr>) in
      dsb_inv b' \<and> v_read (dsb_data b') (dyn_vec b') = v_bytes (dyn_vec b) @ bs \<and> dyn_max b' = dyn_max b)"
    unfolding Let_def by (intro allI impI written) simp_all
  with p u(2) show ?thesis by blast
qed

lemma dsb_extend2:
  assumes "dsb_inv b" and "n \<le> dsb_max_size b - dsb_size b" and "dyn_size b = size_max"
  shows "\<exists>b1. dsb_grow spare n b = (Inr (), b1) \<and> buf_size (dsb_data_at (dsb_size b) n b1) = n \<and>
    (\<forall>bs. length bs \<le> n \<longrightarrow>
      (let b' = dsb_shrink spare (n - length bs) (b1\<lparr>dyn_vec := v_write (dsb_data_at (dsb_size b) n b1) bs (dyn_vec b1)\<rparr>) in
       dsb_inv b' \<and> dyn_size b' = size_max \<and> v_bytes (dyn_vec b') = v_bytes (dyn_vec b) @ bs \<and> dyn_max b' = dyn_max b))"
proof -
  let ?k = "v_size (dyn_vec b)" and ?v = "v_resize spare (v_size (dyn_vec b) + n) (dyn_vec b)"
  have sz: "dsb_size b = ?k" by (rule dsb_inv_size(1) [OF assms(1)])
  have le: "?k \<le> dyn_max b" "dyn_max b \<le> size_max" "?k \<le> v_cap (dyn_vec b)" "n \<le> dyn_max b - ?k"
    using assms sz by (auto simp: dsb_inv_def dsb_max_size_def)
  let ?b1 = "b\<lparr>dyn_vec := ?v\<rparr>"
  define u where "u = dsb_data_at (dsb_size b) n ?b1"
  have u: "u = buf_make ?k n"
    using le unfolding u_def sz dsb_data_at_def
    by (auto simp: buf_plus_def buf_limit_def v_buffer_max_def buf_make_def Let_def)
  have g: "dsb_grow spare n b = (Inr (), ?b1)" using le sz by (simp add: dsb_grow_def dsb_max_size_def)
  have "dsb_inv b' \<and> dyn_size b' = size_max \<and> v_bytes (dyn_vec b') = v_bytes (dyn_vec b) @ bs \<and> dyn_max b' = dyn_max b"
    if "length bs \<le> n" and b': "b' = dsb_shrink spare (n - length bs) (?b1\<lparr>dyn_vec := v_write u bs ?v\<rparr>)" for bs b'
  proof -
    have w: "v_size (v_write u bs ?v) = ?k + n" using that(1) u by (simp add: v_size_write buf_make_def)
    have z: "dsb_size (?b1\<lparr>dyn_vec := v_write u bs ?v\<rparr>) = ?k + n"
      using w le assms(3) by (simp add: dsb_size_def dsb_max_size_def)
    have d: "b' = b\<lparr>dyn_vec := v_resize spare (?k + length bs) (v_write u bs ?v)\<rparr>"
      using that(1) unfolding b' dsb_shrink_def z by simp
    have v: "v_bytes (dyn_vec b') = v_bytes (dyn_vec b) @ bs" using v_appended [OF that(1)] by (simp add: d u)
    have "v_size (dyn_vec b') \<le> v_cap (dyn_vec b')"
      using v_appended_cap [OF that(1) le(3), of spare] by (simp add: d u)
    then show ?thesis using that(1) le assms(3) v by (simp add: dsb_inv_def d)
  qed
  note written = this
  have "\<forall>bs. length bs \<le> n \<longrightarrow>
      (let b' = dsb_shrink spare (n - length bs) (?b1\<lparr>dyn_vec := v_write u bs (dyn_vec ?b1)\<rparr>) in
       dsb_inv b' \<and> dyn_size b' = size_max \<and> v_bytes (dyn_vec b') = v_bytes (dyn_vec b) @ bs \<and> dyn_max b' = dyn_max b)"
    unfolding Let_def by (intro allI impI written) simp_all
  moreover have "buf_size u = n" by (simp add: u buf_make_def)
  ultimately show ?thesis using g unfolding u_def by blast
qed

interpretation string1: dynamic_v1 "string_v1 spare" dsb_inv for spare
proof
  fix b n
  assume b: "dsb_inv b"
  show "d_size (string_v1 spare) b = length (d_data (string_v1 spare) b) \<and> d_size (string_v1 spare) b \<le> d_max (string_v1 spare) b \<and>
      d_size (string_v1 spare) b \<le> d_cap (string_v1 spare) b"
    using dsb_inv_size [OF b] b by (simp add: string_v1_def dsb_inv_def dsb_capacity_def dsb_max_size_def)
  assume "n \<le> d_max (string_v1 spare) b - d_size (string_v1 spare) b"
  then have "n \<le> dsb_max_size b - dsb_size b" by (simp add: string_v1_def)
  from dsb_extend1 [OF b this, of spare]
  show "\<exists>u b1. d_prepare (string_v1 spare) n b = (Inr u, b1) \<and> buf_size u = n \<and>
      (\<forall>bs. length bs \<le> n \<longrightarrow> (let b' = d_commit (string_v1 spare) (length bs) (d_write (string_v1 spare) u bs b1) in
         dsb_inv b' \<and> d_data (string_v1 spare) b' = d_data (string_v1 spare) b @ bs \<and>
         d_max (string_v1 spare) b' = d_max (string_v1 spare) b))"
    by (simp add: string_v1_def dsb_inv_size(2) [OF b] dsb_max_size_def)
qed

definition dsb_inv2 :: "dyn \<Rightarrow> bool" where
  "dsb_inv2 b \<longleftrightarrow> dsb_inv b \<and> dyn_size b = size_max"

interpretation string2: dynamic_v2 "string_v2 spare" dsb_inv2 dsb_contents for spare
proof
  fix b n
  assume "dsb_inv2 b"
  then have b: "dsb_inv b" "dyn_size b = size_max" by (simp_all add: dsb_inv2_def)
  show "g_size (string_v2 spare) b = length (dsb_contents b) \<and> g_size (string_v2 spare) b \<le> g_max (string_v2 spare) b \<and>
      g_size (string_v2 spare) b \<le> g_cap (string_v2 spare) b"
    using dsb_inv_size [OF b(1)] b by (simp add: string_v2_def dsb_inv_def dsb_capacity_def dsb_max_size_def dsb_contents_def)
  show "g_read (string_v2 spare) (g_data (string_v2 spare) 0 (g_size (string_v2 spare) b) b) b = dsb_contents b"
    using dsb_inv_size(1) [OF b(1)] b(1)
    by (simp add: string_v2_def dsb_data_at_def v_read_def dsb_contents_def dsb_inv_def buf_data_parts)
  assume "n \<le> g_max (string_v2 spare) b - g_size (string_v2 spare) b"
  then have "n \<le> dsb_max_size b - dsb_size b" by (simp add: string_v2_def)
  from dsb_extend2 [OF b(1) this b(2), of spare]
  show "\<exists>b1. g_grow (string_v2 spare) n b = (Inr (), b1) \<and>
      buf_size (g_data (string_v2 spare) (g_size (string_v2 spare) b) n b1) = n \<and>
      (\<forall>bs. length bs \<le> n \<longrightarrow> (let b' = g_shrink (string_v2 spare) (n - length bs)
           (g_write (string_v2 spare) (g_data (string_v2 spare) (g_size (string_v2 spare) b) n b1) bs b1) in
         dsb_inv2 b' \<and> dsb_contents b' = dsb_contents b @ bs \<and> g_max (string_v2 spare) b' = g_max (string_v2 spare) b))"
    by (simp add: string_v2_def dsb_contents_def dsb_inv2_def dsb_max_size_def Let_def)
qed

lemma dsb_consume_drops:
  assumes "dsb_inv b"
  shows "dsb_inv (dsb_consume n b) \<and> dsb_contents (dsb_consume n b) = drop n (dsb_contents b) \<and>
    dyn_max (dsb_consume n b) = dyn_max b"
proof (cases "dyn_size b = size_max")
  case True
  then show ?thesis using assms by (auto simp: dsb_consume_def dsb_inv_def dsb_contents_def v_erase_def)
next
  case False
  then have "dyn_size b = v_size (dyn_vec b)" using assms by (simp add: dsb_inv_def)
  then show ?thesis using assms False
    by (cases "n \<le> v_size (dyn_vec b)") (auto simp: dsb_consume_def dsb_inv_def dsb_contents_def v_erase_def Let_def)
qed

section \<open>The buffer over a vector\<close>

definition dvb_new :: "vec \<Rightarrow> nat \<Rightarrow> dyn" where
  "dvb_new v maximum_size = \<lparr>dyn_vec = v, dyn_size = size_max, dyn_max = maximum_size\<rparr>"

definition dvb_max_size :: "dyn \<Rightarrow> nat" where
  "dvb_max_size b = dyn_max b"

definition dvb_size :: "dyn \<Rightarrow> nat" where
  "dvb_size b = (if dyn_size b \<noteq> size_max then dyn_size b else min (v_size (dyn_vec b)) (dvb_max_size b))"

definition dvb_capacity :: "dyn \<Rightarrow> nat" where
  "dvb_capacity b = min (v_cap (dyn_vec b)) (dvb_max_size b)"

definition dvb_data :: "dyn \<Rightarrow> buf" where
  "dvb_data b = v_buffer_max (dyn_vec b) (dyn_size b)"

definition dvb_data_at :: "nat \<Rightarrow> nat \<Rightarrow> dyn \<Rightarrow> buf" where
  "dvb_data_at pos n b = buf_limit (buf_plus (v_buffer_max (dyn_vec b) (dyn_max b)) pos) n"

definition dvb_prepare :: "(nat \<Rightarrow> nat \<Rightarrow> nat) \<Rightarrow> nat \<Rightarrow> dyn \<Rightarrow> (thrown + buf) \<times> dyn" where
  "dvb_prepare spare n b =
     (if dvb_size b > dvb_max_size b \<or> size_diff (dvb_max_size b) (dvb_size b) < n then
        (Inl (length_error ''dynamic_vector_buffer too long''), b)
      else
        let b = (if dyn_size b = size_max then b\<lparr>dyn_size := v_size (dyn_vec b)\<rparr> else b);
            b = b\<lparr>dyn_vec := v_resize spare (dyn_size b + n) (dyn_vec b)\<rparr>
        in (Inr (buf_limit (buf_plus (v_buffer (dyn_vec b)) (dyn_size b)) n), b))"

definition dvb_commit :: "(nat \<Rightarrow> nat \<Rightarrow> nat) \<Rightarrow> nat \<Rightarrow> dyn \<Rightarrow> dyn" where
  "dvb_commit spare n b =
     (let b = b\<lparr>dyn_size := (dyn_size b + min n (size_diff (v_size (dyn_vec b)) (dyn_size b))) mod 2 ^ 32\<rparr>
      in b\<lparr>dyn_vec := v_resize spare (dyn_size b) (dyn_vec b)\<rparr>)"

definition dvb_grow :: "(nat \<Rightarrow> nat \<Rightarrow> nat) \<Rightarrow> nat \<Rightarrow> dyn \<Rightarrow> (thrown + unit) \<times> dyn" where
  "dvb_grow spare n b =
     (if dvb_size b > dvb_max_size b \<or> size_diff (dvb_max_size b) (dvb_size b) < n then
        (Inl (length_error ''dynamic_vector_buffer too long''), b)
      else (Inr (), b\<lparr>dyn_vec := v_resize spare (dvb_size b + n) (dyn_vec b)\<rparr>))"

definition dvb_shrink :: "(nat \<Rightarrow> nat \<Rightarrow> nat) \<Rightarrow> nat \<Rightarrow> dyn \<Rightarrow> dyn" where
  "dvb_shrink spare n b =
     b\<lparr>dyn_vec := v_resize spare (if n > dvb_size b then 0 else size_diff (dvb_size b) n) (dyn_vec b)\<rparr>"

definition dvb_consume :: "nat \<Rightarrow> dyn \<Rightarrow> dyn" where
  "dvb_consume n b =
     (if dyn_size b \<noteq> size_max then
        let consume_length = min n (dyn_size b);
            b = b\<lparr>dyn_vec := v_erase consume_length (dyn_vec b)\<rparr>
        in b\<lparr>dyn_size := dyn_size b - consume_length\<rparr>
      else b\<lparr>dyn_vec := v_erase (min (dvb_size b) n) (dyn_vec b)\<rparr>)"

definition vector_v1 :: "(nat \<Rightarrow> nat \<Rightarrow> nat) \<Rightarrow> dyn dyn1" where
  "vector_v1 spare = \<lparr>d_size = dvb_size, d_max = dvb_max_size, d_cap = dvb_capacity,
     d_data = (\<lambda>b. v_read (dvb_data b) (dyn_vec b)), d_prepare = dvb_prepare spare,
     d_write = (\<lambda>u bs b. b\<lparr>dyn_vec := v_write u bs (dyn_vec b)\<rparr>), d_commit = dvb_commit spare\<rparr>"

definition vector_v2 :: "(nat \<Rightarrow> nat \<Rightarrow> nat) \<Rightarrow> dyn dyn2" where
  "vector_v2 spare = \<lparr>g_size = dvb_size, g_max = dvb_max_size, g_cap = dvb_capacity,
     g_read = (\<lambda>u b. v_read u (dyn_vec b)), g_data = dvb_data_at, g_grow = dvb_grow spare,
     g_write = (\<lambda>u bs b. b\<lparr>dyn_vec := v_write u bs (dyn_vec b)\<rparr>), g_shrink = dvb_shrink spare\<rparr>"

text \<open>The two classes differ in the text of the exception and in \<open>consume\<close>.\<close>

lemma dvb_as_dsb:
  "dvb_max_size = dsb_max_size" "dvb_size = dsb_size" "dvb_capacity = dsb_capacity" "dvb_data = dsb_data"
  "dvb_data_at = dsb_data_at" "dvb_commit = dsb_commit" "dvb_shrink = dsb_shrink"
  by (simp_all add: fun_eq_iff dvb_max_size_def dsb_max_size_def dvb_size_def dsb_size_def dvb_capacity_def
      dsb_capacity_def dvb_data_def dsb_data_def dvb_data_at_def dsb_data_at_def dvb_commit_def dsb_commit_def
      dvb_shrink_def dsb_shrink_def)

lemma dvb_prepare_as_dsb: "dsb_prepare spare n b = (Inr u, b1) \<Longrightarrow> dvb_prepare spare n b = (Inr u, b1)"
  by (auto simp: dvb_prepare_def dsb_prepare_def dvb_as_dsb Let_def split: if_splits)

lemma dvb_grow_as_dsb: "dsb_grow spare n b = (Inr (), b1) \<Longrightarrow> dvb_grow spare n b = (Inr (), b1)"
  by (auto simp: dvb_grow_def dsb_grow_def dvb_as_dsb split: if_splits)

lemma vector_as_string:
  "d_size (vector_v1 spare) = d_size (string_v1 spare)" "d_max (vector_v1 spare) = d_max (string_v1 spare)"
  "d_cap (vector_v1 spare) = d_cap (string_v1 spare)" "d_data (vector_v1 spare) = d_data (string_v1 spare)"
  "d_write (vector_v1 spare) = d_write (string_v1 spare)" "d_commit (vector_v1 spare) = d_commit (string_v1 spare)"
  "g_size (vector_v2 spare) = g_size (string_v2 spare)" "g_max (vector_v2 spare) = g_max (string_v2 spare)"
  "g_cap (vector_v2 spare) = g_cap (string_v2 spare)" "g_read (vector_v2 spare) = g_read (string_v2 spare)"
  "g_data (vector_v2 spare) = g_data (string_v2 spare)" "g_write (vector_v2 spare) = g_write (string_v2 spare)"
  "g_shrink (vector_v2 spare) = g_shrink (string_v2 spare)"
  "d_prepare (string_v1 spare) n b = (Inr u, b1) \<Longrightarrow> d_prepare (vector_v1 spare) n b = (Inr u, b1)"
  "g_grow (string_v2 spare) n b = (Inr (), b1) \<Longrightarrow> g_grow (vector_v2 spare) n b = (Inr (), b1)"
  by (simp_all add: vector_v1_def string_v1_def vector_v2_def string_v2_def dvb_as_dsb dvb_prepare_as_dsb dvb_grow_as_dsb)

interpretation vector1: dynamic_v1 "vector_v1 spare" dsb_inv for spare
proof (unfold_locales, unfold vector_as_string(1-6))
  fix b n
  assume b: "dsb_inv b"
  show "d_size (string_v1 spare) b = length (d_data (string_v1 spare) b) \<and> d_size (string_v1 spare) b \<le> d_max (string_v1 spare) b \<and>
      d_size (string_v1 spare) b \<le> d_cap (string_v1 spare) b"
    by (rule string1.size1 [OF b])
  assume "n \<le> d_max (string_v1 spare) b - d_size (string_v1 spare) b"
  from string1.extend1 [OF b this]
  show "\<exists>u b1. d_prepare (vector_v1 spare) n b = (Inr u, b1) \<and> buf_size u = n \<and>
      (\<forall>bs. length bs \<le> n \<longrightarrow> (let b' = d_commit (string_v1 spare) (length bs) (d_write (string_v1 spare) u bs b1) in
         dsb_inv b' \<and> d_data (string_v1 spare) b' = d_data (string_v1 spare) b @ bs \<and>
         d_max (string_v1 spare) b' = d_max (string_v1 spare) b))"
    by (elim exE conjE) (intro exI conjI vector_as_string(14), assumption+)
qed

interpretation vector2: dynamic_v2 "vector_v2 spare" dsb_inv2 dsb_contents for spare
proof (unfold_locales, unfold vector_as_string(7-13))
  fix b n
  assume b: "dsb_inv2 b"
  show "g_size (string_v2 spare) b = length (dsb_contents b) \<and> g_size (string_v2 spare) b \<le> g_max (string_v2 spare) b \<and>
      g_size (string_v2 spare) b \<le> g_cap (string_v2 spare) b"
    by (rule string2.size2 [OF b])
  show "g_read (string_v2 spare) (g_data (string_v2 spare) 0 (g_size (string_v2 spare) b) b) b = dsb_contents b"
    by (rule string2.read2 [OF b])
  assume "n \<le> g_max (string_v2 spare) b - g_size (string_v2 spare) b"
  from string2.extend2 [OF b this]
  show "\<exists>b1. g_grow (vector_v2 spare) n b = (Inr (), b1) \<and>
      buf_size (g_data (string_v2 spare) (g_size (string_v2 spare) b) n b1) = n \<and>
      (\<forall>bs. length bs \<le> n \<longrightarrow> (let b' = g_shrink (string_v2 spare) (n - length bs)
           (g_write (string_v2 spare) (g_data (string_v2 spare) (g_size (string_v2 spare) b) n b1) bs b1) in
         dsb_inv2 b' \<and> dsb_contents b' = dsb_contents b @ bs \<and> g_max (string_v2 spare) b' = g_max (string_v2 spare) b))"
    by (elim exE conjE) (intro exI conjI vector_as_string(15), assumption+)
qed

lemma dvb_consume_as_dsb: "dsb_inv b \<Longrightarrow> dvb_consume n b = dsb_consume n b"
  by (auto simp: dvb_consume_def dsb_consume_def dvb_as_dsb dsb_inv_size(1) v_erase_def min_def dsb_inv_def)

end
