(* ===== verification/AsioStreambuf.thy ===== *)
theory AsioStreambuf
  imports AsioDynamic
begin

text \<open>
  \<open>basic_streambuf\<close> (basic_streambuf.hpp): a vector with a get area and a put area, used as a
  dynamic buffer of version 1 through \<open>basic_streambuf_ref\<close>. The pointers of the areas are offsets
  from the start of the vector, which is \<open>eback()\<close>. A vector has less than \<open>2 ^ 31\<close> elements, so the
  casts to \<open>int\<close> lose nothing.
\<close>

section \<open>State and operations\<close>

record sbuf =
  sb_vec :: vec
  sb_gptr :: nat
  sb_egptr :: nat
  sb_pptr :: nat
  sb_epptr :: nat
  sb_maximum :: nat

definition buffer_delta :: nat where
  "buffer_delta = 128"

definition sb_new :: "(nat \<Rightarrow> nat \<Rightarrow> nat) \<Rightarrow> nat \<Rightarrow> sbuf" where
  "sb_new spare maximum_size =
     (let pend = min maximum_size buffer_delta
      in \<lparr>sb_vec = v_resize spare (max pend 1) \<lparr>v_bytes = [], v_cap = 0\<rparr>, sb_gptr = 0, sb_egptr = 0,
          sb_pptr = 0, sb_epptr = pend, sb_maximum = maximum_size\<rparr>)"

definition sb_size :: "sbuf \<Rightarrow> nat" where
  "sb_size b = size_diff (sb_pptr b) (sb_gptr b)"

definition sb_max_size :: "sbuf \<Rightarrow> nat" where
  "sb_max_size b = sb_maximum b"

definition sb_capacity :: "sbuf \<Rightarrow> nat" where
  "sb_capacity b = v_cap (sb_vec b)"

definition sb_data :: "sbuf \<Rightarrow> buf" where
  "sb_data b = buf_make (sb_gptr b) (size_diff (sb_pptr b) (sb_gptr b))"

text \<open>
  \<open>reserve\<close>: the \<open>memmove\<close> to the start of the vector, then the check of the size, then the new
  pointers.
\<close>

definition sb_reserve :: "(nat \<Rightarrow> nat \<Rightarrow> nat) \<Rightarrow> nat \<Rightarrow> sbuf \<Rightarrow> (thrown + unit) \<times> sbuf" where
  "sb_reserve spare n b =
     (let gnext = sb_gptr b; pnext = sb_pptr b; pend = sb_epptr b in
      if n \<le> size_diff pend pnext then (Inr (), b)
      else
        let (pnext, b) =
              (if gnext > 0 then
                 let pnext = size_diff pnext gnext
                 in (pnext, b\<lparr>sb_vec := v_write (buf_make 0 pnext) (v_read (buf_make gnext pnext) (sb_vec b)) (sb_vec b)\<rparr>)
               else (pnext, b));
            (r, pend, b) =
              (if n > size_diff pend pnext then
                 if n \<le> sb_maximum b \<and> pnext \<le> size_diff (sb_maximum b) n then
                   let pend = pnext + n in (Inr (), pend, b\<lparr>sb_vec := v_resize spare (max pend 1) (sb_vec b)\<rparr>)
                 else (Inl (length_error ''asio::streambuf too long''), pend, b)
               else (Inr (), pend, b))
        in case r of
             Inl e \<Rightarrow> (Inl e, b)
           | Inr _ \<Rightarrow> (Inr (), b\<lparr>sb_gptr := 0, sb_egptr := pnext, sb_pptr := pnext, sb_epptr := pend\<rparr>))"

definition sb_prepare :: "(nat \<Rightarrow> nat \<Rightarrow> nat) \<Rightarrow> nat \<Rightarrow> sbuf \<Rightarrow> (thrown + buf) \<times> sbuf" where
  "sb_prepare spare n b =
     (case sb_reserve spare n b of
        (Inl e, b) \<Rightarrow> (Inl e, b)
      | (Inr _, b) \<Rightarrow> (Inr (buf_make (sb_pptr b) n), b))"

definition sb_commit :: "nat \<Rightarrow> sbuf \<Rightarrow> sbuf" where
  "sb_commit n b =
     (let n = min n (size_diff (sb_epptr b) (sb_pptr b)); b = b\<lparr>sb_pptr := sb_pptr b + n\<rparr>
      in b\<lparr>sb_egptr := sb_pptr b\<rparr>)"

definition sb_consume :: "nat \<Rightarrow> sbuf \<Rightarrow> sbuf" where
  "sb_consume n b =
     (let b = (if sb_egptr b < sb_pptr b then b\<lparr>sb_egptr := sb_pptr b\<rparr> else b);
          n = (if sb_gptr b + n > sb_pptr b then size_diff (sb_pptr b) (sb_gptr b) else n)
      in b\<lparr>sb_gptr := sb_gptr b + n\<rparr>)"

text \<open>The virtual functions of \<open>std::streambuf\<close>; \<open>None\<close> is the end of the file.\<close>

definition sb_underflow :: "sbuf \<Rightarrow> u8 option \<times> sbuf" where
  "sb_underflow b =
     (if sb_gptr b < sb_pptr b then
        let b = b\<lparr>sb_egptr := sb_pptr b\<rparr> in (Some (v_bytes (sb_vec b) ! sb_gptr b), b)
      else (None, b))"

definition sb_overflow :: "(nat \<Rightarrow> nat \<Rightarrow> nat) \<Rightarrow> u8 option \<Rightarrow> sbuf \<Rightarrow> (thrown + u8) \<times> sbuf" where
  "sb_overflow spare c b =
     (case c of
        None \<Rightarrow> (Inr 0, b)
      | Some c \<Rightarrow>
          let (r, b) =
                (if sb_pptr b = sb_epptr b then
                   let sz = size_diff (sb_pptr b) (sb_gptr b)
                   in if sz < sb_maximum b \<and> size_diff (sb_maximum b) sz < buffer_delta
                      then sb_reserve spare (size_diff (sb_maximum b) sz) b
                      else sb_reserve spare buffer_delta b
                 else (Inr (), b))
          in case r of
               Inl e \<Rightarrow> (Inl e, b)
             | Inr _ \<Rightarrow>
                 let b = b\<lparr>sb_vec := v_write (buf_make (sb_pptr b) 1) [c] (sb_vec b)\<rparr>
                 in (Inr c, b\<lparr>sb_pptr := sb_pptr b + 1\<rparr>))"

definition read_size_helper :: "sbuf \<Rightarrow> nat \<Rightarrow> nat" where
  "read_size_helper b max_size =
     min (max 512 (size_diff (v_cap (sb_vec b)) (sb_size b))) (min max_size (size_diff (sb_max_size b) (sb_size b)))"

text \<open>\<open>basic_streambuf_ref\<close> passes everything on.\<close>

definition streambuf_v1 :: "(nat \<Rightarrow> nat \<Rightarrow> nat) \<Rightarrow> sbuf dyn1" where
  "streambuf_v1 spare = \<lparr>d_size = sb_size, d_max = sb_max_size, d_cap = sb_capacity,
     d_data = (\<lambda>b. v_read (sb_data b) (sb_vec b)), d_prepare = sb_prepare spare,
     d_write = (\<lambda>u bs b. b\<lparr>sb_vec := v_write u bs (sb_vec b)\<rparr>), d_commit = sb_commit\<rparr>"

section \<open>The areas\<close>

definition sb_inv :: "sbuf \<Rightarrow> bool" where
  "sb_inv b \<longleftrightarrow> sb_gptr b \<le> sb_pptr b \<and> sb_egptr b \<le> sb_pptr b \<and> sb_pptr b \<le> sb_epptr b \<and>
     sb_epptr b \<le> v_size (sb_vec b) \<and> sb_epptr b \<le> sb_maximum b \<and> sb_maximum b \<le> size_max \<and>
     v_size (sb_vec b) \<le> v_cap (sb_vec b)"

definition sb_contents :: "sbuf \<Rightarrow> bytes" where
  "sb_contents b = take (sb_pptr b - sb_gptr b) (drop (sb_gptr b) (v_bytes (sb_vec b)))"

lemma sb_new_inv: "maximum_size \<le> size_max \<Longrightarrow> sb_inv (sb_new spare maximum_size) \<and> sb_contents (sb_new spare maximum_size) = []"
  by (simp add: sb_inv_def sb_contents_def sb_new_def Let_def v_resize_def)

lemma sb_inv_size:
  assumes "sb_inv b"
  shows "sb_size b = length (sb_contents b)" "v_read (sb_data b) (sb_vec b) = sb_contents b"
    "sb_size b = sb_pptr b - sb_gptr b" "sb_size b \<le> sb_maximum b"
  using assms by (auto simp: sb_inv_def sb_size_def sb_contents_def sb_data_def v_read_def buf_make_def)

text \<open>The contents moved to the start of the vector.\<close>

definition shifted :: "sbuf \<Rightarrow> vec" where
  "shifted b = (sb_vec b)\<lparr>v_bytes := sb_contents b @ drop (length (sb_contents b)) (v_bytes (sb_vec b))\<rparr>"

lemma shift_vec:
  assumes "sb_inv b"
  shows "v_write (buf_make 0 (sb_pptr b - sb_gptr b)) (v_read (buf_make (sb_gptr b) (sb_pptr b - sb_gptr b)) (sb_vec b)) (sb_vec b) =
    shifted b"
  using assms by (simp add: shifted_def v_write_def v_read_def buf_make_def sb_contents_def)

lemma shifted_size: "sb_inv b \<Longrightarrow> v_size (shifted b) = v_size (sb_vec b) \<and> v_cap (shifted b) = v_cap (sb_vec b)"
  by (auto simp: shifted_def sb_inv_def sb_contents_def)

lemma take_shifted: "take (length (sb_contents b)) (v_bytes (shifted b)) = sb_contents b"
  by (simp add: shifted_def)

lemma shifted_at_start: "sb_inv b \<Longrightarrow> sb_gptr b = 0 \<Longrightarrow> shifted b = sb_vec b"
  by (simp add: shifted_def sb_inv_def sb_contents_def min_def)

text \<open>\<open>reserve\<close> with the contents moved.\<close>

lemma sb_reserve_cases:
  assumes b: "sb_inv b"
  shows "sb_reserve spare n b =
    (if n \<le> sb_epptr b - sb_pptr b then (Inr (), b)
     else if n > sb_epptr b - sb_size b \<and> n > sb_maximum b - sb_size b then
       (Inl (length_error ''asio::streambuf too long''), b\<lparr>sb_vec := shifted b\<rparr>)
     else let pend = (if n > sb_epptr b - sb_size b then sb_size b + n else sb_epptr b);
              v = (if n > sb_epptr b - sb_size b then v_resize spare (max pend 1) (shifted b) else shifted b)
          in (Inr (), b\<lparr>sb_vec := v, sb_gptr := 0, sb_egptr := sb_size b, sb_pptr := sb_size b, sb_epptr := pend\<rparr>))"
proof -
  have i: "sb_gptr b \<le> sb_pptr b" "sb_pptr b \<le> sb_epptr b" "sb_size b \<le> sb_epptr b"
    "sb_size b = sb_pptr b - sb_gptr b" "sb_size b \<le> sb_maximum b"
    using b sb_inv_size(3,4) [OF b] by (auto simp: sb_inv_def)
  have sh: "(if sb_gptr b > 0 then
         let pnext = size_diff (sb_pptr b) (sb_gptr b)
         in (pnext, b\<lparr>sb_vec := v_write (buf_make 0 pnext) (v_read (buf_make (sb_gptr b) pnext) (sb_vec b)) (sb_vec b)\<rparr>)
       else (sb_pptr b, b)) = (sb_size b, b\<lparr>sb_vec := shifted b\<rparr>)"
    using i(1,4) shift_vec [OF b] shifted_at_start [OF b] by (simp add: Let_def)
  have fits: "(n \<le> sb_maximum b \<and> sb_size b \<le> size_diff (sb_maximum b) n) \<longleftrightarrow> n \<le> sb_maximum b - sb_size b"
    using i(5) by (auto simp: size_diff_def)
  show ?thesis
    unfolding sb_reserve_def Let_def sh [unfolded Let_def] prod.case
    using i fits by (auto simp: Let_def)
qed

lemma sb_reserve_ok:
  assumes b: "sb_inv b" and n: "n \<le> sb_maximum b - sb_size b"
  shows "\<exists>b'. sb_reserve spare n b = (Inr (), b') \<and> sb_inv b' \<and> sb_contents b' = sb_contents b \<and>
    sb_maximum b' = sb_maximum b \<and> n \<le> sb_epptr b' - sb_pptr b'"
proof (cases "n \<le> sb_epptr b - sb_pptr b")
  case True
  then show ?thesis using b by (simp add: sb_reserve_cases)
next
  case False
  let ?pend = "if n > sb_epptr b - sb_size b then sb_size b + n else sb_epptr b"
  let ?v = "if n > sb_epptr b - sb_size b then v_resize spare (max ?pend 1) (shifted b) else shifted b"
  let ?b = "b\<lparr>sb_vec := ?v, sb_gptr := 0, sb_egptr := sb_size b, sb_pptr := sb_size b, sb_epptr := ?pend\<rparr>"
  note s = sb_inv_size [OF b] shifted_size [OF b] take_shifted [of b]
  have i: "sb_epptr b \<le> v_size (sb_vec b)" "v_size (sb_vec b) \<le> v_cap (sb_vec b)" "sb_size b \<le> sb_epptr b"
    "sb_epptr b \<le> sb_maximum b" "sb_maximum b \<le> size_max"
    using b s(3) by (auto simp: sb_inv_def)
  have v: "?pend \<le> v_size ?v" "v_size ?v \<le> v_cap ?v" using i s(5) v_resize_cap [of "shifted b"] by auto
  have "length (sb_contents b) \<le> v_size (shifted b)" by (simp add: shifted_def)
  then have "take (sb_size b) (v_bytes ?v) = sb_contents b" using s(1,6) by (auto simp: v_resize_def)
  then have "sb_contents ?b = sb_contents b" by (simp add: sb_contents_def)
  moreover have "sb_size b + n \<le> sb_maximum b" using n s(4) by linarith
  then have "sb_inv ?b" using v i by (simp add: sb_inv_def)
  moreover have "sb_reserve spare n b = (Inr (), ?b)" using False n by (simp add: sb_reserve_cases [OF b] Let_def)
  moreover have "n \<le> ?pend - sb_size b" by simp
  ultimately show ?thesis by (intro exI [of _ ?b]) simp
qed

lemma sb_reserve_fails:
  assumes b: "sb_inv b" and n: "n > sb_maximum b - sb_size b"
  shows "sb_reserve spare n b = (Inl (length_error ''asio::streambuf too long''), b\<lparr>sb_vec := shifted b\<rparr>)"
proof -
  have "sb_epptr b \<le> sb_maximum b" "sb_size b \<le> sb_pptr b" "sb_pptr b \<le> sb_epptr b"
    using b sb_inv_size(3) [OF b] by (auto simp: sb_inv_def)
  then have "\<not> n \<le> sb_epptr b - sb_pptr b" "n > sb_epptr b - sb_size b" using n by linarith+
  then show ?thesis using n unfolding sb_reserve_cases [OF b] by simp
qed

section \<open>The interface\<close>

lemma sb_written:
  assumes b: "sb_inv b" and n: "n \<le> sb_epptr b - sb_pptr b" and bs: "length bs \<le> n"
    and b': "b' = sb_commit (length bs) (b\<lparr>sb_vec := v_write (buf_make (sb_pptr b) n) bs (sb_vec b)\<rparr>)"
  shows "sb_inv b' \<and> sb_contents b' = sb_contents b @ bs \<and> sb_maximum b' = sb_maximum b"
proof -
  have i: "sb_gptr b \<le> sb_pptr b" "sb_pptr b + length bs \<le> sb_epptr b" "sb_epptr b \<le> v_size (sb_vec b)"
    using b n bs by (auto simp: sb_inv_def)
  let ?v = "v_write (buf_make (sb_pptr b) n) bs (sb_vec b)"
  have e: "b' = b\<lparr>sb_vec := ?v, sb_pptr := sb_pptr b + length bs, sb_egptr := sb_pptr b + length bs\<rparr>"
    using i bs n unfolding b' sb_commit_def by (simp add: Let_def)
  have v: "v_bytes ?v = take (sb_pptr b) (v_bytes (sb_vec b)) @ bs @ drop (sb_pptr b + length bs) (v_bytes (sb_vec b))"
    by (simp add: v_write_def buf_make_def)
  have "sb_contents b' = sb_contents b @ bs"
    using i by (simp add: e sb_contents_def v drop_take)
  moreover have "v_size ?v = v_size (sb_vec b)" using i by (simp add: v_size_write buf_make_def)
  ultimately show ?thesis using b i by (simp add: e sb_inv_def)
qed

interpretation streambuf1: dynamic_v1 "streambuf_v1 spare" sb_inv for spare
proof
  fix b n
  assume b: "sb_inv b"
  note s = sb_inv_size [OF b]
  show "d_size (streambuf_v1 spare) b = length (d_data (streambuf_v1 spare) b) \<and>
      d_size (streambuf_v1 spare) b \<le> d_max (streambuf_v1 spare) b \<and>
      d_size (streambuf_v1 spare) b \<le> d_cap (streambuf_v1 spare) b"
    using s b by (auto simp: streambuf_v1_def sb_max_size_def sb_capacity_def sb_inv_def)
  assume "n \<le> d_max (streambuf_v1 spare) b - d_size (streambuf_v1 spare) b"
  then have "n \<le> sb_maximum b - sb_size b" by (simp add: streambuf_v1_def sb_max_size_def)
  from sb_reserve_ok [OF b this, of spare] obtain b1 where
    r: "sb_reserve spare n b = (Inr (), b1)" "sb_inv b1" "sb_contents b1 = sb_contents b"
      "sb_maximum b1 = sb_maximum b" "n \<le> sb_epptr b1 - sb_pptr b1" by blast
  have "let b' = sb_commit (length bs) (b1\<lparr>sb_vec := v_write (buf_make (sb_pptr b1) n) bs (sb_vec b1)\<rparr>) in
      sb_inv b' \<and> v_read (sb_data b') (sb_vec b') = v_read (sb_data b) (sb_vec b) @ bs \<and> sb_maximum b' = sb_maximum b"
    if "length bs \<le> n" for bs
    using sb_written [OF r(2,5) that refl] sb_inv_size(2) r(3,4) s(2) by (simp add: Let_def)
  then show "\<exists>u b1. d_prepare (streambuf_v1 spare) n b = (Inr u, b1) \<and> buf_size u = n \<and>
      (\<forall>bs. length bs \<le> n \<longrightarrow> (let b' = d_commit (streambuf_v1 spare) (length bs) (d_write (streambuf_v1 spare) u bs b1) in
         sb_inv b' \<and> d_data (streambuf_v1 spare) b' = d_data (streambuf_v1 spare) b @ bs \<and>
         d_max (streambuf_v1 spare) b' = d_max (streambuf_v1 spare) b))"
    using r(1) by (intro exI [of _ "buf_make (sb_pptr b1) n"] exI [of _ b1])
      (simp add: streambuf_v1_def sb_prepare_def sb_max_size_def buf_make_def Let_def)
qed

section \<open>A queue of bytes\<close>

lemma sb_consume_drops:
  assumes "sb_inv b"
  shows "sb_inv (sb_consume n b) \<and> sb_contents (sb_consume n b) = drop n (sb_contents b) \<and>
    sb_maximum (sb_consume n b) = sb_maximum b"
  using assms by (auto simp: sb_consume_def sb_inv_def sb_contents_def Let_def drop_take add.commute)

lemma sb_underflow_peeks:
  assumes "sb_inv b"
  shows "case sb_underflow b of (c, b') \<Rightarrow> c = (case sb_contents b of [] \<Rightarrow> None | x # _ \<Rightarrow> Some x) \<and>
    sb_inv b' \<and> sb_contents b' = sb_contents b"
proof (cases "sb_gptr b < sb_pptr b")
  case True
  then have l: "sb_gptr b < v_size (sb_vec b)" using assms by (simp add: sb_inv_def)
  have "sb_contents b = v_bytes (sb_vec b) ! sb_gptr b #
      take (sb_pptr b - sb_gptr b - 1) (drop (Suc (sb_gptr b)) (v_bytes (sb_vec b)))"
    using True unfolding sb_contents_def Cons_nth_drop_Suc [OF l, symmetric] by (cases "sb_pptr b - sb_gptr b") simp_all
  then show ?thesis using True assms by (auto simp: sb_underflow_def sb_inv_def sb_contents_def Let_def)
next
  case False
  then show ?thesis using assms by (simp add: sb_underflow_def sb_contents_def)
qed

text \<open>\<open>overflow\<close> writes one character, but does not move \<open>egptr\<close>, which \<open>underflow\<close> does later.\<close>

lemma sb_put:
  assumes b: "sb_inv b" and n: "1 \<le> sb_epptr b - sb_pptr b"
    and b': "b' = (b\<lparr>sb_vec := v_write (buf_make (sb_pptr b) 1) [c] (sb_vec b), sb_pptr := sb_pptr b + 1\<rparr>)"
  shows "sb_inv b' \<and> sb_contents b' = sb_contents b @ [c] \<and> sb_maximum b' = sb_maximum b"
proof -
  from sb_written [OF b n _ refl, of "[c]"] n
  have w: "sb_inv (b'\<lparr>sb_egptr := sb_pptr b + 1\<rparr>)" "sb_contents (b'\<lparr>sb_egptr := sb_pptr b + 1\<rparr>) = sb_contents b @ [c]"
    "sb_maximum (b'\<lparr>sb_egptr := sb_pptr b + 1\<rparr>) = sb_maximum b"
    by (simp_all add: sb_commit_def b' Let_def)
  moreover have "sb_egptr b' \<le> sb_pptr b'" using b by (simp add: sb_inv_def b')
  ultimately show ?thesis by (simp add: sb_inv_def sb_contents_def)
qed

lemma sb_overflow_appends:
  assumes b: "sb_inv b" and room: "sb_size b < sb_maximum b"
  shows "\<exists>b'. sb_overflow spare (Some c) b = (Inr c, b') \<and> sb_inv b' \<and> sb_contents b' = sb_contents b @ [c] \<and>
    sb_maximum b' = sb_maximum b"
proof -
  note s = sb_inv_size [OF b]
  define n where "n = (if size_diff (sb_maximum b) (sb_size b) < buffer_delta
    then size_diff (sb_maximum b) (sb_size b) else buffer_delta)"
  have n: "n \<le> sb_maximum b - sb_size b" "1 \<le> n" using room by (auto simp: n_def buffer_delta_def)
  obtain b1 where r: "(if sb_pptr b = sb_epptr b then sb_reserve spare n b else (Inr (), b)) = (Inr (), b1)"
    "sb_inv b1" "sb_contents b1 = sb_contents b" "sb_maximum b1 = sb_maximum b" "1 \<le> sb_epptr b1 - sb_pptr b1"
  proof (cases "sb_pptr b = sb_epptr b")
    case True
    from sb_reserve_ok [OF b n(1), of spare] obtain b1 where
      "sb_reserve spare n b = (Inr (), b1)" "sb_inv b1" "sb_contents b1 = sb_contents b" "sb_maximum b1 = sb_maximum b"
      "n \<le> sb_epptr b1 - sb_pptr b1" by blast
    with True n(2) show thesis by (intro that [of b1]) auto
  next
    case False
    then have "1 \<le> sb_epptr b - sb_pptr b" using b by (auto simp: sb_inv_def)
    with False b show thesis by (intro that [of b]) simp_all
  qed
  have "(if sb_pptr b = sb_epptr b then
      let sz = size_diff (sb_pptr b) (sb_gptr b)
      in if sz < sb_maximum b \<and> size_diff (sb_maximum b) sz < buffer_delta
         then sb_reserve spare (size_diff (sb_maximum b) sz) b
         else sb_reserve spare buffer_delta b
      else (Inr (), b)) = (Inr (), b1)"
    unfolding Let_def sb_size_def [symmetric] using r(1) room unfolding n_def by (simp split: if_splits)
  then have "sb_overflow spare (Some c) b =
      (Inr c, b1\<lparr>sb_vec := v_write (buf_make (sb_pptr b1) 1) [c] (sb_vec b1), sb_pptr := sb_pptr b1 + 1\<rparr>)"
    by (simp only: sb_overflow_def option.case) (simp add: Let_def)
  then show ?thesis using sb_put [OF r(2,5) refl, of c] r(3,4) by simp
qed


definition sample_sbuf :: sbuf where
  "sample_sbuf = \<lparr>sb_vec = \<lparr>v_bytes = [120, 97, 98, 99], v_cap = 4\<rparr>, sb_gptr = 1, sb_egptr = 4, sb_pptr = 4,
     sb_epptr = 4, sb_maximum = 4\<rparr>"

lemma sample_sbuf_inv: "sb_inv sample_sbuf" "sb_contents sample_sbuf = [97, 98, 99]" "sb_maximum sample_sbuf = 4"
  by (simp_all add: sample_sbuf_def sb_inv_def sb_contents_def size_max_def)


lemma moved_over:
  assumes "n = length c" and "g \<le> n" and "c = take n (drop g xs)"
  shows "take n (drop g (c @ drop n xs)) = drop g c @ drop (n - g) c"
proof -
  have "drop (n - g) c = take g (drop n xs)" using assms(2) by (subst assms(3)) (simp add: drop_take)
  then show ?thesis using assms(1,2) by simp
qed

text \<open>
  C36: When more is asked for than the maximum allows, \<open>reserve\<close> has moved the contents to the start of
  the vector before it throws, and leaves the pointers as they were: with \<open>g\<close> bytes consumed, the
  first \<open>g\<close> bytes of the contents are lost and the last \<open>g\<close> appear twice.
\<close>

theorem failed_reserve_corrupts:
  assumes b: "sb_inv b" and "n > sb_maximum b - length (sb_contents b)" and "sb_gptr b \<le> length (sb_contents b)"
  shows "case sb_prepare spare n b of (r, b') \<Rightarrow> r = Inl (length_error ''asio::streambuf too long'') \<and>
    sb_contents b' = drop (sb_gptr b) (sb_contents b) @ drop (length (sb_contents b) - sb_gptr b) (sb_contents b)"
proof -
  let ?c = "sb_contents b" and ?g = "sb_gptr b" and ?xs = "v_bytes (sb_vec b)"
  have i: "?g \<le> sb_pptr b" "sb_pptr b \<le> length ?xs" "length ?c = sb_pptr b - ?g"
    using b sb_inv_size(1,3) [OF b] by (auto simp: sb_inv_def)
  have r: "sb_prepare spare n b = (Inl (length_error ''asio::streambuf too long''), b\<lparr>sb_vec := shifted b\<rparr>)"
    using sb_reserve_fails [OF b, of n spare] assms(2) sb_inv_size(1) [OF b] by (simp add: sb_prepare_def)
  have "sb_contents (b\<lparr>sb_vec := shifted b\<rparr>) = take (length ?c) (drop ?g (v_bytes (shifted b)))"
    unfolding i(3) sb_contents_def [of "b\<lparr>sb_vec := shifted b\<rparr>"] by simp
  also have "v_bytes (shifted b) = ?c @ drop (length ?c) ?xs" by (simp add: shifted_def)
  also have "take (length ?c) (drop ?g \<dots>) = drop ?g ?c @ drop (length ?c - ?g) ?c"
    by (rule moved_over [OF refl assms(3)]) (simp only: i(3), rule sb_contents_def)
  finally show ?thesis using r by simp
qed

lemma failed_reserve_corrupts_witness:
  "case sb_prepare (\<lambda>_ _. 0) 2 sample_sbuf of (r, b') \<Rightarrow> sb_contents b' = [98, 99, 99]"
proof -
  have "(2::nat) > sb_maximum sample_sbuf - length (sb_contents sample_sbuf)" "sb_gptr sample_sbuf \<le> length (sb_contents sample_sbuf)"
    by (simp_all add: sample_sbuf_inv) (simp add: sample_sbuf_def)
  from failed_reserve_corrupts [OF sample_sbuf_inv(1) this, of "\<lambda>_ _. 0"] show ?thesis
    by (simp add: sample_sbuf_inv split: prod.splits) (simp add: sample_sbuf_def)
qed

end
