(* ===== verification/AsioReadUntil.thy ===== *)
theory AsioReadUntil
  imports AsioStreambuf AsioEcho "HOL-Library.Sublist"
begin

text \<open>
  \<open>read_until\<close> of impl/read_until.hpp: bytes are read into a dynamic buffer until a delimiter has
  arrived. After each read the search goes on where a match may still begin. The loop is generic in
  the buffer, as the templates are (\<open>reading\<close>), and in the search; the locale \<open>delimiter\<close> states what
  the loop relies on of a search, and \<open>read_buffer\<close> what it relies on of a buffer of either version.
\<close>

section \<open>Searching\<close>

text \<open>
  The inner loop of \<open>partial_search\<close>, at one position: \<open>moved\<close> tells whether the iterator into the
  delimiter has moved.
\<close>

datatype match_at = Full | Partial | No

fun match_prefix :: "bool \<Rightarrow> 'a list \<Rightarrow> 'a list \<Rightarrow> match_at" where
  "match_prefix moved xs [] = Full"
| "match_prefix moved [] (d # ds) = (if moved then Partial else No)"
| "match_prefix moved (x # xs) (d # ds) = (if x \<noteq> d then No else match_prefix True xs ds)"

text \<open>The position is counted from the start of the range; its length stands for the end.\<close>

fun partial_search :: "'a list \<Rightarrow> 'a list \<Rightarrow> nat \<times> bool" where
  "partial_search [] ds = (0, False)"
| "partial_search (x # xs) ds =
     (case match_prefix False (x # xs) ds of
        Full \<Rightarrow> (0, True)
      | Partial \<Rightarrow> (0, False)
      | No \<Rightarrow> (case partial_search xs ds of (n, full) \<Rightarrow> (n + 1, full)))"

text \<open>
  The searches of \<open>read_until\<close>, from the search position on: \<open>Inl\<close> of the number of bytes up to and
  including the delimiter, or \<open>Inr\<close> of the position where the next search starts.
\<close>

definition search_char :: "u8 \<Rightarrow> bytes \<Rightarrow> nat \<Rightarrow> nat + nat" where
  "search_char delim xs search_position =
     (let iter = search_position + length (takeWhile (\<lambda>c. c \<noteq> delim) (drop search_position xs))
      in if iter \<noteq> length xs then Inl (iter + 1) else Inr (length xs))"

definition search_string :: "bytes \<Rightarrow> bytes \<Rightarrow> nat \<Rightarrow> nat + nat" where
  "search_string delim xs search_position =
     (let (r, full) = partial_search (drop search_position xs) delim; first = search_position + r
      in if first \<noteq> length xs then if full then Inl (first + length delim) else Inr first
         else Inr (length xs))"

text \<open>A match condition is given the range and returns a position in it, and whether it is the end of a match.\<close>

definition search_match :: "(bytes \<Rightarrow> nat \<times> bool) \<Rightarrow> bytes \<Rightarrow> nat \<Rightarrow> nat + nat" where
  "search_match match_condition xs search_position =
     (let (r, full) = match_condition (drop search_position xs); first = search_position + r
      in if full then Inl first else if first \<noteq> length xs then Inr first else Inr (length xs))"

section \<open>The loops\<close>

type_synonym 'w read_some = "nat \<Rightarrow> 'w \<Rightarrow> (bytes \<times> error_code \<times> 'w) option"

text \<open>What the loop asks of a buffer, and one read into it, of either version.\<close>

record 'b readable =
  r_size :: "'b \<Rightarrow> nat"
  r_max :: "'b \<Rightarrow> nat"
  r_cap :: "'b \<Rightarrow> nat"
  r_data :: "'b \<Rightarrow> bytes"

record ('b, 'w) reading = "'b readable" +
  r_more :: "nat \<Rightarrow> 'w read_some \<Rightarrow> 'b \<Rightarrow> 'w \<Rightarrow> ((thrown + nat \<times> error_code) \<times> 'b \<times> 'w) option"

definition more_v1 ::
  "'b dyn1 \<Rightarrow> nat \<Rightarrow> 'w read_some \<Rightarrow> 'b \<Rightarrow> 'w \<Rightarrow> ((thrown + nat \<times> error_code) \<times> 'b \<times> 'w) option" where
  "more_v1 D bytes_to_read read_some b w =
     (case d_prepare D bytes_to_read b of
        (Inl e, b) \<Rightarrow> Some (Inl e, b, w)
      | (Inr u, b) \<Rightarrow> Option.bind (read_some (buf_size u) w) (\<lambda>(got, ec, w).
          Some (Inr (length got, ec), d_commit D (length got) (d_write D u got b), w)))"

definition more_v2 ::
  "'b dyn2 \<Rightarrow> nat \<Rightarrow> 'w read_some \<Rightarrow> 'b \<Rightarrow> 'w \<Rightarrow> ((thrown + nat \<times> error_code) \<times> 'b \<times> 'w) option" where
  "more_v2 G bytes_to_read read_some b w =
     (let pos = g_size G b in
      case g_grow G bytes_to_read b of
        (Inl e, b) \<Rightarrow> Some (Inl e, b, w)
      | (Inr _, b) \<Rightarrow>
          let u = g_data G pos bytes_to_read b
          in Option.bind (read_some (buf_size u) w) (\<lambda>(got, ec, w).
               Some (Inr (length got, ec), g_shrink G (size_diff bytes_to_read (length got)) (g_write G u got b), w)))"

definition readable_v1 :: "'b dyn1 \<Rightarrow> 'b readable" where
  "readable_v1 D = \<lparr>r_size = d_size D, r_max = d_max D, r_cap = d_cap D, r_data = d_data D\<rparr>"

definition readable_v2 :: "'b dyn2 \<Rightarrow> 'b readable" where
  "readable_v2 G = \<lparr>r_size = g_size G, r_max = g_max G, r_cap = g_cap G,
     r_data = (\<lambda>b. g_read G (g_data G 0 (g_size G b) b) b)\<rparr>"

definition reading_v1 :: "'b dyn1 \<Rightarrow> ('b, 'w) reading" where
  "reading_v1 D = readable.extend (readable_v1 D) \<lparr>r_more = more_v1 D\<rparr>"

definition reading_v2 :: "'b dyn2 \<Rightarrow> ('b, 'w) reading" where
  "reading_v2 G = readable.extend (readable_v2 G) \<lparr>r_more = more_v2 G\<rparr>"

lemma reading_simps [simp]:
  "r_size (reading_v1 D) = d_size D" "r_max (reading_v1 D) = d_max D" "r_cap (reading_v1 D) = d_cap D"
  "r_data (reading_v1 D) = d_data D" "r_more (reading_v1 D) = more_v1 D"
  "r_size (reading_v2 G) = g_size G" "r_max (reading_v2 G) = g_max G" "r_cap (reading_v2 G) = g_cap G"
  "r_data (reading_v2 G) = (\<lambda>b. g_read G (g_data G 0 (g_size G b) b) b)" "r_more (reading_v2 G) = more_v2 G"
  "readable.truncate (reading_v1 D) = readable_v1 D" "readable.truncate (reading_v2 G) = readable_v2 G"
  by (simp_all add: reading_v1_def reading_v2_def readable_v1_def readable_v2_def readable.defs)

definition bytes_to_read :: "('b, 'z) readable_scheme \<Rightarrow> 'b \<Rightarrow> nat" where
  "bytes_to_read R b =
     min (max 512 (size_diff (r_cap R b) (r_size R b))) (min 65536 (size_diff (r_max R b) (r_size R b)))"

partial_function (option) read_until_loop ::
  "('b, 'w) reading \<Rightarrow> (bytes \<Rightarrow> nat \<Rightarrow> nat + nat) \<Rightarrow> 'w read_some \<Rightarrow> nat \<Rightarrow> 'b \<Rightarrow> 'w \<Rightarrow>
   ((thrown + nat \<times> error_code) \<times> 'b \<times> 'w) option" where
  "read_until_loop R search read_some search_position b w =
     (case search (r_data R b) search_position of
        Inl n \<Rightarrow> Some (Inr (n, no_error), b, w)
      | Inr search_position \<Rightarrow>
          if r_size R b = r_max R b then Some (Inr (0, ec_not_found), b, w)
          else Option.bind (r_more R (bytes_to_read R b) read_some b w) (\<lambda>(r, b, w).
            case r of
              Inl e \<Rightarrow> Some (Inl e, b, w)
            | Inr (_, ec) \<Rightarrow> if ec_set ec then Some (Inr (0, ec), b, w)
                else read_until_loop R search read_some search_position b w))"

text \<open>The overloads for a character, a string and a match condition, for both versions.\<close>

definition read_until_char_v1 where
  "read_until_char_v1 D delim read_some b w = read_until_loop (reading_v1 D) (search_char delim) read_some 0 b w"

definition read_until_string_v1 where
  "read_until_string_v1 D delim read_some b w = read_until_loop (reading_v1 D) (search_string delim) read_some 0 b w"

definition read_until_match_v1 where
  "read_until_match_v1 D match_condition read_some b w =
     read_until_loop (reading_v1 D) (search_match match_condition) read_some 0 b w"

definition read_until_char_v2 where
  "read_until_char_v2 G delim read_some b w = read_until_loop (reading_v2 G) (search_char delim) read_some 0 b w"

definition read_until_string_v2 where
  "read_until_string_v2 G delim read_some b w = read_until_loop (reading_v2 G) (search_string delim) read_some 0 b w"

definition read_until_match_v2 where
  "read_until_match_v2 G match_condition read_some b w =
     read_until_loop (reading_v2 G) (search_match match_condition) read_some 0 b w"

text \<open>The overloads that throw.\<close>

definition until_throw ::
  "((thrown + nat \<times> error_code) \<times> 'b \<times> 'w) option \<Rightarrow> ((thrown + nat) \<times> 'b \<times> 'w) option" where
  "until_throw m = map_option (\<lambda>(r, b, w). (case r of Inl e \<Rightarrow> Inl e | Inr (n, ec) \<Rightarrow> throw_error ec n, b, w)) m"

definition read_until_char_v1_throw where
  "read_until_char_v1_throw D delim read_some b w = until_throw (read_until_char_v1 D delim read_some b w)"

definition read_until_string_v1_throw where
  "read_until_string_v1_throw D delim read_some b w = until_throw (read_until_string_v1 D delim read_some b w)"

definition read_until_match_v1_throw where
  "read_until_match_v1_throw D match_condition read_some b w =
     until_throw (read_until_match_v1 D match_condition read_some b w)"

definition read_until_char_v2_throw where
  "read_until_char_v2_throw G delim read_some b w = until_throw (read_until_char_v2 G delim read_some b w)"

definition read_until_string_v2_throw where
  "read_until_string_v2_throw G delim read_some b w = until_throw (read_until_string_v2 G delim read_some b w)"

definition read_until_match_v2_throw where
  "read_until_match_v2_throw G match_condition read_some b w =
     until_throw (read_until_match_v2 G match_condition read_some b w)"

text \<open>The overloads for a \<open>basic_streambuf\<close>.\<close>

definition read_until_char_streambuf where
  "read_until_char_streambuf spare delim read_some b w = read_until_char_v1 (streambuf_v1 spare) delim read_some b w"

definition read_until_string_streambuf where
  "read_until_string_streambuf spare delim read_some b w = read_until_string_v1 (streambuf_v1 spare) delim read_some b w"

definition read_until_match_streambuf where
  "read_until_match_streambuf spare match_condition read_some b w =
     read_until_match_v1 (streambuf_v1 spare) match_condition read_some b w"

definition read_until_char_streambuf_throw where
  "read_until_char_streambuf_throw spare delim read_some b w =
     read_until_char_v1_throw (streambuf_v1 spare) delim read_some b w"

definition read_until_string_streambuf_throw where
  "read_until_string_streambuf_throw spare delim read_some b w =
     read_until_string_v1_throw (streambuf_v1 spare) delim read_some b w"

definition read_until_match_streambuf_throw where
  "read_until_match_streambuf_throw spare match_condition read_some b w =
     read_until_match_v1_throw (streambuf_v1 spare) match_condition read_some b w"

section \<open>What a search finds\<close>

text \<open>The reference: the end of the first occurrence.\<close>

fun first_end :: "'a list \<Rightarrow> 'a list \<Rightarrow> nat option" where
  "first_end d [] = None"
| "first_end d (x # xs) = (if prefix d (x # xs) then Some (length d) else map_option Suc (first_end d xs))"

lemma first_end_Some:
  "first_end d xs = Some n \<longleftrightarrow>
     (\<exists>i < length xs. prefix d (drop i xs) \<and> n = i + length d \<and> (\<forall>j < i. \<not> prefix d (drop j xs)))"
proof (induction xs arbitrary: n)
  case (Cons x xs)
  show ?case
  proof (cases "prefix d (x # xs)")
    case True
    then show ?thesis by (auto elim: allE [of _ 0])
  next
    case False
    let ?at = "\<lambda>i. prefix d (drop i xs) \<and> n = Suc i + length d \<and> (\<forall>j < i. \<not> prefix d (drop j xs))"
    have "first_end d (x # xs) = Some n \<longleftrightarrow> (\<exists>i < length xs. ?at i)"
      using False Cons.IH by auto
    also have "\<dots> \<longleftrightarrow> (\<exists>i < length (x # xs). prefix d (drop i (x # xs)) \<and> n = i + length d \<and>
        (\<forall>j < i. \<not> prefix d (drop j (x # xs))))" (is "_ \<longleftrightarrow> ?r")
    proof
      assume "\<exists>i < length xs. ?at i"
      then obtain i where "i < length xs" "?at i" by blast
      then show ?r using False by (intro exI [of _ "Suc i"]) (auto simp: less_Suc_eq_0_disj)
    next
      assume ?r
      then obtain i where i: "i < length (x # xs)" "prefix d (drop i (x # xs))" "n = i + length d"
        "\<forall>j < i. \<not> prefix d (drop j (x # xs))" by blast
      with False obtain k where "i = Suc k" by (cases i) auto
      with i show "\<exists>i < length xs. ?at i" by (intro exI [of _ k]) auto
    qed
    finally show ?thesis .
  qed
qed simp

text \<open>Within a range, a match is found; a position that cannot match is left for good; what remains may begin one.\<close>

lemma match_prefix_Full: "match_prefix moved xs d = Full \<longleftrightarrow> prefix d xs"
  by (induction moved xs d rule: match_prefix.induct) auto

lemma match_prefix_No: "match_prefix moved xs d = No \<Longrightarrow> moved \<or> xs \<noteq> [] \<Longrightarrow> \<not> prefix d (xs @ ys)"
  by (induction moved xs d rule: match_prefix.induct) (auto split: if_splits)

lemma match_prefix_Partial: "match_prefix moved xs d = Partial \<Longrightarrow> length xs < length d"
  by (induction moved xs d rule: match_prefix.induct) (auto split: if_splits)

lemma first_end_short: "length xs < length d \<Longrightarrow> first_end d xs = None"
  by (induction xs) (auto dest: prefix_length_le)

lemma partial_search_first:
  assumes "partial_search xs d = (r, full)"
  shows "r \<le> length xs \<and> (\<forall>j < r. \<forall>ys. \<not> prefix d (drop j xs @ ys)) \<and>
    (if full then r < length xs \<and> first_end d xs = Some (r + length d) else first_end d xs = None)"
  using assms
proof (induction xs d arbitrary: r full rule: partial_search.induct)
  case (2 x xs d)
  show ?case
  proof (cases "match_prefix False (x # xs) d")
    case No
    obtain k f where k: "partial_search xs d = (k, f)" by fastforce
    with 2(2) No have r: "r = Suc k" "full = f" by auto
    have n: "\<not> prefix d (x # xs @ ys)" for ys using match_prefix_No [OF No, of ys] by simp
    with n [of "[]"] 2(1) [OF No k] show ?thesis by (auto simp: r less_Suc_eq_0_disj)
  qed (use 2(2) match_prefix_Full [of False "x # xs" d] first_end_short [of "x # xs" d]
      match_prefix_Partial [of False "x # xs" d] in auto)
qed simp

lemma first_end_stable: "first_end d xs = Some n \<Longrightarrow> n \<le> length xs \<and> first_end d (xs @ ys) = Some n"
proof (induction xs arbitrary: n)
  case (Cons x xs)
  have "length d \<le> length (x # xs)" using first_end_short [of "x # xs" d] Cons.prems by fastforce
  then have "prefix d (x # xs @ ys) \<longleftrightarrow> prefix d (x # xs)"
    using prefix_length_prefix [of d "(x # xs) @ ys" "x # xs"] prefix_prefix [of d "x # xs" ys] by auto
  then show ?case using Cons by (auto dest: prefix_length_le split: if_splits)
qed simp

lemma first_end_skip:
  "p \<le> length xs \<Longrightarrow> (\<And>j. j < p \<Longrightarrow> \<not> prefix d (drop j xs)) \<Longrightarrow>
   first_end d xs = map_option ((+) p) (first_end d (drop p xs))"
proof (induction p arbitrary: xs)
  case (Suc p)
  then obtain x ys where xs: "xs = x # ys" by (cases xs) auto
  have "\<not> prefix d xs" using Suc.prems(2) [of 0] by simp
  moreover have "\<not> prefix d (drop j ys)" if "j < p" for j using Suc.prems(2) [of "Suc j"] that by (simp add: xs)
  ultimately show ?case using Suc.IH [of ys] Suc.prems(1) by (simp add: xs option.map_comp comp_def)
qed (simp add: map_option_case split: option.splits)

section \<open>The contract of a search\<close>

text \<open>
  \<open>ok xs p\<close>: no match in any continuation of \<open>xs\<close> begins before \<open>p\<close>. The data that is searched
  grows at its end between searches.
\<close>

locale delimiter =
  fixes search :: "bytes \<Rightarrow> nat \<Rightarrow> nat + nat" and spec :: "bytes \<Rightarrow> nat option" and ok :: "bytes \<Rightarrow> nat \<Rightarrow> bool"
  assumes start: "ok xs 0"
    and found: "ok xs p \<Longrightarrow> search xs p = Inl n \<Longrightarrow> spec xs = Some n"
    and searched: "ok xs p \<Longrightarrow> search xs p = Inr q \<Longrightarrow> spec xs = None \<and> ok (xs @ ys) q"
    and stable: "spec xs = Some n \<Longrightarrow> n \<le> length xs \<and> spec (xs @ ys) = Some n"

definition unmatched :: "bytes \<Rightarrow> bytes \<Rightarrow> nat \<Rightarrow> bool" where
  "unmatched d xs p \<longleftrightarrow> p \<le> length xs \<and> (\<forall>j < p. \<forall>ys. \<not> prefix d (drop j xs @ ys))"

lemma unmatched_skip: "unmatched d xs p \<Longrightarrow> first_end d xs = map_option ((+) p) (first_end d (drop p xs))"
  unfolding unmatched_def by (rule first_end_skip) (metis append_Nil2)+

lemma unmatched_append: "unmatched d xs p \<Longrightarrow> unmatched d (xs @ ys) p"
  by (simp add: unmatched_def)

lemma unmatched_add:
  assumes "unmatched d xs p" and "unmatched d (drop p xs) r"
  shows "unmatched d xs (p + r)"
proof -
  have "\<not> prefix d (drop j xs @ ys)" if "j < p + r" for j ys
  proof (cases "j < p")
    case False
    then have "j - p < r" and e: "j - p + p = j" using that by simp_all
    with assms(2) have "\<not> prefix d (drop (j - p) (drop p xs) @ ys)" unfolding unmatched_def by blast
    then show ?thesis by (simp add: e)
  qed (use assms(1) in \<open>simp add: unmatched_def\<close>)
  then show ?thesis using assms by (auto simp: unmatched_def)
qed

interpretation string_delimiter: delimiter "search_string d" "first_end d" "unmatched d" for d
proof unfold_locales
  fix xs :: bytes and p n q ys
  assume ok: "unmatched d xs p"
  obtain r full where r: "partial_search (drop p xs) d = (r, full)" by fastforce
  note f = partial_search_first [OF r]
  have u: "unmatched d (drop p xs) r" using f by (simp add: unmatched_def)
  have p: "p \<le> length xs" using ok by (simp add: unmatched_def)
  show "first_end d xs = Some n" if "search_string d xs p = Inl n"
    using that f p by (auto simp: search_string_def r unmatched_skip [OF ok] Let_def split: if_splits)
  assume q: "search_string d xs p = Inr q"
  have "\<not> full" using q f p by (auto simp: search_string_def r Let_def split: if_splits)
  moreover from q this have "q = p + r" by (auto simp: search_string_def r Let_def split: if_splits)
  ultimately show "first_end d xs = None \<and> unmatched d (xs @ ys) q"
    using f unmatched_append [OF unmatched_add [OF ok u]] by (simp add: unmatched_skip [OF ok])
qed (use first_end_stable in \<open>auto simp: unmatched_def\<close>)

lemma search_char_as_string:
  assumes "p \<le> length xs"
  shows "search_char c xs p = search_string [c] xs p"
proof -
  have "partial_search ys [c] = (length (takeWhile (\<lambda>x. x \<noteq> c) ys), c \<in> set ys)" for ys
    by (induction ys) auto
  moreover have "p + length (takeWhile (\<lambda>x. x \<noteq> c) (drop p xs)) = length xs \<longleftrightarrow> c \<notin> set (drop p xs)"
    using assms takeWhile_eq_all_conv [of "\<lambda>x. x \<noteq> c" "drop p xs"] takeWhile_eq_take [of "\<lambda>x. x \<noteq> c" "drop p xs"]
    by (metis add_diff_cancel_left' le_add_diff_inverse length_drop take_all_iff order_refl)
  ultimately show ?thesis by (auto simp: search_char_def search_string_def Let_def)
qed

interpretation char_delimiter: delimiter "search_char c" "first_end [c]" "unmatched [c]" for c
proof unfold_locales
  fix xs :: bytes and p n q ys
  show "unmatched [c] xs 0" by (rule string_delimiter.start)
  show "first_end [c] xs = Some n \<Longrightarrow> n \<le> length xs \<and> first_end [c] (xs @ ys) = Some n"
    by (rule string_delimiter.stable)
  assume ok: "unmatched [c] xs p"
  then have e: "search_char c xs p = search_string [c] xs p"
    by (intro search_char_as_string) (simp add: unmatched_def)
  show "search_char c xs p = Inl n \<Longrightarrow> first_end [c] xs = Some n"
    unfolding e by (rule string_delimiter.found [OF ok])
  show "search_char c xs p = Inr q \<Longrightarrow> first_end [c] xs = None \<and> unmatched [c] (xs @ ys) q"
    unfolding e by (rule string_delimiter.searched [OF ok])
qed

text \<open>
  What the documentation asks of a match condition: it finds the end of a match, or says from where
  the next search has to start; \<open>spec\<close> is what is to be found.
\<close>

locale match_contract =
  fixes cond :: "bytes \<Rightarrow> nat \<times> bool" and spec :: "bytes \<Rightarrow> nat option"
  assumes matched: "cond xs = (r, True) \<Longrightarrow> spec xs = Some r"
    and no_match: "cond xs = (r, False) \<Longrightarrow> r \<le> length xs \<and> spec xs = None \<and>
      spec (xs @ ys) = map_option ((+) r) (spec (drop r xs @ ys))"
    and spec_stable: "spec xs = Some n \<Longrightarrow> n \<le> length xs \<and> spec (xs @ ys) = Some n"
begin

definition resumes :: "bytes \<Rightarrow> nat \<Rightarrow> bool" where
  "resumes xs p \<longleftrightarrow> p \<le> length xs \<and> (\<forall>ys. spec (xs @ ys) = map_option ((+) p) (spec (drop p xs @ ys)))"

lemma search_match_delimits: "delimiter (search_match cond) spec resumes"
proof
  fix xs p n q ys
  show "resumes xs 0" by (simp add: resumes_def map_option_case split: option.splits)
  assume ok: "resumes xs p"
  obtain r full where r: "cond (drop p xs) = (r, full)" by fastforce
  have e: "spec xs = map_option ((+) p) (spec (drop p xs))"
    using ok unfolding resumes_def by (metis append_Nil2)
  show "spec xs = Some n" if "search_match cond xs p = Inl n"
    using that matched [of "drop p xs" r] by (auto simp: search_match_def r e Let_def split: if_splits)
  assume q: "search_match cond xs p = Inr q"
  then have f: "\<not> full" "q = p + r" by (auto simp: search_match_def r Let_def split: if_splits)
  note nm = no_match [of "drop p xs" r, unfolded r, simplified f(1)]
  have "resumes (xs @ ys) q"
    unfolding resumes_def
  proof (intro conjI allI)
    have le: "p \<le> length xs" "r \<le> length xs - p" using nm ok by (simp_all add: resumes_def)
    then show "q \<le> length (xs @ ys)" by (simp add: f(2))
    have "spec (xs @ zs) = map_option ((+) q) (spec (drop q xs @ zs))" for zs
      using nm [of zs] ok by (cases "spec (drop (p + r) xs @ zs)") (simp_all add: resumes_def f(2) ac_simps)
    moreover have "q \<le> length xs" using le f(2) by simp
    ultimately show "spec ((xs @ ys) @ zs) = map_option ((+) q) (spec (drop q (xs @ ys) @ zs))" for zs
      by simp
  qed
  then show "spec xs = None \<and> resumes (xs @ ys) q" using nm by (simp add: e)
qed (rule spec_stable)

end

text \<open>The two match conditions of the documentation of read_until.hpp.\<close>

fun match_first :: "(u8 \<Rightarrow> bool) \<Rightarrow> bytes \<Rightarrow> nat \<times> bool" where
  "match_first wanted [] = (0, False)"
| "match_first wanted (x # xs) =
     (if wanted x then (1, True) else case match_first wanted xs of (i, found) \<Rightarrow> (i + 1, found))"

definition is_space :: "u8 \<Rightarrow> bool" where
  "is_space c \<longleftrightarrow> c = 32 \<or> 9 \<le> c \<and> c \<le> 13"

definition match_whitespace :: "bytes \<Rightarrow> nat \<times> bool" where
  "match_whitespace xs = match_first is_space xs"

definition match_char :: "u8 \<Rightarrow> bytes \<Rightarrow> nat \<times> bool" where
  "match_char c xs = match_first (\<lambda>x. c = x) xs"

fun first_such :: "(u8 \<Rightarrow> bool) \<Rightarrow> bytes \<Rightarrow> nat option" where
  "first_such wanted [] = None"
| "first_such wanted (x # xs) = (if wanted x then Some 1 else map_option Suc (first_such wanted xs))"

lemma match_first_spec:
  "match_first wanted xs = (r, found) \<Longrightarrow> if found then first_such wanted xs = Some r
     else r = length xs \<and> first_such wanted xs = None \<and>
       first_such wanted (xs @ ys) = map_option ((+) r) (first_such wanted ys)"
  by (induction xs arbitrary: r found)
    (auto simp: option.map_comp comp_def map_option_case split: if_splits prod.splits option.splits)

lemma first_such_stable: "first_such wanted xs = Some n \<Longrightarrow> n \<le> length xs \<and> first_such wanted (xs @ ys) = Some n"
  by (induction xs arbitrary: n) (auto split: if_splits)

interpretation match_first: match_contract "match_first wanted" "first_such wanted" for wanted
  using match_first_spec [of wanted] first_such_stable [of wanted] by unfold_locales force+

interpretation match_first_delimiter:
  delimiter "search_match (match_first wanted)" "first_such wanted" "match_first.resumes wanted" for wanted
  by (rule match_first.search_match_delimits)

end
