(* ===== verification/AsioUntil.thy ===== *)
theory AsioUntil
  imports AsioReadUntil
begin

text \<open>
  What the loops of \<open>read_until\<close> do: the buffer as one reads into it (\<open>read_buffer\<close>), obtained from
  either interface of AsioDynamic, a search that keeps the contract \<open>delimiter\<close> and a stream.
\<close>

section \<open>The buffer\<close>

locale read_buffer =
  fixes R :: "('b, 'w) reading" and inv :: "'b \<Rightarrow> bool"
  assumes sizes: "inv b \<Longrightarrow> r_size R b = length (r_data R b) \<and> r_size R b \<le> r_max R b \<and> r_size R b \<le> r_cap R b"
    and more: "inv b \<Longrightarrow> n \<le> r_max R b - r_size R b \<Longrightarrow> read_some n w = Some (got, ec, w') \<Longrightarrow> length got \<le> n \<Longrightarrow>
      \<exists>b'. r_more R n read_some b w = Some (Inr (length got, ec), b', w') \<and> inv b' \<and> r_data R b' = r_data R b @ got \<and>
        r_max R b' = r_max R b"
begin

lemma to_read:
  assumes "inv b"
  shows "bytes_to_read R b \<le> r_max R b - r_size R b" "bytes_to_read R b = 0 \<longleftrightarrow> r_size R b = r_max R b"
    "bytes_to_read R b \<le> 65536"
  using sizes [OF assms] by (auto simp: bytes_to_read_def)

end

context dynamic_v1
begin

lemma reading1: "read_buffer (reading_v1 D :: ('b, 'w) reading) inv"
proof
  fix b n and read_some :: "'w read_some" and w got ec w'
  assume b: "inv b"
  show "r_size (reading_v1 D) b = length (r_data (reading_v1 D) b) \<and> r_size (reading_v1 D) b \<le> r_max (reading_v1 D) b \<and>
      r_size (reading_v1 D) b \<le> r_cap (reading_v1 D) b"
    using size1 [OF b] by simp
  assume n: "n \<le> r_max (reading_v1 D) b - r_size (reading_v1 D) b"
    and rs: "read_some n w = Some (got, ec, w')" and len: "length got \<le> n"
  from extend1 [OF b, of n] n obtain u b1 where
    p: "d_prepare D n b = (Inr u, b1)" "buf_size u = n"
    "\<forall>bs. length bs \<le> n \<longrightarrow> (let b' = d_commit D (length bs) (d_write D u bs b1) in
       inv b' \<and> d_data D b' = d_data D b @ bs \<and> d_max D b' = d_max D b)"
    by simp blast
  let ?b' = "d_commit D (length got) (d_write D u got b1)"
  have "inv ?b' \<and> d_data D ?b' = d_data D b @ got \<and> d_max D ?b' = d_max D b"
    using p(3) len by (simp add: Let_def)
  moreover have "more_v1 D n read_some b w = Some (Inr (length got, ec), ?b', w')"
    by (simp add: more_v1_def p(1,2) rs)
  ultimately show "\<exists>b'. r_more (reading_v1 D) n read_some b w = Some (Inr (length got, ec), b', w') \<and> inv b' \<and>
      r_data (reading_v1 D) b' = r_data (reading_v1 D) b @ got \<and> r_max (reading_v1 D) b' = r_max (reading_v1 D) b"
    by simp
qed

end

context dynamic_v2
begin

lemma reading2: "read_buffer (reading_v2 G :: ('b, 'w) reading) inv"
proof
  fix b n and read_some :: "'w read_some" and w got ec w'
  assume b: "inv b"
  have data: "r_data (reading_v2 G) b = contents b" if "inv b" for b
    using read2 [OF that] by simp
  show "r_size (reading_v2 G) b = length (r_data (reading_v2 G) b) \<and> r_size (reading_v2 G) b \<le> r_max (reading_v2 G) b \<and>
      r_size (reading_v2 G) b \<le> r_cap (reading_v2 G) b"
    using size2 [OF b] data [OF b] by simp
  assume n: "n \<le> r_max (reading_v2 G) b - r_size (reading_v2 G) b"
    and rs: "read_some n w = Some (got, ec, w')" and len: "length got \<le> n"
  from extend2 [OF b, of n] n obtain b1 where
    g: "g_grow G n b = (Inr (), b1)" "buf_size (g_data G (g_size G b) n b1) = n"
    "\<forall>bs. length bs \<le> n \<longrightarrow> (let b' = g_shrink G (n - length bs) (g_write G (g_data G (g_size G b) n b1) bs b1) in
       inv b' \<and> contents b' = contents b @ bs \<and> g_max G b' = g_max G b)"
    by simp blast
  let ?b' = "g_shrink G (n - length got) (g_write G (g_data G (g_size G b) n b1) got b1)"
  have i: "inv ?b' \<and> contents ?b' = contents b @ got \<and> g_max G ?b' = g_max G b"
    using g(3) len by (simp add: Let_def)
  have "more_v2 G n read_some b w = Some (Inr (length got, ec), ?b', w')"
    using len by (simp add: more_v2_def g(1,2) rs Let_def)
  then have "r_more (reading_v2 G) n read_some b w = Some (Inr (length got, ec), ?b', w') \<and> inv ?b' \<and>
      r_data (reading_v2 G) ?b' = r_data (reading_v2 G) b @ got \<and> r_max (reading_v2 G) ?b' = r_max (reading_v2 G) b"
    using i data [OF b] data [of ?b'] by simp
  then show "\<exists>b'. r_more (reading_v2 G) n read_some b w = Some (Inr (length got, ec), b', w') \<and> inv b' \<and>
      r_data (reading_v2 G) b' = r_data (reading_v2 G) b @ got \<and> r_max (reading_v2 G) b' = r_max (reading_v2 G) b"
    by blast
qed

end

interpretation string1_reading: read_buffer "reading_v1 (string_v1 spare)" dsb_inv for spare
  by (rule string1.reading1)

interpretation string2_reading: read_buffer "reading_v2 (string_v2 spare)" dsb_inv2 for spare
  by (rule string2.reading2)

interpretation vector1_reading: read_buffer "reading_v1 (vector_v1 spare)" dsb_inv for spare
  by (rule vector1.reading1)

interpretation vector2_reading: read_buffer "reading_v2 (vector_v2 spare)" dsb_inv2 for spare
  by (rule vector2.reading2)

interpretation streambuf1_reading: read_buffer "reading_v1 (streambuf_v1 spare)" sb_inv for spare
  by (rule streambuf1.reading1)

section \<open>The loop\<close>

text \<open>
  An outcome of a search in which \<open>got\<close> has arrived: the first match, a full buffer without a match, or
  the error of the last read, before which there was no match.
\<close>

definition read_failed ::
  "(bytes \<Rightarrow> nat option) \<Rightarrow> 'w read_some \<Rightarrow> bytes \<Rightarrow> bytes \<Rightarrow> error_code \<Rightarrow> 'w \<Rightarrow> bool" where
  "read_failed spec read_some data got ec w' \<longleftrightarrow>
     (\<exists>sz w1 before last. 0 < sz \<and> read_some sz w1 = Some (last, ec, w') \<and> got = before @ last \<and>
        spec (data @ before) = None)"

definition until_result ::
  "(bytes \<Rightarrow> nat option) \<Rightarrow> 'w read_some \<Rightarrow> bytes \<Rightarrow> nat \<Rightarrow> bytes \<Rightarrow> nat \<Rightarrow> error_code \<Rightarrow> 'w \<Rightarrow> bool" where
  "until_result spec read_some data maximum got n ec w' \<longleftrightarrow>
     (if ec_set ec then
        n = 0 \<and> spec data = None \<and>
        (ec = ec_not_found \<and> length (data @ got) = maximum \<and> spec (data @ got) = None \<or>
         read_failed spec read_some data got ec w')
      else spec (data @ got) = Some n \<and> (spec data = Some n \<longrightarrow> got = []))"

lemma read_failed_later:
  assumes "read_failed spec read_some (data @ got) later ec w'"
  shows "read_failed spec read_some data (got @ later) ec w'"
proof -
  obtain sz w1 before last where "0 < sz" "read_some sz w1 = Some (last, ec, w')" "later = before @ last"
    "spec ((data @ got) @ before) = None" using assms unfolding read_failed_def by blast
  then show ?thesis unfolding read_failed_def
    by (intro exI [of _ sz] exI [of _ w1] exI [of _ "got @ before"] exI [of _ last]) simp
qed

lemma read_failed_now:
  "0 < sz \<Longrightarrow> read_some sz w = Some (got, ec, w') \<Longrightarrow> spec data = None \<Longrightarrow> read_failed spec read_some data got ec w'"
  unfolding read_failed_def
  by (intro exI [of _ sz] exI [of _ w] exI [of _ "[]"] exI [of _ got]) simp

lemma until_result_later:
  assumes "spec data = None" and "until_result spec read_some (data @ got) maximum later n ec w'"
  shows "until_result spec read_some data maximum (got @ later) n ec w'"
  using assms read_failed_later [of spec read_some data got later ec w']
  by (auto simp: until_result_def split: if_splits)

locale until = read_buffer R inv + delimiter search spec ok + read_stream read_some input
  for R :: "('b, 'w) reading" and inv and search spec ok and read_some :: "'w read_some" and input :: "'w \<Rightarrow> bytes"
begin

lemma until_loop:
  assumes "inv b" and "ok (r_data R b) p"
  shows "\<exists>n ec got b' w'. read_until_loop R search read_some p b w = Some (Inr (n, ec), b', w') \<and>
    inv b' \<and> r_data R b' = r_data R b @ got \<and> r_max R b' = r_max R b \<and> input w = got @ input w' \<and>
    until_result spec read_some (r_data R b) (r_max R b) got n ec w'"
  using assms
proof (induction "r_max R b - r_size R b" arbitrary: b w p rule: less_induct)
  case less
  note sz = sizes [OF less.prems(1)]
  show ?case
  proof (cases "search (r_data R b) p")
    case (Inl n)
    then have "read_until_loop R search read_some p b w = Some (Inr (n, no_error), b, w)"
      by (subst read_until_loop.simps) simp
    then show ?thesis using less.prems found [OF less.prems(2) Inl]
      by (intro exI [of _ n] exI [of _ no_error] exI [of _ "[]"] exI [of _ b] exI [of _ w]) (simp add: until_result_def)
  next
    case (Inr q)
    note s = searched [OF less.prems(2) Inr]
    show ?thesis
    proof (cases "r_size R b = r_max R b")
      case True
      then have "read_until_loop R search read_some p b w = Some (Inr (0, ec_not_found), b, w)"
        using Inr by (subst read_until_loop.simps) simp
      then show ?thesis using less.prems s sz True
        by (intro exI [of _ 0] exI [of _ ec_not_found] exI [of _ "[]"] exI [of _ b] exI [of _ w])
          (simp add: until_result_def)
    next
      case False
      let ?k = "bytes_to_read R b"
      have k: "0 < ?k" "?k \<le> r_max R b - r_size R b" using to_read [OF less.prems(1)] False by auto
      from read_some [of ?k w] obtain got ec w1 where
        rs: "read_some ?k w = Some (got, ec, w1)" "length got \<le> ?k" "input w = got @ input w1"
        "\<not> ec_set ec \<longrightarrow> 0 < ?k \<longrightarrow> got \<noteq> []" by (elim exE conjE) (rule that)
      from more [where read_some = read_some, OF less.prems(1) k(2) rs(1,2)] obtain b1 where
        m: "r_more R ?k read_some b w = Some (Inr (length got, ec), b1, w1)" "inv b1" "r_data R b1 = r_data R b @ got"
        "r_max R b1 = r_max R b" by (elim exE conjE) (rule that)
      show ?thesis
      proof (cases "ec_set ec")
        case True
        then have "read_until_loop R search read_some p b w = Some (Inr (0, ec), b1, w1)"
          using Inr False m(1) by (subst read_until_loop.simps) simp
        moreover have "until_result spec read_some (r_data R b) (r_max R b) got 0 ec w1"
          using True read_failed_now [where read_some = read_some, OF k(1) rs(1), of spec] s by (simp add: until_result_def)
        ultimately show ?thesis using m rs(3) by blast
      next
        case noerr: False
        then have step: "read_until_loop R search read_some p b w = read_until_loop R search read_some q b1 w1"
          using Inr False m(1) by (subst read_until_loop.simps) simp
        have "got \<noteq> []" using rs(4) k(1) noerr by blast
        then have "r_max R b1 - r_size R b1 < r_max R b - r_size R b"
          using sizes [OF m(2)] sz m(3,4) False by (cases got) auto
        moreover have "ok (r_data R b1) q" using s m(3) by simp
        ultimately obtain n ec' more b' w' where
          h: "read_until_loop R search read_some q b1 w1 = Some (Inr (n, ec'), b', w')" "inv b'"
          "r_data R b' = r_data R b1 @ more" "r_max R b' = r_max R b1" "input w1 = more @ input w'"
          "until_result spec read_some (r_data R b1) (r_max R b1) more n ec' w'"
          using less.hyps [OF _ m(2), of q w1] by blast
        have "until_result spec read_some (r_data R b) (r_max R b) (got @ more) n ec' w'"
          using until_result_later [of spec "r_data R b"] h(6) s m(3,4) by simp
        moreover have "r_data R b' = r_data R b @ got @ more" "input w = (got @ more) @ input w'"
          using h(3,5) m(3) rs(3) by simp_all
        ultimately show ?thesis using h(1,2,4) step m(4) by fastforce
      qed
    qed
  qed
qed

text \<open>
  When the stream fails only at the end of its input, a match in the data and the input is found if it
  fits in the buffer: \<open>local\<close> says that the first match in a string is a match in every prefix that has it.
\<close>

lemma until_succeeds:
  assumes "until_result spec read_some data maximum got n ec w'" and "input w = got @ input w'"
    and "length (data @ got) \<le> maximum"
    and eof: "\<And>sz w got ec w'. 0 < sz \<Longrightarrow> read_some sz w = Some (got, ec, w') \<Longrightarrow> ec_set ec \<Longrightarrow> input w = []"
    and m: "spec (data @ input w) = Some m" "m \<le> maximum"
    and local: "\<And>xs ys m. spec (xs @ ys) = Some m \<Longrightarrow> m \<le> length xs \<Longrightarrow> spec xs = Some m"
  shows "\<not> ec_set ec \<and> n = m"
proof (cases "ec_set ec")
  case False
  then have "spec (data @ got) = Some n" using assms(1) by (simp add: until_result_def)
  from stable [OF this, of "input w'"] show ?thesis using False m(1) assms(2) by simp
next
  case True
  have "\<not> (length (data @ got) = maximum \<and> spec (data @ got) = None)"
    using local [of "data @ got" "input w'" m] m assms(2) by auto
  with True assms(1) have "read_failed spec read_some data got ec w'" by (auto simp: until_result_def)
  then obtain sz w1 before last where f: "0 < sz" "read_some sz w1 = Some (last, ec, w')" "got = before @ last"
    "spec (data @ before) = None" unfolding read_failed_def by blast
  have "input w1 = []" by (rule eof [OF f(1,2) True])
  moreover have "input w1 = last @ input w'" using read_some [of sz w1] f(2) by auto
  ultimately show ?thesis using f(3,4) m(1) assms(2) by simp
qed

end

lemma first_end_local: "d \<noteq> [] \<Longrightarrow> first_end d (xs @ ys) = Some m \<Longrightarrow> m \<le> length xs \<Longrightarrow> first_end d xs = Some m"
proof (induction xs arbitrary: m)
  case Nil
  then show ?case by (cases d) (auto simp: first_end_Some)
next
  case (Cons x xs)
  then show ?case
    using prefix_length_prefix [of d "(x # xs) @ ys" "x # xs"] prefix_prefix [of d "x # xs" ys]
    by (auto split: if_splits)
qed

lemma first_such_local: "first_such wanted (xs @ ys) = Some m \<Longrightarrow> m \<le> length xs \<Longrightarrow> first_such wanted xs = Some m"
proof (induction xs arbitrary: m)
  case Nil
  then show ?case by (cases ys) (auto split: if_splits)
qed (auto split: if_splits)

section \<open>The three kinds of delimiter\<close>

text \<open>A character, a string that is not empty, and the match conditions that look for a character, each with what is to be found.\<close>

definition all_until ::
  "(u8 \<Rightarrow> 'f) \<Rightarrow> (bytes \<Rightarrow> 'f) \<Rightarrow> ((bytes \<Rightarrow> nat \<times> bool) \<Rightarrow> 'f) \<Rightarrow> ((bytes \<Rightarrow> nat option) \<times> 'f) set" where
  "all_until for_char for_string for_match = range (\<lambda>c. (first_end [c], for_char c)) \<union>
     (\<lambda>d. (first_end d, for_string d)) ` {d. d \<noteq> []} \<union> range (\<lambda>wanted. (first_such wanted, for_match (match_first wanted)))"

lemma all_until_search:
  assumes "(spec, fn) \<in> all_until (\<lambda>c. f (search_char c)) (\<lambda>d. f (search_string d)) (\<lambda>cond. f (search_match cond))"
  obtains search ok where "fn = f search" "delimiter search spec ok" "\<And>xs p. ok xs p \<Longrightarrow> p \<le> length xs"
    "\<And>xs ys m. spec (xs @ ys) = Some m \<Longrightarrow> m \<le> length xs \<Longrightarrow> spec xs = Some m"
proof -
  from assms consider c where "spec = first_end [c]" "fn = f (search_char c)"
    | d where "spec = first_end d" "fn = f (search_string d)" "d \<noteq> []"
    | wanted where "spec = first_such wanted" "fn = f (search_match (match_first wanted))"
    by (auto simp: all_until_def)
  then show thesis
  proof cases
    case (1 c)
    show thesis
    proof (rule that [of "search_char c" "unmatched [c]"])
      show "delimiter (search_char c) spec (unmatched [c])" unfolding 1(1) by (rule char_delimiter.delimiter_axioms)
      show "p \<le> length xs" if "unmatched [c] xs p" for xs p using that by (simp add: unmatched_def)
      show "spec xs = Some m" if "spec (xs @ ys) = Some m" "m \<le> length xs" for xs ys m
        using that unfolding 1(1) by (rule first_end_local [OF list.distinct(2)])
    qed (rule 1(2))
  next
    case (2 d)
    show thesis
    proof (rule that [of "search_string d" "unmatched d"])
      show "delimiter (search_string d) spec (unmatched d)" unfolding 2(1) by (rule string_delimiter.delimiter_axioms)
      show "p \<le> length xs" if "unmatched d xs p" for xs p using that by (simp add: unmatched_def)
      show "spec xs = Some m" if "spec (xs @ ys) = Some m" "m \<le> length xs" for xs ys m
        using that unfolding 2(1) by (rule first_end_local [OF 2(3)])
    qed (rule 2(2))
  next
    case (3 wanted)
    show thesis
    proof (rule that [of "search_match (match_first wanted)" "match_first.resumes wanted"])
      show "delimiter (search_match (match_first wanted)) spec (match_first.resumes wanted)" unfolding 3(1) by (rule match_first_delimiter.delimiter_axioms)
      show "p \<le> length xs" if "match_first.resumes wanted xs p" for xs p using that by (simp add: match_first.resumes_def)
      show "spec xs = Some m" if "spec (xs @ ys) = Some m" "m \<le> length xs" for xs ys m
        using that unfolding 3(1) by (rule first_such_local)
    qed (rule 3(2))
  qed
qed

section \<open>On a socket\<close>

text \<open>
  The functions as their overloads are chosen: version 2 for the buffers over strings and vectors,
  version 1 for a \<open>basic_streambuf\<close>.
\<close>

definition read_until_v2 where
  "read_until_v2 spare =
     all_until (read_until_char_v2 (string_v2 spare)) (read_until_string_v2 (string_v2 spare)) (read_until_match_v2 (string_v2 spare)) \<union>
     all_until (read_until_char_v2 (vector_v2 spare)) (read_until_string_v2 (vector_v2 spare)) (read_until_match_v2 (vector_v2 spare))"

definition read_until_streambuf where
  "read_until_streambuf spare =
     all_until (read_until_char_streambuf spare) (read_until_string_streambuf spare) (read_until_match_streambuf spare)"

lemma contents_loop:
  assumes R: "read_buffer R I" "\<And>b. I b \<Longrightarrow> r_data R b = contents b" "r_max R = maximum"
    and "delimiter search spec ok" and "read_stream read_some input" and "I b"
  shows "\<exists>n ec got b' w'. read_until_loop R search read_some 0 b w = Some (Inr (n, ec), b', w') \<and>
    contents b' = contents b @ got \<and> length (contents b @ got) \<le> maximum b \<and> input w = got @ input w' \<and>
    until_result spec read_some (contents b) (maximum b) got n ec w' \<and>
    (\<not> ec_set ec \<longrightarrow> spec (contents b @ input w) = Some n)"
proof -
  from until.until_loop [OF until.intro [OF R(1) assms(4,5)] assms(6) delimiter.start [OF assms(4)], of w]
  obtain n ec got b' w' where
    r: "read_until_loop R search read_some 0 b w = Some (Inr (n, ec), b', w')" "I b'" "r_data R b' = r_data R b @ got"
    "r_max R b' = r_max R b" "input w = got @ input w'"
    "until_result spec read_some (r_data R b) (r_max R b) got n ec w'" by blast
  note c = R(2) [OF assms(6)] R(2) [OF r(2)]
  have "length (contents b @ got) \<le> maximum b"
    using read_buffer.sizes [OF R(1) r(2)] r(3,4) c by (simp add: R(3))
  moreover have "spec (contents b @ input w) = Some n" if "\<not> ec_set ec"
    using delimiter.stable [OF assms(4), of "contents b @ got" n "input w'"] r(5,6) c that by (simp add: until_result_def)
  ultimately show ?thesis using r c by (auto simp: R(3))
qed

lemma dynamic_data:
  "dsb_inv2 b \<Longrightarrow> r_data (reading_v2 (string_v2 spare)) b = dsb_contents b"
  "dsb_inv2 b \<Longrightarrow> r_data (reading_v2 (vector_v2 spare)) b = dsb_contents b"
  "sb_inv sb \<Longrightarrow> r_data (reading_v1 (streambuf_v1 spare)) sb = sb_contents sb"
  using string2.read2 [of b] sb_inv_size [of sb] by (simp_all add: vector_as_string streambuf_v1_def)

lemma dynamic_max:
  "r_max (reading_v2 (string_v2 spare)) = dyn_max" "r_max (reading_v2 (vector_v2 spare)) = dyn_max"
  "r_max (reading_v1 (streambuf_v1 spare)) = sb_maximum"
  by (simp_all add: fun_eq_iff vector_as_string string_v2_def dsb_max_size_def streambuf_v1_def sb_max_size_def)

lemmas contents_loops =
  contents_loop [OF string2.reading2 dynamic_data(1) dynamic_max(1), rotated]
  contents_loop [OF vector2.reading2 dynamic_data(2) dynamic_max(2), rotated]
  contents_loop [OF streambuf1.reading1 dynamic_data(3) dynamic_max(3), rotated]

text \<open>
  C14: \<open>read_until\<close> with a character, a string or a match condition for a character, on a stream
  socket and a buffer over a string or a vector, returns whatever the system does within its
  documented behaviour. What has arrived stands behind what the buffer held, within its maximum;
  nothing is lost or read twice. Without an error the number returned is the end of the first match
  in what the buffer held followed by the whole input, and nothing is read if the buffer held one.
  With an error it is zero: \<open>not_found\<close> for a full buffer without a match, or the error of the last
  read, before which there was no match.
\<close>

theorem read_until_finds_first:
  assumes "recv_documented N s input" and "has_state st stream_oriented" and "dsb_inv2 b"
    and "(spec, until_fn) \<in> read_until_v2 spare"
  shows "\<exists>n ec got b' w'. until_fn (socket_read_some N s st) b w = Some (Inr (n, ec), b', w') \<and>
    dsb_contents b' = dsb_contents b @ got \<and> length (dsb_contents b @ got) \<le> dyn_max b \<and> input w = got @ input w' \<and>
    until_result spec (socket_read_some N s st) (dsb_contents b) (dyn_max b) got n ec w' \<and>
    (\<not> ec_set ec \<longrightarrow> spec (dsb_contents b @ input w) = Some n)"
proof -
  note defs = read_until_char_v2_def read_until_string_v2_def read_until_match_v2_def
  let ?loop = "\<lambda>G search read_some b w. read_until_loop (reading_v2 G) search read_some 0 b w"
  have "(spec, until_fn) \<in> all_until (\<lambda>c. ?loop G (search_char c)) (\<lambda>d. ?loop G (search_string d)) (\<lambda>m. ?loop G (search_match m))
    \<Longrightarrow> G = string_v2 spare \<or> G = vector_v2 spare \<Longrightarrow> ?thesis" for G
    by (erule all_until_search [where f = "?loop G"])
      (use contents_loops(1,2) [OF _ socket_read_stream [OF assms(1,2)] assms(3)] in blast)
  then show ?thesis using assms(4) unfolding read_until_v2_def by (auto simp: defs [abs_def])
qed

definition until_sample :: dyn where
  "until_sample = dsb_new \<lparr>v_bytes = [9], v_cap = 15\<rparr> 100"

lemma until_sample_inv: "dsb_inv2 until_sample" "dsb_contents until_sample = [9]" "dyn_max until_sample = 100"
  by (simp_all add: until_sample_def dsb_new_def dsb_inv2_def dsb_inv_def dsb_contents_def size_max_def)

lemma read_until_finds_first_witness:
  "\<exists>n ec got b' w'. read_until_string_v2 (string_v2 (\<lambda>c n. n)) [13, 10] (socket_read_some loop_net 7 stream_oriented)
      until_sample ([], [1, 2, 13, 13, 10, 5]) = Some (Inr (n, ec), b', w') \<and>
    [1, 2, 13, 13, 10, 5] = got @ snd w' \<and> dsb_contents b' = 9 # got \<and> (\<not> ec_set ec \<longrightarrow> n = 6)"
proof -
  have e: "first_end [13, 10 :: u8] [9, 1, 2, 13, 13, 10, 5] = Some 6" by simp
  have "(first_end [13, 10], read_until_string_v2 (string_v2 (\<lambda>c n. n)) [13, 10]) \<in> read_until_v2 (\<lambda>c n. n)"
    by (auto simp: read_until_v2_def all_until_def)
  from read_until_finds_first [OF loop_net_documented(2) stream_state until_sample_inv(1) this,
      of "([], [1, 2, 13, 13, 10, 5])", unfolded until_sample_inv, simplified snd_conv append_Cons append_Nil e]
  show ?thesis by (elim exE conjE) (intro exI conjI, assumption+, simp)
qed

text \<open>
  C15: If the connection breaks off only at the end of its input, then \<open>read_until\<close> on a stream buffer
  does find a match that is in what the buffer holds or in the input, provided that it ends within
  the buffer's maximum: the call returns, without an error, with its end, and the buffer holds it.
\<close>

theorem read_until_succeeds:
  assumes "recv_documented N s input" and "has_state st stream_oriented" and "sb_inv b"
    and "(spec, until_fn) \<in> read_until_streambuf spare"
    and eof: "\<forall>sz w got ec w'. 0 < sz \<longrightarrow> socket_read_some N s st sz w = Some (got, ec, w') \<longrightarrow> ec_set ec \<longrightarrow> input w = []"
    and "spec (sb_contents b @ input w) = Some m" and "m \<le> sb_maximum b"
  shows "\<exists>ec b' w'. until_fn (socket_read_some N s st) b w = Some (Inr (m, ec), b', w') \<and> \<not> ec_set ec \<and>
    spec (sb_contents b') = Some m \<and> sb_contents b' @ input w' = sb_contents b @ input w"
proof -
  let ?loop = "\<lambda>search read_some b w. read_until_loop (reading_v1 (streambuf_v1 spare)) search read_some 0 b w"
  note rs = socket_read_stream [OF assms(1,2)]
  have "read_until_streambuf spare = all_until (\<lambda>c. ?loop (search_char c)) (\<lambda>d. ?loop (search_string d)) (\<lambda>m. ?loop (search_match m))"
    by (simp add: read_until_streambuf_def fun_eq_iff read_until_char_streambuf_def [abs_def] read_until_string_streambuf_def [abs_def]
        read_until_match_streambuf_def [abs_def] read_until_char_v1_def read_until_string_v1_def read_until_match_v1_def)
  note m = assms(4) [unfolded this]
  obtain search ok where s: "until_fn = ?loop search" "delimiter search spec ok"
    "\<And>xs ys m. spec (xs @ ys) = Some m \<Longrightarrow> m \<le> length xs \<Longrightarrow> spec xs = Some m"
    by (rule all_until_search [where f = ?loop, OF m]) blast
  from contents_loops(3) [where w = w, OF s(2) rs assms(3)] obtain n ec got b' w' where
    r: "until_fn (socket_read_some N s st) b w = Some (Inr (n, ec), b', w')" "sb_contents b' = sb_contents b @ got"
    "length (sb_contents b @ got) \<le> sb_maximum b" "input w = got @ input w'"
    "until_result spec (socket_read_some N s st) (sb_contents b) (sb_maximum b) got n ec w'"
    unfolding s(1) by blast
  have "\<not> ec_set ec \<and> n = m"
    by (rule until.until_succeeds [OF until.intro [OF streambuf1.reading1 s(2) rs] r(5,4,3) eof [rule_format] assms(6,7) s(3)])
  then show ?thesis using r(1,2,4,5) by (auto simp: until_result_def)
qed

lemma loop_socket_eof:
  "0 < sz \<Longrightarrow> socket_read_some loop_net 7 stream_oriented sz w = Some (got, ec, w') \<Longrightarrow> ec_set ec \<Longrightarrow> snd w = []"
proof -
  assume sz: "0 < sz" and r: "socket_read_some loop_net 7 stream_oriented sz w = Some (got, ec, w')" "ec_set ec"
  let ?got = "take (min 2 sz) (snd w)"
  have "sock_recv loop_net 7 sz w = (Some ?got, no_error, (fst w, drop (min 2 sz) (snd w)))"
    by (cases w) (simp add: sock_recv_def loop_net_def)
  then have "recv_loop loop_net 7 stream_oriented sz w =
      Some (?got, if ?got = [] then ec_eof else no_error, (fst w, drop (min 2 sz) (snd w)))"
    using stream_state sz by (subst recv_loop.simps) (simp add: min_def)
  with sz r show "snd w = []" by (auto simp: socket_read_some_def sync_recv_def invalid_socket_def split: if_splits)
qed

lemma streambuf_sample: "sb_inv (sb_new (\<lambda>c n. n) 1000)" "sb_contents (sb_new (\<lambda>c n. n) 1000) = []"
  "sb_maximum (sb_new (\<lambda>c n. n) 1000) = 1000"
  using sb_new_inv [of 1000 "\<lambda>c n. n"] by (simp_all add: size_max_def sb_new_def Let_def)

lemma read_until_succeeds_witness:
  "\<exists>ec b' w'. read_until_match_streambuf (\<lambda>c n. n) match_whitespace (socket_read_some loop_net 7 stream_oriented)
      (sb_new (\<lambda>c n. n) 1000) ([], [1, 2, 13, 13, 10, 5]) = Some (Inr (3, ec), b', w') \<and> \<not> ec_set ec"
proof -
  have e: "first_such is_space [1, 2, 13, 13, 10, 5] = Some 3" by (simp add: is_space_def word_le_nat_alt)
  have "match_whitespace = match_first is_space" by (simp add: fun_eq_iff match_whitespace_def)
  then have until_fn: "(first_such is_space, read_until_match_streambuf (\<lambda>c n. n) match_whitespace) \<in> read_until_streambuf (\<lambda>c n. n)"
    by (auto simp: read_until_streambuf_def all_until_def)
  have "\<forall>sz w got ec w'. 0 < sz \<longrightarrow> socket_read_some loop_net 7 stream_oriented sz w = Some (got, ec, w') \<longrightarrow>
      ec_set ec \<longrightarrow> snd w = []" using loop_socket_eof by blast
  from read_until_succeeds [where w = "([], [1, 2, 13, 13, 10, 5])" and m = 3,
      OF loop_net_documented(2) stream_state streambuf_sample(1) until_fn this] e
  show ?thesis by (simp add: streambuf_sample) blast
qed

interpretation loop_streambuf: until "reading_v1 (streambuf_v1 spare)" sb_inv
  "search_string d" "first_end d" "unmatched d" "socket_read_some loop_net 7 stream_oriented" snd for spare d
  by (intro until.intro streambuf1.reading1 string_delimiter.delimiter_axioms
      socket_read_stream loop_net_documented stream_state)

end
