(* ===== verification/AsioAsync.thy ===== *)
theory AsioAsync
  imports AsioUntil
begin

text \<open>
  What the composed asynchronous operations on dynamic buffers share: how they issue a read and take in
  what has arrived, in either version of the interface, and the driver that completes their reads and
  calls them again.
\<close>

section \<open>Issuing a read\<close>

text \<open>
  How a version issues a read and takes in what has arrived: \<open>prepare\<close> and \<open>commit\<close>, or \<open>grow\<close> and
  \<open>shrink\<close>. The stream writes through the buffer it was given.
\<close>

record 'b taking =
  a_issue :: "nat \<Rightarrow> 'b \<Rightarrow> (thrown + buf) \<times> 'b"
  a_write :: "buf \<Rightarrow> bytes \<Rightarrow> 'b \<Rightarrow> 'b"
  a_settle :: "nat \<Rightarrow> nat \<Rightarrow> 'b \<Rightarrow> 'b"

definition taking_v1 :: "'b dyn1 \<Rightarrow> 'b taking" where
  "taking_v1 D = \<lparr>a_issue = d_prepare D, a_write = d_write D, a_settle = (\<lambda>bytes_to_read. d_commit D)\<rparr>"

definition taking_v2 :: "'b dyn2 \<Rightarrow> 'b taking" where
  "taking_v2 G = \<lparr>a_issue = (\<lambda>bytes_to_read b.
       let pos = g_size G b in
       case g_grow G bytes_to_read b of (Inl e, b) \<Rightarrow> (Inl e, b) | (Inr _, b) \<Rightarrow> (Inr (g_data G pos bytes_to_read b), b)),
     a_write = g_write G,
     a_settle = (\<lambda>bytes_to_read bytes_transferred. g_shrink G (size_diff bytes_to_read bytes_transferred))\<rparr>"

section \<open>Operations and their driver\<close>

text \<open>The members that all of them have, and what a call of \<open>operator()\<close> ends in.\<close>

record 'b stream_op =
  u_buffers :: 'b
  u_start :: nat

datatype 'o async_step =
    Async_read_some buf 'o
  | Handler error_code nat 'o
  | Throws thrown 'o

text \<open>
  The stream completes a read of \<open>n\<close> bytes as \<open>read_some\<close> says and calls the operation again. The
  first call has \<open>start = 1\<close>.
\<close>

type_synonym ('b, 'z) resume =
  "error_code \<Rightarrow> nat \<Rightarrow> nat \<Rightarrow> ('b, 'z) stream_op_scheme \<Rightarrow> ('b, 'z) stream_op_scheme async_step"

partial_function (option) stream_run ::
  "('b, 'z) resume \<Rightarrow> (buf \<Rightarrow> bytes \<Rightarrow> 'b \<Rightarrow> 'b) \<Rightarrow> 'w read_some \<Rightarrow> ('b, 'z) stream_op_scheme async_step \<Rightarrow> 'w \<Rightarrow>
   ((thrown + nat \<times> error_code) \<times> 'b \<times> 'w) option" where
  "stream_run resume write read_some s w =
     (case s of
        Throws e op \<Rightarrow> Some (Inl e, u_buffers op, w)
      | Handler ec n op \<Rightarrow> Some (Inr (n, ec), u_buffers op, w)
      | Async_read_some u op \<Rightarrow> Option.bind (read_some (buf_size u) w) (\<lambda>(got, ec, w).
          stream_run resume write read_some (resume ec (length got) 0 (op\<lparr>u_buffers := write u got (u_buffers op)\<rparr>)) w))"

section \<open>A round of an operation\<close>

locale taking_buffer = read_buffer R inv for R :: "('b, 'w) reading" and inv +
  fixes A :: "'b taking"
  assumes round: "inv b \<Longrightarrow> n \<le> r_max R b - r_size R b \<Longrightarrow> \<exists>u b1. a_issue A n b = (Inr u, b1) \<and> buf_size u = n \<and>
    (\<forall>got. length got \<le> n \<longrightarrow> (\<forall>read_some ec w w'. read_some n w = Some (got, ec, w') \<longrightarrow>
       r_more R n read_some b w = Some (Inr (length got, ec), a_settle A n (length got) (a_write A u got b1), w')))"

context dynamic_v1
begin

lemma taking1: "taking_buffer (reading_v1 D :: ('b, 'w) reading) inv (taking_v1 D)"
proof (intro taking_buffer.intro reading1 taking_buffer_axioms.intro)
  fix b n
  assume b: "inv b" and n: "n \<le> r_max (reading_v1 D :: ('b, 'w) reading) b - r_size (reading_v1 D :: ('b, 'w) reading) b"
  from extend1 [OF b, of n] n obtain u b1 where "d_prepare D n b = (Inr u, b1)" "buf_size u = n"
    by simp blast
  then show "\<exists>u b1. a_issue (taking_v1 D) n b = (Inr u, b1) \<and> buf_size u = n \<and>
    (\<forall>got. length got \<le> n \<longrightarrow> (\<forall>read_some ec (w :: 'w) w'. read_some n w = Some (got, ec, w') \<longrightarrow>
       r_more (reading_v1 D) n read_some b w =
         Some (Inr (length got, ec), a_settle (taking_v1 D) n (length got) (a_write (taking_v1 D) u got b1), w')))"
    by (simp add: taking_v1_def more_v1_def)
qed

end

context dynamic_v2
begin

lemma taking2: "taking_buffer (reading_v2 G :: ('b, 'w) reading) inv (taking_v2 G)"
proof (intro taking_buffer.intro reading2 taking_buffer_axioms.intro)
  fix b n
  assume b: "inv b" and n: "n \<le> r_max (reading_v2 G :: ('b, 'w) reading) b - r_size (reading_v2 G :: ('b, 'w) reading) b"
  from extend2 [OF b, of n] n obtain b1 where "g_grow G n b = (Inr (), b1)" "buf_size (g_data G (g_size G b) n b1) = n"
    by simp blast
  then show "\<exists>u b1. a_issue (taking_v2 G) n b = (Inr u, b1) \<and> buf_size u = n \<and>
    (\<forall>got. length got \<le> n \<longrightarrow> (\<forall>read_some ec (w :: 'w) w'. read_some n w = Some (got, ec, w') \<longrightarrow>
       r_more (reading_v2 G) n read_some b w =
         Some (Inr (length got, ec), a_settle (taking_v2 G) n (length got) (a_write (taking_v2 G) u got b1), w')))"
    by (simp add: taking_v2_def more_v2_def Let_def)
qed

end


text \<open>A read that is issued, completed by the stream and taken in.\<close>

locale taking_stream = taking_buffer R inv A + read_stream read_some input
  for R :: "('b, 'w) reading" and inv and A and read_some :: "'w read_some" and input :: "'w \<Rightarrow> bytes"
begin

lemma trip:
  assumes "inv b" and "n \<le> r_max R b - r_size R b"
  obtains u b1 got ec w1 b2 where
    "a_issue A n b = (Inr u, b1)" "buf_size u = n" "read_some n w = Some (got, ec, w1)" "length got \<le> n"
    "input w = got @ input w1" "\<not> ec_set ec \<longrightarrow> 0 < n \<longrightarrow> got \<noteq> []" "b2 = a_settle A n (length got) (a_write A u got b1)"
    "r_more R n read_some b w = Some (Inr (length got, ec), b2, w1)" "inv b2" "r_data R b2 = r_data R b @ got"
    "r_max R b2 = r_max R b"
proof -
  from round [OF assms] obtain u b1 where i: "a_issue A n b = (Inr u, b1)" "buf_size u = n"
    "\<forall>got. length got \<le> n \<longrightarrow> (\<forall>read_some ec w w'. read_some n w = Some (got, ec, w') \<longrightarrow>
       r_more R n read_some b w = Some (Inr (length got, ec), a_settle A n (length got) (a_write A u got b1), w'))" by blast
  from read_some [of n w] obtain got ec w1 where
    rs: "read_some n w = Some (got, ec, w1)" "length got \<le> n" "input w = got @ input w1"
    "\<not> ec_set ec \<longrightarrow> 0 < n \<longrightarrow> got \<noteq> []" by (elim exE conjE) (rule that)
  let ?b2 = "a_settle A n (length got) (a_write A u got b1)"
  have m: "r_more R n read_some b w = Some (Inr (length got, ec), ?b2, w1)" using i(3) rs(1,2) by blast
  from more [where read_some = read_some, OF assms rs(1,2)] m
  have b2: "inv ?b2" "r_data R ?b2 = r_data R b @ got" "r_max R ?b2 = r_max R b" by auto
  show thesis by (rule that [OF i(1,2) rs refl m b2])
qed

end

section \<open>Equal results\<close>

text \<open>Both return, with the same number, the same error if any, the same contents and the same rest of the input.\<close>

definition same_result ::
  "('b \<Rightarrow> bool) \<Rightarrow> ('b \<Rightarrow> bytes) \<Rightarrow> ((thrown + nat \<times> error_code) \<times> 'b \<times> 'w) option \<Rightarrow>
   ((thrown + nat \<times> error_code) \<times> 'b \<times> 'w) option \<Rightarrow> bool" where
  "same_result I data x y \<longleftrightarrow> (\<exists>n ec ec' b b' w. x = Some (Inr (n, ec), b, w) \<and> y = Some (Inr (n, ec'), b', w) \<and>
     I b \<and> I b' \<and> data b = data b' \<and> (ec = ec' \<or> \<not> ec_set ec \<and> \<not> ec_set ec'))"

lemma same_resultI:
  "x = Some (Inr (n, ec), b, w) \<Longrightarrow> y = Some (Inr (n, ec'), b, w) \<Longrightarrow> I b \<Longrightarrow>
   ec = ec' \<or> \<not> ec_set ec \<and> \<not> ec_set ec' \<Longrightarrow> same_result I data x y"
  by (auto simp: same_result_def)

lemma socket_zero_read:
  assumes "recv_documented N s input" and "has_state st stream_oriented"
  shows "socket_read_some N s st 0 w = Some ([], no_error, w)"
  using assms by (auto simp: socket_read_some_def sync_recv_def recv_documented_def)

section \<open>On the code's buffers\<close>

interpretation string2_taking: taking_buffer "reading_v2 (string_v2 spare)" dsb_inv2 "taking_v2 (string_v2 spare)" for spare
  by (rule string2.taking2)

interpretation vector2_taking: taking_buffer "reading_v2 (vector_v2 spare)" dsb_inv2 "taking_v2 (vector_v2 spare)" for spare
  by (rule vector2.taking2)

interpretation streambuf1_taking: taking_buffer "reading_v1 (streambuf_v1 spare)" sb_inv "taking_v1 (streambuf_v1 spare)" for spare
  by (rule streambuf1.taking1)

interpretation loop_streambuf_taking: taking_stream "reading_v1 (streambuf_v1 spare)" sb_inv "taking_v1 (streambuf_v1 spare)"
  "socket_read_some loop_net 7 stream_oriented" snd for spare
  by (intro taking_stream.intro streambuf1.taking1 socket_read_stream loop_net_documented stream_state)

end
