(* ===== verification/AsioUntilAsync.thy ===== *)
theory AsioUntilAsync
  imports AsioAsync
begin

text \<open>
  \<open>async_read_until\<close> of impl/read_until.hpp: the operations that resume each time a read completes.
  Six classes, for a character, a string and a match condition on a buffer of either version, have the
  same \<open>operator()\<close> around their search (\<open>until_resume\<close>). The stream completes each read they issue
  (\<open>stream_run\<close> of \<open>AsioAsync\<close>). With reads that complete alike they do what the synchronous functions do.
\<close>

section \<open>The operations\<close>

text \<open>The members; \<open>bytes_to_read_\<close> is one in version 2 and a local variable in version 1.\<close>

record 'b until_op = "'b stream_op" +
  u_search_position :: nat
  u_bytes_to_read :: nat

definition until_op_new :: "'b \<Rightarrow> 'b until_op" where
  "until_op_new b = \<lparr>u_buffers = b, u_start = 0, u_search_position = 0, u_bytes_to_read = 0\<rparr>"

definition not_found :: nat where
  "not_found = size_max"

definition until_finish :: "error_code \<Rightarrow> 'b until_op \<Rightarrow> 'b until_op async_step" where
  "until_finish ec op =
     (let result_ec = (if u_search_position op = not_found then ec_not_found else ec);
          result_n = (if ec_set ec \<or> u_search_position op = not_found then 0 else u_search_position op)
      in Handler result_ec result_n op)"

definition until_search ::
  "('b, 'z) readable_scheme \<Rightarrow> 'b taking \<Rightarrow> (bytes \<Rightarrow> nat \<Rightarrow> nat + nat) \<Rightarrow> error_code \<Rightarrow> nat \<Rightarrow> 'b until_op \<Rightarrow> 'b until_op async_step" where
  "until_search R A search ec start op =
     (let b = u_buffers op;
          (position, n) = (case search (r_data R b) (u_search_position op) of
              Inl m \<Rightarrow> (m, 0)
            | Inr q \<Rightarrow> if r_size R b = r_max R b then (not_found, 0) else (q, bytes_to_read R b));
          op = op\<lparr>u_search_position := position, u_bytes_to_read := n\<rparr>
      in if start = 0 \<and> n = 0 then until_finish ec op
         else case a_issue A n b of
             (Inl e, b) \<Rightarrow> Throws e (op\<lparr>u_buffers := b\<rparr>)
           | (Inr u, b) \<Rightarrow> Async_read_some u (op\<lparr>u_buffers := b\<rparr>))"

definition until_resume ::
  "('b, 'z) readable_scheme \<Rightarrow> 'b taking \<Rightarrow> (bytes \<Rightarrow> nat \<Rightarrow> nat + nat) \<Rightarrow> error_code \<Rightarrow> nat \<Rightarrow> nat \<Rightarrow> 'b until_op \<Rightarrow> 'b until_op async_step" where
  "until_resume R A search ec bytes_transferred start op =
     (let op = op\<lparr>u_start := start\<rparr> in
      if start = 1 then until_search R A search ec start op
      else
        let op = op\<lparr>u_buffers := a_settle A (u_bytes_to_read op) bytes_transferred (u_buffers op)\<rparr> in
        if ec_set ec \<or> bytes_transferred = 0 then until_finish ec op
        else until_search R A search ec start op)"

definition delim_op_v1 where "delim_op_v1 D delim = until_resume (readable_v1 D) (taking_v1 D) (search_char delim)"
definition delim_string_op_v1 where "delim_string_op_v1 D delim = until_resume (readable_v1 D) (taking_v1 D) (search_string delim)"
definition match_op_v1 where "match_op_v1 D match_condition = until_resume (readable_v1 D) (taking_v1 D) (search_match match_condition)"
definition delim_op_v2 where "delim_op_v2 G delim = until_resume (readable_v2 G) (taking_v2 G) (search_char delim)"
definition delim_string_op_v2 where "delim_string_op_v2 G delim = until_resume (readable_v2 G) (taking_v2 G) (search_string delim)"
definition match_op_v2 where "match_op_v2 G match_condition = until_resume (readable_v2 G) (taking_v2 G) (search_match match_condition)"

definition until_initiate ::
  "(error_code \<Rightarrow> nat \<Rightarrow> nat \<Rightarrow> 'b until_op \<Rightarrow> 'b until_op async_step) \<Rightarrow> (buf \<Rightarrow> bytes \<Rightarrow> 'b \<Rightarrow> 'b) \<Rightarrow> 'w read_some \<Rightarrow> 'b \<Rightarrow> 'w \<Rightarrow>
   ((thrown + nat \<times> error_code) \<times> 'b \<times> 'w) option" where
  "until_initiate resume write read_some b w =
     stream_run resume write read_some (resume no_error 0 1 (until_op_new b)) w"

definition async_read_until_char_v1 where
  "async_read_until_char_v1 D delim = until_initiate (delim_op_v1 D delim) (d_write D)"

definition async_read_until_string_v1 where
  "async_read_until_string_v1 D delim = until_initiate (delim_string_op_v1 D delim) (d_write D)"

definition async_read_until_match_v1 where
  "async_read_until_match_v1 D match_condition = until_initiate (match_op_v1 D match_condition) (d_write D)"

definition async_read_until_char_v2 where
  "async_read_until_char_v2 G delim = until_initiate (delim_op_v2 G delim) (g_write G)"

definition async_read_until_string_v2 where
  "async_read_until_string_v2 G delim = until_initiate (delim_string_op_v2 G delim) (g_write G)"

definition async_read_until_match_v2 where
  "async_read_until_match_v2 G match_condition = until_initiate (match_op_v2 G match_condition) (g_write G)"

definition async_read_until_char_streambuf where
  "async_read_until_char_streambuf spare delim = async_read_until_char_v1 (streambuf_v1 spare) delim"

definition async_read_until_string_streambuf where
  "async_read_until_string_streambuf spare delim = async_read_until_string_v1 (streambuf_v1 spare) delim"

definition async_read_until_match_streambuf where
  "async_read_until_match_streambuf spare match_condition = async_read_until_match_v1 (streambuf_v1 spare) match_condition"

section \<open>The operations and the synchronous loops\<close>

locale async_until = taking_stream R inv A read_some input + delimiter search spec ok
  for R :: "('b, 'w) reading" and inv and A search spec ok and read_some :: "'w read_some" and input :: "'w \<Rightarrow> bytes" +
  assumes ok_le: "ok xs p \<Longrightarrow> p \<le> length xs"
    and zero_read: "read_some 0 w = Some ([], no_error, w)"
begin

abbreviation "run s w \<equiv> stream_run (until_resume R A search) (a_write A) read_some s w"

lemma one_round:
  assumes "inv b" and "n \<le> r_max R b - r_size R b"
  obtains u b1 got ec w1 b2 where
    "a_issue A n b = (Inr u, b1)" "read_some n w = Some (got, ec, w1)" "length got \<le> n" "input w = got @ input w1"
    "\<not> ec_set ec \<longrightarrow> 0 < n \<longrightarrow> got \<noteq> []"
    "r_more R n read_some b w = Some (Inr (length got, ec), b2, w1)" "inv b2" "r_data R b2 = r_data R b @ got" "r_max R b2 = r_max R b"
    "\<And>op. u_bytes_to_read op = n \<Longrightarrow> run (Async_read_some u (op\<lparr>u_buffers := b1\<rparr>)) w =
       (let op = op\<lparr>u_start := 0, u_buffers := b2\<rparr> in
        run (if ec_set ec \<or> got = [] then until_finish ec op else until_search R A search ec 0 op) w1)"
proof -
  obtain u b1 got ec w1 b2 where t: "a_issue A n b = (Inr u, b1)" "buf_size u = n" "read_some n w = Some (got, ec, w1)"
    "length got \<le> n" "input w = got @ input w1" "\<not> ec_set ec \<longrightarrow> 0 < n \<longrightarrow> got \<noteq> []"
    "b2 = a_settle A n (length got) (a_write A u got b1)"
    "r_more R n read_some b w = Some (Inr (length got, ec), b2, w1)" "inv b2" "r_data R b2 = r_data R b @ got"
    "r_max R b2 = r_max R b" by (rule trip [OF assms])
  have "run (Async_read_some u (op\<lparr>u_buffers := b1\<rparr>)) w = (let op = op\<lparr>u_start := 0, u_buffers := b2\<rparr> in
        run (if ec_set ec \<or> got = [] then until_finish ec op else until_search R A search ec 0 op) w1)"
    if "u_bytes_to_read op = n" for op
    using that by (subst stream_run.simps) (simp add: t(2,3,7) until_resume_def Let_def)
  then show thesis by (rule that [OF t(1,3-6,8-11)])
qed

lemma run_finish:
  "run (until_finish ec op) w = Some (Inr (if ec_set ec \<or> u_search_position op = not_found then 0 else u_search_position op,
     if u_search_position op = not_found then ec_not_found else ec), u_buffers op, w)"
  by (subst stream_run.simps) (simp add: until_finish_def Let_def)

lemma run_search:
  assumes "inv b" and "ok (r_data R b) p" and "\<not> ec_set ec" and "length (r_data R b @ input w) < size_max"
    and "u_buffers op = b" and "u_search_position op = p"
  shows "same_result inv (r_data R) (read_until_loop R search read_some p b w) (run (until_search R A search ec 0 op) w)"
  using assms
proof (induction "r_max R b - r_size R b" arbitrary: b w p ec op rule: less_induct)
  case less
  note sz = sizes [OF less.prems(1)] and op = less.prems(5,6)
  show ?case
  proof (cases "search (r_data R b) p")
    case (Inl n)
    from stable [OF found [OF less.prems(2) Inl]] have "n \<noteq> not_found" using less.prems(4) by (auto simp: not_found_def)
    then have "run (until_search R A search ec 0 op) w = Some (Inr (n, ec), b, w)"
      using less.prems(3) by (simp add: until_search_def op Inl run_finish)
    moreover have "read_until_loop R search read_some p b w = Some (Inr (n, no_error), b, w)"
      using Inl by (subst read_until_loop.simps) simp
    ultimately show ?thesis using less.prems(1,3) by (intro same_resultI) auto
  next
    case (Inr q)
    have q: "ok (r_data R b @ ys) q" for ys using searched [OF less.prems(2) Inr] by blast
    show ?thesis
    proof (cases "r_size R b = r_max R b")
      case True
      then have "run (until_search R A search ec 0 op) w = Some (Inr (0, ec_not_found), b, w)"
        by (simp add: until_search_def op Inr run_finish)
      moreover have "read_until_loop R search read_some p b w = Some (Inr (0, ec_not_found), b, w)"
        using Inr True by (subst read_until_loop.simps) simp
      ultimately show ?thesis using less.prems(1) by (intro same_resultI) auto
    next
      case False
      let ?k = "bytes_to_read R b" and ?op = "op\<lparr>u_search_position := q, u_bytes_to_read := bytes_to_read R b\<rparr>"
      have k: "0 < ?k" "?k \<le> r_max R b - r_size R b" using to_read [OF less.prems(1)] False by auto
      obtain u b1 got ec1 w1 b2 where r: "a_issue A ?k b = (Inr u, b1)" "input w = got @ input w1"
        "\<not> ec_set ec1 \<longrightarrow> 0 < ?k \<longrightarrow> got \<noteq> []"
        "r_more R ?k read_some b w = Some (Inr (length got, ec1), b2, w1)" "inv b2" "r_data R b2 = r_data R b @ got" "r_max R b2 = r_max R b"
        "\<And>op. u_bytes_to_read op = ?k \<Longrightarrow> run (Async_read_some u (op\<lparr>u_buffers := b1\<rparr>)) w =
           (let op = op\<lparr>u_start := 0, u_buffers := b2\<rparr> in
            run (if ec_set ec1 \<or> got = [] then until_finish ec1 op else until_search R A search ec1 0 op) w1)"
        using one_round [OF less.prems(1) k(2), of w] by metis
      have step: "run (until_search R A search ec 0 op) w = (let op = ?op\<lparr>u_start := 0, u_buffers := b2\<rparr> in
            run (if ec_set ec1 \<or> got = [] then until_finish ec1 op else until_search R A search ec1 0 op) w1)"
        using k(1) False r(8) [of ?op] by (simp add: until_search_def op Inr r(1))
      have "q < size_max" using ok_le [OF q [of "[]"]] less.prems(4) by simp
      then have q': "q \<noteq> not_found" by (simp add: not_found_def)
      show ?thesis
      proof (cases "ec_set ec1")
        case True
        then have "run (until_search R A search ec 0 op) w = Some (Inr (0, ec1), b2, w1)"
          using q' by (simp add: step run_finish)
        moreover have "read_until_loop R search read_some p b w = Some (Inr (0, ec1), b2, w1)"
          using Inr False True r(4) by (subst read_until_loop.simps) simp
        ultimately show ?thesis using r(5) by (intro same_resultI) auto
      next
        case noerr: False
        then have got: "got \<noteq> []" using r(3) k(1) by blast
        have "r_max R b2 - r_size R b2 < r_max R b - r_size R b"
          using sizes [OF r(5)] sz r(6,7) False got by (cases got) auto
        moreover have "ok (r_data R b2) q" using q r(6) by simp
        moreover have "length (r_data R b2 @ input w1) < size_max" using less.prems(4) r(2,6) by simp
        ultimately have "same_result inv (r_data R) (read_until_loop R search read_some q b2 w1)
            (run (until_search R A search ec1 0 (?op\<lparr>u_start := 0, u_buffers := b2\<rparr>)) w1)"
          using less.hyps [OF _ r(5)] noerr by simp
        moreover have "read_until_loop R search read_some p b w = read_until_loop R search read_some q b2 w1"
          using Inr False noerr r(4) by (subst read_until_loop.simps) simp
        ultimately show ?thesis using step noerr got by simp
      qed
    qed
  qed
qed

text \<open>
  The first call always issues a read, of no bytes when there is a match or no room.
\<close>

lemma run_first:
  assumes "inv b" and "length (r_data R b @ input w) < size_max"
  shows "same_result inv (r_data R) (read_until_loop R search read_some 0 b w)
    (until_initiate (until_resume R A search) (a_write A) read_some b w)"
proof (cases "\<exists>q. search (r_data R b) 0 = Inr q \<and> r_size R b \<noteq> r_max R b")
  case True
  then have "0 < bytes_to_read R b" using to_read [OF assms(1)] by auto
  with True have "until_search R A search no_error 1 op = until_search R A search no_error 0 op"
    if "u_buffers op = b" "u_search_position op = 0" for op
    using that by (auto simp: until_search_def)
  then have "until_initiate (until_resume R A search) (a_write A) read_some b w =
      run (until_search R A search no_error 0 (until_op_new b\<lparr>u_start := 1\<rparr>)) w"
    by (simp add: until_initiate_def until_resume_def until_op_new_def)
  then show ?thesis using run_search [OF assms(1) start _ assms(2)] by (simp add: until_op_new_def)
next
  case False
  obtain u b1 got ec w1 b2 where r: "a_issue A 0 b = (Inr u, b1)" "read_some 0 w = Some (got, ec, w1)"
    "inv b2" "r_data R b2 = r_data R b @ got"
    "\<And>op. u_bytes_to_read op = 0 \<Longrightarrow> run (Async_read_some u (op\<lparr>u_buffers := b1\<rparr>)) w =
       (let op = op\<lparr>u_start := 0, u_buffers := b2\<rparr> in
        run (if ec_set ec \<or> got = [] then until_finish ec op else until_search R A search ec 0 op) w1)"
    using one_round [OF assms(1), of 0 w] by (metis zero_le)
  have z: "got = []" "ec = no_error" "w1 = w" using r(2) zero_read by auto
  define position where "position = (case search (r_data R b) 0 of Inl m \<Rightarrow> m | Inr q \<Rightarrow> not_found)"
  have initiate: "until_initiate (until_resume R A search) (a_write A) read_some b w =
      Some (Inr (if position = not_found then (0, ec_not_found) else (position, no_error)), b2, w)"
    using False r(1) z r(5) [of "\<lparr>u_buffers = b, u_start = Suc 0, u_search_position = position, u_bytes_to_read = 0\<rparr>"]
    by (cases "search (r_data R b) 0") (simp_all add: until_initiate_def until_resume_def until_op_new_def until_search_def position_def run_finish)
  show ?thesis
  proof (cases "search (r_data R b) 0")
    case (Inl n)
    from stable [OF found [OF start Inl]] have "n \<noteq> not_found" using assms(2) by (auto simp: not_found_def)
    moreover have "read_until_loop R search read_some 0 b w = Some (Inr (n, no_error), b, w)"
      using Inl by (subst read_until_loop.simps) simp
    ultimately show ?thesis using initiate r(3,4) z(1) assms(1) by (simp add: same_result_def position_def Inl)
  next
    case (Inr q)
    then have "read_until_loop R search read_some 0 b w = Some (Inr (0, ec_not_found), b, w)"
      using False by (subst read_until_loop.simps) simp
    then show ?thesis using initiate r(3,4) z(1) assms(1) by (simp add: same_result_def position_def Inr)
  qed
qed

end

section \<open>On a socket\<close>

lemma until_op_truncate: "until_resume (readable.truncate R) A search = until_resume R A search"
proof -
  have "r_size (readable.truncate R) = r_size R" "r_max (readable.truncate R) = r_max R"
    "r_cap (readable.truncate R) = r_cap R" "r_data (readable.truncate R) = r_data R"
    by (simp_all add: readable.defs)
  note parts = this
  have "bytes_to_read (readable.truncate R) = bytes_to_read R" by (simp add: fun_eq_iff bytes_to_read_def parts)
  then have "until_search (readable.truncate R) A search ec start op = until_search R A search ec start op" for ec start op
    by (simp only: until_search_def parts)
  then show ?thesis by (simp add: fun_eq_iff until_resume_def Let_def)
qed

lemma until_resume_versions:
  "until_resume (reading_v1 D) A search = until_resume (readable_v1 D) A search"
  "until_resume (reading_v2 G) A search = until_resume (readable_v2 G) A search"
  by (rule until_op_truncate [symmetric, THEN trans], simp)+

text \<open>The functions with their asynchronous counterparts.\<close>

definition async_until_v2 where
  "async_until_v2 spare = (\<Union>G \<in> {string_v2 spare, vector_v2 spare}.
     all_until (\<lambda>c. (read_until_char_v2 G c, async_read_until_char_v2 G c))
       (\<lambda>d. (read_until_string_v2 G d, async_read_until_string_v2 G d))
       (\<lambda>cond. (read_until_match_v2 G cond, async_read_until_match_v2 G cond)))"

definition async_until_streambuf where
  "async_until_streambuf spare =
     all_until (\<lambda>c. (read_until_char_streambuf spare c, async_read_until_char_streambuf spare c))
       (\<lambda>d. (read_until_string_streambuf spare d, async_read_until_string_streambuf spare d))
       (\<lambda>cond. (read_until_match_streambuf spare cond, async_read_until_match_streambuf spare cond))"

lemma pair_same:
  assumes R: "taking_buffer R I A" "\<And>b. I b \<Longrightarrow> r_data R b = contents b"
    and fns: "(spec, until_fn, async_fn) \<in> all_until (\<lambda>c. f (search_char c)) (\<lambda>d. f (search_string d)) (\<lambda>cond. f (search_match cond))"
    and f: "\<And>search. f search = (\<lambda>read_some b w. read_until_loop R search read_some 0 b w,
      until_initiate (until_resume (readable.truncate R) A search) (a_write A))"
    and "read_stream read_some input" and zero: "\<And>w. read_some 0 w = Some ([], no_error, w)"
    and "I b" and "length (contents b @ input w) < size_max"
  shows "same_result I contents (until_fn read_some b w) (async_fn read_some b w)"
proof -
  obtain search ok where s: "(until_fn, async_fn) = f search" "delimiter search spec ok" "\<And>xs p. ok xs p \<Longrightarrow> p \<le> length xs"
    by (rule all_until_search [where f = f, OF fns]) blast
  have "async_until R I A search spec ok read_some input"
    by (intro async_until.intro taking_stream.intro R(1) s(2) assms(5) async_until_axioms.intro s(3) zero)
  from async_until.run_first [OF this assms(7), of w] have "same_result I (r_data R) (until_fn read_some b w) (async_fn read_some b w)"
    using s(1) assms(8) by (simp add: f R(2) [OF assms(7)] until_op_truncate)
  then show ?thesis using R(2) unfolding same_result_def by metis
qed

text \<open>
  C16: On a stream socket and a buffer over a string or a vector, \<open>async_read_until\<close> gives its handler what
  the synchronous function returns when its reads complete as the synchronous ones would: the same
  number of bytes, the same error if there is one, the same contents of the buffer, and the same rest
  of the input; so it does with a stream buffer. Its first call issues a read of no bytes when the
  synchronous function would not read. The contents and the input together are shorter than the
  largest \<open>size_t\<close>, which marks a search that found nothing.
\<close>

theorem async_read_until_same:
  assumes "recv_documented N s input" and "has_state st stream_oriented" and "dsb_inv2 b"
    and "(spec, until_fn, async_fn) \<in> async_until_v2 spare" and "length (dsb_contents b @ input w) < size_max"
  shows "\<exists>n ec ec' b1 b2 w'. until_fn (socket_read_some N s st) b w = Some (Inr (n, ec), b1, w') \<and>
    async_fn (socket_read_some N s st) b w = Some (Inr (n, ec'), b2, w') \<and> dsb_contents b1 = dsb_contents b2 \<and>
    (ec = ec' \<or> \<not> ec_set ec \<and> \<not> ec_set ec')"
proof -
  note defs = read_until_char_v2_def [abs_def] read_until_string_v2_def [abs_def] read_until_match_v2_def [abs_def]
    async_read_until_char_v2_def [abs_def] async_read_until_string_v2_def [abs_def] async_read_until_match_v2_def [abs_def]
    delim_op_v2_def [abs_def] delim_string_op_v2_def [abs_def] match_op_v2_def [abs_def]
  note rs = socket_read_stream [OF assms(1,2)] socket_zero_read [OF assms(1,2)]
  let ?f = "\<lambda>G search. (\<lambda>read_some b w. read_until_loop (reading_v2 G) search read_some 0 b w,
    until_initiate (until_resume (readable_v2 G) (taking_v2 G) search) (a_write (taking_v2 G)))"
  obtain G where G: "G = string_v2 spare \<or> G = vector_v2 spare"
    "(spec, until_fn, async_fn) \<in> all_until (\<lambda>c. ?f G (search_char c)) (\<lambda>d. ?f G (search_string d)) (\<lambda>cond. ?f G (search_match cond))"
    using assms(4) by (auto simp: async_until_v2_def defs taking_v2_def)
  have "taking_buffer (reading_v2 G :: (dyn, 'a) reading) dsb_inv2 (taking_v2 G)"
    "\<And>b. dsb_inv2 b \<Longrightarrow> r_data (reading_v2 G :: (dyn, 'a) reading) b = dsb_contents b"
    using G(1) string2.taking2 vector2.taking2 dynamic_data(1,2) by blast+
  from pair_same [where f = "?f G", OF this G(2) _ rs assms(3,5)] show ?thesis by (simp add: same_result_def) blast
qed

lemma async_sample:
  "(first_end [13, 10], read_until_string_v2 (vector_v2 (\<lambda>c n. n)) [13, 10], async_read_until_string_v2 (vector_v2 (\<lambda>c n. n)) [13, 10])
    \<in> async_until_v2 (\<lambda>c n. n)"
  "length (dsb_contents until_sample @ snd ([] :: bytes, [1, 2, 13, 13, 10, 5])) < size_max"
  by (auto simp: async_until_v2_def all_until_def until_sample_inv size_max_def)

lemma async_read_until_same_witness:
  "\<exists>n ec ec' b1 b2 w'. read_until_string_v2 (vector_v2 (\<lambda>c n. n)) [13, 10] (socket_read_some loop_net 7 stream_oriented)
      until_sample ([], [1, 2, 13, 13, 10, 5]) = Some (Inr (n, ec), b1, w') \<and>
    async_read_until_string_v2 (vector_v2 (\<lambda>c n. n)) [13, 10] (socket_read_some loop_net 7 stream_oriented)
      until_sample ([], [1, 2, 13, 13, 10, 5]) = Some (Inr (n, ec'), b2, w')"
  using async_read_until_same [OF loop_net_documented(2) stream_state until_sample_inv(1) async_sample] by blast

text \<open>The same for a stream buffer.\<close>

lemma async_read_until_streambuf_same:
  assumes "recv_documented N s input" and "has_state st stream_oriented" and "sb_inv b"
    and "(spec, until_fn, async_fn) \<in> async_until_streambuf spare" and "length (sb_contents b @ input w) < size_max"
  shows "same_result sb_inv sb_contents (until_fn (socket_read_some N s st) b w) (async_fn (socket_read_some N s st) b w)"
proof -
  note defs = read_until_char_streambuf_def [abs_def] read_until_string_streambuf_def [abs_def] read_until_match_streambuf_def [abs_def]
    read_until_char_v1_def [abs_def] read_until_string_v1_def [abs_def] read_until_match_v1_def [abs_def]
    async_read_until_char_streambuf_def [abs_def] async_read_until_string_streambuf_def [abs_def]
    async_read_until_match_streambuf_def [abs_def]
    async_read_until_char_v1_def [abs_def] async_read_until_string_v1_def [abs_def] async_read_until_match_v1_def [abs_def]
    delim_op_v1_def [abs_def] delim_string_op_v1_def [abs_def] match_op_v1_def [abs_def]
  note rs = socket_read_stream [OF assms(1,2)] socket_zero_read [OF assms(1,2)]
  let ?D = "streambuf_v1 spare"
  let ?f = "\<lambda>search. (\<lambda>read_some b w. read_until_loop (reading_v1 ?D) search read_some 0 b w,
    until_initiate (until_resume (readable_v1 ?D) (taking_v1 ?D) search) (a_write (taking_v1 ?D)))"
  have "(spec, until_fn, async_fn) \<in> all_until (\<lambda>c. ?f (search_char c)) (\<lambda>d. ?f (search_string d)) (\<lambda>cond. ?f (search_match cond))"
    using assms(4) by (auto simp: async_until_streambuf_def defs taking_v1_def)
  from pair_same [where f = ?f, OF streambuf1.taking1 dynamic_data(3) this _ rs assms(3,5)] show ?thesis by simp
qed

section \<open>A read of no bytes without an error\<close>

lemma empty_read_settles:
  fixes R :: "('b, 'w) reading" and read_some :: "'w read_some"
  assumes "taking_buffer R I A" and "I b" and "r_size R b \<noteq> r_max R b" and "search (r_data R b) 0 = Inr q" and "q \<noteq> not_found"
    and rs: "\<And>n. read_some n w = Some ([], no_error, w)"
  shows "\<exists>b'. until_initiate (until_resume R A search) (a_write A) read_some b w = Some (Inr (q, no_error), b', w) \<and>
    I b' \<and> r_data R b' = r_data R b"
proof -
  let ?k = "bytes_to_read R b"
  have rb: "read_buffer R I" using assms(1) by (rule taking_buffer.axioms)
  have k: "0 < ?k" "?k \<le> r_max R b - r_size R b" using read_buffer.to_read [OF rb assms(2)] assms(3) by auto
  from taking_buffer.round [OF assms(1,2) k(2)] obtain u b1 where u: "a_issue A ?k b = (Inr u, b1)" "buf_size u = ?k"
    "\<forall>got. length got \<le> ?k \<longrightarrow> (\<forall>read_some ec w w'. read_some ?k w = Some (got, ec, w') \<longrightarrow>
       r_more R ?k read_some b w = Some (Inr (length got, ec), a_settle A ?k (length got) (a_write A u got b1), w'))" by blast
  let ?b2 = "a_settle A ?k 0 (a_write A u [] b1)"
  have "r_more R ?k read_some b w = Some (Inr (0, no_error), ?b2, w)"
    using u(3) [rule_format, of "[]" read_some w no_error w] rs [of ?k] by simp
  with read_buffer.more [where read_some = read_some, OF rb assms(2) k(2) rs] have b2: "I ?b2" "r_data R ?b2 = r_data R b" by auto
  have "until_initiate (until_resume R A search) (a_write A) read_some b w = Some (Inr (q, no_error), ?b2, w)"
    using assms(3-5) k(1)
    by (simp add: until_initiate_def until_resume_def until_op_new_def until_search_def u(1))
      (subst stream_run.simps, simp add: u(2) rs, subst until_resume_def, simp add: until_finish_def stream_run.simps)
  then show ?thesis using b2 by blast
qed

text \<open>
  C37: An operation whose read completes with no bytes and without an error stops and reports success:
  on a stream that delivers an empty message (a datagram may be empty), \<open>async_read_until\<close> with a
  character calls its handler without an error and with the number of bytes that have been
  searched in vain, although the buffer has room and there is no delimiter in it.
\<close>

theorem empty_read_reports_success:
  assumes "sb_inv b" and "c \<notin> set (sb_contents b)" and "length (sb_contents b) < sb_maximum b"
    and "\<And>n. read_some n w = Some ([], no_error, w)"
  shows "\<exists>b'. async_read_until_char_streambuf spare c read_some b w = Some (Inr (length (sb_contents b), no_error), b', w) \<and>
    sb_contents b' = sb_contents b \<and> first_end [c] (sb_contents b') = None"
proof -
  let ?D = "streambuf_v1 spare"
  let ?R = "reading_v1 ?D :: (sbuf, 'a) reading"
  note d = dynamic_data(3)
  have s: "search_char c (r_data ?R b) 0 = Inr (length (sb_contents b))"
  proof -
    have "takeWhile (\<lambda>x. x \<noteq> c) (sb_contents b) = sb_contents b" using assms(2) by (auto simp: takeWhile_eq_all_conv)
    then show ?thesis unfolding d [OF assms(1)] search_char_def Let_def drop_0 by (simp only: add_0 refl if_False simp_thms)
  qed
  have none: "first_end [c] xs = None" if "c \<notin> set xs" for xs using that by (induction xs) auto
  have room: "r_size ?R b \<noteq> r_max ?R b" using assms(3) sb_inv_size(1) [OF assms(1)]
    by (simp add: streambuf_v1_def sb_max_size_def)
  have "length (sb_contents b) \<noteq> not_found" using assms(1,3) by (simp add: not_found_def sb_inv_def)
  from empty_read_settles [where search = "search_char c" and read_some = read_some and w = w,
      OF streambuf1.taking1 assms(1) room s this assms(4)]
  obtain b' where b': "until_initiate (until_resume ?R (taking_v1 ?D) (search_char c))
        (a_write (taking_v1 ?D)) read_some b w = Some (Inr (length (sb_contents b), no_error), b', w)"
    "sb_inv b'" "r_data ?R b' = r_data ?R b" by blast
  have "sb_contents b' = sb_contents b" using b'(3) by (simp only: d [OF b'(2)] d [OF assms(1)])
  then show ?thesis using b'(1) none assms(2)
    by (simp add: async_read_until_char_streambuf_def async_read_until_char_v1_def delim_op_v1_def until_resume_versions taking_v1_def)
qed

lemma empty_read_reports_success_witness:
  "\<exists>b'. async_read_until_char_streambuf (\<lambda>c n. n) 10 (\<lambda>n w. Some ([], no_error, w)) (sb_new (\<lambda>c n. n) 1000) () =
    Some (Inr (0, no_error), b', ()) \<and> sb_contents b' = []"
  using empty_read_reports_success [OF streambuf_sample(1), of 10 "\<lambda>n w. Some ([], no_error, w)" "()" "\<lambda>c n. n"]
  by (simp add: streambuf_sample) blast

section \<open>The interfaces on the code's buffers\<close>

interpretation loop_streambuf_async: async_until "reading_v1 (streambuf_v1 spare)" sb_inv "taking_v1 (streambuf_v1 spare)"
  "search_string d" "first_end d" "unmatched d" "socket_read_some loop_net 7 stream_oriented" snd for spare d
  by (intro async_until.intro taking_stream.intro streambuf1.taking1 string_delimiter.delimiter_axioms async_until_axioms.intro
      socket_read_stream socket_zero_read [OF loop_net_documented(2) stream_state] loop_net_documented stream_state)
    (simp add: unmatched_def)

end
