(* ===== verification/AsioReadDynamic.thy ===== *)
theory AsioReadDynamic
  imports AsioAsync
begin

text \<open>
  \<open>read\<close> into a dynamic buffer and \<open>write\<close> from one (impl/read.hpp, impl/write.hpp), for both versions
  of the interface and for \<open>basic_streambuf\<close>. A read goes on until the completion condition is met or
  the buffer is full; a write consumes what has been sent. The locale \<open>dynamic_source\<close> is what a write
  relies on of its buffer.
\<close>

section \<open>Reading\<close>

definition bytes_available :: "('b, 'z) readable_scheme \<Rightarrow> nat \<Rightarrow> 'b \<Rightarrow> nat" where
  "bytes_available R max_size b =
     min (max 512 (size_diff (r_cap R b) (r_size R b))) (min max_size (size_diff (r_max R b) (r_size R b)))"

text \<open>The loop, from the evaluation of the completion condition on.\<close>

partial_function (option) dynamic_read_loop ::
  "('b, 'w) reading \<Rightarrow> (error_code \<Rightarrow> nat \<Rightarrow> nat) \<Rightarrow> 'w read_some \<Rightarrow> nat \<Rightarrow> error_code \<Rightarrow> 'b \<Rightarrow> 'w \<Rightarrow>
   ((thrown + nat \<times> error_code) \<times> 'b \<times> 'w) option" where
  "dynamic_read_loop R completion_condition read_some total_transferred ec b w =
     (let max_size = adapt_completion_condition_result (completion_condition ec total_transferred);
          n = bytes_available R max_size b
      in if n > 0 then
           Option.bind (r_more R n read_some b w) (\<lambda>(r, b, w).
             case r of
               Inl e \<Rightarrow> Some (Inl e, b, w)
             | Inr (bytes_transferred, ec) \<Rightarrow>
                 dynamic_read_loop R completion_condition read_some (total_transferred + bytes_transferred) ec b w)
         else Some (Inr (total_transferred, ec), b, w))"

definition read_v1_ec where
  "read_v1_ec D cc read_some b w = dynamic_read_loop (reading_v1 D) cc read_some 0 no_error b w"

definition read_v1_all where "read_v1_all D read_some b w = until_throw (read_v1_ec D transfer_all read_some b w)"
definition read_v1_all_ec where "read_v1_all_ec D read_some b w = read_v1_ec D transfer_all read_some b w"
definition read_v1 where "read_v1 D cc read_some b w = until_throw (read_v1_ec D cc read_some b w)"

definition read_streambuf_ec where "read_streambuf_ec spare cc read_some b w = read_v1_ec (streambuf_v1 spare) cc read_some b w"
definition read_streambuf_all where "read_streambuf_all spare read_some b w = read_v1_all (streambuf_v1 spare) read_some b w"
definition read_streambuf_all_ec where "read_streambuf_all_ec spare read_some b w = read_v1_all_ec (streambuf_v1 spare) read_some b w"
definition read_streambuf where "read_streambuf spare cc read_some b w = read_v1 (streambuf_v1 spare) cc read_some b w"

definition read_v2_ec where
  "read_v2_ec G cc read_some b w = dynamic_read_loop (reading_v2 G) cc read_some 0 no_error b w"

definition read_v2_all where "read_v2_all G read_some b w = until_throw (read_v2_ec G transfer_all read_some b w)"
definition read_v2_all_ec where "read_v2_all_ec G read_some b w = read_v2_ec G transfer_all read_some b w"
definition read_v2 where "read_v2 G cc read_some b w = until_throw (read_v2_ec G cc read_some b w)"

locale dynamic_reader = read_buffer R inv + read_stream read_some input
  for R :: "('b, 'w) reading" and inv and read_some :: "'w read_some" and input :: "'w \<Rightarrow> bytes"
begin

lemma available:
  assumes "inv b"
  shows "bytes_available R m b \<le> r_max R b - r_size R b" "bytes_available R m b \<le> m"
    "bytes_available R m b = 0 \<longleftrightarrow> m = 0 \<or> r_size R b = r_max R b"
  using sizes [OF assms] by (auto simp: bytes_available_def)

lemma dynamic_read_transfers:
  assumes "inv b" and "stops_at_errors cc"
  shows "\<exists>got ec' b' w'. dynamic_read_loop R cc read_some n0 ec b w = Some (Inr (n0 + length got, ec'), b', w') \<and>
    inv b' \<and> r_data R b' = r_data R b @ got \<and> r_max R b' = r_max R b \<and> input w = got @ input w' \<and>
    (\<not> ec_set ec' \<longrightarrow> length (r_data R b') = r_max R b \<or> cc ec' (n0 + length got) = 0) \<and>
    (\<forall>K. (\<forall>e j. cc e j \<le> K - j) \<longrightarrow> n0 \<le> K \<longrightarrow> n0 + length got \<le> K)"
  using assms(1)
proof (induction "r_max R b - r_size R b + (if ec_set ec then 0 else 1)" arbitrary: b ec w n0 rule: less_induct)
  case less
  let ?n = "bytes_available R (cc ec n0) b"
  note av = available [OF less.prems, of "cc ec n0"] and sz = sizes [OF less.prems]
  show ?case
  proof (cases "?n = 0")
    case True
    then have "dynamic_read_loop R cc read_some n0 ec b w = Some (Inr (n0, ec), b, w)"
      by (subst dynamic_read_loop.simps) (simp add: adapt_completion_condition_result_def)
    then show ?thesis using True av(3) sz less.prems
      by (intro exI [of _ "[]"] exI [of _ ec] exI [of _ b] exI [of _ w]) auto
  next
    case False
    then have err: "\<not> ec_set ec" using av(3) assms(2) by (auto simp: stops_at_errors_def)
    from read_some [of ?n w] obtain got ec1 w1 where
      rs: "read_some ?n w = Some (got, ec1, w1)" "length got \<le> ?n" "input w = got @ input w1"
      "\<not> ec_set ec1 \<longrightarrow> 0 < ?n \<longrightarrow> got \<noteq> []" by (elim exE conjE) (rule that)
    from more [where read_some = read_some, OF less.prems av(1) rs(1,2)] obtain b1 where
      m: "r_more R ?n read_some b w = Some (Inr (length got, ec1), b1, w1)" "inv b1" "r_data R b1 = r_data R b @ got"
      "r_max R b1 = r_max R b" by (elim exE conjE) (rule that)
    have step: "dynamic_read_loop R cc read_some n0 ec b w =
        dynamic_read_loop R cc read_some (n0 + length got) ec1 b1 w1"
      using False m(1) by (subst dynamic_read_loop.simps) (simp add: adapt_completion_condition_result_def)
    have "r_max R b1 - r_size R b1 + (if ec_set ec1 then 0 else 1) < r_max R b - r_size R b + (if ec_set ec then 0 else 1)"
      using sizes [OF m(2)] sz m(3,4) err rs(4) False av(3) by (cases got) auto
    note hyps = less.hyps [OF this m(2), of "n0 + length got" w1]
    obtain later ec' b' w' where
      h: "dynamic_read_loop R cc read_some (n0 + length got) ec1 b1 w1 = Some (Inr (n0 + length got + length later, ec'), b', w')"
      "inv b'" "r_data R b' = r_data R b1 @ later" "r_max R b' = r_max R b1" "input w1 = later @ input w'"
      "\<not> ec_set ec' \<longrightarrow> length (r_data R b') = r_max R b1 \<or> cc ec' (n0 + length got + length later) = 0"
      "\<forall>K. (\<forall>e j. cc e j \<le> K - j) \<longrightarrow> n0 + length got \<le> K \<longrightarrow> n0 + length got + length later \<le> K"
      by (insert hyps, elim exE conjE, rule that, assumption+)
    have "n0 + length (got @ later) \<le> K" if K: "\<forall>e j. cc e j \<le> K - j" "n0 \<le> K" for K
    proof -
      have "length got \<le> cc ec n0" using rs(2) av(2) by (rule le_trans)
      also have "\<dots> \<le> K - n0" using K(1) by blast
      finally have "length got \<le> K - n0" .
      then have "n0 + length got \<le> K" using K(2) by simp
      then have "n0 + length got + length later \<le> K" using h(7) K(1) by blast
      then show ?thesis by simp
    qed
    then have bound: "\<forall>K. (\<forall>e j. cc e j \<le> K - j) \<longrightarrow> n0 \<le> K \<longrightarrow> n0 + length (got @ later) \<le> K" by blast
    have loop: "dynamic_read_loop R cc read_some n0 ec b w = Some (Inr (n0 + length (got @ later), ec'), b', w')"
      using step h(1) by (simp add: add.assoc)
    have "r_data R b' = r_data R b @ got @ later" "r_max R b' = r_max R b" "input w = (got @ later) @ input w'"
      using h(3-5) m(3,4) rs(3) by simp_all
    moreover have "\<not> ec_set ec' \<longrightarrow> length (r_data R b') = r_max R b \<or> cc ec' (n0 + length (got @ later)) = 0"
      using h(6) m(4) by (simp add: add.assoc)
    ultimately show ?thesis using loop h(2) bound by blast
  qed
qed

end

interpretation streambuf_reader: dynamic_reader "reading_v1 (streambuf_v1 spare)" sb_inv
  "socket_read_some loop_net 7 stream_oriented" snd for spare
  by (intro dynamic_reader.intro streambuf1.reading1 socket_read_stream loop_net_documented stream_state)

text \<open>
  C18: Reading from a stream socket into a buffer over a string or a vector returns and appends to the
  buffer what it has taken from the input; the number returned is its length, and the maximum of the
  buffer is not exceeded. Without an error, the buffer is full or the completion condition is met:
  \<open>transfer_all\<close> fills it, \<open>transfer_at_least\<close> gives at least the wanted number, and
  \<open>transfer_exactly\<close> as many as wanted or, if they are fewer, as fit.
\<close>

theorem dynamic_read_appends:
  assumes "recv_documented N s input" and "has_state st stream_oriented" and "dsb_inv2 b"
    and "G = string_v2 spare \<or> G = vector_v2 spare"
    and "cc = transfer_all \<or> cc = transfer_at_least k \<or> cc = transfer_exactly k"
  shows "\<exists>got ec b' w'. read_v2_ec G cc (socket_read_some N s st) b w = Some (Inr (length got, ec), b', w') \<and>
    dsb_contents b' = dsb_contents b @ got \<and> input w = got @ input w' \<and> length (dsb_contents b @ got) \<le> dyn_max b \<and>
    (\<not> ec_set ec \<longrightarrow>
       (cc = transfer_all \<longrightarrow> length (dsb_contents b @ got) = dyn_max b) \<and>
       (cc = transfer_at_least k \<longrightarrow> k \<le> length got \<or> length (dsb_contents b @ got) = dyn_max b) \<and>
       (cc = transfer_exactly k \<longrightarrow> length got = min k (dyn_max b - length (dsb_contents b))))"
proof -
  let ?R = "reading_v2 G :: (dyn, 'a) reading"
  have R: "read_buffer ?R dsb_inv2" "\<And>b. dsb_inv2 b \<Longrightarrow> r_data ?R b = dsb_contents b" "r_max ?R = dyn_max"
    using assms(4) string2.reading2 vector2.reading2 dynamic_data(1,2) dynamic_max(1,2) by blast+
  have "dynamic_reader ?R dsb_inv2 (socket_read_some N s st) input"
    by (intro dynamic_reader.intro R(1) socket_read_stream assms(1,2))
  from dynamic_reader.dynamic_read_transfers [OF this assms(3), of cc 0 no_error w] assms(5)
  obtain got ec b' w' where r: "read_v2_ec G cc (socket_read_some N s st) b w = Some (Inr (length got, ec), b', w')"
    "dsb_inv2 b'" "r_data ?R b' = r_data ?R b @ got" "r_max ?R b' = r_max ?R b" "input w = got @ input w'"
    "\<not> ec_set ec \<longrightarrow> length (r_data ?R b') = r_max ?R b \<or> cc ec (length got) = 0"
    "\<forall>K. (\<forall>e j. cc e j \<le> K - j) \<longrightarrow> length got \<le> K"
    by (auto simp: read_v2_ec_def)
  note c = R(2) [OF assms(3)] R(2) [OF r(2)]
  have contents: "dsb_contents b' = dsb_contents b @ got" using r(3) c by simp
  have len: "length (dsb_contents b @ got) \<le> dyn_max b"
    using read_buffer.sizes [OF R(1) r(2)] r(4) c contents by (simp only: R(3)) simp
  have full: "length (dsb_contents b @ got) = dyn_max b \<or> cc ec (length got) = 0" if "\<not> ec_set ec"
    using r(6) that c contents by (simp only: R(3)) simp
  have "length got \<le> k" if "cc = transfer_exactly k" using r(7) that condition_ends(4) by blast
  then have "\<not> ec_set ec \<longrightarrow>
       (cc = transfer_all \<longrightarrow> length (dsb_contents b @ got) = dyn_max b) \<and>
       (cc = transfer_at_least k \<longrightarrow> k \<le> length got \<or> length (dsb_contents b @ got) = dyn_max b) \<and>
       (cc = transfer_exactly k \<longrightarrow> length got = min k (dyn_max b - length (dsb_contents b)))"
    using full len condition_ends(1-3) [of ec "length got"] condition_ends(2,3) [of ec k "length got"] by fastforce
  then show ?thesis using r(1,5) contents len by blast
qed

lemma dynamic_read_appends_witness:
  "\<exists>got ec b' w'. read_v2_ec (string_v2 (\<lambda>c n. n)) (transfer_exactly 3) (socket_read_some loop_net 7 stream_oriented)
      until_sample ([], [1, 2, 3, 4]) = Some (Inr (length got, ec), b', w') \<and>
    dsb_contents b' = 9 # got \<and> (\<not> ec_set ec \<longrightarrow> length got = 3)"
  using dynamic_read_appends [OF loop_net_documented(2) stream_state until_sample_inv(1),
      of "string_v2 (\<lambda>c n. n)" "\<lambda>c n. n" "transfer_exactly 3" 3 "([], [1, 2, 3, 4])", simplified until_sample_inv]
  by auto

section \<open>Writing\<close>

text \<open>
  What a write uses of a dynamic buffer: the buffer that \<open>data()\<close> or \<open>data(0, size())\<close> returns, the
  memory it refers to, and \<open>consume\<close>.
\<close>

record 'b source =
  w_data :: "'b \<Rightarrow> buf"
  w_memory :: "'b \<Rightarrow> mem"
  w_consume :: "nat \<Rightarrow> 'b \<Rightarrow> 'b"

definition v_memory :: "vec \<Rightarrow> mem" where
  "v_memory v a = (if a < v_size v then v_bytes v ! a else 0)"

definition string_source :: "dyn source" where
  "string_source = \<lparr>w_data = (\<lambda>b. dsb_data_at 0 (dsb_size b) b), w_memory = (\<lambda>b. v_memory (dyn_vec b)), w_consume = dsb_consume\<rparr>"

definition vector_source :: "dyn source" where
  "vector_source = \<lparr>w_data = (\<lambda>b. dvb_data_at 0 (dvb_size b) b), w_memory = (\<lambda>b. v_memory (dyn_vec b)), w_consume = dvb_consume\<rparr>"

definition streambuf_source :: "sbuf source" where
  "streambuf_source = \<lparr>w_data = sb_data, w_memory = (\<lambda>b. v_memory (sb_vec b)), w_consume = sb_consume\<rparr>"

type_synonym 'w write_some = "bytes \<Rightarrow> 'w \<Rightarrow> (nat \<times> error_code \<times> 'w) option"

definition write_source ::
  "'b source \<Rightarrow> (error_code \<Rightarrow> nat \<Rightarrow> nat) \<Rightarrow> 'w write_some \<Rightarrow> 'b \<Rightarrow> 'w \<Rightarrow> (nat \<times> error_code \<times> 'b \<times> 'w) option" where
  "write_source W cc write_some b w =
     Option.bind (write_ec single_proxy write_some (w_memory W b) (c1_new (w_data W b)) cc w) (\<lambda>(bytes_transferred, ec, w).
       Some (bytes_transferred, ec, w_consume W bytes_transferred b, w))"

definition source_throw ::
  "(nat \<times> error_code \<times> 'b \<times> 'w) option \<Rightarrow> ((thrown + nat) \<times> 'b \<times> 'w) option" where
  "source_throw m = map_option (\<lambda>(n, ec, b, w). (throw_error ec n, b, w)) m"

definition write_v1_ec where "write_v1_ec W cc write_some b w = write_source W cc write_some b w"
definition write_v1_all where "write_v1_all W write_some b w = source_throw (write_v1_ec W transfer_all write_some b w)"
definition write_v1_all_ec where "write_v1_all_ec W write_some b w = write_v1_ec W transfer_all write_some b w"
definition write_v1 where "write_v1 W cc write_some b w = source_throw (write_v1_ec W cc write_some b w)"

definition write_streambuf_ec where "write_streambuf_ec cc write_some b w = write_v1_ec streambuf_source cc write_some b w"
definition write_streambuf_all where "write_streambuf_all write_some b w = write_v1_all streambuf_source write_some b w"
definition write_streambuf_all_ec where "write_streambuf_all_ec write_some b w = write_v1_all_ec streambuf_source write_some b w"
definition write_streambuf where "write_streambuf cc write_some b w = write_v1 streambuf_source cc write_some b w"

definition write_v2_ec where "write_v2_ec W cc write_some b w = write_source W cc write_some b w"
definition write_v2_all where "write_v2_all W write_some b w = source_throw (write_v2_ec W transfer_all write_some b w)"
definition write_v2_all_ec where "write_v2_all_ec W write_some b w = write_v2_ec W transfer_all write_some b w"
definition write_v2 where "write_v2 W cc write_some b w = source_throw (write_v2_ec W cc write_some b w)"

locale dynamic_source =
  fixes W :: "'b source" and inv :: "'b \<Rightarrow> bool" and contents :: "'b \<Rightarrow> bytes"
  assumes data: "inv b \<Longrightarrow> map (w_memory W b) (buf_addrs (w_data W b)) = contents b"
    and consume: "inv b \<Longrightarrow> inv (w_consume W n b) \<and> contents (w_consume W n b) = drop n (contents b)"
begin

lemma write_source_consumes:
  assumes "inv b" and "write_stream write_some wire" and "stops_at_errors cc"
  shows "\<exists>n ec b' w'. write_source W cc write_some b w = Some (n, ec, b', w') \<and> inv b' \<and> n \<le> length (contents b) \<and>
    contents b' = drop n (contents b) \<and> wire w' = wire w @ take n (contents b) \<and>
    (\<not> ec_set ec \<longrightarrow> n = length (contents b) \<or> cc ec n = 0) \<and> (\<forall>K. (\<forall>e j. cc e j \<le> K - j) \<longrightarrow> n \<le> K)"
proof -
  let ?c = "c1_new (w_data W b)" and ?M = "w_memory W b"
  have r: "map ?M (c1_rest ?c) = contents b" "length (c1_rest ?c) = length (contents b)"
    using data [OF assms(1)] by (simp_all add: c1_rest_def c1_new_def flip: data [OF assms(1)])
  have z: "p_consumed single_proxy ?c = 0" by (simp add: single_proxy_def c1_new_def)
  from writer.write_loop_transfers [OF writer.intro [OF single.transfer_proxy_axioms assms(2)] TrueI assms(3), of ?M ?c no_error w]
  obtain n ec w' where h: "write_loop single_proxy write_some cc ?M ?c no_error w = Some (n, ec, w')"
    "n \<le> length (contents b)" "wire w' = wire w @ take n (contents b)"
    "\<not> ec_set ec \<longrightarrow> n = length (contents b) \<or> cc ec n = 0" "\<forall>K. (\<forall>e j. cc e j \<le> K - j) \<longrightarrow> n \<le> K"
    by (auto simp: r z)
  have "write_source W cc write_some b w = Some (n, ec, w_consume W n b, w')"
    using h(1) by (simp add: write_source_def write_ec_def)
  then show ?thesis using h(2-5) consume [OF assms(1), of n] by blast
qed

end

lemma v_memory_all: "n \<le> v_size v \<Longrightarrow> map (v_memory v) [0..<n] = take n (v_bytes v)"
  by (rule nth_equalityI) (auto simp: v_memory_def)

lemma v_memory_from: "k + n \<le> v_size v \<Longrightarrow> map (v_memory v) [k..<k + n] = take n (drop k (v_bytes v))"
  by (rule nth_equalityI) (auto simp: v_memory_def)

interpretation string_source: dynamic_source string_source dsb_inv dsb_contents
proof
  fix b n
  assume b: "dsb_inv b"
  show "map (w_memory string_source b) (buf_addrs (w_data string_source b)) = dsb_contents b"
    using b dsb_inv_size(1) [OF b]
    by (simp add: string_source_def dsb_data_at_def buf_addrs_def buf_plus_def buf_limit_def dsb_inv_def dsb_contents_def v_memory_all)
  show "dsb_inv (w_consume string_source n b) \<and> dsb_contents (w_consume string_source n b) = drop n (dsb_contents b)"
    using dsb_consume_drops [OF b] by (simp add: string_source_def)
qed

interpretation vector_source: dynamic_source vector_source dsb_inv dsb_contents
proof
  fix b n
  assume b: "dsb_inv b"
  show "map (w_memory vector_source b) (buf_addrs (w_data vector_source b)) = dsb_contents b"
    using string_source.data [OF b] by (simp add: string_source_def vector_source_def dvb_as_dsb)
  show "dsb_inv (w_consume vector_source n b) \<and> dsb_contents (w_consume vector_source n b) = drop n (dsb_contents b)"
    using string_source.consume [OF b] by (simp add: string_source_def vector_source_def dvb_consume_as_dsb [OF b])
qed

interpretation streambuf_source: dynamic_source streambuf_source sb_inv sb_contents
proof
  fix b n
  assume b: "sb_inv b"
  show "map (w_memory streambuf_source b) (buf_addrs (w_data streambuf_source b)) = sb_contents b"
  proof -
    have "sb_gptr b \<le> sb_pptr b" "sb_pptr b \<le> v_size (sb_vec b)" using b by (auto simp: sb_inv_def)
    then show ?thesis using v_memory_from [of "sb_gptr b" "sb_pptr b - sb_gptr b" "sb_vec b"]
      by (simp add: streambuf_source_def sb_data_def buf_make_def buf_addrs_def sb_contents_def)
  qed
  show "sb_inv (w_consume streambuf_source n b) \<and> sb_contents (w_consume streambuf_source n b) = drop n (sb_contents b)"
    using sb_consume_drops [OF b] by (simp add: streambuf_source_def)
qed

text \<open>
  C19: Writing a buffer over a string or a vector to a stream socket returns, and takes from the front of the buffer
  exactly the bytes that it has put on the wire: what is on the wire followed by what is left is
  what was on the wire followed by the contents, also after an error. Without an error,
  \<open>transfer_all\<close> leaves the buffer empty, \<open>transfer_at_least\<close> and \<open>transfer_exactly\<close> have
  sent what was asked for or everything.
\<close>

theorem dynamic_write_consumes:
  assumes "send_documented N s wire" and "has_state st stream_oriented" and "dsb_inv b"
    and "W = string_source \<or> W = vector_source"
    and "cc = transfer_all \<or> cc = transfer_at_least k \<or> cc = transfer_exactly k"
  shows "\<exists>n ec b' w'. write_v2_ec W cc (socket_write_some N s st) b w = Some (n, ec, b', w') \<and> dsb_inv b' \<and>
    n \<le> length (dsb_contents b) \<and> wire w' = wire w @ take n (dsb_contents b) \<and>
    wire w' @ dsb_contents b' = wire w @ dsb_contents b \<and>
    (\<not> ec_set ec \<longrightarrow> (cc = transfer_all \<longrightarrow> dsb_contents b' = []) \<and>
       (cc = transfer_at_least k \<longrightarrow> min k (length (dsb_contents b)) \<le> n) \<and>
       (cc = transfer_exactly k \<longrightarrow> n = min k (length (dsb_contents b))))"
proof -
  have W: "dynamic_source W dsb_inv dsb_contents"
    using assms(4) string_source.dynamic_source_axioms vector_source.dynamic_source_axioms by blast
  have "stops_at_errors cc" using assms(5) by auto
  from dynamic_source.write_source_consumes [OF W assms(3) socket_write_stream [OF assms(1,2)] this, of w]
  obtain n ec b' w' where r: "write_source W cc (socket_write_some N s st) b w = Some (n, ec, b', w')" "dsb_inv b'"
    "n \<le> length (dsb_contents b)" "dsb_contents b' = drop n (dsb_contents b)" "wire w' = wire w @ take n (dsb_contents b)"
    "\<not> ec_set ec \<longrightarrow> n = length (dsb_contents b) \<or> cc ec n = 0" "\<forall>K. (\<forall>e j. cc e j \<le> K - j) \<longrightarrow> n \<le> K" by blast
  have "n \<le> k" if "cc = transfer_exactly k" using r(7) that condition_ends(4) by blast
  then have "\<not> ec_set ec \<longrightarrow> (cc = transfer_all \<longrightarrow> n = length (dsb_contents b)) \<and>
       (cc = transfer_at_least k \<longrightarrow> min k (length (dsb_contents b)) \<le> n) \<and>
       (cc = transfer_exactly k \<longrightarrow> n = min k (length (dsb_contents b)))"
    using r(3,6) condition_ends(1-3) [of ec n] condition_ends(2,3) [of ec k n] by fastforce
  moreover have "wire w' @ dsb_contents b' = wire w @ dsb_contents b" using r(4,5) by simp
  ultimately show ?thesis using r(1-5) unfolding write_v2_ec_def by auto
qed

lemma until_sample_inv1: "dsb_inv until_sample"
  using until_sample_inv(1) by (simp add: dsb_inv2_def)

lemma dynamic_write_consumes_witness:
  "\<exists>n ec b' w'. write_v2_ec vector_source transfer_all (socket_write_some loop_net 7 stream_oriented)
      until_sample ([4], []) = Some (n, ec, b', w') \<and> fst w' @ dsb_contents b' = [4, 9]"
  using dynamic_write_consumes [OF loop_net_documented(1) stream_state until_sample_inv1,
      of vector_source transfer_all 0 "([4], [])", simplified until_sample_inv] by auto

end
