(* ===== verification/AsioTransferAsync.thy ===== *)
theory AsioTransferAsync
  imports AsioReadDynamic
begin

text \<open>
  \<open>async_read\<close> and \<open>async_write\<close> (impl/read.hpp, impl/write.hpp): the operations on buffer sequences,
  which resume when a part has been transferred, and those on dynamic buffers. With transfers that
  complete alike they do what the synchronous functions do.
\<close>

section \<open>Buffer sequences\<close>

text \<open>The members of \<open>read_op\<close> and \<open>write_op\<close>, and what a call of their \<open>operator()\<close> ends in.\<close>

record 'c transfer_op =
  t_buffers :: 'c
  t_start :: nat

datatype 'c transfer_step =
    Async_some "buf list" "'c transfer_op"
  | Transferred error_code nat "'c transfer_op"

definition check_for_completion :: "(error_code \<Rightarrow> nat \<Rightarrow> nat) \<Rightarrow> error_code \<Rightarrow> nat \<Rightarrow> nat" where
  "check_for_completion completion_condition ec total_transferred =
     adapt_completion_condition_result (completion_condition ec total_transferred)"

definition read_op ::
  "'c proxy \<Rightarrow> (error_code \<Rightarrow> nat \<Rightarrow> nat) \<Rightarrow> error_code \<Rightarrow> nat \<Rightarrow> nat \<Rightarrow> 'c transfer_op \<Rightarrow> 'c transfer_step" where
  "read_op P cc ec bytes_transferred start op =
     (let op = op\<lparr>t_start := start\<rparr> in
      if start = 1 then
        let max_size = check_for_completion cc ec (p_consumed P (t_buffers op))
        in Async_some (p_prepare P (t_buffers op) max_size) op
      else
        let op = op\<lparr>t_buffers := p_consume P (t_buffers op) bytes_transferred\<rparr> in
        if (\<not> ec_set ec \<and> bytes_transferred = 0) \<or> p_empty P (t_buffers op) then
          Transferred ec (p_consumed P (t_buffers op)) op
        else
          let max_size = check_for_completion cc ec (p_consumed P (t_buffers op)) in
          if max_size > 0 then Async_some (p_prepare P (t_buffers op) max_size) op
          else Transferred ec (p_consumed P (t_buffers op)) op)"

definition write_op ::
  "'c proxy \<Rightarrow> (error_code \<Rightarrow> nat \<Rightarrow> nat) \<Rightarrow> error_code \<Rightarrow> nat \<Rightarrow> nat \<Rightarrow> 'c transfer_op \<Rightarrow> 'c transfer_step" where
  "write_op P cc ec bytes_transferred start op =
     (let op = op\<lparr>t_start := start\<rparr> in
      if start = 1 then
        let max_size = check_for_completion cc ec (p_consumed P (t_buffers op))
        in Async_some (p_prepare P (t_buffers op) max_size) op
      else
        let op = op\<lparr>t_buffers := p_consume P (t_buffers op) bytes_transferred\<rparr> in
        if (\<not> ec_set ec \<and> bytes_transferred = 0) \<or> p_empty P (t_buffers op) then
          Transferred ec (p_consumed P (t_buffers op)) op
        else
          let max_size = check_for_completion cc ec (p_consumed P (t_buffers op)) in
          if max_size > 0 then Async_some (p_prepare P (t_buffers op) max_size) op
          else Transferred ec (p_consumed P (t_buffers op)) op)"

lemma write_op_read_op: "write_op = read_op"
  by (simp add: fun_eq_iff write_op_def read_op_def)

text \<open>The stream completes each transfer and calls the operation again.\<close>

partial_function (option) read_op_run ::
  "'c proxy \<Rightarrow> 'w read_some \<Rightarrow> (error_code \<Rightarrow> nat \<Rightarrow> nat) \<Rightarrow> mem \<Rightarrow> 'c transfer_step \<Rightarrow> 'w \<Rightarrow>
   (nat \<times> error_code \<times> mem \<times> 'w) option" where
  "read_op_run P read_some cc M s w =
     (case s of
        Transferred ec n op \<Rightarrow> Some (n, ec, M, w)
      | Async_some bufs op \<Rightarrow> Option.bind (read_some (buffer_size bufs) w) (\<lambda>(got, ec, w).
          read_op_run P read_some cc (store (addrs bufs) got M) (read_op P cc ec (length got) 0 op) w))"

partial_function (option) write_op_run ::
  "'c proxy \<Rightarrow> 'w write_some \<Rightarrow> (error_code \<Rightarrow> nat \<Rightarrow> nat) \<Rightarrow> mem \<Rightarrow> 'c transfer_step \<Rightarrow> 'w \<Rightarrow>
   (nat \<times> error_code \<times> 'w) option" where
  "write_op_run P write_some cc M s w =
     (case s of
        Transferred ec n op \<Rightarrow> Some (n, ec, w)
      | Async_some bufs op \<Rightarrow> Option.bind (write_some (map M (addrs bufs)) w) (\<lambda>(n, ec, w).
          write_op_run P write_some cc M (write_op P cc ec n 0 op) w))"

definition async_read where
  "async_read P read_some M buffers cc w =
     read_op_run P read_some cc M (read_op P cc no_error 0 1 \<lparr>t_buffers = buffers, t_start = 0\<rparr>) w"

definition async_write where
  "async_write P write_some M buffers cc w =
     write_op_run P write_some cc M (write_op P cc no_error 0 1 \<lparr>t_buffers = buffers, t_start = 0\<rparr>) w"

definition async_read_all where "async_read_all P read_some M buffers w = async_read P read_some M buffers transfer_all w"
definition async_write_all where "async_write_all P write_some M buffers w = async_write P write_some M buffers transfer_all w"

text \<open>
  A step of an operation that is not at its start, after a transfer that is not an empty one without
  an error: it does what the synchronous loop does at its head.
\<close>

definition loop_head :: "'c proxy \<Rightarrow> (error_code \<Rightarrow> nat \<Rightarrow> nat) \<Rightarrow> error_code \<Rightarrow> 'c transfer_op \<Rightarrow> 'c transfer_step" where
  "loop_head P cc ec op =
     (if p_empty P (t_buffers op) \<or> cc ec (p_consumed P (t_buffers op)) = 0
      then Transferred ec (p_consumed P (t_buffers op)) op
      else Async_some (p_prepare P (t_buffers op) (cc ec (p_consumed P (t_buffers op)))) op)"

lemma read_op_resumed:
  "ec_set ec \<or> n \<noteq> 0 \<Longrightarrow> read_op P cc ec n 0 op =
     loop_head P cc ec (op\<lparr>t_start := 0, t_buffers := p_consume P (t_buffers op) n\<rparr>)"
  by (auto simp: read_op_def loop_head_def check_for_completion_def adapt_completion_condition_result_def Let_def)

context transfer_proxy
begin

lemma prepare_le: "inv c \<Longrightarrow> buffer_size (p_prepare P c m) \<le> length (rest c)"
  using arg_cong [OF prepare [of c m], of length] by (metis length_addrs length_take min.cobounded1)

lemma prepare_none: "inv c \<Longrightarrow> rest c = [] \<or> m = 0 \<Longrightarrow> buffer_size (p_prepare P c m) = 0"
  using prepare [of c m] prepare_max [of c m] by (metis le_zero_eq length_0_conv length_addrs take_Nil)

lemma first_step:
  assumes "inv c"
  shows "read_op P cc no_error 0 1 \<lparr>t_buffers = c, t_start = 0\<rparr> =
      (let op = \<lparr>t_buffers = c, t_start = 1\<rparr> in
       if rest c = [] \<or> cc no_error (p_consumed P c) = 0 then Async_some (p_prepare P c (cc no_error (p_consumed P c))) op
       else loop_head P cc no_error op)"
  using empty [OF assms] by (simp add: read_op_def loop_head_def check_for_completion_def adapt_completion_condition_result_def Let_def)

end

context reader
begin

lemma read_op_run_head:
  assumes "inv c" and "stops_at_errors cc" and "t_buffers op = c"
  shows "read_op_run P read_some cc M (loop_head P cc ec op) w = read_loop P read_some cc M c ec w"
  using assms(1,3)
proof (induction "length (rest c) + (if ec_set ec then 0 else 1)" arbitrary: c ec w M op rule: less_induct)
  case less
  show ?case
  proof (cases "rest c = [] \<or> cc ec (p_consumed P c) = 0")
    case True
    then have "read_loop P read_some cc M c ec w = Some (p_consumed P c, ec, M, w)"
      using empty [OF less.prems(1)] by (subst read_loop.simps) (auto simp: adapt_completion_condition_result_def Let_def)
    then show ?thesis using True empty [OF less.prems(1)] less.prems(2)
      by (subst read_op_run.simps) (auto simp: loop_head_def)
  next
    case False
    let ?bufs = "p_prepare P c (cc ec (p_consumed P c))"
    have err: "\<not> ec_set ec" using False assms(2) by (auto simp: stops_at_errors_def)
    have pos: "0 < buffer_size ?bufs" using prepare_pos [OF less.prems(1)] False by auto
    from read_some [of "buffer_size ?bufs" w] obtain got ec1 w1 where
      rs: "read_some (buffer_size ?bufs) w = Some (got, ec1, w1)" "length got \<le> buffer_size ?bufs"
      "\<not> ec_set ec1 \<longrightarrow> 0 < buffer_size ?bufs \<longrightarrow> got \<noteq> []" by (elim exE conjE) (rule that)
    have "buffer_size ?bufs \<le> length (rest c)" by (rule prepare_le [OF less.prems(1)])
    with rs(2) have le: "length got \<le> length (rest c)" by simp
    note co = consume [OF less.prems(1) le]
    let ?M = "store (addrs ?bufs) got M"
    have step: "read_loop P read_some cc M c ec w = read_loop P read_some cc ?M (p_consume P c (length got)) ec1 w1"
      using False empty [OF less.prems(1)] rs(1)
      by (subst read_loop.simps) (simp add: adapt_completion_condition_result_def Let_def)
    have "loop_head P cc ec op = Async_some ?bufs op"
      using False empty [OF less.prems(1)] less.prems(2) by (simp add: loop_head_def)
    moreover have "ec_set ec1 \<or> length got \<noteq> 0" using rs(3) pos by auto
    ultimately have run: "read_op_run P read_some cc M (loop_head P cc ec op) w =
        read_op_run P read_some cc ?M (loop_head P cc ec1 (op\<lparr>t_start := 0, t_buffers := p_consume P c (length got)\<rparr>)) w1"
      using less.prems(2) by (subst read_op_run.simps) (simp add: rs(1) read_op_resumed)
    have "length (rest (p_consume P c (length got))) + (if ec_set ec1 then 0 else 1)
        < length (rest c) + (if ec_set ec then 0 else 1)"
      using co err rs(3) pos le by (cases got) auto
    from less.hyps [OF this conjunct1 [OF co], of "op\<lparr>t_start := 0, t_buffers := p_consume P c (length got)\<rparr>" ?M w1]
    show ?thesis unfolding run step by simp
  qed
qed

lemma async_read_read:
  assumes "inv c" and "stops_at_errors cc" and zero: "\<And>w. read_some 0 w = Some ([], no_error, w)"
  shows "async_read P read_some M c cc w = read_ec P read_some M c cc w"
proof (cases "rest c = [] \<or> cc no_error (p_consumed P c) = 0")
  case True
  let ?bufs = "p_prepare P c (cc no_error (p_consumed P c))"
  have "buffer_size ?bufs = 0" by (rule prepare_none [OF assms(1) True])
  then have z: "read_some (buffer_size ?bufs) w = Some ([], no_error, w)" by (simp add: zero)
  have co: "p_consumed P (p_consume P c 0) = p_consumed P c" using consume [OF assms(1), of 0] by simp
  have "async_read P read_some M c cc w = read_op_run P read_some cc M (Async_some ?bufs \<lparr>t_buffers = c, t_start = 1\<rparr>) w"
    using True first_step [OF assms(1), of cc] by (simp add: async_read_def)
  also have "\<dots> = Some (p_consumed P c, no_error, M, w)"
    by (subst read_op_run.simps, simp add: z, subst read_op_run.simps, simp add: read_op_def co)
  also have "\<dots> = read_ec P read_some M c cc w"
    using True empty [OF assms(1)] unfolding read_ec_def
    by (subst read_loop.simps) (auto simp: adapt_completion_condition_result_def Let_def)
  finally show ?thesis .
next
  case False
  then show ?thesis using first_step [OF assms(1), of cc] read_op_run_head [OF assms(1,2)]
    by (simp add: async_read_def read_ec_def Let_def)
qed

end

context writer
begin

lemma write_op_run_head:
  assumes "inv c" and "stops_at_errors cc" and "t_buffers op = c"
  shows "write_op_run P write_some cc M (loop_head P cc ec op) w = write_loop P write_some cc M c ec w"
  using assms(1,3)
proof (induction "length (rest c) + (if ec_set ec then 0 else 1)" arbitrary: c ec w op rule: less_induct)
  case less
  show ?case
  proof (cases "rest c = [] \<or> cc ec (p_consumed P c) = 0")
    case True
    then have "write_loop P write_some cc M c ec w = Some (p_consumed P c, ec, w)"
      using empty [OF less.prems(1)] by (subst write_loop.simps) (auto simp: adapt_completion_condition_result_def)
    then show ?thesis using True empty [OF less.prems(1)] less.prems(2)
      by (subst write_op_run.simps) (auto simp: loop_head_def)
  next
    case False
    let ?bufs = "p_prepare P c (cc ec (p_consumed P c))"
    let ?bs = "map M (addrs ?bufs)"
    have err: "\<not> ec_set ec" using False assms(2) by (auto simp: stops_at_errors_def)
    have pos: "0 < buffer_size ?bufs" using prepare_pos [OF less.prems(1)] False by auto
    from write_some [of ?bs w] obtain n ec1 w1 where
      ws: "write_some ?bs w = Some (n, ec1, w1)" "n \<le> buffer_size ?bufs" "\<not> ec_set ec1 \<longrightarrow> ?bs \<noteq> [] \<longrightarrow> 0 < n"
      by (elim exE conjE) (rule that, simp_all)
    have ne: "?bs \<noteq> []" using pos by (metis length_addrs length_map less_nat_zero_code list.size(3))
    have "buffer_size ?bufs \<le> length (rest c)" by (rule prepare_le [OF less.prems(1)])
    with ws(2) have le: "n \<le> length (rest c)" by simp
    note co = consume [OF less.prems(1) le]
    have step: "write_loop P write_some cc M c ec w = write_loop P write_some cc M (p_consume P c n) ec1 w1"
      using False empty [OF less.prems(1)] ws(1)
      by (subst write_loop.simps) (simp add: adapt_completion_condition_result_def)
    have "loop_head P cc ec op = Async_some ?bufs op"
      using False empty [OF less.prems(1)] less.prems(2) by (simp add: loop_head_def)
    moreover have "ec_set ec1 \<or> n \<noteq> 0" using ws(3) ne by auto
    ultimately have run: "write_op_run P write_some cc M (loop_head P cc ec op) w =
        write_op_run P write_some cc M (loop_head P cc ec1 (op\<lparr>t_start := 0, t_buffers := p_consume P c n\<rparr>)) w1"
      using less.prems(2) by (subst write_op_run.simps) (simp add: ws(1) write_op_read_op read_op_resumed)
    have "length (rest (p_consume P c n)) + (if ec_set ec1 then 0 else 1) < length (rest c) + (if ec_set ec then 0 else 1)"
      using co err ws(3) ne le by (cases n) auto
    from less.hyps [OF this conjunct1 [OF co], of "op\<lparr>t_start := 0, t_buffers := p_consume P c n\<rparr>" w1]
    show ?thesis unfolding run step by simp
  qed
qed

lemma async_write_write:
  assumes "inv c" and "stops_at_errors cc" and zero: "\<And>w. write_some [] w = Some (0, no_error, w)"
  shows "async_write P write_some M c cc w = write_ec P write_some M c cc w"
proof (cases "rest c = [] \<or> cc no_error (p_consumed P c) = 0")
  case True
  let ?bufs = "p_prepare P c (cc no_error (p_consumed P c))"
  have "buffer_size ?bufs = 0" by (rule prepare_none [OF assms(1) True])
  then have "addrs ?bufs = []" using prepare [OF assms(1), of "cc no_error (p_consumed P c)"] by simp
  then have z: "write_some (map M (addrs ?bufs)) w = Some (0, no_error, w)" by (simp add: zero)
  have co: "p_consumed P (p_consume P c 0) = p_consumed P c" using consume [OF assms(1), of 0] by simp
  have "async_write P write_some M c cc w = write_op_run P write_some cc M (Async_some ?bufs \<lparr>t_buffers = c, t_start = 1\<rparr>) w"
    using True first_step [OF assms(1), of cc] by (simp add: async_write_def write_op_read_op)
  also have "\<dots> = Some (p_consumed P c, no_error, w)"
    by (subst write_op_run.simps, simp add: z, subst write_op_run.simps, simp add: write_op_read_op read_op_def co)
  also have "\<dots> = write_ec P write_some M c cc w"
    using True empty [OF assms(1)] unfolding write_ec_def
    by (subst write_loop.simps) (auto simp: adapt_completion_condition_result_def)
  finally show ?thesis .
next
  case False
  then show ?thesis using first_step [OF assms(1), of cc] write_op_run_head [OF assms(1,2)]
    by (simp add: async_write_def write_ec_def write_op_read_op Let_def)
qed

end

section \<open>Dynamic buffers\<close>

text \<open>The members of \<open>read_dynbuf_v2_op\<close>; in version 1 \<open>bytes_available\<close> is a local variable.\<close>

record 'b dynbuf_op = "'b stream_op" +
  y_total_transferred :: nat
  y_bytes_available :: nat

definition dynbuf_issue :: "'b taking \<Rightarrow> 'b dynbuf_op \<Rightarrow> 'b dynbuf_op async_step" where
  "dynbuf_issue A op =
     (case a_issue A (y_bytes_available op) (u_buffers op) of
        (Inl e, b) \<Rightarrow> Throws e (op\<lparr>u_buffers := b\<rparr>)
      | (Inr u, b) \<Rightarrow> Async_read_some u (op\<lparr>u_buffers := b\<rparr>))"

definition read_dynbuf_op ::
  "('b, 'z) readable_scheme \<Rightarrow> 'b taking \<Rightarrow> (error_code \<Rightarrow> nat \<Rightarrow> nat) \<Rightarrow> error_code \<Rightarrow> nat \<Rightarrow> nat \<Rightarrow> 'b dynbuf_op \<Rightarrow>
   'b dynbuf_op async_step" where
  "read_dynbuf_op R A cc ec bytes_transferred start op =
     (let op = op\<lparr>u_start := start\<rparr> in
      if start = 1 then
        let max_size = check_for_completion cc ec (y_total_transferred op);
            op = op\<lparr>y_bytes_available := bytes_available R max_size (u_buffers op)\<rparr>
        in dynbuf_issue A op
      else
        let op = op\<lparr>y_total_transferred := y_total_transferred op + bytes_transferred\<rparr>;
            op = op\<lparr>u_buffers := a_settle A (y_bytes_available op) bytes_transferred (u_buffers op)\<rparr>;
            max_size = check_for_completion cc ec (y_total_transferred op);
            op = op\<lparr>y_bytes_available := bytes_available R max_size (u_buffers op)\<rparr>
        in if (\<not> ec_set ec \<and> bytes_transferred = 0) \<or> y_bytes_available op = 0 then Handler ec (y_total_transferred op) op
           else dynbuf_issue A op)"

definition read_dynbuf_v1_op where "read_dynbuf_v1_op D cc = read_dynbuf_op (readable_v1 D) (taking_v1 D) cc"
definition read_dynbuf_v2_op where "read_dynbuf_v2_op G cc = read_dynbuf_op (readable_v2 G) (taking_v2 G) cc"

definition dynbuf_op_new :: "'b \<Rightarrow> 'b dynbuf_op" where
  "dynbuf_op_new b = \<lparr>u_buffers = b, u_start = 0, y_total_transferred = 0, y_bytes_available = 0\<rparr>"

definition async_read_v1 where
  "async_read_v1 D cc read_some b w =
     stream_run (read_dynbuf_v1_op D cc) (d_write D) read_some (read_dynbuf_v1_op D cc no_error 0 1 (dynbuf_op_new b)) w"

definition async_read_v1_all where "async_read_v1_all D read_some b w = async_read_v1 D transfer_all read_some b w"
definition async_read_streambuf where "async_read_streambuf spare cc read_some b w = async_read_v1 (streambuf_v1 spare) cc read_some b w"
definition async_read_streambuf_all where "async_read_streambuf_all spare read_some b w = async_read_v1_all (streambuf_v1 spare) read_some b w"

definition async_read_v2 where
  "async_read_v2 G cc read_some b w =
     stream_run (read_dynbuf_v2_op G cc) (g_write G) read_some (read_dynbuf_v2_op G cc no_error 0 1 (dynbuf_op_new b)) w"

definition async_read_v2_all where "async_read_v2_all G read_some b w = async_read_v2 G transfer_all read_some b w"

text \<open>
  \<open>write_dynbuf_v1_op\<close> and \<open>write_dynbuf_v2_op\<close>: \<open>start = 1\<close> writes what the buffer holds, the completion
  of that consumes it.
\<close>

definition async_write_source ::
  "'b source \<Rightarrow> (error_code \<Rightarrow> nat \<Rightarrow> nat) \<Rightarrow> 'w write_some \<Rightarrow> 'b \<Rightarrow> 'w \<Rightarrow> (nat \<times> error_code \<times> 'b \<times> 'w) option" where
  "async_write_source W cc write_some b w =
     Option.bind (async_write single_proxy write_some (w_memory W b) (c1_new (w_data W b)) cc w) (\<lambda>(bytes_transferred, ec, w).
       Some (bytes_transferred, ec, w_consume W bytes_transferred b, w))"

definition async_write_v1 where "async_write_v1 W cc write_some b w = async_write_source W cc write_some b w"
definition async_write_v1_all where "async_write_v1_all W write_some b w = async_write_v1 W transfer_all write_some b w"
definition async_write_streambuf where "async_write_streambuf cc write_some b w = async_write_v1 streambuf_source cc write_some b w"
definition async_write_streambuf_all where "async_write_streambuf_all write_some b w = async_write_v1_all streambuf_source write_some b w"
definition async_write_v2 where "async_write_v2 W cc write_some b w = async_write_source W cc write_some b w"
definition async_write_v2_all where "async_write_v2_all W write_some b w = async_write_v2 W transfer_all write_some b w"

locale dynamic_async = taking_stream R inv A read_some input + dynamic_reader R inv read_some input
  for R :: "('b, 'w) reading" and inv and A and read_some :: "'w read_some" and input :: "'w \<Rightarrow> bytes"
begin

definition dynbuf_head :: "(error_code \<Rightarrow> nat \<Rightarrow> nat) \<Rightarrow> error_code \<Rightarrow> 'b dynbuf_op \<Rightarrow> 'b dynbuf_op async_step" where
  "dynbuf_head cc ec op =
     (let op = op\<lparr>y_bytes_available := bytes_available R (cc ec (y_total_transferred op)) (u_buffers op)\<rparr>
      in if y_bytes_available op = 0 then Handler ec (y_total_transferred op) op else dynbuf_issue A op)"

abbreviation "dynbuf_run cc s w \<equiv> stream_run (read_dynbuf_op R A cc) (a_write A) read_some s w"

lemma dynbuf_resumed:
  "ec_set ec \<or> n \<noteq> 0 \<Longrightarrow> read_dynbuf_op R A cc ec n 0 op =
     dynbuf_head cc ec (op\<lparr>u_start := 0, y_total_transferred := y_total_transferred op + n,
       u_buffers := a_settle A (y_bytes_available op) n (u_buffers op)\<rparr>)"
  by (auto simp: read_dynbuf_op_def dynbuf_head_def check_for_completion_def adapt_completion_condition_result_def Let_def)

lemma dynbuf_run_head:
  assumes "inv b" and "stops_at_errors cc" and "u_buffers op = b" and "y_total_transferred op = n0"
  shows "dynbuf_run cc (dynbuf_head cc ec op) w = dynamic_read_loop R cc read_some n0 ec b w"
  using assms(1,3,4)
proof (induction "r_max R b - r_size R b + (if ec_set ec then 0 else 1)" arbitrary: b ec w n0 op rule: less_induct)
  case less
  let ?n = "bytes_available R (cc ec n0) b" and ?op = "op\<lparr>y_bytes_available := bytes_available R (cc ec n0) b\<rparr>"
  note av = available [OF less.prems(1), of "cc ec n0"] and sz = sizes [OF less.prems(1)]
  show ?case
  proof (cases "?n = 0")
    case True
    then have "dynamic_read_loop R cc read_some n0 ec b w = Some (Inr (n0, ec), b, w)"
      by (subst dynamic_read_loop.simps) (simp add: adapt_completion_condition_result_def)
    then show ?thesis using True less.prems(2,3) by (simp add: dynbuf_head_def stream_run.simps)
  next
    case False
    then have err: "\<not> ec_set ec" using av(3) assms(2) by (auto simp: stops_at_errors_def)
    obtain u b1 got ec1 w1 b2 where t: "a_issue A ?n b = (Inr u, b1)" "buf_size u = ?n" "read_some ?n w = Some (got, ec1, w1)"
      "length got \<le> ?n" "input w = got @ input w1" "\<not> ec_set ec1 \<longrightarrow> 0 < ?n \<longrightarrow> got \<noteq> []"
      "b2 = a_settle A ?n (length got) (a_write A u got b1)"
      "r_more R ?n read_some b w = Some (Inr (length got, ec1), b2, w1)" "inv b2" "r_data R b2 = r_data R b @ got"
      "r_max R b2 = r_max R b" by (rule trip [OF less.prems(1) av(1)])
    have step: "dynamic_read_loop R cc read_some n0 ec b w = dynamic_read_loop R cc read_some (n0 + length got) ec1 b2 w1"
      using False t(8) by (subst dynamic_read_loop.simps) (simp add: adapt_completion_condition_result_def)
    let ?op2 = "?op\<lparr>u_start := 0, y_total_transferred := n0 + length got, u_buffers := b2\<rparr>"
    have "dynbuf_head cc ec op = Async_read_some u (?op\<lparr>u_buffers := b1\<rparr>)"
      using False less.prems(2,3) by (simp add: dynbuf_head_def dynbuf_issue_def t(1))
    moreover have "ec_set ec1 \<or> length got \<noteq> 0" using t(6) False by auto
    ultimately have run: "dynbuf_run cc (dynbuf_head cc ec op) w = dynbuf_run cc (dynbuf_head cc ec1 ?op2) w1"
      using less.prems(3) by (subst stream_run.simps) (simp add: t(2,3,7) dynbuf_resumed)
    have "r_max R b2 - r_size R b2 + (if ec_set ec1 then 0 else 1) < r_max R b - r_size R b + (if ec_set ec then 0 else 1)"
      using sizes [OF t(9)] sz t(10,11) err t(6) False av(3) by (cases got) auto
    from less.hyps [OF this t(9), of ?op2 "n0 + length got" w1] show ?thesis unfolding run step by simp
  qed
qed

lemma dynbuf_run_first:
  assumes "inv b" and "stops_at_errors cc" and zero: "\<And>w. read_some 0 w = Some ([], no_error, w)"
  shows "same_result inv (r_data R) (dynamic_read_loop R cc read_some 0 no_error b w)
    (dynbuf_run cc (read_dynbuf_op R A cc no_error 0 1 (dynbuf_op_new b)) w)"
proof -
  let ?n = "bytes_available R (cc no_error 0) b"
  let ?op = "\<lparr>u_buffers = b, u_start = 1, y_total_transferred = 0, y_bytes_available = ?n\<rparr>"
  have first: "read_dynbuf_op R A cc no_error 0 1 (dynbuf_op_new b) = dynbuf_issue A ?op"
    by (simp add: read_dynbuf_op_def dynbuf_op_new_def check_for_completion_def adapt_completion_condition_result_def)
  show ?thesis
  proof (cases "?n = 0")
    case False
    then have "read_dynbuf_op R A cc no_error 0 1 (dynbuf_op_new b) = dynbuf_head cc no_error ?op"
      unfolding first by (simp add: dynbuf_head_def)
    then have "dynbuf_run cc (read_dynbuf_op R A cc no_error 0 1 (dynbuf_op_new b)) w = dynamic_read_loop R cc read_some 0 no_error b w"
      using dynbuf_run_head [OF assms(1,2), of ?op 0] by simp
    moreover obtain n ec b' w' where "dynamic_read_loop R cc read_some 0 no_error b w = Some (Inr (n, ec), b', w')" "inv b'"
      using dynamic_read_transfers [OF assms(1,2), of 0 no_error w] by (elim exE conjE) (rule that)
    ultimately show ?thesis by (auto simp: same_result_def)
  next
    case True
    obtain u b1 got ec1 w1 b2 where t: "a_issue A 0 b = (Inr u, b1)" "buf_size u = 0" "read_some 0 w = Some (got, ec1, w1)"
      "length got \<le> 0" "input w = got @ input w1" "\<not> ec_set ec1 \<longrightarrow> 0 < (0 :: nat) \<longrightarrow> got \<noteq> []"
      "b2 = a_settle A 0 (length got) (a_write A u got b1)"
      "r_more R 0 read_some b w = Some (Inr (length got, ec1), b2, w1)" "inv b2" "r_data R b2 = r_data R b @ got"
      "r_max R b2 = r_max R b" by (rule trip [OF assms(1), of 0]) simp
    have z: "got = []" "ec1 = no_error" "w1 = w" using t(3) zero by auto
    have "dynbuf_run cc (dynbuf_issue A ?op) w = Some (Inr (0, no_error), b2, w)"
      using t(1,2,7) z True zero
      by (simp add: dynbuf_issue_def) (subst stream_run.simps, simp add: read_dynbuf_op_def Let_def stream_run.simps)
    moreover have "dynamic_read_loop R cc read_some 0 no_error b w = Some (Inr (0, no_error), b, w)"
      using True by (subst dynamic_read_loop.simps) (simp add: adapt_completion_condition_result_def)
    ultimately show ?thesis using first assms(1) t(9,10) z(1) by (simp add: same_result_def)
  qed
qed

end

interpretation streambuf_async: dynamic_async "reading_v1 (streambuf_v1 spare)" sb_inv "taking_v1 (streambuf_v1 spare)"
  "socket_read_some loop_net 7 stream_oriented" snd for spare
  by (intro dynamic_async.intro loop_streambuf_taking.taking_stream_axioms streambuf_reader.dynamic_reader_axioms)

section \<open>On a socket\<close>

lemma available_versions:
  "bytes_available (reading_v1 D) = bytes_available (readable_v1 D)"
  "bytes_available (reading_v2 G) = bytes_available (readable_v2 G)"
  by (simp_all add: fun_eq_iff bytes_available_def readable_v1_def readable_v2_def)

lemma read_dynbuf_versions:
  "read_dynbuf_op (reading_v1 D) A = read_dynbuf_op (readable_v1 D) A"
  "read_dynbuf_op (reading_v2 G) A = read_dynbuf_op (readable_v2 G) A"
  unfolding fun_eq_iff read_dynbuf_op_def available_versions by simp_all

lemma socket_empty_write:
  assumes "send_documented N s wire" and "has_state st stream_oriented"
  shows "socket_write_some N s st [] w = Some (0, no_error, w)"
  using assms by (auto simp: socket_write_some_def sync_send_def send_documented_def)

text \<open>
  C17: On a stream socket, \<open>async_read\<close> and \<open>async_write\<close> of a sequence of buffers with a completion
  condition of the library give their handlers exactly what \<open>read\<close> and \<open>write\<close> return when each part
  completes alike: the number of bytes, the error, the memory and the rest of the input, although they
  start with a transfer of no bytes where the synchronous functions do not call the socket.
\<close>

theorem async_transfers_same:
  assumes "send_documented N s wire" and "recv_documented N s input" and "has_state st stream_oriented"
    and "cc = transfer_all \<or> cc = transfer_at_least k \<or> cc = transfer_exactly k"
  shows "async_read seq_proxy (socket_read_some N s st) M (c_new bs) cc w = read_ec seq_proxy (socket_read_some N s st) M (c_new bs) cc w \<and>
    async_write seq_proxy (socket_write_some N s st) M (c_new bs) cc w = write_ec seq_proxy (socket_write_some N s st) M (c_new bs) cc w"
proof -
  have cc: "stops_at_errors cc" using assms(4) by auto
  have r: "reader seq_proxy c_inv c_rest (socket_read_some N s st) input"
    and w: "writer seq_proxy c_inv c_rest (socket_write_some N s st) wire"
    using socket_read_stream [OF assms(2,3)] socket_write_stream [OF assms(1,3)] seq.transfer_proxy_axioms
    by (simp_all add: reader_def writer_def)
  show ?thesis
    by (intro conjI reader.async_read_read [OF r c_inv_new cc] writer.async_write_write [OF w c_inv_new cc]
        socket_zero_read [OF assms(2,3)] socket_empty_write [OF assms(1,3)])
qed

lemma async_transfers_same_witness:
  "async_read seq_proxy (socket_read_some loop_net 7 stream_oriented) sample_mem (c_new sample_bufs) (transfer_exactly 3) ([], [1, 2, 3, 4]) =
   read_ec seq_proxy (socket_read_some loop_net 7 stream_oriented) sample_mem (c_new sample_bufs) (transfer_exactly 3) ([], [1, 2, 3, 4])"
  using async_transfers_same [OF loop_net_documented stream_state] by blast

text \<open>
  The same for buffers over strings and vectors: \<open>async_read\<close> gives its handler the number and the
  error that \<open>read\<close> returns and leaves the same contents, and \<open>async_write\<close> is \<open>write\<close>.
\<close>

theorem async_dynamic_same:
  assumes "send_documented N s wire" and "recv_documented N s input" and "has_state st stream_oriented" and "dsb_inv2 b"
    and "(G, W) \<in> {(string_v2 spare, string_source), (vector_v2 spare, vector_source)}"
    and "cc = transfer_all \<or> cc = transfer_at_least k \<or> cc = transfer_exactly k"
  shows "(\<exists>n ec ec' b1 b2 w'. read_v2_ec G cc (socket_read_some N s st) b w = Some (Inr (n, ec), b1, w') \<and>
      async_read_v2 G cc (socket_read_some N s st) b w = Some (Inr (n, ec'), b2, w') \<and> dsb_contents b1 = dsb_contents b2 \<and>
      (ec = ec' \<or> \<not> ec_set ec \<and> \<not> ec_set ec')) \<and>
    async_write_v2 W cc (socket_write_some N s st) b w = write_v2_ec W cc (socket_write_some N s st) b w"
proof -
  let ?R = "reading_v2 G :: (dyn, 'a) reading"
  have cc: "stops_at_errors cc" using assms(6) by auto
  note rs = socket_read_stream [OF assms(2,3)]
  have G: "taking_buffer ?R dsb_inv2 (taking_v2 G)" "\<And>b. dsb_inv2 b \<Longrightarrow> r_data ?R b = dsb_contents b"
    using assms(5) string2.taking2 vector2.taking2 dynamic_data(1,2) by auto
  have "dynamic_async ?R dsb_inv2 (taking_v2 G) (socket_read_some N s st) input"
    by (intro dynamic_async.intro taking_stream.intro dynamic_reader.intro G(1) taking_buffer.axioms(1) [OF G(1)] rs)
  from dynamic_async.dynbuf_run_first [OF this assms(4) cc socket_zero_read [OF assms(2,3)], of w]
  obtain n ec ec' b1 b2 w' where r: "read_v2_ec G cc (socket_read_some N s st) b w = Some (Inr (n, ec), b1, w')"
    "async_read_v2 G cc (socket_read_some N s st) b w = Some (Inr (n, ec'), b2, w')" "dsb_inv2 b1" "dsb_inv2 b2"
    "r_data ?R b1 = r_data ?R b2" "ec = ec' \<or> \<not> ec_set ec \<and> \<not> ec_set ec'"
    by (auto simp: same_result_def read_v2_ec_def async_read_v2_def read_dynbuf_v2_op_def read_dynbuf_versions taking_v2_def)
  have contents: "dsb_contents b1 = dsb_contents b2" using r(5) by (simp only: G(2) [OF r(3)] G(2) [OF r(4)])
  have "writer single_proxy (\<lambda>_. True) c1_rest (socket_write_some N s st) wire"
    by (intro writer.intro single.transfer_proxy_axioms socket_write_stream assms(1,3))
  from writer.async_write_write [OF this TrueI cc socket_empty_write [OF assms(1,3)]]
  have "async_write_v2 W cc (socket_write_some N s st) b w = write_v2_ec W cc (socket_write_some N s st) b w"
    by (simp add: async_write_v2_def write_v2_ec_def async_write_source_def write_source_def)
  then show ?thesis using r(1,2,6) contents by blast
qed

lemma async_dynamic_same_witness:
  "\<exists>n ec ec' b1 b2 w'. read_v2_ec (vector_v2 (\<lambda>c n. n)) (transfer_at_least 3) (socket_read_some loop_net 7 stream_oriented)
      until_sample ([], [1, 2, 3, 4]) = Some (Inr (n, ec), b1, w') \<and>
    async_read_v2 (vector_v2 (\<lambda>c n. n)) (transfer_at_least 3) (socket_read_some loop_net 7 stream_oriented)
      until_sample ([], [1, 2, 3, 4]) = Some (Inr (n, ec'), b2, w')"
proof -
  have "(vector_v2 (\<lambda>c n. n), vector_source) \<in> {(string_v2 (\<lambda>c n. n), string_source), (vector_v2 (\<lambda>c n. n), vector_source)}" by simp
  from async_dynamic_same [OF loop_net_documented stream_state until_sample_inv(1) this, of "transfer_at_least 3" 3]
  show ?thesis by blast
qed

end
