(* ===== verification/Spec2Isabelle.thy ===== *)
theory Spec2Isabelle
  imports ServerLife AsioNetwork AsioReactorQueue AsioIocpSteps EchoServer AsioUntilAsync AsioTransferAsync
begin

text \<open>
  A model of the chat client and server under src/Client, src/Server and src/Common, of the echo
  server under src/ServerAsio, and of the parts of the networking library it carries with it
  (src/ServerAsio/include/asio, called ASIO below) that hold logic of their own. All definitions are
  translated from the sources for the Win32 build: sizes and handles are 32-bit, the machine is
  little-endian, \<open>ASIO_WINDOWS_RUNTIME\<close> is not set.

  \<^bold>\<open>Conventions.\<close> \<open>Prelude\<close> holds what everything shares: byte strings, the 32-bit layout, and the
  result type \<open>run\<close>, where \<open>Fault\<close> is undefined behaviour or the end of the program, \<open>Out_Of_Fuel\<close>
  a loop that was cut off. Code that is not in the repository is a parameter: the WinSock calls are
  the record \<open>winsock\<close> (theory \<open>Winsock\<close>) and, for ASIO, \<open>net\<close> (\<open>AsioSockets\<close>) and \<open>wsa\<close>
  (\<open>AsioAddress\<close>); the other threads are functions on the state (\<open>around\<close> in \<open>ServerTypes\<close>) that
  run where the code lets them run. What is assumed of a system call is a named predicate such as
  \<open>send_documented\<close>, with an instance that satisfies it. Exceptions are values of a sum. Integers
  keep their width where the code depends on it; the sizes of containers are natural numbers.

  \<^bold>\<open>Client and common code.\<close>
  \<^item> \<open>ErrorCodes\<close>, \<open>Console\<close>: Common/Error.h, Constraints.h, Log.h, Log.cpp. The console is the list
    of what was written to it.
  \<^item> \<open>Packets\<close>: Common/Packet.h and Packet.cpp, byte by byte, with the protocol structures. A read or
    write outside the packet's vector is a fault. Round trip of the constructors, every case of
    \<open>writeData\<close> and \<open>readData\<close>, distinct packet numbers.
  \<^item> \<open>Sockets\<close>: Common/Socket.h and Socket.cpp, with the invariant of the stream count.
  \<^item> \<open>ClientTypes\<close>, \<open>ClientHandler\<close>, \<open>ClientCore\<close>, \<open>ClientMain\<close>: Client.h, Handler.cpp, Client.cpp and
    main.cpp of the client; every operation, the two worker threads and the dialogue.
  \<^item> \<open>ClientProps\<close>, \<open>ClientWorkers\<close>: what authorisation transmits, why start-up cannot succeed, what
    the receiver accepts, what the sender sends, what disconnecting leaves.

  \<^bold>\<open>Server.\<close>
  \<^item> \<open>ConnTypes\<close>, \<open>ConnClient\<close>, \<open>ConnThreads\<close>: ConnectedClient.h and ConnectedClient.cpp. \<open>ConnProps\<close>
    and \<open>ConnLife\<close>: which messages are read out of bounds, what counts as an acknowledgement, the
    steps of the threads that share a client and the invariant that lets it be destroyed.
  \<^item> \<open>ServerTypes\<close>, \<open>ServerCore\<close>, \<open>ServerCleaner\<close>, \<open>ServerMain\<close>: Server.h, Server.cpp, Cleaner.h,
    Cleaner.cpp and main.cpp of the server. The client pool is an ordered association list, the mutex
    a flag whose second locking is a fault.
  \<^item> \<open>PoolProps\<close>, \<open>SendProps\<close>, \<open>CleanerProps\<close>, \<open>ServerProps\<close>, \<open>ServerLife\<close>: traversal and look-up,
    the commands \<open>send\<close> and \<open>send_all\<close>, the cleaner, start-up and shut-down, and the pool of the whole
    program.

  \<^bold>\<open>ASIO and the echo server.\<close>
  \<^item> \<open>AsioBase\<close>: error codes, exceptions, byte order.
  \<^item> \<open>AsioAddress\<close>, \<open>AsioNetwork\<close>: ip/address_v4, its iterator and range, ip/network_v4 and the text
    conversions of detail/impl/socket_ops.ipp. Networks are related to the sets of their addresses.
  \<^item> \<open>AsioOpQueue\<close>: detail/op_queue.hpp, a linked list over a store, which implements a list (locale
    \<open>fifo\<close>, interpreted on it).
  \<^item> \<open>AsioHashMap\<close>, \<open>AsioHashProps\<close>, \<open>AsioHashOps\<close>: detail/hash_map.hpp, list nodes with addresses in
    \<open>values_\<close> and \<open>spares_\<close>, buckets as pairs of iterators; invariant, rehashing, and each operation
    on the finite map it implements (locale \<open>finite_map\<close>).
  \<^item> \<open>AsioReactorQueue\<close>: detail/reactor_op_queue.hpp, which implements a map from descriptors to
    nonempty lists of operations (\<open>rq_rep\<close>).
  \<^item> \<open>AsioChrono\<close>: detail/chrono_time_traits.hpp, wait_traits.hpp; 64-bit arithmetic with overflow
    as \<open>None\<close>.
  \<^item> \<open>AsioTimerQueue\<close>, \<open>AsioTimerHeap\<close>, \<open>AsioTimers\<close>, \<open>AsioTimerProps\<close>: detail/timer_queue.hpp, a heap,
    a doubly linked list and a queue per timer; it refines a finite map from timers to times and
    operations (\<open>tq_rep\<close>). \<open>AsioTimerSet\<close>: detail/timer_queue_set.hpp, the list of timer queues, with
    what it needs of a queue as the locale \<open>timer_source\<close>.
  \<^item> \<open>AsioIocp\<close>: detail/win_iocp_io_context.hpp and its implementation files, the event loop of the
    Windows build. \<open>AsioIocpRun\<close>: one thread in \<open>run\<close>, against a reference that completes operations
    in order. \<open>AsioIocpOps\<close>, \<open>AsioIocpLife\<close>: the operations that wait in the loop (\<open>holds\<close>), and that no
    function loses one or leaves it in two places; \<open>shutdown\<close>. \<open>AsioIocpSteps\<close>: all threads as a
    step relation (\<open>iocp_step\<close>), with the invariant over its reachable states.
  \<^item> \<open>AsioBuffers\<close>, \<open>AsioTransfer\<close>: buffer.hpp, detail/consuming_buffers.hpp, completion_condition.hpp,
    impl/write.hpp, impl/read.hpp. The loops rest on the locales \<open>transfer_proxy\<close> (interpreted on the
    three proxies of the code), \<open>write_stream\<close> and \<open>read_stream\<close>.
  \<^item> \<open>AsioDynamic\<close>, \<open>AsioStreambuf\<close>: the dynamic buffers of buffer.hpp and basic_streambuf.hpp. The two
    versions of their interface are the locales \<open>dynamic_v1\<close> and \<open>dynamic_v2\<close>, interpreted on the classes.
  \<^item> \<open>AsioReadUntil\<close>, \<open>AsioUntil\<close>, \<open>AsioUntilAsync\<close>: impl/read_until.hpp. \<open>delimiter\<close> is what the loops
    rely on of a search (a character, a string, a match condition), \<open>read_buffer\<close> what they rely on of
    a buffer of either version; the reference is the end of the first match (\<open>first_end\<close>).
  \<^item> \<open>AsioReadDynamic\<close>, \<open>AsioAsync\<close>, \<open>AsioTransferAsync\<close>: reading into and writing from dynamic buffers, and
    the asynchronous operations of impl/read.hpp, impl/write.hpp and impl/read_until.hpp. An operation
    is resumed by a driver that completes what it has started (\<open>stream_run\<close>, \<open>read_op_run\<close>,
    \<open>write_op_run\<close>); each is compared with its synchronous counterpart.
  \<^item> \<open>AsioSockets\<close>, \<open>AsioEcho\<close>, \<open>EchoServer\<close>: the synchronous operations of detail/impl/socket_ops.ipp,
    a stream socket over them, and src/ServerAsio/main.cpp: sessions as state machines, the program as
    their interleaving with new connections (\<open>echo_step\<close>).

  \<^bold>\<open>Loops.\<close> Loops over data are structural or have a measure. Loops that wait for a peer, a thread or
  the operator take \<open>fuel\<close> in the client and server, where the statements hold for any fuel or say how
  much is enough (the client makes five attempts to connect, so a little more than that),
  and are \<open>partial_function\<close>s in the ASIO part, where returning is proved: of the
  transfers, of \<open>read_until\<close>, of an echo session, of the loops of the timer queue and of the hash map, and of
  \<open>run\<close> and \<open>shutdown\<close>.

  \<^bold>\<open>Not modelled.\<close> The rest of ASIO: the asynchronous operations of sockets, executors and strands,
  and the event loops of other systems, which the programs do not use; the searches for regular
  expressions, which need Boost.Regex; resolvers, IPv6, datagrams, local and serial
  endpoints, TLS; configuration headers. The set-up of the echo server's listening socket and the
  failure of starting a thread. Data races on the queues that the client's threads share without a
  lock: a step of a thread is one operation. The precompiled headers hold only includes.
\<close>

end
